(* ===== verification/Prelude.thy ===== *)
theory Prelude
  imports Main "HOL-Library.Multiset" "HOL-Library.Monad_Syntax" "HOL-Library.Sublist"
begin

text \<open>
  Shared vocabulary of the development: C++ vectors indexed by an \<open>int\<close> (with the
  out-of-range access made visible as \<open>None\<close>), \<open>resize\<close>, 32-bit integer ranges, and
  the generic lemmas on lists and multisets the component theories use.
\<close>

section \<open>Collections of facts\<close>

named_theorems vector_simps \<open>facts on vector reads, writes and resizes\<close>
named_theorems frame_simps \<open>which fields an operation leaves alone\<close>

section \<open>C++ vectors\<close>

text \<open>
  \<open>v[i]\<close> on a \<open>std::vector\<close> is undefined behaviour when \<open>i\<close> is out of range; the model
  returns \<open>None\<close> there, so that a theorem that an operation returns \<open>Some\<close> is a memory
  safety theorem.
\<close>

definition vget :: "'a list \<Rightarrow> int \<Rightarrow> 'a option" where
  "vget xs i = (if 0 \<le> i \<and> nat i < length xs then Some (xs ! nat i) else None)"

definition vset :: "'a list \<Rightarrow> int \<Rightarrow> 'a \<Rightarrow> 'a list option" where
  "vset xs i v = (if 0 \<le> i \<and> nat i < length xs then Some (xs[nat i := v]) else None)"

text \<open>\<open>v[i]++\<close>\<close>

definition vincr :: "int list \<Rightarrow> int \<Rightarrow> int list option" where
  "vincr xs i = do { x \<leftarrow> vget xs i; vset xs i (x + 1) }"

text \<open>\<open>v.resize(n, d)\<close>: truncates or pads with \<open>d\<close>.\<close>

definition vresize :: "nat \<Rightarrow> 'a \<Rightarrow> 'a list \<Rightarrow> 'a list" where
  "vresize n d xs = take n xs @ replicate (n - length xs) d"

lemma vget_Some_iff [vector_simps]:
  "vget xs i = Some x \<longleftrightarrow> 0 \<le> i \<and> nat i < length xs \<and> x = xs ! nat i"
  by (auto simp: vget_def)

lemma vset_Some_iff [vector_simps]:
  "vset xs i v = Some ys \<longleftrightarrow> 0 \<le> i \<and> nat i < length xs \<and> ys = xs[nat i := v]"
  by (auto simp: vset_def)

lemma vincr_Some_iff [vector_simps]:
  "vincr xs i = Some ys \<longleftrightarrow>
     0 \<le> i \<and> nat i < length xs \<and> ys = xs[nat i := xs ! nat i + 1]"
  by (auto simp: vincr_def vget_def vset_def Option.bind_eq_Some_conv)

lemma vincr_eq:
  "0 \<le> i \<Longrightarrow> nat i < length xs \<Longrightarrow> vincr xs i = Some (xs[nat i := xs ! nat i + 1])"
  by (simp add: vincr_Some_iff)

lemma length_vincr: "vincr xs i = Some ys \<Longrightarrow> length ys = length xs"
  by (auto simp: vincr_Some_iff)

lemma length_vresize [simp]: "length (vresize n d xs) = n"
  by (simp add: vresize_def)

lemma vresize_same [simp]: "length xs = n \<Longrightarrow> vresize n d xs = xs"
  by (simp add: vresize_def)

lemma nth_vresize: "i < n \<Longrightarrow> vresize n d xs ! i = (if i < length xs then xs ! i else d)"
  by (auto simp: vresize_def nth_append)

section \<open>Machine integers\<close>

text \<open>The range of the C++ \<open>int\<close> of the platforms the build files target.\<close>

definition int32 :: "int \<Rightarrow> bool" where
  "int32 i \<longleftrightarrow> - (2 ^ 31) \<le> i \<and> i < 2 ^ 31"

section \<open>Sets\<close>

lemma remove_remove_commute: "A - {x} - {y} = A - {y} - {x}"
  by blast

section \<open>Lists and multisets\<close>

lemma mset_take_drop: "mset (take n xs) + mset (drop n xs) = mset xs"
  by (metis append_take_drop_id mset_append)

lemma take_append_drop_mono:
  "n \<le> length xs \<Longrightarrow> take n (take n xs @ ys) = take n xs"
  by simp

lemma drop_append_take: "n \<le> length xs \<Longrightarrow> drop n (take n xs @ ys) = ys"
  by simp

text \<open>A run of pairwise commuting steps can be entered from either end.\<close>

lemma fold_commute_past:
  assumes "\<And>y s. y \<in> set ys \<Longrightarrow> f x (f y s) = f y (f x s)"
  shows "fold f ys (f x s) = f x (fold f ys s)"
  using assms
proof (induction ys arbitrary: s)
  case Nil
  then show ?case by simp
next
  case (Cons y ys)
  have swap: "f y (f x s) = f x (f y s)" using Cons.prems [of y s] by simp
  have "fold f ys (f x (f y s)) = f x (fold f ys (f y s))"
    by (rule Cons.IH) (simp add: Cons.prems)
  then show ?case by (simp add: swap)
qed

text \<open>
  Two orders of the same elements give the same result when both respect a precedence and
  the elements it leaves unordered commute.
\<close>

lemma fold_ordered_permutations:
  assumes "sorted_wrt (\<lambda>x y. \<not> before y x) xs" and "sorted_wrt (\<lambda>x y. \<not> before y x) ys"
    and "mset xs = mset ys"
    and "\<And>c d s. c \<in> set xs \<Longrightarrow> d \<in> set xs \<Longrightarrow> c \<noteq> d \<Longrightarrow> \<not> before c d \<Longrightarrow> \<not> before d c \<Longrightarrow>
      f c (f d s) = f d (f c s)"
  shows "fold f xs s = fold f ys s"
  using assms
proof (induction xs arbitrary: ys s)
  case Nil
  then show ?case by simp
next
  case (Cons x xs)
  then have "x \<in> set ys" by (metis list.set_intros(1) mset_eq_setD)
  then obtain ps qs where ys: "ys = ps @ x # qs" by (meson split_list)
  have same: "mset xs = mset (ps @ qs)" using Cons.prems(3) ys by simp
  have past: "f x (f y t) = f y (f x t)" if "y \<in> set ps" for y t
  proof -
    have "\<not> before x y" using Cons.prems(2) that ys by (auto simp: sorted_wrt_append)
    moreover have y: "y \<in> set xs" using same that by (metis Un_iff mset_eq_setD set_append)
    then have "\<not> before y x" using Cons.prems(1) by simp
    ultimately show ?thesis using Cons.prems(4) [of x y] y by (cases "x = y") auto
  qed
  have "sorted_wrt (\<lambda>x y. \<not> before y x) (ps @ qs)"
    using Cons.prems(2) ys by (simp add: sorted_wrt_append)
  with Cons.prems(1,4) same have "fold f xs (f x s) = fold f (ps @ qs) (f x s)"
    by (intro Cons.IH) simp_all
  also have "\<dots> = fold f ys s"
    using past by (simp add: ys fold_commute_past)
  finally show ?case by simp
qed

lemma filter_unique_key:
  "distinct (map f xs) \<Longrightarrow> i < length xs \<Longrightarrow> f (xs ! i) = k \<Longrightarrow> filter (\<lambda>x. f x = k) xs = [xs ! i]"
proof (induction xs arbitrary: i)
  case Nil
  then show ?case by simp
next
  case (Cons x xs)
  show ?case
  proof (cases i)
    case 0
    then have "k \<notin> f ` set xs" using Cons.prems by simp
    then have "filter (\<lambda>y. f y = k) xs = []" by (auto simp: filter_empty_conv)
    then show ?thesis using 0 Cons.prems by simp
  next
    case (Suc j)
    then have "f (xs ! j) = k" "j < length xs" using Cons.prems by simp_all
    moreover from this have "k \<in> f ` set xs" by (metis image_eqI nth_mem)
    moreover have "f x \<notin> f ` set xs" using Cons.prems(1) by simp
    ultimately have "f x \<noteq> k" "f (xs ! j) = k" "j < length xs" by metis+
    then show ?thesis using Cons Suc by simp
  qed
qed

text \<open>Swapping a value into a hole keeps the contents.\<close>

lemma mset_move_hole:
  assumes "i < length xs" and "j < length xs"
  shows "mset ((xs[i := xs ! j])[j := v]) = mset (xs[i := v])"
proof (cases "i = j")
  case True
  then show ?thesis by simp
next
  case False
  have "(xs[i := v])[i := (xs[i := v]) ! j, j := (xs[i := v]) ! i] = (xs[i := xs ! j])[j := v]"
    using assms False by simp
  moreover have "mset ((xs[i := v])[i := (xs[i := v]) ! j, j := (xs[i := v]) ! i])
      = mset (xs[i := v])"
    using assms by (intro mset_swap) simp_all
  ultimately show ?thesis by simp
qed

end
