(* ===== verification/Replicated_Object.thy ===== *)
theory Replicated_Object
  imports Prelude
begin

text \<open>
  The data of \<^verbatim>\<open>wellcoordination/benchmark/replicated-object.hpp\<close>: the \<open>Call\<close> object
  every protocol exchanges and the use cases interpret.
\<close>

section \<open>Calls\<close>

text \<open>
  \<open>class Call\<close>. The method name is a \<open>std::string\<close>; the four operands, the issuing node
  (1-based), the per-node call number and the vector clock are \<open>int\<close>s, kept as
  unbounded \<open>int\<close>s here (the codec theory restricts them to 32 bits).
\<close>

record call =
  ctype :: string
  value1 :: int
  value2 :: int
  value3 :: int
  value4 :: int
  node_id :: int
  call_id :: int
  stable :: bool
  call_vector_clock :: "int list"
  applied :: bool

text \<open>The default constructor: 31 zero entries in the clock.\<close>

definition Call_default :: call where
  "Call_default = \<lparr>ctype = '''', value1 = 0, value2 = 0, value3 = 0, value4 = 0,
     node_id = 0, call_id = 0, stable = False, call_vector_clock = replicate 31 0,
     applied = False\<rparr>"

text \<open>The parameterised constructor, with every default argument explicit.\<close>

definition Call_new ::
  "string \<Rightarrow> int \<Rightarrow> int \<Rightarrow> int \<Rightarrow> int \<Rightarrow> int \<Rightarrow> int \<Rightarrow> bool \<Rightarrow> bool \<Rightarrow> call" where
  "Call_new t v1 v2 v3 v4 n_id c_id s p =
     \<lparr>ctype = t, value1 = v1, value2 = v2, value3 = v3, value4 = v4,
      node_id = n_id, call_id = c_id, stable = s, call_vector_clock = replicate 31 0,
      applied = p\<rparr>"

end
