(* ===== verification/Vector_Clock.thy ===== *)
theory Vector_Clock
  imports Replicated_Object
begin

text \<open>
  Vector clock comparison: \<open>compareVectorClocks\<close>, which every use-case class of the
  Hamsou protocol carries in a textually identical copy (the map names the copy of
  \<^verbatim>\<open>set.hpp\<close>), and the two tests \<open>happenedBefore\<close> and \<open>concurrent\<close> of the ECRO handler.
  The lemmas relate both to the pointwise order on clocks.
\<close>

section \<open>compareVectorClocks\<close>

text \<open>
  The first loop looks for an entry of \<open>vc1\<close> above \<open>vc2\<close>, the second for one below it;
  both leave with \<open>-1\<close> (\<open>None\<close> here) when \<open>vc2\<close> is too short.
\<close>

fun vc_above_scan :: "int list \<Rightarrow> int list \<Rightarrow> bool \<Rightarrow> bool option" where
  "vc_above_scan [] ys flag = Some flag"
| "vc_above_scan (x # xs) [] flag = None"
| "vc_above_scan (x # xs) (y # ys) flag = vc_above_scan xs ys (if y < x then True else flag)"

fun vc_below_scan :: "int list \<Rightarrow> int list \<Rightarrow> bool \<Rightarrow> bool option" where
  "vc_below_scan [] ys flag = Some flag"
| "vc_below_scan (x # xs) [] flag = None"
| "vc_below_scan (x # xs) (y # ys) flag = vc_below_scan xs ys (if x < y then False else flag)"

text \<open>0: before or equal; 1: concurrent; 2: causally after; -1: index out of bounds.\<close>

definition compareVectorClocks :: "int list \<Rightarrow> int list \<Rightarrow> int" where
  "compareVectorClocks vc1 vc2 =
     (case vc_above_scan vc1 vc2 False of
        None \<Rightarrow> - 1
      | Some False \<Rightarrow> 0
      | Some True \<Rightarrow>
          (case vc_below_scan vc1 vc2 True of
             None \<Rightarrow> - 1
           | Some True \<Rightarrow> 2
           | Some False \<Rightarrow> 1))"

section \<open>The pointwise order\<close>

definition vc_le :: "int list \<Rightarrow> int list \<Rightarrow> bool" where
  "vc_le v w \<longleftrightarrow> list_all2 (\<le>) v w"

lemma vc_le_refl [simp]: "vc_le v v"
  by (simp add: vc_le_def list.rel_refl)

lemma vc_le_trans: "vc_le u v \<Longrightarrow> vc_le v w \<Longrightarrow> vc_le u w"
  unfolding vc_le_def by (rule list_all2_trans [where ?P1.0 = "(\<le>)"]) auto

lemma vc_le_antisym: "vc_le v w \<Longrightarrow> vc_le w v \<Longrightarrow> v = w"
  unfolding vc_le_def by (rule list_all2_antisym [of "(\<le>)" "(\<le>)"]) auto

lemma vc_le_length: "vc_le v w \<Longrightarrow> length v = length w"
  by (simp add: vc_le_def list_all2_lengthD)

lemma vc_above_scan_eq:
  "length v = length w \<Longrightarrow> vc_above_scan v w b = Some (b \<or> \<not> vc_le v w)"
  by (induction v w b rule: vc_above_scan.induct) (auto simp: vc_le_def)

lemma vc_below_scan_eq:
  "length v = length w \<Longrightarrow> vc_below_scan v w b = Some (b \<and> vc_le w v)"
  by (induction v w b rule: vc_below_scan.induct) (auto simp: vc_le_def)

lemma vc_above_scan_None_iff: "vc_above_scan v w b = None \<longleftrightarrow> length w < length v"
  by (induction v w b rule: vc_above_scan.induct) auto

lemma vc_below_scan_None_iff: "vc_below_scan v w b = None \<longleftrightarrow> length w < length v"
  by (induction v w b rule: vc_below_scan.induct) auto

lemma compareVectorClocks_eq:
  assumes "length v = length w"
  shows "compareVectorClocks v w = (if vc_le v w then 0 else if vc_le w v then 2 else 1)"
  using assms
  by (simp add: compareVectorClocks_def vc_above_scan_eq vc_below_scan_eq)

lemma compareVectorClocks_self [simp]: "compareVectorClocks v v = 0"
  by (simp add: compareVectorClocks_eq)

lemma compare_2_iff:
  "length v = length w \<Longrightarrow> compareVectorClocks v w = 2 \<longleftrightarrow> vc_le w v \<and> v \<noteq> w"
  by (auto simp: compareVectorClocks_eq dest: vc_le_antisym)

section \<open>The ECRO tests\<close>

text \<open>
  \<open>happenedBefore\<close> and \<open>concurrent\<close> of \<^verbatim>\<open>protocol-ecros.cpp\<close> read entries \<open>0\<close> to
  \<open>number_of_nodes - 1\<close> of both clocks. The first returns at the first entry of \<open>a\<close> above
  \<open>b\<close>. A read past the end of a clock is \<open>None\<close>.
\<close>

fun hb_scan :: "nat \<Rightarrow> int list \<Rightarrow> int list \<Rightarrow> bool \<Rightarrow> bool option" where
  "hb_scan 0 va vb strictlyLess = Some strictlyLess"
| "hb_scan (Suc n) (a # va) (b # vb) strictlyLess =
     (if b < a then Some False
      else hb_scan n va vb (if a < b then True else strictlyLess))"
| "hb_scan (Suc n) va vb strictlyLess = None"

definition happenedBefore :: "nat \<Rightarrow> call \<Rightarrow> call \<Rightarrow> bool option" where
  "happenedBefore number_of_nodes a b =
     hb_scan number_of_nodes (call_vector_clock a) (call_vector_clock b) False"

fun concurrent_scan :: "nat \<Rightarrow> int list \<Rightarrow> int list \<Rightarrow> bool \<Rightarrow> bool \<Rightarrow> bool option" where
  "concurrent_scan 0 va vb aLessThanB bLessThanA = Some (aLessThanB \<and> bLessThanA)"
| "concurrent_scan (Suc n) (a # va) (b # vb) aLessThanB bLessThanA =
     (if a < b then concurrent_scan n va vb True bLessThanA
      else if b < a then concurrent_scan n va vb aLessThanB True
      else concurrent_scan n va vb aLessThanB bLessThanA)"
| "concurrent_scan (Suc n) va vb aLessThanB bLessThanA = None"

definition concurrent :: "nat \<Rightarrow> call \<Rightarrow> call \<Rightarrow> bool option" where
  "concurrent number_of_nodes a b =
     concurrent_scan number_of_nodes (call_vector_clock a) (call_vector_clock b) False False"

lemma hb_scan_eq:
  "length v = n \<Longrightarrow> length w = n \<Longrightarrow>
     hb_scan n v w b = Some (vc_le v w \<and> (b \<or> v \<noteq> w))"
  by (induction n v w b rule: hb_scan.induct) (auto simp: vc_le_def)

lemma concurrent_scan_eq:
  "length v = n \<Longrightarrow> length w = n \<Longrightarrow>
     concurrent_scan n v w b c = Some ((b \<or> \<not> vc_le w v) \<and> (c \<or> \<not> vc_le v w))"
  by (induction n v w b c rule: concurrent_scan.induct) (auto simp: vc_le_def)

end
