(* ===== verification/Use_Case.thy ===== *)
theory Use_Case
  imports Vector_Clock
begin

text \<open>
  What the Hamsou handler needs of the use-case class it is compiled with (\<open>obj\<close>, chosen by
  the macros of \<^verbatim>\<open>tcp/config.hpp\<close>): the record \<open>usecase\<close> holds the methods the handler
  calls, and the locales state the contracts under which the protocol orders conflicting
  calls and replicas converge.
\<close>

section \<open>The methods of a use-case class\<close>

record 'st usecase =
  initial_state :: 'st
  locallyPermissibility :: "'st \<Rightarrow> 'st \<Rightarrow> call \<Rightarrow> bool"
  fastisreachablelocal :: "call \<Rightarrow> call \<Rightarrow> bool"
  fastisreachableremote :: "call \<Rightarrow> call \<Rightarrow> bool"
  updateCurrentState :: "call \<Rightarrow> 'st \<Rightarrow> 'st"
  updateStableState :: "call \<Rightarrow> 'st \<Rightarrow> 'st"

text \<open>
  \<open>checkValidcall\<close> is not part of the record: in all classes but one it forgets to return
  its result, so it is modelled per class with an \<open>option\<close> result.
\<close>

section \<open>Insertion before the first conflicting call\<close>

text \<open>
  The loop of \<open>remoteHandler\<close> that looks for the first call of the unstable suffix that the
  new call must precede, and the insertion at that place.
\<close>

fun insert_scan :: "(call \<Rightarrow> call \<Rightarrow> bool) \<Rightarrow> call \<Rightarrow> call list \<Rightarrow> call list" where
  "insert_scan reach c [] = [c]"
| "insert_scan reach c (x # xs) =
     (if reach c x then c # x # xs else x # insert_scan reach c xs)"

lemma mset_insert_scan [simp]: "mset (insert_scan reach c xs) = add_mset c (mset xs)"
  by (induction xs) auto

lemma set_insert_scan [simp]: "set (insert_scan reach c xs) = insert c (set xs)"
  by (induction xs) auto

lemma length_insert_scan [simp]: "length (insert_scan reach c xs) = Suc (length xs)"
  by (induction xs) auto

text \<open>The new call lands before every call it must precede.\<close>

lemma insert_scan_split:
  "\<exists>ps qs. xs = ps @ qs \<and> insert_scan reach c xs = ps @ c # qs \<and>
     (\<forall>x \<in> set ps. \<not> reach c x) \<and> (\<forall>q qs'. qs = q # qs' \<longrightarrow> reach c q)"
proof (induction xs)
  case Nil
  then show ?case by simp
next
  case (Cons x xs)
  show ?case
  proof (cases "reach c x")
    case True
    then show ?thesis by (intro exI [of _ "[]"] exI [of _ "x # xs"]) simp
  next
    case False
    from Cons.IH obtain ps qs where IH: "xs = ps @ qs" "insert_scan reach c xs = ps @ c # qs"
      "\<forall>x \<in> set ps. \<not> reach c x" "\<forall>q qs'. qs = q # qs' \<longrightarrow> reach c q" by blast
    then show ?thesis using False
      by (intro exI [of _ "x # ps"] exI [of _ qs]) simp
  qed
qed

section \<open>Ordering conflicting calls\<close>

text \<open>
  An execution list is conflict ordered when no call stands after one it must precede.
\<close>

definition conflict_ordered :: "'st usecase \<Rightarrow> call list \<Rightarrow> bool" where
  "conflict_ordered uc xs \<longleftrightarrow> sorted_wrt (\<lambda>x y. \<not> fastisreachableremote uc y x) xs"

lemma conflict_ordered_Nil [simp]: "conflict_ordered uc []"
  by (simp add: conflict_ordered_def)

lemma conflict_ordered_Cons:
  "conflict_ordered uc (x # xs) \<longleftrightarrow>
     (\<forall>y \<in> set xs. \<not> fastisreachableremote uc y x) \<and> conflict_ordered uc xs"
  by (simp add: conflict_ordered_def)

lemma conflict_ordered_append:
  "conflict_ordered uc (xs @ ys) \<longleftrightarrow>
     conflict_ordered uc xs \<and> conflict_ordered uc ys \<and>
     (\<forall>x \<in> set xs. \<forall>y \<in> set ys. \<not> fastisreachableremote uc y x)"
  by (auto simp: conflict_ordered_def sorted_wrt_append)

lemma conflict_ordered_drop: "conflict_ordered uc xs \<Longrightarrow> conflict_ordered uc (drop n xs)"
  by (metis append_take_drop_id conflict_ordered_append)

lemma conflict_ordered_filter: "conflict_ordered uc xs \<Longrightarrow> conflict_ordered uc (filter P xs)"
  by (simp add: conflict_ordered_def sorted_wrt_filter)

text \<open>
  The contract under which the handler's single insertion keeps the list ordered: whatever
  the remote test orders, the local test refuses (whatever the clock of the call is, since
  the local test runs before the clock is set), and a call that must precede another is
  itself preceded by nothing.
\<close>

locale conflict_resolution =
  fixes uc :: "'st usecase"
  assumes remote_local:
      "fastisreachableremote uc (c\<lparr>call_vector_clock := v\<rparr>) d \<Longrightarrow> fastisreachablelocal uc c d"
    and two_level:
      "fastisreachableremote uc c d \<Longrightarrow> \<not> fastisreachableremote uc b c"
begin

lemma insert_scan_ordered:
  "conflict_ordered uc xs \<Longrightarrow>
     conflict_ordered uc (insert_scan (fastisreachableremote uc) c xs)"
  by (induction xs) (auto simp: conflict_ordered_Cons dest: two_level)

lemma append_ordered:
  assumes "conflict_ordered uc xs" and "\<forall>x \<in> set xs. \<not> fastisreachablelocal uc c x"
  shows "conflict_ordered uc (xs @ [c\<lparr>call_vector_clock := v\<rparr>])"
  using assms remote_local by (auto simp: conflict_ordered_append conflict_ordered_Cons)

end

text \<open>Calls of which any two that the remote test does not order commute on the stable state.\<close>

definition commuting_calls :: "'st usecase \<Rightarrow> call set \<Rightarrow> bool" where
  "commuting_calls uc cs \<longleftrightarrow> (\<forall>c \<in> cs. \<forall>d \<in> cs. \<forall>s.
     \<not> fastisreachableremote uc c d \<longrightarrow> \<not> fastisreachableremote uc d c \<longrightarrow>
     updateStableState uc c (updateStableState uc d s)
       = updateStableState uc d (updateStableState uc c s))"

text \<open>
  The contract of convergence: two calls that neither test orders commute on the stable
  state. It gives the equality of the states two replicas reach from ordered executions of
  the same calls.
\<close>

locale commuting_updates = conflict_resolution +
  assumes commute:
    "\<not> fastisreachableremote uc c d \<Longrightarrow> \<not> fastisreachableremote uc d c \<Longrightarrow>
       updateStableState uc c (updateStableState uc d s)
         = updateStableState uc d (updateStableState uc c s)"
begin

lemma commuting_all: "commuting_calls uc cs"
  unfolding commuting_calls_def using commute by blast

lemma ordered_permutations_agree:
  assumes "conflict_ordered uc xs" and "conflict_ordered uc ys" and "mset xs = mset ys"
  shows "fold (updateStableState uc) xs s = fold (updateStableState uc) ys s"
  using assms unfolding conflict_ordered_def by (rule fold_ordered_permutations) (rule commute)

end

end
