(* ===== verification/Heap_Queue.thy ===== *)
theory Heap_Queue
  imports Prelude
begin

text \<open>
  The \<open>std::priority_queue\<close> of \<^verbatim>\<open>protocol-hamsou.cpp\<close>: a binary heap in a vector, with the
  hole-moving \<open>push_heap\<close> and \<open>pop_heap\<close> of the standard library the build uses
  (libstdc++). The handler's comparator is not a strict weak order, so nothing is assumed
  of it: the only law the handler relies on is that the queue neither loses nor
  duplicates elements, which is the interface locale below.
\<close>

section \<open>The heap algorithms\<close>

text \<open>\<open>__push_heap\<close>: parents that compare below the value move down into the hole.\<close>

function push_hole :: "('a \<Rightarrow> 'a \<Rightarrow> bool) \<Rightarrow> 'a list \<Rightarrow> nat \<Rightarrow> nat \<Rightarrow> 'a \<Rightarrow> 'a list" where
  "push_hole lt xs hole topIndex v =
     (let parent = (hole - 1) div 2 in
      if topIndex < hole \<and> lt (xs ! parent) v
      then push_hole lt (xs[hole := xs ! parent]) parent topIndex v
      else xs[hole := v])"
  by pat_completeness auto
termination
  by (relation "measure (\<lambda>(lt, xs, hole, topIndex, v). hole)") auto

text \<open>The descent of \<open>__adjust_heap\<close>: the hole moves to the larger child.\<close>

function sift_hole :: "('a \<Rightarrow> 'a \<Rightarrow> bool) \<Rightarrow> 'a list \<Rightarrow> nat \<Rightarrow> nat \<Rightarrow> 'a list \<times> nat" where
  "sift_hole lt xs hole len =
     (if hole < (len - 1) div 2
      then let right = 2 * (hole + 1);
               child = (if lt (xs ! right) (xs ! (right - 1)) then right - 1 else right)
           in sift_hole lt (xs[hole := xs ! child]) child len
      else (xs, hole))"
  by pat_completeness auto
termination
  by (relation "measure (\<lambda>(lt, xs, hole, len). len - hole)") (auto simp: Let_def)

definition adjust_heap :: "('a \<Rightarrow> 'a \<Rightarrow> bool) \<Rightarrow> 'a list \<Rightarrow> nat \<Rightarrow> 'a \<Rightarrow> 'a list" where
  "adjust_heap lt xs len v =
     (case sift_hole lt xs 0 len of
        (ys, hole) \<Rightarrow>
          if even len \<and> hole = (len - 2) div 2
          then (let child = 2 * (hole + 1) - 1
                in push_hole lt (ys[hole := ys ! child]) child 0 v)
          else push_hole lt ys hole 0 v)"

definition pq_push :: "('a \<Rightarrow> 'a \<Rightarrow> bool) \<Rightarrow> 'a \<Rightarrow> 'a list \<Rightarrow> 'a list" where
  "pq_push lt v xs = push_hole lt (xs @ [v]) (length xs) 0 v"

definition pq_pop :: "('a \<Rightarrow> 'a \<Rightarrow> bool) \<Rightarrow> 'a list \<Rightarrow> 'a list" where
  "pq_pop lt xs =
     (if 1 < length xs then adjust_heap lt (butlast xs) (length xs - 1) (last xs)
      else butlast xs)"

declare push_hole.simps [simp del] sift_hole.simps [simp del]

section \<open>No element is lost or duplicated\<close>

lemma length_push_hole: "length (push_hole lt xs hole topIndex v) = length xs"
proof (induction lt xs hole topIndex v rule: push_hole.induct)
  case (1 lt xs hole topIndex v)
  then show ?case by (subst push_hole.simps) (simp add: Let_def)
qed

lemma mset_push_hole:
  "hole < length xs \<Longrightarrow> mset (push_hole lt xs hole topIndex v) = mset (xs[hole := v])"
proof (induction lt xs hole topIndex v rule: push_hole.induct)
  case (1 lt xs hole topIndex v)
  let ?p = "(hole - 1) div 2"
  have p: "?p < length xs" using "1.prems" by simp
  show ?case
  proof (cases "topIndex < hole \<and> lt (xs ! ?p) v")
    case True
    then have "push_hole lt xs hole topIndex v = push_hole lt (xs[hole := xs ! ?p]) ?p topIndex v"
      by (subst push_hole.simps) (simp add: Let_def)
    also have "mset \<dots> = mset ((xs[hole := xs ! ?p])[?p := v])"
      using "1.IH" True p by simp
    also have "\<dots> = mset (xs[hole := v])"
      using "1.prems" p by (rule mset_move_hole)
    finally show ?thesis .
  next
    case False
    then show ?thesis by (subst push_hole.simps) (auto simp: Let_def)
  qed
qed

lemma sift_hole_spec:
  assumes "hole < length xs" and "length xs = len" and "sift_hole lt xs hole len = (ys, h)"
  shows "length ys = len \<and> h < len \<and> (len - 1) div 2 \<le> h \<and> mset (ys[h := v]) = mset (xs[hole := v])"
  using assms
proof (induction lt xs hole len arbitrary: ys h rule: sift_hole.induct)
  case (1 lt xs hole len)
  show ?case
  proof (cases "hole < (len - 1) div 2")
    case True
    define right where "right = 2 * (hole + 1)"
    define child where "child = (if lt (xs ! right) (xs ! (right - 1)) then right - 1 else right)"
    have child: "child < length xs" "child < len"
      using True "1.prems" by (auto simp: child_def right_def)
    have "sift_hole lt xs hole len = sift_hole lt (xs[hole := xs ! child]) child len"
      by (subst sift_hole.simps) (simp only: True if_True Let_def child_def right_def)
    with "1.prems"(3) have "sift_hole lt (xs[hole := xs ! child]) child len = (ys, h)"
      by simp
    then have "length ys = len \<and> h < len \<and> (len - 1) div 2 \<le> h
        \<and> mset (ys[h := v]) = mset ((xs[hole := xs ! child])[child := v])"
      using True "1.prems" child
      by (intro "1.IH" [OF True right_def child_def]) simp_all
    then show ?thesis using mset_move_hole [OF "1.prems"(1) child(1), of v] by simp
  next
    case False
    then have "ys = xs \<and> h = hole"
      using "1.prems"(3) by (subst (asm) sift_hole.simps) simp
    then show ?thesis using False "1.prems" by simp
  qed
qed

lemma mset_adjust_heap:
  assumes "0 < length xs" and "length xs = len"
  shows "mset (adjust_heap lt xs len v) = mset (xs[0 := v])"
proof -
  obtain ys h where sift: "sift_hole lt xs 0 len = (ys, h)" by fastforce
  note spec = sift_hole_spec [OF assms sift, of v]
  show ?thesis
  proof (cases "even len \<and> h = (len - 2) div 2")
    case True
    let ?c = "2 * (h + 1) - 1"
    have "0 < len" using assms by simp
    with True have "2 * (h + 1) = len" by presburger
    then have c: "?c < length ys" using spec \<open>0 < len\<close> by simp
    have "mset (adjust_heap lt xs len v) = mset ((ys[h := ys ! ?c])[?c := v])"
      using True sift c by (simp add: adjust_heap_def mset_push_hole Let_def)
    then show ?thesis using spec c by (simp add: mset_move_hole)
  next
    case False
    then show ?thesis using sift spec by (auto simp: adjust_heap_def mset_push_hole)
  qed
qed

lemma mset_pq_push: "mset (pq_push lt v xs) = add_mset v (mset xs)"
  by (simp add: pq_push_def mset_push_hole)

lemma mset_pq_pop:
  assumes "xs \<noteq> []"
  shows "add_mset (hd xs) (mset (pq_pop lt xs)) = mset xs"
proof (cases "1 < length xs")
  case True
  then obtain a b zs where xs: "xs = a # b # zs"
    by (cases xs rule: remdups_adj.cases) auto
  obtain ys y where ys: "b # zs = ys @ [y]" by (metis rev_exhaust list.distinct(1))
  have "mset (pq_pop lt xs) = mset ((butlast xs)[0 := last xs])"
    using True by (simp add: pq_pop_def mset_adjust_heap)
  moreover have "butlast xs = a # ys" and "last xs = y"
    using xs ys by (simp_all add: butlast_append)
  moreover have "mset xs = add_mset a (add_mset y (mset ys))"
    using xs ys by (metis mset.simps(2) mset_append add_mset_add_single union_commute
        add_mset_commute mset_single_iff_right)
  ultimately show ?thesis using xs by simp
next
  case False
  with assms obtain a where "xs = [a]" by (cases xs) auto
  then show ?thesis by (simp add: pq_pop_def)
qed

section \<open>The queue interface\<close>

text \<open>What the protocol handler relies on.\<close>

locale call_queue =
  fixes push :: "'a \<Rightarrow> 'a list \<Rightarrow> 'a list"
    and pop :: "'a list \<Rightarrow> 'a list"
  assumes mset_push: "mset (push v q) = add_mset v (mset q)"
    and mset_pop: "q \<noteq> [] \<Longrightarrow> add_mset (hd q) (mset (pop q)) = mset q"
begin

lemma set_push: "set (push v q) = insert v (set q)"
  by (metis mset_push set_mset_mset set_mset_add_mset_insert)

lemma length_push: "length (push v q) = Suc (length q)"
  by (metis mset_push size_mset size_add_mset)

lemma set_pop: "q \<noteq> [] \<Longrightarrow> set q = insert (hd q) (set (pop q))"
  by (metis mset_pop set_mset_mset set_mset_add_mset_insert)

lemma set_pop_subset: "q \<noteq> [] \<Longrightarrow> set (pop q) \<subseteq> set q"
  using set_pop by blast

lemma length_pop: "q \<noteq> [] \<Longrightarrow> Suc (length (pop q)) = length q"
  by (metis mset_pop size_mset size_add_mset)

end

interpretation pq: call_queue "pq_push lt" "pq_pop lt" for lt
  by unfold_locales (simp_all add: mset_pq_push mset_pq_pop)

end
