(* ===== verification/Hamsou_Handler.thy ===== *)
theory Hamsou_Handler
  imports Use_Case Heap_Queue "HOL-Library.Signed_Division"
begin

text \<open>
  The \<open>Handler\<close> of \<^verbatim>\<open>protocol-hamsou.cpp\<close> (compiled without \<open>CRDT\<close>): its state and one
  definition per operation. An operation returns \<open>None\<close> where the code would index a
  vector out of range or step an iterator past the end, both undefined behaviour in C++.
  Printing, mutexes and wall-clock reads have no counterpart, the current time is an argument.
\<close>

section \<open>State\<close>

text \<open>
  The fields of \<open>Handler\<close> and of the use-case object \<open>obj\<close> it owns. \<open>acks\<close> is the
  table \<open>acks[node][call]\<close> with \<open>acks_rows\<close> rows of 350000 columns, read as a function
  and bounds-checked by \<open>acks_get\<close>. \<open>remote_verctor_clocks\<close> and \<open>test\<close> are write-only in
  the code: the first is left out, the second is kept.
\<close>

record 'st handler =
  executionList :: "call list"
  hnode_id :: int
  number_of_nodes :: nat
  expected_calls :: int
  write_percentage :: int
  vector_clock :: "int list"
  last_call_stable :: bool
  acks :: "int \<Rightarrow> int \<Rightarrow> int"
  acks_rows :: nat
  failed :: "bool list"
  last_heartbeat_time :: "nat list"
  node_failed :: "bool list"
  test_counter :: int
  priorityQueue :: "call list"
  current_state :: 'st
  current_index :: nat
  stable_state :: 'st
  stable_index :: nat
  send_ack :: bool
  send_ack_call :: call
  send_ack_call_list :: "call list"
  waittobestable :: int
  ackindex :: int

definition acks_columns :: int where
  "acks_columns = 350000"

text \<open>A freshly constructed handler: empty containers, the use case's initial states.\<close>

definition Handler_new :: "'st usecase \<Rightarrow> 'st handler" where
  "Handler_new uc = \<lparr>executionList = [], hnode_id = 0, number_of_nodes = 0,
     expected_calls = 0, write_percentage = 0, vector_clock = [], last_call_stable = False,
     acks = (\<lambda>_ _. 0), acks_rows = 0, failed = replicate 64 False,
     last_heartbeat_time = [], node_failed = [], test_counter = 0, priorityQueue = [],
     current_state = initial_state uc, current_index = 0,
     stable_state = initial_state uc, stable_index = 0,
     send_ack = False, send_ack_call = Call_default, send_ack_call_list = [],
     waittobestable = 0, ackindex = 0\<rparr>"

definition setVars ::
  "int \<Rightarrow> nat \<Rightarrow> int \<Rightarrow> int \<Rightarrow> nat \<Rightarrow> 'st handler \<Rightarrow> 'st handler" where
  "setVars my_id num_nodes expected wp now h =
     h\<lparr>write_percentage := wp,
       last_call_stable := False,
       expected_calls := expected,
       hnode_id := my_id,
       number_of_nodes := num_nodes,
       vector_clock := vresize num_nodes 0 (vector_clock h),
       acks_rows := num_nodes,
       test_counter := 0,
       last_heartbeat_time := vresize num_nodes now (last_heartbeat_time h),
       node_failed := replicate num_nodes False\<rparr>"

text \<open>\<open>failed[id - 1] = true\<close> on the fixed array of 64.\<close>

definition setfailurenode :: "int \<Rightarrow> 'st handler \<Rightarrow> 'st handler option" where
  "setfailurenode dead_id h = do {
     f \<leftarrow> vset (failed h) (dead_id - 1) True;
     Some (h\<lparr>failed := f\<rparr>) }"

text \<open>\<open>acks[c.node_id - 1][c.call_id]\<close>\<close>

definition acks_get :: "'st handler \<Rightarrow> call \<Rightarrow> int option" where
  "acks_get h c =
     (if 1 \<le> node_id c \<and> node_id c \<le> int (acks_rows h) \<and> 0 \<le> call_id c \<and> call_id c < acks_columns
      then Some (acks h (node_id c) (call_id c)) else None)"

section \<open>Invoking a call locally\<close>

text \<open>
  The conflict scan of \<open>localHandler\<close>: \<open>True\<close> if no unstable call is ordered after the
  new one.
\<close>

fun local_scan :: "(call \<Rightarrow> call \<Rightarrow> bool) \<Rightarrow> call \<Rightarrow> call list \<Rightarrow> bool" where
  "local_scan reach c [] = True"
| "local_scan reach c (x # xs) = (if reach c x then False else local_scan reach c xs)"

text \<open>
  The loop that copies the node's clock into the call, with its early return when the
  clock is shorter than the number of nodes (\<open>False\<close>); \<open>r\<close> iterations are left.
\<close>

primrec copy_clock_loop :: "nat \<Rightarrow> nat \<Rightarrow> int list \<Rightarrow> call \<Rightarrow> call \<times> bool" where
  "copy_clock_loop 0 n vc c = (c, True)"
| "copy_clock_loop (Suc r) n vc c =
     (let i = n - Suc r in
      if length vc \<le> i then (c, False)
      else copy_clock_loop r n vc
             (c\<lparr>call_vector_clock := (vresize n 0 (call_vector_clock c))[i := vc ! i]\<rparr>))"

definition copy_clock :: "nat \<Rightarrow> int list \<Rightarrow> call \<Rightarrow> call \<times> bool" where
  "copy_clock n vc c = copy_clock_loop n n vc c"

text \<open>
  Returns the new handler, the call (passed by reference), and the three out-parameters
  \<open>flag\<close>, \<open>permiss\<close> and \<open>stableindex\<close>.
\<close>

definition localHandler ::
  "'st usecase \<Rightarrow> call \<Rightarrow> 'st handler \<Rightarrow> ('st handler \<times> call \<times> bool \<times> bool \<times> nat) option" where
  "localHandler uc c h =
     (if locallyPermissibility uc (current_state h) (stable_state h) c
      then (if local_scan (fastisreachablelocal uc) c (drop (stable_index h) (executionList h))
            then do {
              vc \<leftarrow> vincr (vector_clock h) (hnode_id h - 1);
              let h1 = h\<lparr>vector_clock := vc\<rparr>;
              Some (case copy_clock (number_of_nodes h) vc c of
                 (c1, False) \<Rightarrow> (h1, c1, True, True, stable_index h)
               | (c1, True) \<Rightarrow>
                   (h1\<lparr>executionList := executionList h @ [c1],
                       current_state := updateCurrentState uc c1 (current_state h),
                       current_index := current_index h + 1\<rparr>,
                    c1, True, True, stable_index h)) }
            else Some (h, c, False, True, stable_index h))
      else Some (h, c, False, False, stable_index h))"

section \<open>Delivering a remote call\<close>

text \<open>The comparator of the priority queue.\<close>

definition queue_less :: "call \<Rightarrow> call \<Rightarrow> bool" where
  "queue_less a b \<longleftrightarrow> compareVectorClocks (call_vector_clock a) (call_vector_clock b) > 0"

text \<open>
  \<open>queueHandler\<close>: must the call wait? Every iteration of the first loop compares with
  \<open>top()\<close>, so it is one test; the second loop looks for an unstable call the new one both
  precedes and causally follows.
\<close>

definition queueHandler ::
  "'st usecase \<Rightarrow> bool \<Rightarrow> call \<Rightarrow> 'st handler \<Rightarrow> 'st handler \<times> bool" where
  "queueHandler uc addorRemove c h =
     (let enqueued = (if addorRemove
                      then h\<lparr>priorityQueue := pq_push queue_less c (priorityQueue h)\<rparr> else h)
      in if priorityQueue h \<noteq> [] \<and>
            compareVectorClocks (call_vector_clock c)
              (call_vector_clock (hd (priorityQueue h))) = 2
         then (enqueued, True)
         else if list_ex (\<lambda>x. fastisreachableremote uc c x \<and>
                   compareVectorClocks (call_vector_clock c) (call_vector_clock x) = 2)
                 (drop (stable_index h) (executionList h))
         then (enqueued, True)
         else (h, False))"

text \<open>The insertion of a remote call, shared by \<open>remoteHandler\<close> and \<open>markNodeFailed\<close>.\<close>

definition insert_remote :: "'st usecase \<Rightarrow> call \<Rightarrow> 'st handler \<Rightarrow> 'st handler option" where
  "insert_remote uc c h =
     (if stable_index h \<le> length (executionList h)
      then do {
        let l = take (stable_index h) (executionList h)
                @ insert_scan (fastisreachableremote uc) c
                    (drop (stable_index h) (executionList h));
        vc \<leftarrow> vincr (vector_clock h) (node_id c - 1);
        Some (h\<lparr>executionList := l,
                current_index := current_index h + 1,
                current_state := updateCurrentState uc c (current_state h),
                vector_clock := vc\<rparr>) }
      else None)"

text \<open>Queueing the acknowledgement the main loop will broadcast.\<close>

definition queue_ack :: "call \<Rightarrow> 'st handler \<Rightarrow> 'st handler" where
  "queue_ack c h =
     (let a = (send_ack_call h)\<lparr>ctype := ''Ack'', node_id := node_id c, call_id := call_id c,
                                value1 := value1 c\<rparr>
      in h\<lparr>send_ack := True,
           send_ack_call := a,
           send_ack_call_list := send_ack_call_list h @ [a],
           ackindex := ackindex h + 1\<rparr>)"

definition remoteHandler ::
  "'st usecase \<Rightarrow> bool \<Rightarrow> call \<Rightarrow> 'st handler \<Rightarrow> ('st handler \<times> bool) option" where
  "remoteHandler uc addorRemove c h =
     (case queueHandler uc addorRemove c h of
        (h1, True) \<Rightarrow> Some (h1, False)
      | (h1, False) \<Rightarrow> do {
          h2 \<leftarrow> insert_remote uc c h1;
          Some (queue_ack c h2, True) })"

lemma insert_remote_queue:
  "insert_remote uc c h = Some h' \<Longrightarrow> priorityQueue h' = priorityQueue h"
  by (auto simp: insert_remote_def Let_def Option.bind_eq_Some_conv split: if_splits)

lemma queue_ack_queue [frame_simps]: "priorityQueue (queue_ack c h) = priorityQueue h"
  by (simp add: queue_ack_def Let_def)

lemma remoteHandler_retry_queue:
  "remoteHandler uc False c h = Some (h', r) \<Longrightarrow> priorityQueue h' = priorityQueue h"
  by (auto simp: remoteHandler_def queueHandler_def Let_def queue_ack_queue
      Option.bind_eq_Some_conv dest: insert_remote_queue split: if_splits prod.splits bool.splits)

text \<open>
  The loop that retries the queued calls, top first, until one still has to wait. It
  stops because every round that continues pops one call.
\<close>

function drain_queue :: "'st usecase \<Rightarrow> 'st handler \<Rightarrow> 'st handler option" where
  "drain_queue uc h =
     (case priorityQueue h of
        [] \<Rightarrow> Some h
      | c # _ \<Rightarrow> do {
          (h1, remove_flag) \<leftarrow> remoteHandler uc False c h;
          (if remove_flag
           then drain_queue uc (h1\<lparr>priorityQueue := pq_pop queue_less (priorityQueue h1)\<rparr>)
           else Some h1) })"
  by pat_completeness auto
termination
proof (relation "measure (\<lambda>(uc, h). length (priorityQueue h))", goal_cases)
  case 1
  show ?case by simp
next
  case (2 uc h c cs x h1 r)
  then have "priorityQueue h1 = c # cs"
    using remoteHandler_retry_queue by fastforce
  then show ?case using 2 pq.length_pop [of "c # cs" queue_less] by simp
qed

declare drain_queue.simps [simp del]

definition internalDownstreamExecute ::
  "'st usecase \<Rightarrow> call \<Rightarrow> 'st handler \<Rightarrow> 'st handler option" where
  "internalDownstreamExecute uc c h = do {
     (h1, _) \<leftarrow> remoteHandler uc True c h;
     drain_queue uc h1 }"

section \<open>Acknowledgements and stabilisation\<close>

definition countFailed :: "'st handler \<Rightarrow> nat" where
  "countFailed h = length (filter (\<lambda>f. f) (node_failed h))"

text \<open>
  Has the call enough acknowledgements? Its issuer waits for \<open>quorum\<close> of them, every other
  node for one less (it does not acknowledge to itself).
\<close>

definition enough_acks :: "'st handler \<Rightarrow> int \<Rightarrow> call \<Rightarrow> int \<Rightarrow> bool" where
  "enough_acks h quorum c a \<longleftrightarrow>
     (if node_id c = hnode_id h then quorum \<le> a else quorum - 1 \<le> a)"

text \<open>One round of the stabilising loop, on the call at the stable index.\<close>

definition stabilize_call :: "'st usecase \<Rightarrow> call \<Rightarrow> 'st handler \<Rightarrow> 'st handler option" where
  "stabilize_call uc c h =
     (if node_id c = hnode_id h \<and> number_of_nodes h = 0 then None
      else Some (h\<lparr>
        last_call_stable :=
          (if node_id c = hnode_id h \<and>
              call_id c = expected_calls h sdiv int (number_of_nodes h) - 1
           then True else last_call_stable h),
        stable_state := updateStableState uc c (stable_state h),
        stable_index := stable_index h + 1,
        waittobestable := waittobestable h + 1\<rparr>))"

text \<open>The loop over the unstable suffix; the flag is \<open>can_unqued\<close>.\<close>

fun stabilize_loop ::
  "'st usecase \<Rightarrow> int \<Rightarrow> call list \<Rightarrow> bool \<Rightarrow> 'st handler \<Rightarrow> ('st handler \<times> bool) option" where
  "stabilize_loop uc quorum [] can_unqued h = Some (h, can_unqued)"
| "stabilize_loop uc quorum (c # cs) can_unqued h = do {
     a \<leftarrow> acks_get h c;
     (if enough_acks h quorum c a
      then do { h1 \<leftarrow> stabilize_call uc c h; stabilize_loop uc quorum cs True h1 }
      else Some (h, can_unqued)) }"

definition stabilizerWithAck :: "'st usecase \<Rightarrow> 'st handler \<Rightarrow> 'st handler option" where
  "stabilizerWithAck uc h =
     (let quorum = int (number_of_nodes h) - 1 - int (countFailed h) in
      if length (executionList h) \<le> stable_index h then Some h
      else do {
        (h1, can_unqued) \<leftarrow>
          stabilize_loop uc quorum (drop (stable_index h) (executionList h)) False h;
        (if can_unqued then drain_queue uc h1 else Some h1) })"

definition updateAcksTable :: "'st usecase \<Rightarrow> call \<Rightarrow> 'st handler \<Rightarrow> 'st handler option" where
  "updateAcksTable uc c h =
     (let quorum = int (number_of_nodes h) - 1 - int (countFailed h) in
      do {
        a \<leftarrow> acks_get h c;
        let h1 = h\<lparr>acks := (acks h)(node_id c := (acks h (node_id c))(call_id c := a + 1))\<rparr>;
        (if enough_acks h1 quorum c (a + 1) then stabilizerWithAck uc h1 else Some h1) })"

section \<open>Failures\<close>

definition updateHeartbeat :: "int \<Rightarrow> nat \<Rightarrow> 'st handler \<Rightarrow> 'st handler option" where
  "updateHeartbeat remote_node_id now h = do {
     t \<leftarrow> vset (last_heartbeat_time h) (remote_node_id - 1) now;
     Some (h\<lparr>last_heartbeat_time := t\<rparr>) }"

text \<open>
  The \<open>remove_if\<close> of \<open>markNodeFailed\<close>: drops the calls of the dead node that nobody has
  acknowledged.
\<close>

fun drop_unacked :: "int \<Rightarrow> 'st handler \<Rightarrow> call list \<Rightarrow> call list option" where
  "drop_unacked dead h [] = Some []"
| "drop_unacked dead h (c # cs) =
     (if node_id c = dead
      then do {
        a \<leftarrow> acks_get h c;
        rest \<leftarrow> drop_unacked dead h cs;
        Some (if a = 0 then rest else c # rest) }
      else do { rest \<leftarrow> drop_unacked dead h cs; Some (c # rest) })"

text \<open>The forced drain: every queued call is executed, whatever it waits for.\<close>

function force_drain :: "'st usecase \<Rightarrow> 'st handler \<Rightarrow> 'st handler option" where
  "force_drain uc h =
     (case priorityQueue h of
        [] \<Rightarrow> Some h
      | c # _ \<Rightarrow> do {
          h1 \<leftarrow> insert_remote uc c h;
          force_drain uc
            (queue_ack c (h1\<lparr>priorityQueue := pq_pop queue_less (priorityQueue h1)\<rparr>)) })"
  by pat_completeness auto
termination
proof (relation "measure (\<lambda>(uc, h). length (priorityQueue h))", goal_cases)
  case 1
  show ?case by simp
next
  case (2 uc h c cs h1)
  then have "priorityQueue h1 = c # cs" using insert_remote_queue by fastforce
  then show ?case using 2 pq.length_pop [of "c # cs" queue_less] by (simp add: queue_ack_queue)
qed

declare force_drain.simps [simp del]

definition markNodeFailed :: "'st usecase \<Rightarrow> int \<Rightarrow> 'st handler \<Rightarrow> 'st handler option" where
  "markNodeFailed uc remote_node_id h = do {
     dead \<leftarrow> vget (node_failed h) (remote_node_id - 1);
     (if dead then Some h
      else do {
        nf \<leftarrow> vset (node_failed h) (remote_node_id - 1) True;
        let h1 = h\<lparr>node_failed := nf\<rparr>;
        (if stable_index h1 \<le> length (executionList h1)
         then do {
           kept \<leftarrow> drop_unacked remote_node_id h1 (drop (stable_index h1) (executionList h1));
           let l = take (stable_index h1) (executionList h1) @ kept;
           h2 \<leftarrow> stabilizerWithAck uc (h1\<lparr>executionList := l, current_index := length l\<rparr>);
           h3 \<leftarrow> force_drain uc h2;
           stabilizerWithAck uc h3 }
         else None) }) }"

end
