(* ===== verification/Hamsou_Invariant.thy ===== *)
theory Hamsou_Invariant
  imports Hamsou_Handler
begin

text \<open>
  The representation invariant of the Hamsou handler and its preservation by every
  operation, together with the facts that follow the calls: no operation indexes a vector
  out of range, no call is lost or duplicated, the stable prefix of the execution list is
  never rewritten, and the unstable suffix stays conflict ordered.
\<close>

section \<open>The invariant\<close>

text \<open>A call the rest of the system may hand to a node of an \<open>n\<close>-node group.\<close>

definition call_ok :: "nat \<Rightarrow> call \<Rightarrow> bool" where
  "call_ok n c \<longleftrightarrow> 1 \<le> node_id c \<and> node_id c \<le> int n \<and> 0 \<le> call_id c \<and>
     call_id c < acks_columns \<and> length (call_vector_clock c) = n"

definition calls_of :: "int \<Rightarrow> call list \<Rightarrow> nat" where
  "calls_of j xs = length (filter (\<lambda>c. node_id c = j) xs)"

text \<open>Sizes of the tables.\<close>

definition shape_inv :: "'st handler \<Rightarrow> bool" where
  "shape_inv h \<longleftrightarrow> 0 < number_of_nodes h \<and>
     1 \<le> hnode_id h \<and> hnode_id h \<le> int (number_of_nodes h) \<and>
     length (vector_clock h) = number_of_nodes h \<and> acks_rows h = number_of_nodes h \<and>
     length (node_failed h) = number_of_nodes h \<and>
     length (last_heartbeat_time h) = number_of_nodes h"

text \<open>
  The log: the indices agree with the list, the stable state is what the stable prefix
  computes, the counters count, and the vector clock covers the calls of every node.
\<close>

definition log_inv :: "'st usecase \<Rightarrow> 'st handler \<Rightarrow> bool" where
  "log_inv uc h \<longleftrightarrow>
     stable_index h \<le> length (executionList h) \<and>
     current_index h = length (executionList h) \<and>
     (\<forall>c \<in> set (executionList h). call_ok (number_of_nodes h) c) \<and>
     (\<forall>c \<in> set (priorityQueue h). call_ok (number_of_nodes h) c) \<and>
     stable_state h
       = fold (updateStableState uc) (take (stable_index h) (executionList h)) (initial_state uc) \<and>
     waittobestable h = int (stable_index h) \<and>
     ackindex h = int (length (send_ack_call_list h)) \<and>
     (\<forall>j. 1 \<le> j \<and> j \<le> int (number_of_nodes h) \<longrightarrow>
        int (calls_of j (executionList h)) \<le> vector_clock h ! nat (j - 1))"

definition handler_inv :: "'st usecase \<Rightarrow> 'st handler \<Rightarrow> bool" where
  "handler_inv uc h \<longleftrightarrow> shape_inv h \<and> log_inv uc h"

lemmas inv_defs = handler_inv_def shape_inv_def log_inv_def

text \<open>All calls a node holds, executed or queued.\<close>

definition held :: "'st handler \<Rightarrow> call multiset" where
  "held h = mset (executionList h) + mset (priorityQueue h)"

text \<open>
  The stable prefix only grows: the abstract view of a node is its sequence of stable
  calls, and every operation extends it at its end.
\<close>

definition stable_calls :: "'st handler \<Rightarrow> call list" where
  "stable_calls h = take (stable_index h) (executionList h)"

definition extends :: "'st handler \<Rightarrow> 'st handler \<Rightarrow> bool" where
  "extends h h' \<longleftrightarrow> number_of_nodes h' = number_of_nodes h \<and> hnode_id h' = hnode_id h \<and>
     prefix (stable_calls h) (stable_calls h')"

definition suffix_ordered :: "'st usecase \<Rightarrow> 'st handler \<Rightarrow> bool" where
  "suffix_ordered uc h \<longleftrightarrow> conflict_ordered uc (drop (stable_index h) (executionList h))"

lemma extends_refl [simp]: "extends h h"
  by (simp add: extends_def)

lemma extends_trans [trans]: "extends h h' \<Longrightarrow> extends h' h'' \<Longrightarrow> extends h h''"
  by (auto simp: extends_def)

lemma calls_of_mset: "mset xs = mset ys \<Longrightarrow> calls_of j xs = calls_of j ys"
  unfolding calls_of_def by (metis mset_filter size_mset)

lemma calls_of_insert [simp]:
  "calls_of j (insert_scan reach c xs) = (if node_id c = j then 1 else 0) + calls_of j xs"
  by (induction xs) (auto simp: calls_of_def)

lemma calls_of_append [simp]: "calls_of j (xs @ ys) = calls_of j xs + calls_of j ys"
  by (simp add: calls_of_def)

lemma calls_of_take_drop: "calls_of j (take n xs) + calls_of j (drop n xs) = calls_of j xs"
  by (metis append_take_drop_id calls_of_append)

lemma call_ok_clock: "call_ok n c \<Longrightarrow> length v = n \<Longrightarrow> call_ok n (c\<lparr>call_vector_clock := v\<rparr>)"
  by (simp add: call_ok_def)

section \<open>Copying the clock\<close>

lemma copy_clock_loop_eq:
  "r \<le> n \<Longrightarrow> length vc = n \<Longrightarrow>
     copy_clock_loop r n vc c =
       (if r = 0 then c
        else c\<lparr>call_vector_clock :=
               take (n - r) (vresize n 0 (call_vector_clock c)) @ drop (n - r) vc\<rparr>, True)"
proof (induction r arbitrary: c)
  case 0
  then show ?case by simp
next
  case (Suc r)
  let ?i = "n - Suc r"
  let ?v = "vresize n 0 (call_vector_clock c)"
  have i: "?i < n" "n - r = Suc ?i" using Suc.prems by auto
  have w: "?v[?i := vc ! ?i] = take ?i ?v @ vc ! ?i # drop (Suc ?i) ?v"
    using i by (simp add: upd_conv_take_nth_drop)
  have vc: "drop ?i vc = vc ! ?i # drop (Suc ?i) vc"
    using i Suc.prems by (simp add: Cons_nth_drop_Suc)
  let ?c = "c\<lparr>call_vector_clock := ?v[?i := vc ! ?i]\<rparr>"
  have "\<not> length vc \<le> ?i" using Suc.prems by linarith
  then have "copy_clock_loop (Suc r) n vc c = copy_clock_loop r n vc ?c"
    by (simp only: copy_clock_loop.simps Let_def if_False)
  also have "\<dots> = (if r = 0 then ?c
      else ?c\<lparr>call_vector_clock := take (n - r) (?v[?i := vc ! ?i]) @ drop (n - r) vc\<rparr>, True)"
    using Suc.IH [of ?c] Suc.prems by simp
  also have "\<dots> = (c\<lparr>call_vector_clock := take ?i ?v @ drop ?i vc\<rparr>, True)"
    using w vc i Suc.prems by (cases "r = 0") simp_all
  finally show ?case by simp
qed

lemma copy_clock_eq:
  "0 < n \<Longrightarrow> length vc = n \<Longrightarrow> copy_clock n vc c = (c\<lparr>call_vector_clock := vc\<rparr>, True)"
  by (simp add: copy_clock_def copy_clock_loop_eq)

lemma local_scan_iff: "local_scan reach c xs \<longleftrightarrow> (\<forall>x \<in> set xs. \<not> reach c x)"
  by (induction xs) auto

section \<open>Single updates\<close>

lemma vincr_in_range:
  assumes "shape_inv h" and "1 \<le> j" and "j \<le> int (number_of_nodes h)"
  shows "vincr (vector_clock h) (j - 1)
       = Some ((vector_clock h)[nat (j - 1) := vector_clock h ! nat (j - 1) + 1])"
  using assms by (intro vincr_eq) (auto simp: shape_inv_def)

lemma acks_get_in_range:
  "shape_inv h \<Longrightarrow> call_ok (number_of_nodes h) c \<Longrightarrow>
     acks_get h c = Some (acks h (node_id c) (call_id c))"
  by (simp add: acks_get_def shape_inv_def call_ok_def)

lemma covered_after_incr:
  assumes cov: "\<forall>j. 1 \<le> j \<and> j \<le> int n \<longrightarrow> int (f j) \<le> vc ! nat (j - 1)"
    and "length vc = n" and "1 \<le> k" and "k \<le> int n"
  shows "\<forall>j. 1 \<le> j \<and> j \<le> int n \<longrightarrow>
    int (f j + (if k = j then 1 else 0)) \<le> vc[nat (k - 1) := vc ! nat (k - 1) + 1] ! nat (j - 1)"
proof (intro allI impI)
  fix j
  assume j: "1 \<le> j \<and> j \<le> int n"
  then have "int (f j) \<le> vc ! nat (j - 1)" using cov by blast
  then show "int (f j + (if k = j then 1 else 0))
      \<le> vc[nat (k - 1) := vc ! nat (k - 1) + 1] ! nat (j - 1)"
    using assms j by (auto simp: nth_list_update)
qed

text \<open>Inserting a call into the unstable part of the list and counting it.\<close>

definition log_insert ::
  "'st usecase \<Rightarrow> call \<Rightarrow> call list \<Rightarrow> 'st handler \<Rightarrow> 'st handler" where
  "log_insert uc c rest h =
     h\<lparr>executionList := take (stable_index h) (executionList h) @ rest,
       current_index := current_index h + 1,
       current_state := updateCurrentState uc c (current_state h),
       vector_clock := (vector_clock h)[nat (node_id c - 1) :=
                         vector_clock h ! nat (node_id c - 1) + 1]\<rparr>"

lemma log_insert_inv:
  assumes inv: "handler_inv uc h" and c: "call_ok (number_of_nodes h) c"
    and rest: "mset rest = add_mset c (mset (drop (stable_index h) (executionList h)))"
  shows "handler_inv uc (log_insert uc c rest h)"
    and "extends h (log_insert uc c rest h)"
    and "held (log_insert uc c rest h) = add_mset c (held h)"
proof -
  let ?s = "stable_index h" and ?l = "executionList h"
  have len: "length rest = Suc (length ?l - ?s)"
    using rest by (metis length_drop size_add_mset size_mset)
  have s: "?s \<le> length ?l" using inv by (simp add: inv_defs)
  have "set rest = insert c (set (drop ?s ?l))"
    using rest by (metis set_mset_add_mset_insert set_mset_mset)
  then have ok: "\<forall>x \<in> set (take ?s ?l @ rest). call_ok (number_of_nodes h) x"
    using inv c by (auto simp: inv_defs dest: in_set_takeD in_set_dropD)
  have "calls_of j rest = (if node_id c = j then 1 else 0) + calls_of j (drop ?s ?l)" for j
  proof -
    have "calls_of j rest = calls_of j (c # drop ?s ?l)"
      using rest by (intro calls_of_mset) simp
    then show ?thesis by (simp add: calls_of_def)
  qed
  then have count: "calls_of j (take ?s ?l @ rest)
      = calls_of j ?l + (if node_id c = j then 1 else 0)" for j
    using calls_of_take_drop [of j ?s ?l] by simp
  have cov: "\<forall>j. 1 \<le> j \<and> j \<le> int (number_of_nodes h) \<longrightarrow>
      int (calls_of j ?l + (if node_id c = j then 1 else 0))
        \<le> (vector_clock h)[nat (node_id c - 1) := vector_clock h ! nat (node_id c - 1) + 1]
            ! nat (j - 1)"
    using inv c by (intro covered_after_incr) (simp_all add: inv_defs call_ok_def)
  show "handler_inv uc (log_insert uc c rest h)"
    unfolding inv_defs log_insert_def
    using inv s len ok cov by (simp add: inv_defs count del: calls_of_append)
  show "extends h (log_insert uc c rest h)"
    using s by (simp add: extends_def stable_calls_def log_insert_def)
  show "held (log_insert uc c rest h) = add_mset c (held h)"
    using rest mset_take_drop [of ?s ?l] by (simp add: held_def log_insert_def)
qed

lemma insert_remote_eq:
  assumes "handler_inv uc h" and "call_ok (number_of_nodes h) c"
  shows "insert_remote uc c h = Some (log_insert uc c
           (insert_scan (fastisreachableremote uc) c (drop (stable_index h) (executionList h))) h)"
  using assms by (simp add: insert_remote_def log_insert_def inv_defs call_ok_def
      vincr_in_range shape_inv_def)

text \<open>Updates of the queue and of the acknowledgement list.\<close>

lemma queue_update_inv:
  assumes "handler_inv uc h" and "\<forall>c \<in> set q. call_ok (number_of_nodes h) c"
  shows "handler_inv uc (h\<lparr>priorityQueue := q\<rparr>)"
  using assms by (simp add: inv_defs)

lemma queue_update_frame [frame_simps]:
  "stable_calls (h\<lparr>priorityQueue := q\<rparr>) = stable_calls h"
  "suffix_ordered uc (h\<lparr>priorityQueue := q\<rparr>) = suffix_ordered uc h"
  "extends h' (h\<lparr>priorityQueue := q\<rparr>) = extends h' h"
  by (simp_all add: stable_calls_def suffix_ordered_def extends_def)

lemma queue_ack_inv: "handler_inv uc h \<Longrightarrow> handler_inv uc (queue_ack c h)"
  by (simp add: inv_defs queue_ack_def Let_def)

lemma queue_ack_frame [frame_simps]:
  "stable_calls (queue_ack c h) = stable_calls h"
  "suffix_ordered uc (queue_ack c h) = suffix_ordered uc h"
  "extends h' (queue_ack c h) = extends h' h"
  "held (queue_ack c h) = held h"
  "number_of_nodes (queue_ack c h) = number_of_nodes h"
  by (simp_all add: stable_calls_def suffix_ordered_def extends_def held_def queue_ack_def Let_def)

end
