(* ===== verification/Hamsou_Operations.thy ===== *)
theory Hamsou_Operations
  imports Hamsou_Invariant
begin

text \<open>
  Every operation of the Hamsou handler, on a handler that satisfies the invariant: it
  returns (no out-of-range access), it keeps the invariant, it extends the stable prefix,
  it accounts for every call, and under the conflict contract it keeps the unstable suffix
  ordered.
\<close>

section \<open>localHandler\<close>

text \<open>The call as the node stamps it: its clock is the node's, with its own entry counted.\<close>

definition stamp :: "'st handler \<Rightarrow> call \<Rightarrow> call" where
  "stamp h c = c\<lparr>call_vector_clock := (vector_clock h)[nat (node_id c - 1) :=
     vector_clock h ! nat (node_id c - 1) + 1]\<rparr>"

definition locally_blocked :: "'st usecase \<Rightarrow> call \<Rightarrow> 'st handler \<Rightarrow> bool" where
  "locally_blocked uc c h \<longleftrightarrow>
     (\<exists>x \<in> set (drop (stable_index h) (executionList h)). fastisreachablelocal uc c x)"

definition log_append :: "'st usecase \<Rightarrow> call \<Rightarrow> 'st handler \<Rightarrow> 'st handler" where
  "log_append uc c h = log_insert uc (stamp h c)
     (drop (stable_index h) (executionList h) @ [stamp h c]) h"

lemma stamp_simps [simp]:
  "node_id (stamp h c) = node_id c" "call_id (stamp h c) = call_id c"
  "ctype (stamp h c) = ctype c" "value1 (stamp h c) = value1 c"
  by (simp_all add: stamp_def)

lemma stamp_ok:
  "shape_inv h \<Longrightarrow> node_id c = hnode_id h \<Longrightarrow> 0 \<le> call_id c \<Longrightarrow> call_id c < acks_columns \<Longrightarrow>
     call_ok (number_of_nodes h) (stamp h c)"
  by (simp add: call_ok_def shape_inv_def stamp_def)

lemma localHandler_eq:
  assumes inv: "handler_inv uc h" and node: "node_id c = hnode_id h"
  shows "localHandler uc c h = Some
    (if \<not> locallyPermissibility uc (current_state h) (stable_state h) c
     then (h, c, False, False, stable_index h)
     else if locally_blocked uc c h then (h, c, False, True, stable_index h)
     else (log_append uc c h, stamp h c, True, True, stable_index h))"
proof -
  have shape: "shape_inv h" using inv by (simp add: handler_inv_def)
  let ?vc = "(vector_clock h)[nat (node_id c - 1) := vector_clock h ! nat (node_id c - 1) + 1]"
  have incr: "vincr (vector_clock h) (hnode_id h - 1) = Some ?vc"
    using vincr_in_range [OF shape] shape node by (simp add: shape_inv_def)
  have copy: "copy_clock (number_of_nodes h) ?vc c = (stamp h c, True)"
    using shape by (simp add: copy_clock_eq shape_inv_def stamp_def)
  show ?thesis
    using incr copy node
    by (auto simp: localHandler_def local_scan_iff locally_blocked_def log_append_def
        log_insert_def Let_def)
qed

lemma log_append_inv:
  assumes "handler_inv uc h" and "node_id c = hnode_id h" and "0 \<le> call_id c"
    and "call_id c < acks_columns"
  shows "handler_inv uc (log_append uc c h)" "extends h (log_append uc c h)"
    "held (log_append uc c h) = add_mset (stamp h c) (held h)"
proof -
  have ok: "call_ok (number_of_nodes h) (stamp h c)"
    using assms by (simp add: stamp_ok handler_inv_def)
  note ins = log_insert_inv [OF assms(1) ok,
      of "drop (stable_index h) (executionList h) @ [stamp h c]"]
  show "handler_inv uc (log_append uc c h)" "extends h (log_append uc c h)"
    "held (log_append uc c h) = add_mset (stamp h c) (held h)"
    unfolding log_append_def by (rule ins; simp)+
qed

section \<open>remoteHandler\<close>

text \<open>The condition under which a delivered call is queued.\<close>

definition must_wait :: "'st usecase \<Rightarrow> call \<Rightarrow> 'st handler \<Rightarrow> bool" where
  "must_wait uc c h \<longleftrightarrow>
     (priorityQueue h \<noteq> [] \<and>
      compareVectorClocks (call_vector_clock c) (call_vector_clock (hd (priorityQueue h))) = 2) \<or>
     (\<exists>x \<in> set (drop (stable_index h) (executionList h)).
        fastisreachableremote uc c x \<and>
        compareVectorClocks (call_vector_clock c) (call_vector_clock x) = 2)"

definition enqueue :: "call \<Rightarrow> 'st handler \<Rightarrow> 'st handler" where
  "enqueue c h = h\<lparr>priorityQueue := pq_push queue_less c (priorityQueue h)\<rparr>"

definition dequeue :: "'st handler \<Rightarrow> 'st handler" where
  "dequeue h = h\<lparr>priorityQueue := pq_pop queue_less (priorityQueue h)\<rparr>"

definition log_remote :: "'st usecase \<Rightarrow> call \<Rightarrow> 'st handler \<Rightarrow> 'st handler" where
  "log_remote uc c h = log_insert uc c (insert_scan (fastisreachableremote uc) c
     (drop (stable_index h) (executionList h))) h"

lemma queueHandler_eq:
  "queueHandler uc b c h =
     (if must_wait uc c h then (if b then enqueue c h else h, True) else (h, False))"
  by (auto simp: queueHandler_def must_wait_def enqueue_def Let_def list_ex_iff)

lemma remoteHandler_eq:
  assumes "handler_inv uc h" and "call_ok (number_of_nodes h) c"
  shows "remoteHandler uc b c h = Some
    (if must_wait uc c h then (if b then enqueue c h else h, False)
     else (queue_ack c (log_remote uc c h), True))"
  using insert_remote_eq [OF assms]
  by (simp add: remoteHandler_def queueHandler_eq log_remote_def)

lemma log_remote_inv:
  assumes "handler_inv uc h" and "call_ok (number_of_nodes h) c"
  shows "handler_inv uc (log_remote uc c h)" "extends h (log_remote uc c h)"
    "held (log_remote uc c h) = add_mset c (held h)"
  unfolding log_remote_def by (rule log_insert_inv [OF assms]; simp)+

lemma enqueue_inv:
  assumes "handler_inv uc h" and "call_ok (number_of_nodes h) c"
  shows "handler_inv uc (enqueue c h)" "extends h (enqueue c h)"
    "held (enqueue c h) = add_mset c (held h)"
  using assms unfolding enqueue_def
  by (auto simp: inv_defs pq.set_push held_def pq.mset_push frame_simps)

lemma dequeue_inv:
  assumes "handler_inv uc h" and "priorityQueue h \<noteq> []"
  shows "handler_inv uc (dequeue h)" "extends h (dequeue h)"
    "add_mset (hd (priorityQueue h)) (held (dequeue h)) = held h"
proof -
  have "\<forall>c \<in> set (pq_pop queue_less (priorityQueue h)). call_ok (number_of_nodes h) c"
    using assms pq.set_pop_subset [OF assms(2)] by (auto simp: inv_defs)
  then show "handler_inv uc (dequeue h)"
    unfolding dequeue_def by (intro queue_update_inv assms(1))
  show "extends h (dequeue h)" by (simp add: dequeue_def frame_simps)
  show "add_mset (hd (priorityQueue h)) (held (dequeue h)) = held h"
    using pq.mset_pop [OF assms(2), of queue_less]
    by (simp add: held_def dequeue_def flip: union_mset_add_mset_right)
qed

lemma queue_log_remote [frame_simps]:
  "priorityQueue (log_remote uc c h) = priorityQueue h"
  "number_of_nodes (log_remote uc c h) = number_of_nodes h"
  by (simp_all add: log_remote_def log_insert_def)

section \<open>Draining the queue\<close>

text \<open>One successful retry: the top of the queue moves to the log.\<close>

definition retry :: "'st usecase \<Rightarrow> call \<Rightarrow> 'st handler \<Rightarrow> 'st handler" where
  "retry uc c h = dequeue (queue_ack c (log_remote uc c h))"

lemma retry_inv:
  assumes inv: "handler_inv uc h" and q: "priorityQueue h = c # cs"
  shows "handler_inv uc (retry uc c h)" "extends h (retry uc c h)" "held (retry uc c h) = held h"
    "length (priorityQueue (retry uc c h)) = length cs"
proof -
  have ok: "call_ok (number_of_nodes h) c" using inv q by (simp add: inv_defs)
  let ?h = "queue_ack c (log_remote uc c h)"
  have h: "handler_inv uc ?h" "extends h ?h" "held ?h = add_mset c (held h)"
    using log_remote_inv [OF inv ok] by (simp_all add: queue_ack_inv frame_simps)
  have pq: "priorityQueue ?h = c # cs" using q by (simp add: frame_simps)
  then have ne: "priorityQueue ?h \<noteq> []" by simp
  note deq = dequeue_inv [OF h(1) ne]
  show "handler_inv uc (retry uc c h)" using deq by (simp add: retry_def)
  show "extends h (retry uc c h)" unfolding retry_def using h(2) deq(2) by (rule extends_trans)
  show "held (retry uc c h) = held h" using deq(3) h(3) pq by (simp add: retry_def)
  show "length (priorityQueue (retry uc c h)) = length cs"
    using pq pq.length_pop [OF ne, of queue_less] by (simp add: retry_def dequeue_def)
qed

lemma drain_queue_step:
  assumes "handler_inv uc h"
  shows "drain_queue uc h =
    (case priorityQueue h of [] \<Rightarrow> Some h
     | c # _ \<Rightarrow> if must_wait uc c h then Some h else drain_queue uc (retry uc c h))"
proof (cases "priorityQueue h")
  case Nil
  then show ?thesis by (subst drain_queue.simps) simp
next
  case (Cons c cs)
  then have "call_ok (number_of_nodes h) c" using assms by (simp add: inv_defs)
  from remoteHandler_eq [OF assms this] Cons show ?thesis
    by (subst drain_queue.simps) (simp add: retry_def dequeue_def)
qed

text \<open>
  The drain returns, and whatever property of the state holds at the start and survives
  one successful retry holds at the end; it stops with the queue empty or its top waiting.
\<close>

lemma drain_queue_rule:
  assumes "handler_inv uc h" and "P h"
    and step: "\<And>h c cs. handler_inv uc h \<Longrightarrow> P h \<Longrightarrow> priorityQueue h = c # cs \<Longrightarrow>
        \<not> must_wait uc c h \<Longrightarrow> P (retry uc c h)"
  shows "\<exists>h'. drain_queue uc h = Some h' \<and> handler_inv uc h' \<and> P h' \<and>
    (priorityQueue h' = [] \<or> must_wait uc (hd (priorityQueue h')) h')"
  using assms(1,2)
proof (induction "length (priorityQueue h)" arbitrary: h rule: less_induct)
  case less
  show ?case
  proof (cases "priorityQueue h")
    case Nil
    then show ?thesis using less.prems drain_queue_step [OF less.prems(1)] by simp
  next
    case (Cons c cs)
    show ?thesis
    proof (cases "must_wait uc c h")
      case True
      then show ?thesis using less.prems Cons drain_queue_step [OF less.prems(1)] by simp
    next
      case False
      note r = retry_inv [OF less.prems(1) Cons]
      have "P (retry uc c h)" using step less.prems Cons False by blast
      with r less.hyps [of "retry uc c h"] Cons
      have "\<exists>h'. drain_queue uc (retry uc c h) = Some h' \<and> handler_inv uc h' \<and> P h' \<and>
        (priorityQueue h' = [] \<or> must_wait uc (hd (priorityQueue h')) h')" by simp
      then show ?thesis using False Cons drain_queue_step [OF less.prems(1)] by simp
    qed
  qed
qed

lemma drain_queue_inv:
  assumes "handler_inv uc h"
  shows "\<exists>h'. drain_queue uc h = Some h' \<and> handler_inv uc h' \<and> extends h h' \<and> held h' = held h
    \<and> (priorityQueue h' = [] \<or> must_wait uc (hd (priorityQueue h')) h')"
proof -
  have "\<exists>h'. drain_queue uc h = Some h' \<and> handler_inv uc h' \<and> (extends h h' \<and> held h' = held h) \<and>
      (priorityQueue h' = [] \<or> must_wait uc (hd (priorityQueue h')) h')"
  proof (rule drain_queue_rule [OF assms])
    show "extends h h \<and> held h = held h" by simp
  next
    fix g c cs
    assume "handler_inv uc g" "extends h g \<and> held g = held h" "priorityQueue g = c # cs"
    then show "extends h (retry uc c g) \<and> held (retry uc c g) = held h"
      using retry_inv [of uc g c cs] extends_trans by auto
  qed
  then show ?thesis by blast
qed

end
