(* ===== verification/Hamsou_Stability.thy ===== *)
theory Hamsou_Stability
  imports Hamsou_Operations
begin

text \<open>
  Stabilisation, acknowledgements and failure handling of the Hamsou handler. The relation
  \<open>progress\<close> collects what every operation guarantees; each operation has one lemma that it
  returns a state in this relation, and says what happens to the calls the node holds.
\<close>

section \<open>What every operation guarantees\<close>

definition progress :: "'st usecase \<Rightarrow> 'st handler \<Rightarrow> 'st handler \<Rightarrow> bool" where
  "progress uc h h' \<longleftrightarrow> handler_inv uc h' \<and> extends h h' \<and>
     (conflict_resolution uc \<longrightarrow> suffix_ordered uc h \<longrightarrow> suffix_ordered uc h')"

lemma progress_refl: "handler_inv uc h \<Longrightarrow> progress uc h h"
  by (simp add: progress_def)

lemma progress_trans [trans]:
  "progress uc h h' \<Longrightarrow> progress uc h' h'' \<Longrightarrow> progress uc h h''"
  by (auto simp: progress_def intro: extends_trans)

lemma progress_inv: "progress uc h h' \<Longrightarrow> handler_inv uc h'"
  by (simp add: progress_def)

lemma progress_nodes: "progress uc h h' \<Longrightarrow> number_of_nodes h' = number_of_nodes h"
  by (simp add: progress_def extends_def)

section \<open>Insertions keep the order\<close>

lemma suffix_log_insert:
  "handler_inv uc h \<Longrightarrow> suffix_ordered uc (log_insert uc c xs h) = conflict_ordered uc xs"
  by (simp add: suffix_ordered_def log_insert_def inv_defs)

lemma log_remote_progress:
  assumes "handler_inv uc h" and "call_ok (number_of_nodes h) c"
  shows "progress uc h (log_remote uc c h)"
proof -
  have "suffix_ordered uc (log_remote uc c h)"
    if "conflict_resolution uc" "suffix_ordered uc h"
    unfolding log_remote_def suffix_log_insert [OF assms(1)]
    using that by (auto intro: conflict_resolution.insert_scan_ordered simp: suffix_ordered_def)
  then show ?thesis using log_remote_inv [OF assms] by (simp add: progress_def)
qed

lemma log_append_progress:
  assumes "handler_inv uc h" and "node_id c = hnode_id h" and "0 \<le> call_id c"
    and "call_id c < acks_columns" and "\<not> locally_blocked uc c h"
  shows "progress uc h (log_append uc c h)"
proof -
  have "suffix_ordered uc (log_append uc c h)"
    if "conflict_resolution uc" "suffix_ordered uc h"
    unfolding log_append_def suffix_log_insert [OF assms(1)] stamp_def
    using that assms(5)
    by (auto intro!: conflict_resolution.append_ordered simp: suffix_ordered_def locally_blocked_def)
  then show ?thesis using log_append_inv [OF assms(1-4)] by (simp add: progress_def)
qed

lemma queue_ack_progress: "progress uc h g \<Longrightarrow> progress uc h (queue_ack c g)"
  by (simp add: progress_def queue_ack_inv frame_simps)

lemma dequeue_progress:
  "progress uc h g \<Longrightarrow> priorityQueue g \<noteq> [] \<Longrightarrow> progress uc h (dequeue g)"
  using dequeue_inv [of uc g] by (simp add: progress_def dequeue_def frame_simps)

lemma enqueue_progress:
  "handler_inv uc h \<Longrightarrow> call_ok (number_of_nodes h) c \<Longrightarrow> progress uc h (enqueue c h)"
  using enqueue_inv [of uc h c] by (simp add: progress_def enqueue_def frame_simps)

lemma retry_progress:
  assumes "handler_inv uc h" and "priorityQueue h = c # cs"
  shows "progress uc h (retry uc c h)"
proof -
  have "call_ok (number_of_nodes h) c" using assms by (simp add: inv_defs)
  then show ?thesis unfolding retry_def using assms
    by (intro dequeue_progress queue_ack_progress log_remote_progress) (simp_all add: frame_simps)
qed

lemma drain_queue_progress:
  assumes "handler_inv uc h"
  shows "\<exists>h'. drain_queue uc h = Some h' \<and> progress uc h h' \<and> held h' = held h \<and>
    (priorityQueue h' = [] \<or> must_wait uc (hd (priorityQueue h')) h')"
proof -
  have "\<exists>h'. drain_queue uc h = Some h' \<and> handler_inv uc h' \<and> (progress uc h h' \<and> held h' = held h) \<and>
      (priorityQueue h' = [] \<or> must_wait uc (hd (priorityQueue h')) h')"
  proof (rule drain_queue_rule [OF assms])
    show "progress uc h h \<and> held h = held h" using assms by (simp add: progress_refl)
  next
    fix g c cs
    assume "handler_inv uc g" "progress uc h g \<and> held g = held h" "priorityQueue g = c # cs"
    then show "progress uc h (retry uc c g) \<and> held (retry uc c g) = held h"
      using retry_progress [of uc g c cs] retry_inv(3) [of uc g c cs] progress_trans by auto
  qed
  then show ?thesis by blast
qed

section \<open>Local and remote calls\<close>

lemma localHandler_progress:
  assumes "handler_inv uc h" and "node_id c = hnode_id h" and "0 \<le> call_id c"
    and "call_id c < acks_columns"
  shows "\<exists>h' c' flag permiss. localHandler uc c h = Some (h', c', flag, permiss, stable_index h) \<and>
    progress uc h h' \<and> held h' = (if flag then add_mset c' (held h) else held h)"
  using assms log_append_progress [OF assms] log_append_inv [OF assms]
  by (simp add: localHandler_eq progress_refl ex_bool_eq)

lemma internalDownstreamExecute_progress:
  assumes inv: "handler_inv uc h" and c: "call_ok (number_of_nodes h) c"
  shows "\<exists>h'. internalDownstreamExecute uc c h = Some h' \<and> progress uc h h' \<and>
    held h' = add_mset c (held h) \<and>
    (priorityQueue h' = [] \<or> must_wait uc (hd (priorityQueue h')) h')"
proof -
  let ?g = "if must_wait uc c h then enqueue c h else queue_ack c (log_remote uc c h)"
  have g: "progress uc h ?g" "held ?g = add_mset c (held h)"
    using enqueue_progress [OF assms] queue_ack_progress [OF log_remote_progress [OF assms]]
      enqueue_inv(3) [OF assms] log_remote_inv(3) [OF assms]
    by (simp_all add: frame_simps)
  from drain_queue_progress [OF progress_inv [OF g(1)]]
  obtain h' where h': "drain_queue uc ?g = Some h'" "progress uc ?g h'" "held h' = held ?g"
    "priorityQueue h' = [] \<or> must_wait uc (hd (priorityQueue h')) h'" by blast
  have "internalDownstreamExecute uc c h = Some h'"
    using h'(1)
    by (cases "must_wait uc c h")
      (simp_all add: internalDownstreamExecute_def remoteHandler_eq [OF assms])
  moreover have "progress uc h h'" using g(1) h'(2) by (rule progress_trans)
  ultimately show ?thesis using h'(3,4) g(2) by simp
qed

section \<open>Stabilisation\<close>

text \<open>Enough acknowledgements, read from the table.\<close>

definition acked :: "'st handler \<Rightarrow> int \<Rightarrow> call \<Rightarrow> bool" where
  "acked h quorum c \<longleftrightarrow> enough_acks h quorum c (acks h (node_id c) (call_id c))"

definition stabilized :: "'st usecase \<Rightarrow> call \<Rightarrow> 'st handler \<Rightarrow> 'st handler" where
  "stabilized uc c h = the (stabilize_call uc c h)"

lemma stabilize_call_eq:
  "handler_inv uc h \<Longrightarrow> stabilize_call uc c h = Some (stabilized uc c h)"
  by (simp add: stabilized_def stabilize_call_def inv_defs)

lemma stabilized_simps [simp]:
  assumes "handler_inv uc h"
  shows "executionList (stabilized uc c h) = executionList h"
    "priorityQueue (stabilized uc c h) = priorityQueue h"
    "acks (stabilized uc c h) = acks h"
    "hnode_id (stabilized uc c h) = hnode_id h"
    "stable_index (stabilized uc c h) = Suc (stable_index h)"
    "send_ack_call_list (stabilized uc c h) = send_ack_call_list h"
  using assms by (simp_all add: stabilized_def stabilize_call_def inv_defs)

lemma acked_stabilized [simp]:
  "handler_inv uc h \<Longrightarrow> acked (stabilized uc c h) q = acked h q"
  by (simp add: acked_def enough_acks_def fun_eq_iff)

lemma stabilized_inv:
  assumes inv: "handler_inv uc h" and c: "drop (stable_index h) (executionList h) = c # cs"
  shows "handler_inv uc (stabilized uc c h)" "extends h (stabilized uc c h)"
proof -
  have s: "stable_index h < length (executionList h)"
    using c by (metis drop_all list.distinct(1) not_le)
  have snoc: "take (Suc (stable_index h)) (executionList h)
      = take (stable_index h) (executionList h) @ [c]"
    using c s by (metis Cons_nth_drop_Suc list.inject take_Suc_conv_app_nth)
  show "handler_inv uc (stabilized uc c h)"
    using inv s snoc by (simp add: inv_defs stabilized_def stabilize_call_def)
  show "extends h (stabilized uc c h)"
    using inv snoc
    by (simp add: extends_def stable_calls_def) (simp add: stabilized_def stabilize_call_def inv_defs)
qed

lemma stabilize_loop_inv:
  assumes "handler_inv uc h" and "drop (stable_index h) (executionList h) = cs"
  shows "\<exists>h'. stabilize_loop uc q cs f h = Some (h', f \<or> takeWhile (acked h q) cs \<noteq> []) \<and>
    handler_inv uc h' \<and> extends h h' \<and> executionList h' = executionList h \<and>
    priorityQueue h' = priorityQueue h \<and> acks h' = acks h \<and>
    stable_index h' = stable_index h + length (takeWhile (acked h q) cs)"
  using assms
proof (induction cs arbitrary: f h)
  case Nil
  then show ?case by simp
next
  case (Cons c cs)
  have "c \<in> set (executionList h)"
    using Cons.prems(2) by (metis in_set_dropD list.set_intros(1))
  then have "call_ok (number_of_nodes h) c" using Cons.prems(1) by (simp add: inv_defs)
  then have get: "acks_get h c = Some (acks h (node_id c) (call_id c))"
    using Cons.prems(1) by (intro acks_get_in_range) (simp_all add: handler_inv_def)
  show ?case
  proof (cases "acked h q c")
    case True
    note s = stabilized_inv [OF Cons.prems]
    have "drop (stable_index (stabilized uc c h)) (executionList (stabilized uc c h)) = cs"
      using Cons.prems by (simp add: drop_Suc) (metis drop_Suc drop_eq_Nil list.sel(3) tl_drop)
    from Cons.IH [OF s(1) this, of True] obtain h' where
      h': "stabilize_loop uc q cs True (stabilized uc c h) = Some (h', True)"
        "handler_inv uc h'" "extends (stabilized uc c h) h'" "executionList h' = executionList h"
        "priorityQueue h' = priorityQueue h" "acks h' = acks h"
        "stable_index h' = Suc (stable_index h) + length (takeWhile (acked h q) cs)"
      using Cons.prems(1) by auto
    have "stabilize_loop uc q (c # cs) f h = Some (h', True)"
      using True h'(1) get stabilize_call_eq [OF Cons.prems(1)] by (simp add: acked_def)
    with h' True show ?thesis using extends_trans [OF s(2) h'(3)] by auto
  next
    case False
    then show ?thesis using Cons.prems get by (simp add: acked_def)
  qed
qed

lemma ordered_advance:
  "suffix_ordered uc h \<Longrightarrow> executionList h' = executionList h \<Longrightarrow>
     stable_index h \<le> stable_index h' \<Longrightarrow> suffix_ordered uc h'"
  unfolding suffix_ordered_def
  by (metis conflict_ordered_drop drop_drop le_add_diff_inverse2)

text \<open>The quorum the handler computes.\<close>

definition quorum_of :: "'st handler \<Rightarrow> int" where
  "quorum_of h = int (number_of_nodes h) - 1 - int (countFailed h)"

lemma stabilizerWithAck_progress:
  assumes inv: "handler_inv uc h"
  shows "\<exists>h'. stabilizerWithAck uc h = Some h' \<and> progress uc h h' \<and> held h' = held h"
proof (cases "length (executionList h) \<le> stable_index h")
  case True
  then show ?thesis using inv by (simp add: stabilizerWithAck_def Let_def progress_refl)
next
  case False
  from stabilize_loop_inv [OF inv refl, of "quorum_of h" False]
  obtain g f where g: "stabilize_loop uc (quorum_of h)
        (drop (stable_index h) (executionList h)) False h = Some (g, f)"
      "handler_inv uc g" "extends h g" "executionList g = executionList h"
      "priorityQueue g = priorityQueue h" "stable_index h \<le> stable_index g" by force
  then have pg: "progress uc h g" "held g = held h"
    by (auto simp: progress_def held_def intro: ordered_advance)
  from drain_queue_progress [OF g(2)] obtain h' where h': "drain_queue uc g = Some h'"
    "progress uc g h'" "held h' = held g" by blast
  have "stabilizerWithAck uc h = Some (if f then h' else g)"
    using False g(1) h'(1) by (simp add: stabilizerWithAck_def Let_def quorum_of_def)
  then show ?thesis using pg h' progress_trans by auto
qed

section \<open>Acknowledgements\<close>

definition count_ack :: "call \<Rightarrow> 'st handler \<Rightarrow> 'st handler" where
  "count_ack c h = h\<lparr>acks := (acks h)(node_id c := (acks h (node_id c))
     (call_id c := acks h (node_id c) (call_id c) + 1))\<rparr>"

lemma count_ack_frame [frame_simps]:
  "handler_inv uc (count_ack c h) = handler_inv uc h"
  "held (count_ack c h) = held h"
  "extends h' (count_ack c h) = extends h' h"
  "suffix_ordered uc (count_ack c h) = suffix_ordered uc h"
  by (simp_all add: count_ack_def inv_defs held_def extends_def stable_calls_def suffix_ordered_def)

definition ack_in_range :: "nat \<Rightarrow> call \<Rightarrow> bool" where
  "ack_in_range n c \<longleftrightarrow> 1 \<le> node_id c \<and> node_id c \<le> int n \<and> 0 \<le> call_id c \<and>
     call_id c < acks_columns"

lemma updateAcksTable_eq:
  assumes "handler_inv uc h" and "ack_in_range (number_of_nodes h) c"
  shows "updateAcksTable uc c h =
    (if acked (count_ack c h) (quorum_of h) c then stabilizerWithAck uc (count_ack c h)
     else Some (count_ack c h))"
proof -
  have "acks_get h c = Some (acks h (node_id c) (call_id c))"
    using assms by (simp add: acks_get_def inv_defs ack_in_range_def)
  then show ?thesis
    by (simp add: updateAcksTable_def Let_def quorum_of_def acked_def count_ack_def)
qed

lemma updateAcksTable_progress:
  assumes "handler_inv uc h" and "ack_in_range (number_of_nodes h) c"
  shows "\<exists>h'. updateAcksTable uc c h = Some h' \<and> progress uc h h' \<and> held h' = held h"
proof -
  have inv: "handler_inv uc (count_ack c h)" using assms by (simp add: frame_simps)
  have "progress uc h (count_ack c h)" using assms by (simp add: progress_def frame_simps)
  with stabilizerWithAck_progress [OF inv] progress_trans show ?thesis
    unfolding updateAcksTable_eq [OF assms] by (auto simp: frame_simps)
qed

end
