(* ===== verification/Hamsou_Node.thy ===== *)
theory Hamsou_Node
  imports Hamsou_Stability
begin

text \<open>
  Exact characterisation of stabilisation, node failures, and a Hamsou node as a state
  machine: its events, its runs from \<open>setVars\<close>, and the facts that hold in every state it
  reaches.
\<close>

section \<open>What becomes stable\<close>

lemma stable_calls_log_insert:
  "handler_inv uc h \<Longrightarrow> stable_calls (log_insert uc c xs h) = stable_calls h"
  by (simp add: stable_calls_def log_insert_def inv_defs)

lemma stable_calls_retry:
  "handler_inv uc h \<Longrightarrow> stable_calls (retry uc c h) = stable_calls h"
  by (simp add: retry_def dequeue_def frame_simps log_remote_def stable_calls_log_insert)

lemma drain_queue_stable_calls:
  assumes "handler_inv uc h"
  shows "\<exists>h'. drain_queue uc h = Some h' \<and> stable_calls h' = stable_calls h"
  using drain_queue_rule [where P = "\<lambda>g. stable_calls g = stable_calls h", OF assms refl]
  by (auto simp: stable_calls_retry)

lemma drain_queue_empty: "priorityQueue h = [] \<Longrightarrow> drain_queue uc h = Some h"
  by (subst drain_queue.simps) simp

text \<open>
  The stabiliser moves exactly the maximal run of sufficiently acknowledged calls at the
  head of the unstable suffix into the stable prefix.
\<close>

lemma stabilizerWithAck_exact:
  assumes inv: "handler_inv uc h"
  shows "\<exists>h'. stabilizerWithAck uc h = Some h' \<and>
    stable_calls h' = stable_calls h
      @ takeWhile (acked h (quorum_of h)) (drop (stable_index h) (executionList h)) \<and>
    (priorityQueue h = [] \<longrightarrow> priorityQueue h' = [])"
proof (cases "length (executionList h) \<le> stable_index h")
  case True
  then show ?thesis by (simp add: stabilizerWithAck_def Let_def)
next
  case False
  let ?run = "takeWhile (acked h (quorum_of h)) (drop (stable_index h) (executionList h))"
  from stabilize_loop_inv [OF inv refl, of "quorum_of h" False]
  obtain g f where g: "stabilize_loop uc (quorum_of h)
        (drop (stable_index h) (executionList h)) False h = Some (g, f)"
      "handler_inv uc g" "executionList g = executionList h"
      "priorityQueue g = priorityQueue h" "stable_index g = stable_index h + length ?run" by auto
  have "?run = take (length ?run) (drop (stable_index h) (executionList h))"
    by (metis takeWhile_eq_take)
  then have sg: "stable_calls g = stable_calls h @ ?run"
    using g(3,5) by (simp add: stable_calls_def take_add)
  from drain_queue_stable_calls [OF g(2)] obtain h' where h': "drain_queue uc g = Some h'"
    "stable_calls h' = stable_calls g" by blast
  have "stabilizerWithAck uc h = Some (if f then h' else g)"
    using False g(1) h'(1) by (simp add: stabilizerWithAck_def Let_def quorum_of_def)
  moreover have "priorityQueue h = [] \<longrightarrow> priorityQueue (if f then h' else g) = []"
    using g(4) h'(1) drain_queue_empty [of g uc] by auto
  ultimately show ?thesis using sg h'(2) by auto
qed

section \<open>A node is declared dead\<close>

text \<open>The calls \<open>markNodeFailed\<close> forgets: of the dead node, acknowledged by nobody.\<close>

definition orphan :: "int \<Rightarrow> 'st handler \<Rightarrow> call \<Rightarrow> bool" where
  "orphan dead h c \<longleftrightarrow> node_id c = dead \<and> acks h dead (call_id c) = 0"

lemma drop_unacked_eq:
  assumes "shape_inv h" and "\<forall>c \<in> set cs. call_ok (number_of_nodes h) c"
  shows "drop_unacked dead h cs = Some (filter (\<lambda>c. \<not> orphan dead h c) cs)"
  using assms by (induction cs) (auto simp: acks_get_in_range orphan_def)

definition forget_orphans :: "int \<Rightarrow> 'st handler \<Rightarrow> 'st handler" where
  "forget_orphans dead h =
     (let l = stable_calls h
              @ filter (\<lambda>c. \<not> orphan dead h c) (drop (stable_index h) (executionList h))
      in h\<lparr>node_failed := (node_failed h)[nat (dead - 1) := True],
           executionList := l, current_index := length l\<rparr>)"

lemma calls_of_filter_le: "calls_of j (filter P xs) \<le> calls_of j xs"
  by (induction xs) (auto simp: calls_of_def)

lemma forget_orphans_progress:
  assumes inv: "handler_inv uc h"
  shows "progress uc h (forget_orphans dead h)"
proof -
  let ?l = "stable_calls h
    @ filter (\<lambda>c. \<not> orphan dead h c) (drop (stable_index h) (executionList h))"
  have s: "stable_index h \<le> length (executionList h)" using inv by (simp add: inv_defs)
  have le: "calls_of j ?l \<le> calls_of j (executionList h)" for j
    using calls_of_take_drop [of j "stable_index h" "executionList h"]
      calls_of_filter_le [of j "\<lambda>c. \<not> orphan dead h c" "drop (stable_index h) (executionList h)"]
    by (simp add: stable_calls_def)
  have cov: "\<forall>j. 1 \<le> j \<and> j \<le> int (number_of_nodes h) \<longrightarrow>
      int (calls_of j ?l) \<le> vector_clock h ! nat (j - 1)"
    using inv le unfolding inv_defs by (meson of_nat_le_iff order_trans)
  have ok: "\<forall>c \<in> set ?l. call_ok (number_of_nodes h) c"
    using inv by (auto simp: inv_defs stable_calls_def dest: in_set_takeD in_set_dropD)
  have "handler_inv uc (forget_orphans dead h)"
    using inv cov ok s unfolding inv_defs
    by (simp add: forget_orphans_def Let_def stable_calls_def del: calls_of_append)
  moreover have "extends h (forget_orphans dead h)"
    using s by (simp add: extends_def forget_orphans_def Let_def stable_calls_def)
  moreover have "suffix_ordered uc h \<Longrightarrow> suffix_ordered uc (forget_orphans dead h)"
    using s by (simp add: suffix_ordered_def forget_orphans_def Let_def stable_calls_def
        conflict_ordered_filter)
  ultimately show ?thesis by (simp add: progress_def)
qed

text \<open>One round of the forced drain.\<close>

definition force_one :: "'st usecase \<Rightarrow> call \<Rightarrow> 'st handler \<Rightarrow> 'st handler" where
  "force_one uc c h = queue_ack c (dequeue (log_remote uc c h))"

lemma force_one_progress:
  assumes inv: "handler_inv uc h" and q: "priorityQueue h = c # cs"
  shows "progress uc h (force_one uc c h)" "held (force_one uc c h) = held h"
    "length (priorityQueue (force_one uc c h)) = length cs"
proof -
  have ok: "call_ok (number_of_nodes h) c" using inv q by (simp add: inv_defs)
  have pq: "priorityQueue (log_remote uc c h) = c # cs" using q by (simp add: frame_simps)
  then have ne: "priorityQueue (log_remote uc c h) \<noteq> []" by simp
  show "progress uc h (force_one uc c h)"
    unfolding force_one_def
    by (intro queue_ack_progress dequeue_progress log_remote_progress inv ok ne)
  show "held (force_one uc c h) = held h"
    using dequeue_inv(3) [OF log_remote_inv(1) [OF inv ok] ne] log_remote_inv(3) [OF inv ok] pq
    by (simp add: force_one_def frame_simps)
  show "length (priorityQueue (force_one uc c h)) = length cs"
    using pq pq.length_pop [OF ne, of queue_less]
    by (simp add: force_one_def frame_simps dequeue_def)
qed

lemma force_drain_progress:
  assumes "handler_inv uc h"
  shows "\<exists>h'. force_drain uc h = Some h' \<and> progress uc h h' \<and> held h' = held h \<and>
    priorityQueue h' = []"
  using assms
proof (induction "length (priorityQueue h)" arbitrary: h rule: less_induct)
  case less
  show ?case
  proof (cases "priorityQueue h")
    case Nil
    then show ?thesis using less.prems by (subst force_drain.simps) (simp add: progress_refl)
  next
    case (Cons c cs)
    then have ok: "call_ok (number_of_nodes h) c" using less.prems by (simp add: inv_defs)
    note f = force_one_progress [OF less.prems Cons]
    have "force_drain uc h = force_drain uc (force_one uc c h)"
      using Cons insert_remote_eq [OF less.prems ok]
      by (subst force_drain.simps) (simp add: force_one_def dequeue_def log_remote_def)
    moreover from less.hyps [of "force_one uc c h"] f Cons obtain h' where
      "force_drain uc (force_one uc c h) = Some h'" "progress uc (force_one uc c h) h'"
      "held h' = held (force_one uc c h)" "priorityQueue h' = []"
      by (auto dest: progress_inv)
    ultimately show ?thesis using f progress_trans by auto
  qed
qed

lemma markNodeFailed_eq:
  assumes inv: "handler_inv uc h" and r: "1 \<le> dead" "dead \<le> int (number_of_nodes h)"
  shows "markNodeFailed uc dead h =
    (if node_failed h ! nat (dead - 1) then Some h
     else do { h2 \<leftarrow> stabilizerWithAck uc (forget_orphans dead h);
               h3 \<leftarrow> force_drain uc h2;
               stabilizerWithAck uc h3 })"
proof -
  have idx: "nat (dead - 1) < length (node_failed h)" "0 \<le> dead - 1"
    using inv r by (auto simp: inv_defs)
  let ?h = "h\<lparr>node_failed := (node_failed h)[nat (dead - 1) := True]\<rparr>"
  have "drop_unacked dead ?h (drop (stable_index h) (executionList h))
      = Some (filter (\<lambda>c. \<not> orphan dead ?h c) (drop (stable_index h) (executionList h)))"
    using inv by (intro drop_unacked_eq) (auto simp: inv_defs dest: in_set_dropD)
  moreover have "orphan dead ?h = orphan dead h" by (simp add: orphan_def fun_eq_iff)
  ultimately show ?thesis
    using idx inv
    by (simp add: markNodeFailed_def vget_def vset_def forget_orphans_def stable_calls_def
        Let_def inv_defs)
qed

lemma markNodeFailed_progress:
  assumes inv: "handler_inv uc h" and r: "1 \<le> dead" "dead \<le> int (number_of_nodes h)"
  shows "\<exists>h'. markNodeFailed uc dead h = Some h' \<and> progress uc h h' \<and>
    (if node_failed h ! nat (dead - 1) then h' = h
     else held h' = held (forget_orphans dead h) \<and> priorityQueue h' = [])"
proof (cases "node_failed h ! nat (dead - 1)")
  case True
  then show ?thesis using markNodeFailed_eq [OF assms] inv by (simp add: progress_refl)
next
  case False
  note p1 = forget_orphans_progress [OF inv, of dead]
  from stabilizerWithAck_progress [OF progress_inv [OF p1]] obtain h2 where
    h2: "stabilizerWithAck uc (forget_orphans dead h) = Some h2"
      "progress uc (forget_orphans dead h) h2" "held h2 = held (forget_orphans dead h)" by blast
  from force_drain_progress [OF progress_inv [OF h2(2)]] obtain h3 where
    h3: "force_drain uc h2 = Some h3" "progress uc h2 h3" "held h3 = held h2"
      "priorityQueue h3 = []" by blast
  from stabilizerWithAck_progress [OF progress_inv [OF h3(2)]]
    stabilizerWithAck_exact [OF progress_inv [OF h3(2)]] obtain h4 where
    h4: "stabilizerWithAck uc h3 = Some h4" "progress uc h3 h4" "held h4 = held h3"
      "priorityQueue h4 = []" using h3(4) by force
  have "progress uc h h4"
    using p1 h2(2) h3(2) h4(2) by (blast intro: progress_trans)
  then show ?thesis
    using False markNodeFailed_eq [OF assms] h2 h3 h4 by simp
qed

section \<open>The node as a state machine\<close>

text \<open>
  What can happen at a node: its main loop invokes a call, the receiver thread delivers a
  call, an acknowledgement or a heartbeat, and the monitor declares a node dead. Each
  handler entry point is one atomic step.
\<close>

datatype node_event =
    Invoke call
  | Deliver call
  | AckMsg call
  | Heartbeat int nat
  | NodeDown int

fun node_step :: "'st usecase \<Rightarrow> node_event \<Rightarrow> 'st handler \<Rightarrow> 'st handler option" where
  "node_step uc (Invoke c) h = map_option fst (localHandler uc c h)"
| "node_step uc (Deliver c) h = internalDownstreamExecute uc c h"
| "node_step uc (AckMsg c) h = updateAcksTable uc c h"
| "node_step uc (Heartbeat i now) h = updateHeartbeat i now h"
| "node_step uc (NodeDown i) h = markNodeFailed uc i h"

text \<open>
  The environment: workload files number their calls below the table width and carry the
  node's id, messages come from nodes of the group.
\<close>

fun event_ok :: "'st handler \<Rightarrow> node_event \<Rightarrow> bool" where
  "event_ok h (Invoke c) \<longleftrightarrow>
     node_id c = hnode_id h \<and> 0 \<le> call_id c \<and> call_id c < acks_columns"
| "event_ok h (Deliver c) \<longleftrightarrow> call_ok (number_of_nodes h) c"
| "event_ok h (AckMsg c) \<longleftrightarrow> ack_in_range (number_of_nodes h) c"
| "event_ok h (Heartbeat i now) \<longleftrightarrow> 1 \<le> i \<and> i \<le> int (number_of_nodes h)"
| "event_ok h (NodeDown i) \<longleftrightarrow> 1 \<le> i \<and> i \<le> int (number_of_nodes h)"

inductive node_reachable :: "'st usecase \<Rightarrow> 'st handler \<Rightarrow> bool" for uc where
  start: "1 \<le> me \<Longrightarrow> me \<le> int n \<Longrightarrow>
     node_reachable uc (setVars me n expected wp now (Handler_new uc))"
| step: "node_reachable uc h \<Longrightarrow> event_ok h e \<Longrightarrow> node_step uc e h = Some h' \<Longrightarrow>
     node_reachable uc h'"

lemma setVars_inv:
  "1 \<le> me \<Longrightarrow> me \<le> int n \<Longrightarrow> handler_inv uc (setVars me n expected wp now (Handler_new uc))"
  by (auto simp: setVars_def Handler_new_def inv_defs calls_of_def vresize_def nth_Cons'
      intro!: eq_refl [OF sym [OF nth_replicate]])

lemma updateHeartbeat_progress:
  assumes "handler_inv uc h" and "1 \<le> i" and "i \<le> int (number_of_nodes h)"
  shows "\<exists>h'. updateHeartbeat i now h = Some h' \<and> progress uc h h'"
  using assms
  by (auto simp: updateHeartbeat_def vset_def progress_def inv_defs extends_def stable_calls_def
      suffix_ordered_def)

lemma node_step_progress:
  assumes "handler_inv uc h" and "event_ok h e"
  shows "\<exists>h'. node_step uc e h = Some h' \<and> progress uc h h'"
proof (cases e)
  case (Invoke c)
  then show ?thesis using localHandler_progress [of uc h c] assms by auto
next
  case (Deliver c)
  then show ?thesis using internalDownstreamExecute_progress [of uc h c] assms by auto
next
  case (AckMsg c)
  then show ?thesis using updateAcksTable_progress [of uc h c] assms by auto
next
  case (Heartbeat i now)
  then show ?thesis using updateHeartbeat_progress [of uc h i now] assms by auto
next
  case (NodeDown i)
  then show ?thesis using markNodeFailed_progress [of uc h i] assms by auto
qed

lemma reachable_inv: "node_reachable uc h \<Longrightarrow> handler_inv uc h"
proof (induction rule: node_reachable.induct)
  case (start me n expected wp now)
  then show ?case by (rule setVars_inv)
next
  case (step h e h')
  then show ?case using node_step_progress progress_inv by fastforce
qed

lemma reachable_ordered:
  "node_reachable uc h \<Longrightarrow> conflict_resolution uc \<Longrightarrow> suffix_ordered uc h"
proof (induction rule: node_reachable.induct)
  case (start me n expected wp now)
  then show ?case by (simp add: suffix_ordered_def setVars_def Handler_new_def)
next
  case (step h e h')
  then obtain h'' where "node_step uc e h = Some h''" "progress uc h h''"
    using node_step_progress reachable_inv by blast
  with step show ?case by (simp add: progress_def)
qed

end
