(* ===== verification/Hamsou_Acks.thy ===== *)
theory Hamsou_Acks
  imports Hamsou_Node
begin

text \<open>
  What a Hamsou node acknowledges and counts: an operation that receives no acknowledgement
  leaves the table and the failure flags alone, the list of acknowledgements to broadcast
  names exactly the remote calls the node has executed, and without failures its vector
  clock counts the calls it has executed.
\<close>

section \<open>The log of acknowledgements\<close>

definition call_key :: "call \<Rightarrow> int \<times> int" where
  "call_key c = (node_id c, call_id c)"

definition remote_keys :: "'st handler \<Rightarrow> (int \<times> int) multiset" where
  "remote_keys h = image_mset call_key
     (filter_mset (\<lambda>c. node_id c \<noteq> hnode_id h) (mset (executionList h)))"

text \<open>
  One acknowledgement per executed remote call, no call of the node itself in its queue,
  and no negative count.
\<close>

definition ack_log_inv :: "'st handler \<Rightarrow> bool" where
  "ack_log_inv h \<longleftrightarrow>
     mset (map call_key (send_ack_call_list h)) = remote_keys h \<and>
     (\<forall>a \<in> set (send_ack_call_list h). ctype a = ''Ack'') \<and>
     (\<forall>c \<in> set (priorityQueue h). node_id c \<noteq> hnode_id h) \<and>
     (\<forall>a k. 0 \<le> acks h a k)"

text \<open>What an operation that counts no acknowledgement guarantees.\<close>

definition tracks :: "'st handler \<Rightarrow> 'st handler \<Rightarrow> bool" where
  "tracks h h' \<longleftrightarrow> acks h' = acks h \<and> node_failed h' = node_failed h \<and>
     hnode_id h' = hnode_id h \<and> prefix (send_ack_call_list h) (send_ack_call_list h') \<and>
     (ack_log_inv h \<longrightarrow> ack_log_inv h')"

lemma tracks_refl [simp]: "tracks h h"
  by (simp add: tracks_def)

lemma tracks_trans [trans]: "tracks h g \<Longrightarrow> tracks g k \<Longrightarrow> tracks h k"
  by (auto simp: tracks_def intro: prefix_order.trans)

lemma remote_keys_log_insert:
  assumes "mset rest = add_mset c (mset (drop (stable_index h) (executionList h)))"
  shows "remote_keys (log_insert uc c rest h) =
    (if node_id c = hnode_id h then remote_keys h else add_mset (call_key c) (remote_keys h))"
  using assms mset_take_drop [of "stable_index h" "executionList h"]
  by (simp add: remote_keys_def log_insert_def)

section \<open>The operations\<close>

lemma log_append_tracks:
  assumes "node_id c = hnode_id h"
  shows "tracks h (log_append uc c h)"
proof -
  have "remote_keys (log_append uc c h) = remote_keys h"
    unfolding log_append_def using assms by (simp add: remote_keys_log_insert)
  then show ?thesis
    by (simp add: tracks_def ack_log_inv_def) (simp add: log_append_def log_insert_def)
qed

lemma enqueue_tracks: "node_id c \<noteq> hnode_id h \<Longrightarrow> tracks h (enqueue c h)"
  by (auto simp: tracks_def ack_log_inv_def enqueue_def remote_keys_def pq.set_push)

lemma dequeue_tracks: "priorityQueue h \<noteq> [] \<Longrightarrow> tracks h (dequeue h)"
  using pq.set_pop_subset [of "priorityQueue h" queue_less]
  by (auto simp: tracks_def ack_log_inv_def dequeue_def remote_keys_def)

lemma execute_remote_tracks:
  assumes "node_id c \<noteq> hnode_id h"
  shows "tracks h (queue_ack c (log_remote uc c h))"
proof -
  have k: "remote_keys (queue_ack c (log_remote uc c h)) = add_mset (call_key c) (remote_keys h)"
    using assms remote_keys_log_insert [of "insert_scan (fastisreachableremote uc) c
        (drop (stable_index h) (executionList h))" c h uc]
    by (simp add: log_remote_def remote_keys_def queue_ack_def Let_def)
  show ?thesis
    unfolding tracks_def ack_log_inv_def k
    by (auto simp: log_remote_def log_insert_def queue_ack_def Let_def call_key_def)
qed

lemma retry_tracks:
  assumes "ack_log_inv h" and "priorityQueue h = c # cs"
  shows "tracks h (retry uc c h)"
proof -
  have "node_id c \<noteq> hnode_id h" using assms by (simp add: ack_log_inv_def)
  from execute_remote_tracks [OF this] have "tracks h (queue_ack c (log_remote uc c h))" .
  also have "tracks \<dots> (retry uc c h)"
    unfolding retry_def using assms(2) by (intro dequeue_tracks) (simp add: frame_simps)
  finally show ?thesis .
qed

lemma drain_queue_tracks:
  assumes "handler_inv uc h" and "ack_log_inv h"
  shows "\<exists>h'. drain_queue uc h = Some h' \<and> tracks h h'"
proof -
  have "\<exists>h'. drain_queue uc h = Some h' \<and> handler_inv uc h' \<and> tracks h h' \<and>
      (priorityQueue h' = [] \<or> must_wait uc (hd (priorityQueue h')) h')"
  proof (rule drain_queue_rule [OF assms(1)])
    show "tracks h h" by simp
  next
    fix g c cs
    assume "tracks h g" "priorityQueue g = c # cs"
    moreover from this have "ack_log_inv g" using assms(2) by (simp add: tracks_def)
    ultimately show "tracks h (retry uc c g)" using retry_tracks tracks_trans by blast
  qed
  then show ?thesis by blast
qed

lemma stabilized_tracks: "handler_inv uc h \<Longrightarrow> tracks h (stabilized uc c h)"
  by (simp add: tracks_def ack_log_inv_def remote_keys_def stabilized_def stabilize_call_def
      inv_defs)

lemma stabilize_loop_tracks:
  assumes "handler_inv uc h" and "drop (stable_index h) (executionList h) = cs"
    and "stabilize_loop uc q cs f h = Some (h', f')"
  shows "tracks h h'"
  using assms
proof (induction cs arbitrary: f h)
  case Nil
  then show ?case by simp
next
  case (Cons c cs)
  note s = stabilized_inv [OF Cons.prems(1,2)]
  have "drop (stable_index (stabilized uc c h)) (executionList (stabilized uc c h)) = cs"
    using Cons.prems(1,2) by (simp add: drop_Suc)
      (metis drop_Suc drop_eq_Nil list.sel(3) tl_drop)
  then have "tracks h h'" if "stabilize_loop uc q cs True (stabilized uc c h) = Some (h', f')"
    using Cons.IH [OF s(1) _ that] stabilized_tracks [OF Cons.prems(1)] tracks_trans by blast
  then show ?case
    using Cons.prems(3) stabilize_call_eq [OF Cons.prems(1), of c]
    by (auto simp: Option.bind_eq_Some_conv split: if_splits)
qed

lemma stabilizerWithAck_tracks:
  assumes inv: "handler_inv uc h" and log: "ack_log_inv h"
  shows "\<exists>h'. stabilizerWithAck uc h = Some h' \<and> tracks h h'"
proof (cases "length (executionList h) \<le> stable_index h")
  case True
  then show ?thesis by (simp add: stabilizerWithAck_def Let_def)
next
  case False
  from stabilize_loop_inv [OF inv refl, of "quorum_of h" False]
  obtain g f where g: "stabilize_loop uc (quorum_of h)
        (drop (stable_index h) (executionList h)) False h = Some (g, f)" "handler_inv uc g" by force
  have t: "tracks h g" by (rule stabilize_loop_tracks [OF inv refl g(1)])
  then have "ack_log_inv g" using log by (simp add: tracks_def)
  from drain_queue_tracks [OF g(2) this] obtain h' where
    h': "drain_queue uc g = Some h'" "tracks g h'" by blast
  have "stabilizerWithAck uc h = Some (if f then h' else g)"
    using False g(1) h'(1) by (simp add: stabilizerWithAck_def Let_def quorum_of_def)
  then show ?thesis using t h'(2) tracks_trans by auto
qed

section \<open>The events of a node without failures\<close>

lemma invoke_tracks:
  assumes "handler_inv uc h" and "node_id c = hnode_id h"
    and "localHandler uc c h = Some (h', r)"
  shows "tracks h h'"
  using assms log_append_tracks [of c h uc] by (auto simp: localHandler_eq split: if_splits)

lemma deliver_tracks:
  assumes inv: "handler_inv uc h" and log: "ack_log_inv h" and c: "call_ok (number_of_nodes h) c"
    and foreign: "node_id c \<noteq> hnode_id h" and e: "internalDownstreamExecute uc c h = Some h'"
  shows "tracks h h'"
proof -
  let ?g = "if must_wait uc c h then enqueue c h else queue_ack c (log_remote uc c h)"
  have t: "tracks h ?g" by (simp add: enqueue_tracks execute_remote_tracks foreign)
  have "handler_inv uc ?g"
    using enqueue_inv(1) [OF inv c] queue_ack_inv [OF log_remote_inv(1) [OF inv c]] by simp
  moreover have "ack_log_inv ?g" using t log by (simp add: tracks_def)
  ultimately obtain k where k: "drain_queue uc ?g = Some k" "tracks ?g k"
    using drain_queue_tracks by blast
  have "internalDownstreamExecute uc c h = Some k"
    using k(1)
    by (cases "must_wait uc c h")
      (simp_all add: internalDownstreamExecute_def remoteHandler_eq [OF inv c])
  then show ?thesis using e t k(2) tracks_trans by simp
qed

lemma count_ack_tracks: "ack_log_inv h \<Longrightarrow> ack_log_inv (count_ack c h)"
  by (simp add: ack_log_inv_def count_ack_def remote_keys_def)

lemma ack_tracks:
  assumes inv: "handler_inv uc h" and log: "ack_log_inv h"
    and c: "ack_in_range (number_of_nodes h) c" and e: "updateAcksTable uc c h = Some h'"
  shows "tracks (count_ack c h) h'"
proof -
  have "handler_inv uc (count_ack c h)" "ack_log_inv (count_ack c h)"
    using inv log by (simp_all add: frame_simps count_ack_tracks)
  from stabilizerWithAck_tracks [OF this] show ?thesis
    using e unfolding updateAcksTable_eq [OF inv c] by (auto split: if_splits)
qed

lemma setVars_ack_log: "ack_log_inv (setVars me n expected wp now (Handler_new uc))"
  by (simp add: ack_log_inv_def remote_keys_def setVars_def Handler_new_def)

text \<open>The events without failures.\<close>

fun is_failure :: "node_event \<Rightarrow> bool" where
  "is_failure (NodeDown i) = True"
| "is_failure (Invoke c) = False"
| "is_failure (Deliver c) = False"
| "is_failure (AckMsg c) = False"
| "is_failure (Heartbeat i now) = False"

section \<open>Properties of a handler that its elementary updates keep\<close>

text \<open>
  \<open>P\<close> is a property of the handler, \<open>Q\<close> what the calls it is handed must satisfy for it. The
  assumptions are about the elementary updates the operations consist of; the lemmas carry
  the property through every operation.
\<close>

locale handler_property =
  fixes uc :: "'st usecase" and P :: "'st handler \<Rightarrow> bool" and Q :: "call \<Rightarrow> bool"
  assumes keeps_append: "\<And>h c. handler_inv uc h \<Longrightarrow> P h \<Longrightarrow> Q c \<Longrightarrow> node_id c = hnode_id h \<Longrightarrow>
      call_ok (number_of_nodes h) (stamp h c) \<Longrightarrow> P (log_append uc c h)"
    and keeps_remote: "\<And>h c. handler_inv uc h \<Longrightarrow> P h \<Longrightarrow> Q c \<Longrightarrow> call_ok (number_of_nodes h) c \<Longrightarrow>
      P (queue_ack c (log_remote uc c h))"
    and keeps_enqueue: "\<And>h c. P h \<Longrightarrow> Q c \<Longrightarrow> P (enqueue c h)"
    and keeps_dequeue: "\<And>h. P h \<Longrightarrow> priorityQueue h \<noteq> [] \<Longrightarrow> P (dequeue h)"
    and queued: "\<And>h c. P h \<Longrightarrow> c \<in> set (priorityQueue h) \<Longrightarrow> Q c"
    and keeps_stabilized: "\<And>h c. handler_inv uc h \<Longrightarrow> P h \<Longrightarrow> P (stabilized uc c h)"
    and keeps_count: "\<And>h c. P h \<Longrightarrow> P (count_ack c h)"
    and keeps_heartbeat: "\<And>h t. P h \<Longrightarrow> P (h\<lparr>last_heartbeat_time := t\<rparr>)"
begin

lemma drain_keeps:
  assumes "handler_inv uc h" and "P h"
  shows "\<exists>h'. drain_queue uc h = Some h' \<and> P h'"
proof -
  have "\<exists>h'. drain_queue uc h = Some h' \<and> handler_inv uc h' \<and> P h' \<and>
      (priorityQueue h' = [] \<or> must_wait uc (hd (priorityQueue h')) h')"
  proof (rule drain_queue_rule [where P = P, OF assms])
    fix g c cs
    assume g: "handler_inv uc g" "P g" "priorityQueue g = c # cs"
    then have "call_ok (number_of_nodes g) c" "Q c" by (auto simp: inv_defs intro: queued)
    with g have "P (queue_ack c (log_remote uc c g))" by (intro keeps_remote)
    then show "P (retry uc c g)"
      unfolding retry_def using g(3) by (intro keeps_dequeue) (simp_all add: frame_simps)
  qed
  then show ?thesis by blast
qed

lemma loop_keeps:
  assumes "handler_inv uc h" and "drop (stable_index h) (executionList h) = cs"
    and "stabilize_loop uc q cs f h = Some (h', f')" and "P h"
  shows "P h'"
  using assms
proof (induction cs arbitrary: f h)
  case Nil
  then show ?case by simp
next
  case (Cons c cs)
  note s = stabilized_inv [OF Cons.prems(1,2)]
  have "drop (stable_index (stabilized uc c h)) (executionList (stabilized uc c h)) = cs"
    using Cons.prems(1,2) by (simp add: drop_Suc)
      (metis drop_Suc drop_eq_Nil list.sel(3) tl_drop)
  then have "P h'" if "stabilize_loop uc q cs True (stabilized uc c h) = Some (h', f')"
    using Cons.IH [OF s(1) _ that] keeps_stabilized [OF Cons.prems(1,4)] by blast
  then show ?case
    using Cons.prems(3,4) stabilize_call_eq [OF Cons.prems(1), of c]
    by (auto simp: Option.bind_eq_Some_conv split: if_splits)
qed

lemma stabilizer_step_keeps:
  assumes inv: "handler_inv uc h" and P: "P h" and h': "stabilizerWithAck uc h = Some h'"
  shows "P h'"
proof (cases "length (executionList h) \<le> stable_index h")
  case True
  then show ?thesis using P h' by (simp add: stabilizerWithAck_def Let_def)
next
  case False
  from stabilize_loop_inv [OF inv refl, of "quorum_of h" False]
  obtain g f where g: "stabilize_loop uc (quorum_of h)
        (drop (stable_index h) (executionList h)) False h = Some (g, f)" "handler_inv uc g" by force
  have pg: "P g" using loop_keeps [OF inv refl g(1) P] .
  from drain_keeps [OF g(2) pg] obtain k where k: "drain_queue uc g = Some k" "P k" by blast
  have "stabilizerWithAck uc h = Some (if f then k else g)"
    using False g(1) k(1) by (simp add: stabilizerWithAck_def Let_def quorum_of_def)
  then show ?thesis using pg k(2) h' by simp
qed

lemma deliver_keeps:
  assumes inv: "handler_inv uc h" and P: "P h" and c: "call_ok (number_of_nodes h) c" "Q c"
    and h': "internalDownstreamExecute uc c h = Some h'"
  shows "P h'"
proof -
  let ?g = "if must_wait uc c h then enqueue c h else queue_ack c (log_remote uc c h)"
  have "P ?g" using keeps_enqueue [OF P c(2)] keeps_remote [OF inv P c(2,1)] by simp
  moreover have "handler_inv uc ?g"
    using enqueue_inv(1) [OF inv c(1)] queue_ack_inv [OF log_remote_inv(1) [OF inv c(1)]] by simp
  ultimately obtain k where k: "drain_queue uc ?g = Some k" "P k" using drain_keeps by blast
  have "internalDownstreamExecute uc c h = Some k"
    using k(1)
    by (cases "must_wait uc c h")
      (simp_all add: internalDownstreamExecute_def remoteHandler_eq [OF inv c(1)])
  then show ?thesis using h' k(2) by simp
qed

lemma node_step_keeps:
  assumes inv: "handler_inv uc h" and P: "P h" and ok: "event_ok h e"
    and h': "node_step uc e h = Some h'" and e: "\<not> is_failure e"
    and Q: "\<And>c. e = Invoke c \<or> e = Deliver c \<Longrightarrow> Q c"
  shows "P h'"
proof (cases e)
  case (Invoke c)
  then have c: "node_id c = hnode_id h" "0 \<le> call_id c" "call_id c < acks_columns" using ok by simp_all
  then have "call_ok (number_of_nodes h) (stamp h c)"
    using inv by (intro stamp_ok) (simp_all add: handler_inv_def)
  from keeps_append [OF inv P _ c(1) this] Q [of c] show ?thesis
    using h' P Invoke localHandler_eq [OF inv c(1)] by (auto split: if_splits)
next
  case (Deliver c)
  then show ?thesis using deliver_keeps [OF inv P, of c] ok h' Q [of c] by simp
next
  case (AckMsg c)
  then have c: "ack_in_range (number_of_nodes h) c" using ok by simp
  have "handler_inv uc (count_ack c h)" using inv by (simp add: frame_simps)
  from stabilizer_step_keeps [OF this keeps_count [OF P]] show ?thesis
    using h' keeps_count [OF P] AckMsg updateAcksTable_eq [OF inv c] by (auto split: if_splits)
next
  case (Heartbeat i now)
  then show ?thesis using h' keeps_heartbeat [OF P]
    by (auto simp: updateHeartbeat_def Option.bind_eq_Some_conv)
next
  case (NodeDown i)
  then show ?thesis using e by simp
qed

end

section \<open>Vector clocks count\<close>

text \<open>Without failures the clock of a node is exactly the number of calls it has executed.\<close>

definition clock_exact :: "'st handler \<Rightarrow> bool" where
  "clock_exact h \<longleftrightarrow> (\<forall>j. 1 \<le> j \<longrightarrow> j \<le> int (number_of_nodes h) \<longrightarrow>
     vector_clock h ! nat (j - 1) = int (calls_of j (executionList h)))"

lemma log_insert_clock:
  assumes inv: "handler_inv uc h" and c: "call_ok (number_of_nodes h) c"
    and rest: "mset rest = add_mset c (mset (drop (stable_index h) (executionList h)))"
    and ex: "clock_exact h"
  shows "clock_exact (log_insert uc c rest h)"
proof -
  have "calls_of j rest = calls_of j (c # drop (stable_index h) (executionList h))" for j
    using rest by (intro calls_of_mset) simp
  then have count: "calls_of j (take (stable_index h) (executionList h) @ rest)
      = calls_of j (executionList h) + (if node_id c = j then 1 else 0)" for j
    using calls_of_take_drop [of j "stable_index h" "executionList h"] by (simp add: calls_of_def)
  have len: "length (vector_clock h) = number_of_nodes h" using inv by (simp add: inv_defs)
  show ?thesis
    unfolding clock_exact_def
  proof (intro allI impI)
    fix j
    assume j: "1 \<le> j" "j \<le> int (number_of_nodes (log_insert uc c rest h))"
    then have j': "1 \<le> j" "j \<le> int (number_of_nodes h)" by (simp_all add: log_insert_def)
    then have "vector_clock h ! nat (j - 1) = int (calls_of j (executionList h))"
      using ex by (simp add: clock_exact_def)
    then show "vector_clock (log_insert uc c rest h) ! nat (j - 1)
        = int (calls_of j (executionList (log_insert uc c rest h)))"
      using j' c len count [of j]
      by (auto simp: log_insert_def call_ok_def nth_list_update)
  qed
qed

lemma clock_frame [simp]:
  "clock_exact (queue_ack c h) = clock_exact h" "clock_exact (enqueue c h) = clock_exact h"
  "clock_exact (dequeue h) = clock_exact h" "clock_exact (count_ack c h) = clock_exact h"
  "clock_exact (h\<lparr>last_heartbeat_time := t\<rparr>) = clock_exact h"
  by (simp_all add: clock_exact_def queue_ack_def Let_def enqueue_def dequeue_def count_ack_def)

interpretation clock: handler_property uc clock_exact "\<lambda>c. True" for uc :: "'st usecase"
proof unfold_locales
  fix h :: "'st handler" and c
  assume h: "handler_inv uc h" "clock_exact h"
  show "clock_exact (log_append uc c h)" if "call_ok (number_of_nodes h) (stamp h c)"
    unfolding log_append_def using log_insert_clock [OF h(1) that _ h(2)] by simp
  show "clock_exact (queue_ack c (log_remote uc c h))" if "call_ok (number_of_nodes h) c"
    using log_insert_clock [OF h(1) that _ h(2)] by (simp add: log_remote_def)
  show "clock_exact (stabilized uc c h)"
    using h by (simp add: clock_exact_def stabilized_def stabilize_call_def inv_defs)
qed simp_all

lemma setVars_clock: "clock_exact (setVars me n expected wp now (Handler_new uc))"
  by (auto simp: clock_exact_def setVars_def Handler_new_def calls_of_def vresize_def)

end
