(* ===== verification/Bench_File.thy ===== *)
theory Bench_File
  imports Replicated_Object
begin

text \<open>
  The workload files and their reader. Every use-case class has a \<open>readBenchFile\<close> with the
  same loop; the classes differ in the table from operation numbers to method names and in
  the operands they parse. This theory models the part of the C++ library the loop uses
  (\<open>std::getline\<close>, \<open>operator>>\<close> on \<open>int\<close>, \<open>std::stoi\<close>), the shared loop, and the printing
  the workload generators do, with the round trip between the two.
\<close>

section \<open>Streams\<close>

datatype bench_error = Invalid_argument | Out_of_range | Uninitialised_read

record sstream =
  sbuf :: string
  eofbit :: bool
  failbit :: bool

definition istringstream :: "string \<Rightarrow> sstream" where
  "istringstream s = \<lparr>sbuf = s, eofbit = False, failbit = False\<rparr>"

definition good :: "sstream \<Rightarrow> bool" where
  "good iss \<longleftrightarrow> \<not> eofbit iss \<and> \<not> failbit iss"

text \<open>\<open>isspace\<close> in the default locale: blank and \<open>\t \n \v \f \r\<close>.\<close>

definition is_space :: "char \<Rightarrow> bool" where
  "is_space c \<longleftrightarrow> (let k = of_char c :: nat in k = 32 \<or> 9 \<le> k \<and> k \<le> 13)"

definition is_digit :: "char \<Rightarrow> bool" where
  "is_digit c \<longleftrightarrow> (let k = of_char c :: nat in 48 \<le> k \<and> k \<le> 57)"

definition digit_value :: "char \<Rightarrow> int" where
  "digit_value c = of_char c - 48"

definition digits_value :: "string \<Rightarrow> int" where
  "digits_value ds = fold (\<lambda>c v. v * 10 + digit_value c) ds 0"

text \<open>An optional sign and a run of digits; \<open>None\<close> when there is no digit.\<close>

definition scan_sign :: "string \<Rightarrow> int \<times> string" where
  "scan_sign s = (case s of
     [] \<Rightarrow> (1, [])
   | c # cs \<Rightarrow> if of_char c = (45::nat) then (-1, cs)
               else if of_char c = (43::nat) then (1, cs) else (1, s))"

definition scan_int :: "string \<Rightarrow> int option \<times> string" where
  "scan_int s =
     (let (sgn, r) = scan_sign s; ds = takeWhile is_digit r
      in (if ds = [] then None else Some (sgn * digits_value ds), dropWhile is_digit r))"

definition clamp32 :: "int \<Rightarrow> int" where
  "clamp32 v = (if v < - (2 ^ 31) then - (2 ^ 31) else if 2 ^ 31 \<le> v then 2 ^ 31 - 1 else v)"

text \<open>
  \<open>iss >> x\<close>: the value stored into \<open>x\<close>, \<open>None\<close> when \<open>x\<close> keeps its value because the stream
  is not good or has only blanks left. Without digits it stores 0, out of range the
  nearest \<open>int\<close>; both set \<open>failbit\<close>.
\<close>

definition extract_int :: "sstream \<Rightarrow> sstream \<times> int option" where
  "extract_int iss =
     (if \<not> good iss then (iss\<lparr>failbit := True\<rparr>, None)
      else let s = dropWhile is_space (sbuf iss) in
        if s = [] then (\<lparr>sbuf = [], eofbit = True, failbit = True\<rparr>, None)
        else case scan_int s of
            (None, r) \<Rightarrow> (\<lparr>sbuf = r, eofbit = (r = []), failbit = True\<rparr>, Some 0)
          | (Some v, r) \<Rightarrow>
              (\<lparr>sbuf = r, eofbit = (r = []), failbit = (\<not> int32 v)\<rparr>, Some (clamp32 v)))"

text \<open>\<open>iss >> x\<close> for a variable that holds \<open>x\<close>.\<close>

definition extract_into :: "sstream \<Rightarrow> int \<Rightarrow> sstream \<times> int" where
  "extract_into iss x =
     (case extract_int iss of (iss', None) \<Rightarrow> (iss', x) | (iss', Some v) \<Rightarrow> (iss', v))"

text \<open>\<open>std::getline(iss, temp, d)\<close> for an empty \<open>temp\<close>.\<close>

definition getline_delim :: "nat \<Rightarrow> sstream \<Rightarrow> sstream \<times> string" where
  "getline_delim d iss =
     (if \<not> good iss then (iss\<lparr>failbit := True\<rparr>, [])
      else let w = takeWhile (\<lambda>c. of_char c \<noteq> d) (sbuf iss);
               r = dropWhile (\<lambda>c. of_char c \<noteq> d) (sbuf iss) in
        case r of
          [] \<Rightarrow> (\<lparr>sbuf = [], eofbit = True, failbit = (w = [])\<rparr>, w)
        | _ # r' \<Rightarrow> (iss\<lparr>sbuf := r'\<rparr>, w))"

definition stoi :: "string \<Rightarrow> bench_error + int" where
  "stoi s = (case fst (scan_int (dropWhile is_space s)) of
     None \<Rightarrow> Inl Invalid_argument
   | Some v \<Rightarrow> if int32 v then Inr v else Inl Out_of_range)"

text \<open>The lines \<open>std::getline\<close> returns on a file: a last line may lack its newline.\<close>

fun file_lines_acc :: "string \<Rightarrow> string \<Rightarrow> string list" where
  "file_lines_acc cur [] = (if cur = [] then [] else [cur])"
| "file_lines_acc cur (c # cs) =
     (if of_char c = (10::nat) then cur # file_lines_acc [] cs
      else file_lines_acc (cur @ [c]) cs)"

definition file_lines :: "string \<Rightarrow> string list" where
  "file_lines = file_lines_acc []"

section \<open>The reader\<close>

text \<open>
  The loop over the lines after the first. \<open>call\<close> is the reader's by-value parameter: it is
  reused for every line, so operands a line does not set keep the value of an earlier one.
  \<open>tmp_op\<close> is not initialised: a blank line reads it before it is set.
\<close>

fun bench_loop ::
  "(int \<Rightarrow> string) \<Rightarrow> (sstream \<Rightarrow> call \<Rightarrow> bench_error + call) \<Rightarrow> int \<Rightarrow>
     string list \<Rightarrow> int \<Rightarrow> call \<Rightarrow> call list \<Rightarrow> bench_error + call list" where
  "bench_loop to_str operands node [] counter c cs = Inr cs"
| "bench_loop to_str operands node (line # lines) counter c cs =
     (case extract_int (istringstream line) of
        (iss, None) \<Rightarrow> Inl Uninitialised_read
      | (iss, Some tmp_op) \<Rightarrow>
          (let c1 = c\<lparr>ctype := to_str tmp_op\<rparr> in
           if ctype c1 \<noteq> ''Read''
           then (case operands iss (c1\<lparr>call_id := counter + 1\<rparr>) of
                   Inl e \<Rightarrow> Inl e
                 | Inr c2 \<Rightarrow>
                     (let c3 = c2\<lparr>node_id := node, stable := False\<rparr>
                      in bench_loop to_str operands node lines (counter + 1) c3 (cs @ [c3])))
           else (let c3 = c1\<lparr>node_id := node, stable := False\<rparr>
                 in bench_loop to_str operands node lines counter c3 (cs @ [c3]))))"

text \<open>
  The whole reader: a missing file changes nothing, the first line is \<open>#\<close> and the number
  of calls the node will see.
\<close>

definition read_bench ::
  "(int \<Rightarrow> string) \<Rightarrow> (sstream \<Rightarrow> call \<Rightarrow> bench_error + call) \<Rightarrow>
     string option \<Rightarrow> int \<Rightarrow> int \<Rightarrow> call \<Rightarrow> call list \<Rightarrow> bench_error + (int \<times> call list)" where
  "read_bench to_str operands infile expected node c cs =
     (case infile of
        None \<Rightarrow> Inr (expected, cs)
      | Some content \<Rightarrow>
          (case file_lines content of
             [] \<Rightarrow> Inr (expected, cs)
           | line # lines \<Rightarrow>
               (if line = [] then Inl Out_of_range
                else case stoi (tl line) of
                    Inl e \<Rightarrow> Inl e
                  | Inr n \<Rightarrow>
                      (case bench_loop to_str operands node lines 0 c cs of
                         Inl e \<Rightarrow> Inl e
                       | Inr cs' \<Rightarrow> Inr (n, cs')))))"

text \<open>\<open>iss >> call.value1; call.value2 = 0;\<close>, and \<open>p-q\<close> pairs read by \<open>getline\<close> and \<open>stoi\<close>.\<close>

definition read_single :: "sstream \<Rightarrow> call \<Rightarrow> bench_error + call" where
  "read_single iss c =
     (let (iss', v) = extract_into iss (value1 c) in Inr (c\<lparr>value1 := v, value2 := 0\<rparr>))"

definition read_pair :: "sstream \<Rightarrow> call \<Rightarrow> bench_error + call" where
  "read_pair iss c =
     (let (iss1, temp) = getline_delim 45 iss in
      case stoi temp of
        Inl e \<Rightarrow> Inl e
      | Inr v1 \<Rightarrow>
          (let (iss2, v2) = extract_into iss1 (value2 c)
           in Inr (c\<lparr>value1 := v1, value2 := v2\<rparr>)))"

section \<open>Numbering of the calls read\<close>

text \<open>
  Operand readers keep the number and the method name the loop has set.
\<close>

definition keeps_header :: "(sstream \<Rightarrow> call \<Rightarrow> bench_error + call) \<Rightarrow> bool" where
  "keeps_header operands \<longleftrightarrow>
     (\<forall>iss c c'. operands iss c = Inr c' \<longrightarrow>
        call_id c' = call_id c \<and> ctype c' = ctype c \<and> call_vector_clock c' = call_vector_clock c)"

lemma keeps_header_single [simp]: "keeps_header read_single"
  by (auto simp: keeps_header_def read_single_def split: prod.splits)

lemma keeps_header_pair [simp]: "keeps_header read_pair"
  by (auto simp: keeps_header_def read_pair_def split: prod.splits sum.splits)

lemma keeps_header_if [simp]:
  "keeps_header f \<Longrightarrow> keeps_header g \<Longrightarrow> keeps_header (\<lambda>iss c. if P c then f iss c else g iss c)"
  by (auto simp: keeps_header_def)

lemma keeps_header_Inr [simp]: "keeps_header (\<lambda>iss. Inr)"
  by (simp add: keeps_header_def)

text \<open>The updates among some calls (every call that is not a read).\<close>

definition updates :: "call list \<Rightarrow> call list" where
  "updates cs = filter (\<lambda>c. ctype c \<noteq> ''Read'') cs"

lemma updates_simps [simp]:
  "updates [] = []"
  "updates (xs @ ys) = updates xs @ updates ys"
  "updates (c # cs) = (if ctype c \<noteq> ''Read'' then c # updates cs else updates cs)"
  by (simp_all add: updates_def)

lemma numbered_from_next:
  "map (\<lambda>i. k + int i) [1..<Suc (Suc m)] = (k + 1) # map (\<lambda>i. k + 1 + int i) [1..<Suc m]"
proof -
  have "[1..<Suc (Suc m)] = 1 # map Suc [1..<Suc m]"
    by (simp only: map_Suc_upt) (simp add: upt_conv_Cons del: upt_Suc)
  then show ?thesis by (simp add: algebra_simps del: upt_Suc)
qed

lemma bench_loop_numbers:
  assumes "keeps_header operands"
    and "bench_loop to_str operands node lines k c cs = Inr cs'"
  shows "\<exists>ds. cs' = cs @ ds \<and> length ds = length lines \<and>
     (\<forall>d \<in> set ds. node_id d = node \<and> \<not> stable d \<and>
        call_vector_clock d = call_vector_clock c) \<and>
     map call_id (updates ds) = map (\<lambda>i. k + int i) [1..<Suc (length (updates ds))]"
  using assms(2)
proof (induction lines arbitrary: k c cs)
  case Nil
  then show ?case by simp
next
  case (Cons line lines)
  obtain iss tmp_op where ex: "extract_int (istringstream line) = (iss, Some tmp_op)"
    using Cons.prems by (auto split: prod.splits option.splits)
  let ?c1 = "c\<lparr>ctype := to_str tmp_op\<rparr>"
  show ?case
  proof (cases "to_str tmp_op = ''Read''")
    case True
    let ?c3 = "?c1\<lparr>node_id := node, stable := False\<rparr>"
    have "bench_loop to_str operands node lines k ?c3 (cs @ [?c3]) = Inr cs'"
      using Cons.prems ex True by (simp add: Let_def)
    from Cons.IH [OF this] obtain ds where
      "cs' = (cs @ [?c3]) @ ds" "length ds = length lines"
      "\<forall>d \<in> set ds. node_id d = node \<and> \<not> stable d \<and>
        call_vector_clock d = call_vector_clock ?c3"
      "map call_id (updates ds) = map (\<lambda>i. k + int i) [1..<Suc (length (updates ds))]" by blast
    then show ?thesis using True by (intro exI [of _ "?c3 # ds"]) simp
  next
    case False
    then obtain c2 where c2: "operands iss (?c1\<lparr>call_id := k + 1\<rparr>) = Inr c2"
      using Cons.prems ex by (auto simp: Let_def split: sum.splits)
    let ?c3 = "c2\<lparr>node_id := node, stable := False\<rparr>"
    have keep: "call_id c2 = k + 1" "ctype c2 = to_str tmp_op"
      "call_vector_clock c2 = call_vector_clock c"
      using c2 assms(1) by (fastforce simp: keeps_header_def)+
    have "bench_loop to_str operands node lines (k + 1) ?c3 (cs @ [?c3]) = Inr cs'"
      using Cons.prems ex False c2 by (simp add: Let_def)
    from Cons.IH [OF this] obtain ds where
      ds: "cs' = (cs @ [?c3]) @ ds" "length ds = length lines"
      "\<forall>d \<in> set ds. node_id d = node \<and> \<not> stable d \<and>
        call_vector_clock d = call_vector_clock ?c3"
      "map call_id (updates ds) = map (\<lambda>i. k + 1 + int i) [1..<Suc (length (updates ds))]"
      by blast
    with ds keep False show ?thesis
      using numbered_from_next [of k] by (intro exI [of _ "?c3 # ds"]) (simp del: upt_Suc)
  qed
qed

section \<open>Printing numbers and reading them back\<close>

text \<open>\<open>std::to_string\<close>\<close>

fun nat_decimal :: "nat \<Rightarrow> string" where
  "nat_decimal n =
     (if n < 10 then [char_of (48 + n)] else nat_decimal (n div 10) @ [char_of (48 + n mod 10)])"

declare nat_decimal.simps [simp del]

definition to_string :: "int \<Rightarrow> string" where
  "to_string i = (if i < 0 then char_of (45::nat) # nat_decimal (nat (- i)) else nat_decimal (nat i))"

lemma of_char_digit: "n < 10 \<Longrightarrow> of_char (char_of (48 + n) :: char) = (48 + n :: nat)"
  by (simp add: of_char_of)

lemma is_digit_char: "n < 10 \<Longrightarrow> is_digit (char_of (48 + n :: nat))"
  by (simp add: is_digit_def Let_def of_char_digit)

lemma digit_value_char: "n < 10 \<Longrightarrow> digit_value (char_of (48 + n :: nat)) = int n"
proof -
  assume "n < 10"
  then have "of_nat (of_char (char_of (48 + n) :: char)) = int (48 + n)"
    using of_char_digit by metis
  then show ?thesis
    unfolding digit_value_def of_nat_of_char by simp
qed

lemma nat_decimal_digits: "list_all is_digit (nat_decimal n)"
proof (induction n rule: nat_decimal.induct)
  case (1 n)
  then show ?case
    by (subst nat_decimal.simps) (auto simp: is_digit_char)
qed

lemma nat_decimal_nonempty: "nat_decimal n \<noteq> []"
  by (subst nat_decimal.simps) simp

lemma digits_value_snoc: "digits_value (ds @ [d]) = digits_value ds * 10 + digit_value d"
  by (simp add: digits_value_def)

lemma nat_decimal_value: "digits_value (nat_decimal n) = int n"
proof (induction n rule: nat_decimal.induct)
  case (1 n)
  show ?case
  proof (cases "n < 10")
    case True
    then have "nat_decimal n = [] @ [char_of (48 + n)]" by (simp add: nat_decimal.simps)
    then show ?thesis using digit_value_char [OF True]
      by (simp only: digits_value_snoc) (simp add: digits_value_def)
  next
    case False
    then have "nat_decimal n = nat_decimal (n div 10) @ [char_of (48 + n mod 10)]"
      by (simp add: nat_decimal.simps)
    moreover have "digit_value (char_of (48 + n mod 10)) = int (n mod 10)"
      by (rule digit_value_char) simp
    ultimately have "digits_value (nat_decimal n) = int (n div 10) * 10 + int (n mod 10)"
      using 1 [OF False] by (simp only: digits_value_snoc)
    also have "\<dots> = int n" by (metis of_nat_add of_nat_mult of_nat_numeral div_mult_mod_eq)
    finally show ?thesis .
  qed
qed

text \<open>A text that does not continue a number.\<close>

definition ends_number :: "string \<Rightarrow> bool" where
  "ends_number s \<longleftrightarrow> (case s of [] \<Rightarrow> True | c # _ \<Rightarrow> \<not> is_digit c)"

lemma takeWhile_run:
  "list_all P xs \<Longrightarrow> (case ys of [] \<Rightarrow> True | y # _ \<Rightarrow> \<not> P y) \<Longrightarrow>
     takeWhile P (xs @ ys) = xs \<and> dropWhile P (xs @ ys) = ys"
  by (induction xs) (auto split: list.splits)

lemma nat_decimal_hd:
  obtains c cs where "nat_decimal n = c # cs" and "is_digit c"
  using nat_decimal_nonempty [of n] nat_decimal_digits [of n] by (cases "nat_decimal n") auto

lemma scan_to_string:
  assumes "ends_number r"
  shows "scan_int (to_string i @ r) = (Some i, r)"
proof -
  have run: "takeWhile is_digit (nat_decimal m @ r) = nat_decimal m"
    "dropWhile is_digit (nat_decimal m @ r) = r" for m
    using takeWhile_run [OF nat_decimal_digits, of r m] assms
    by (auto simp: ends_number_def split: list.splits)
  have minus: "of_char (char_of (45::nat) :: char) = (45::nat)" by (simp add: of_char_of)
  show ?thesis
  proof (cases "i < 0")
    case True
    then show ?thesis
      by (simp add: to_string_def scan_int_def scan_sign_def minus run nat_decimal_value
          nat_decimal_nonempty)
  next
    case False
    obtain c cs where c: "nat_decimal (nat i) = c # cs" "is_digit c" by (rule nat_decimal_hd)
    then have "scan_sign (nat_decimal (nat i) @ r) = (1, nat_decimal (nat i) @ r)"
      by (auto simp: scan_sign_def is_digit_def Let_def)
    then show ?thesis using False
      by (simp add: to_string_def scan_int_def run nat_decimal_value nat_decimal_nonempty)
  qed
qed

lemma to_string_hd: "\<exists>c cs. to_string i = c # cs \<and> \<not> is_space c"
proof -
  obtain c cs where "nat_decimal (nat i) = c # cs" "is_digit c" by (rule nat_decimal_hd)
  then show ?thesis by (auto simp: to_string_def is_space_def is_digit_def Let_def of_char_of)
qed

lemma skip_to_string: "dropWhile is_space (to_string i @ r) = to_string i @ r"
  using to_string_hd [of i] by auto

lemma stoi_to_string: "int32 i \<Longrightarrow> stoi (to_string i) = Inr i"
  using scan_to_string [of "[]" i] skip_to_string [of i "[]"]
  by (simp add: stoi_def ends_number_def)

text \<open>Reading a printed number, after any blanks.\<close>

lemma extract_to_string:
  assumes "int32 i" and "ends_number r" and "list_all is_space ws"
  shows "extract_int \<lparr>sbuf = ws @ to_string i @ r, eofbit = False, failbit = False\<rparr>
     = (\<lparr>sbuf = r, eofbit = (r = []), failbit = False\<rparr>, Some i)"
proof -
  have "dropWhile is_space (ws @ to_string i @ r) = to_string i @ r"
    using assms(3) by (induction ws) (simp_all add: skip_to_string)
  moreover have "to_string i @ r \<noteq> []" using to_string_hd [of i] by auto
  moreover have "clamp32 i = i" using assms(1) by (simp add: clamp32_def int32_def)
  ultimately show ?thesis using assms(1) scan_to_string [OF assms(2), of i]
    by (simp add: extract_int_def good_def)
qed

section \<open>Workload lines\<close>

text \<open>
  The strings the workload generators push: \<open>"0 " + id\<close>, \<open>"2 " + e_id + "-" + p_id\<close> and
  \<open>"5"\<close>, and the file \<open>outfile << c << std::endl\<close> writes.
\<close>

datatype bench_op =
    Op_single int int
  | Op_pair int int int
  | Op_plain int

fun bench_line :: "bench_op \<Rightarrow> string" where
  "bench_line (Op_single op v) = to_string op @ char_of (32::nat) # to_string v"
| "bench_line (Op_pair op p q) =
     to_string op @ char_of (32::nat) # to_string p @ char_of (45::nat) # to_string q"
| "bench_line (Op_plain op) = to_string op"

definition bench_text :: "int \<Rightarrow> bench_op list \<Rightarrow> string" where
  "bench_text n ops =
     concat (map (\<lambda>l. l @ [char_of (10::nat)])
       ((char_of (35::nat) # to_string n) # map bench_line ops))"

text \<open>The operands an operation carries; reads and unknown lines keep those of the call before.\<close>

fun set_operands :: "bench_op \<Rightarrow> call \<Rightarrow> call" where
  "set_operands (Op_single op v) c = c\<lparr>value1 := v, value2 := 0\<rparr>"
| "set_operands (Op_pair op p q) c = c\<lparr>value1 := p, value2 := q\<rparr>"
| "set_operands (Op_plain op) c = c"

fun op_code :: "bench_op \<Rightarrow> int" where
  "op_code (Op_single op v) = op"
| "op_code (Op_pair op p q) = op"
| "op_code (Op_plain op) = op"

fun op_in_range :: "bench_op \<Rightarrow> bool" where
  "op_in_range (Op_single op v) \<longleftrightarrow> int32 op \<and> int32 v"
| "op_in_range (Op_pair op p q) \<longleftrightarrow> int32 op \<and> int32 p \<and> int32 q \<and> 0 \<le> p"
| "op_in_range (Op_plain op) \<longleftrightarrow> int32 op"

text \<open>The calls a list of operations stands for.\<close>

fun bench_calls :: "(int \<Rightarrow> string) \<Rightarrow> int \<Rightarrow> bench_op list \<Rightarrow> int \<Rightarrow> call \<Rightarrow> call list" where
  "bench_calls to_str node [] k c = []"
| "bench_calls to_str node (b # bs) k c =
     (let c1 = c\<lparr>ctype := to_str (op_code b)\<rparr>;
          upd = (ctype c1 \<noteq> ''Read'');
          c2 = (if upd then set_operands b (c1\<lparr>call_id := k + 1\<rparr>) else c1);
          c3 = c2\<lparr>node_id := node, stable := False\<rparr>
      in c3 # bench_calls to_str node bs (if upd then k + 1 else k) c3)"

section \<open>Reading a workload back\<close>

lemma ends_number_simps [simp]:
  "ends_number []" "ends_number (char_of (32::nat) # r)" "ends_number (char_of (45::nat) # r)"
  by (simp_all add: ends_number_def is_digit_def Let_def of_char_of)

lemma space_is_space [simp]: "is_space (char_of (32::nat))"
  by (simp add: is_space_def Let_def of_char_of)

text \<open>The number that opens a line.\<close>

lemma extract_op:
  assumes "int32 op" and "ends_number r"
  shows "extract_int (istringstream (to_string op @ r))
     = (\<lparr>sbuf = r, eofbit = (r = []), failbit = False\<rparr>, Some op)"
  using extract_to_string [OF assms, of "[]"] by (simp add: istringstream_def)

lemma read_single_text:
  assumes "int32 v"
  shows "read_single \<lparr>sbuf = char_of (32::nat) # to_string v, eofbit = False, failbit = False\<rparr> c
     = Inr (c\<lparr>value1 := v, value2 := 0\<rparr>)"
  using extract_to_string [OF assms, of "[]" "[char_of (32::nat)]"]
  by (simp add: read_single_def extract_into_def)

lemma no_minus_decimal: "list_all (\<lambda>c. of_char c \<noteq> (45::nat)) (nat_decimal n)"
  using nat_decimal_digits [of n] by (auto simp: list_all_iff is_digit_def Let_def)

lemma read_pair_text:
  assumes "int32 p" and "0 \<le> p" and "int32 q"
  shows "read_pair \<lparr>sbuf = char_of (32::nat) # to_string p @ char_of (45::nat) # to_string q,
                    eofbit = False, failbit = False\<rparr> c
     = Inr (c\<lparr>value1 := p, value2 := q\<rparr>)"
proof -
  let ?w = "char_of (32::nat) # to_string p" and ?r = "char_of (45::nat) # to_string q"
  have "list_all (\<lambda>c. of_char c \<noteq> (45::nat)) ?w"
    using assms(2) no_minus_decimal by (simp add: to_string_def of_char_of)
  from takeWhile_run [OF this, of ?r]
  have "getline_delim 45 \<lparr>sbuf = ?w @ ?r, eofbit = False, failbit = False\<rparr>
      = (\<lparr>sbuf = to_string q, eofbit = False, failbit = False\<rparr>, ?w)"
    by (simp add: getline_delim_def good_def of_char_of)
  moreover have "stoi ?w = Inr p"
    using stoi_to_string [OF assms(1)] by (simp add: stoi_def)
  moreover have "extract_int \<lparr>sbuf = to_string q, eofbit = False, failbit = False\<rparr>
      = (\<lparr>sbuf = [], eofbit = True, failbit = False\<rparr>, Some q)"
    using extract_to_string [OF assms(3), of "[]" "[]"] by simp
  ultimately show ?thesis by (simp add: read_pair_def extract_into_def)
qed

text \<open>
  When the operand reader of a class agrees with the operands of every operation, the loop
  turns the lines into the calls.
\<close>

definition operands_agree :: "(int \<Rightarrow> string) \<Rightarrow> (sstream \<Rightarrow> call \<Rightarrow> bench_error + call) \<Rightarrow>
     bench_op \<Rightarrow> bool" where
  "operands_agree to_str operands b \<longleftrightarrow>
     (\<forall>c. to_str (op_code b) \<noteq> ''Read'' \<longrightarrow> ctype c = to_str (op_code b) \<longrightarrow>
        operands (fst (extract_int (istringstream (bench_line b)))) c = Inr (set_operands b c))"

lemma extract_bench_line:
  "op_in_range b \<Longrightarrow>
     snd (extract_int (istringstream (bench_line b))) = Some (op_code b)"
  by (cases b) (simp_all add: extract_op extract_op [where r = "[]", simplified])

lemma agree_single:
  assumes "int32 op" and "int32 v"
    and "\<And>iss c. ctype c = to_str op \<Longrightarrow> to_str op \<noteq> ''Read'' \<Longrightarrow> operands iss c = read_single iss c"
  shows "operands_agree to_str operands (Op_single op v)"
  using assms read_single_text [OF assms(2)]
  by (simp add: operands_agree_def extract_op)

lemma agree_pair:
  assumes "int32 op" and "int32 p" and "int32 q" and "0 \<le> p"
    and "\<And>iss c. ctype c = to_str op \<Longrightarrow> to_str op \<noteq> ''Read'' \<Longrightarrow> operands iss c = read_pair iss c"
  shows "operands_agree to_str operands (Op_pair op p q)"
  using assms read_pair_text [OF assms(2,4,3)]
  by (simp add: operands_agree_def extract_op)

lemma agree_read: "to_str (op_code b) = ''Read'' \<Longrightarrow> operands_agree to_str operands b"
  by (simp add: operands_agree_def)

lemma bench_loop_lines:
  assumes "\<forall>b \<in> set bs. op_in_range b \<and> operands_agree to_str operands b"
  shows "bench_loop to_str operands node (map bench_line bs) k c cs
     = Inr (cs @ bench_calls to_str node bs k c)"
  using assms
proof (induction bs arbitrary: k c cs)
  case Nil
  then show ?case by simp
next
  case (Cons b bs)
  obtain iss where ex: "extract_int (istringstream (bench_line b)) = (iss, Some (op_code b))"
    using extract_bench_line [of b] Cons.prems by (metis list.set_intros(1) prod.collapse)
  show ?case
  proof (cases "to_str (op_code b) = ''Read''")
    case True
    then show ?thesis using Cons ex by (simp add: Let_def)
  next
    case False
    then have "operands iss (c\<lparr>ctype := to_str (op_code b), call_id := k + 1\<rparr>)
        = Inr (set_operands b (c\<lparr>ctype := to_str (op_code b), call_id := k + 1\<rparr>))"
      using Cons.prems ex by (simp add: operands_agree_def)
    then show ?thesis using Cons ex False by (simp add: Let_def)
  qed
qed

lemma no_newline_to_string: "list_all (\<lambda>c. of_char c \<noteq> (10::nat)) (to_string i)"
  using nat_decimal_digits [of "nat i"] nat_decimal_digits [of "nat (- i)"]
  by (auto simp: to_string_def list_all_iff is_digit_def Let_def of_char_of)

lemma no_newline_bench_line: "list_all (\<lambda>c. of_char c \<noteq> (10::nat)) (bench_line b)"
  using no_newline_to_string by (cases b) (simp_all add: of_char_of)

lemma file_lines_line:
  "list_all (\<lambda>c. of_char c \<noteq> (10::nat)) l \<Longrightarrow>
     file_lines_acc cur (l @ char_of (10::nat) # r) = (cur @ l) # file_lines_acc [] r"
  by (induction l arbitrary: cur) (simp_all add: of_char_of)

lemma file_lines_concat:
  "\<forall>l \<in> set ls. list_all (\<lambda>c. of_char c \<noteq> (10::nat)) l \<Longrightarrow>
     file_lines (concat (map (\<lambda>l. l @ [char_of (10::nat)]) ls)) = ls"
  by (induction ls) (simp_all add: file_lines_def file_lines_line)

lemma read_bench_text:
  assumes "\<forall>b \<in> set bs. op_in_range b \<and> operands_agree to_str operands b" and "int32 n"
  shows "read_bench to_str operands (Some (bench_text n bs)) expected node c cs
     = Inr (n, cs @ bench_calls to_str node bs 0 c)"
proof -
  have "file_lines (bench_text n bs) = (char_of (35::nat) # to_string n) # map bench_line bs"
    unfolding bench_text_def
    using no_newline_to_string no_newline_bench_line
    by (intro file_lines_concat) (auto simp: of_char_of)
  then show ?thesis
    using bench_loop_lines [OF assms(1)] stoi_to_string [OF assms(2)]
    by (simp add: read_bench_def)
qed

end
