(* ===== verification/Call_Codec.thy ===== *)
theory Call_Codec
  imports Bench_File "HOL-Library.Word"
begin

text \<open>
  The wire format of a call: \<open>serializeCalls\<close> and \<open>deserializeCalls\<close> of the handlers, on
  little-endian bytes, and the framing \<open>ServerConnection\<close> and \<open>TCPSocket\<close> put around a
  message. The main lemmas are the round trip of a call and of a sequence of frames.
\<close>

type_synonym bytes = "8 word list"

section \<open>Little-endian integers\<close>

text \<open>\<open>*reinterpret_cast<T*>(p) = v\<close> for a \<open>k\<close>-byte integer type, and the load.\<close>

fun le_bytes :: "nat \<Rightarrow> int \<Rightarrow> bytes" where
  "le_bytes 0 v = []"
| "le_bytes (Suc k) v = word_of_int (v mod 256) # le_bytes k (v div 256)"

fun le_value :: "bytes \<Rightarrow> int" where
  "le_value [] = 0"
| "le_value (b # bs) = uint b + 256 * le_value bs"

lemma length_le_bytes [simp]: "length (le_bytes k v) = k"
  by (induction k arbitrary: v) simp_all

lemma le_bytes_nth: "i < k \<Longrightarrow> le_bytes k v ! i = word_of_int (v div 256 ^ i mod 256)"
proof (induction k arbitrary: i v)
  case 0
  then show ?case by simp
next
  case (Suc k)
  then show ?case by (cases i) (simp_all add: div_mult2_eq zdiv_zmult2_eq)
qed

lemma uint_byte: "uint (word_of_int (v mod 256) :: 8 word) = v mod 256"
  by (simp add: uint_word_of_int)

lemma le_value_bytes: "le_value (le_bytes k v) = v mod 256 ^ k"
proof (induction k arbitrary: v)
  case 0
  then show ?case by simp
next
  case (Suc k)
  have "le_value (le_bytes (Suc k) v) = v mod 256 + 256 * (v div 256 mod 256 ^ k)"
    by (simp add: uint_byte Suc)
  also have "\<dots> = v mod (256 * 256 ^ k)"
    using zmod_zmult2_eq [of "256 ^ k" v 256] by simp
  finally show ?case by simp
qed

text \<open>The value of a signed 32-bit integer with the given unsigned reading.\<close>

definition signed32 :: "int \<Rightarrow> int" where
  "signed32 u = (if u < 2 ^ 31 then u else u - 2 ^ 32)"

lemma signed32_mod: "int32 v \<Longrightarrow> signed32 (v mod 256 ^ 4) = v"
proof -
  assume v: "int32 v"
  show ?thesis
  proof (cases "0 \<le> v")
    case True
    then have "v mod 2 ^ 32 = v" using v by (simp add: int32_def)
    then show ?thesis using v by (simp add: signed32_def int32_def)
  next
    case False
    then have "v mod 2 ^ 32 = v + 2 ^ 32"
      using v mod_pos_pos_trivial [of "v + 2 ^ 32" "2 ^ 32"] by (simp add: int32_def)
    then show ?thesis using v False by (simp add: signed32_def int32_def)
  qed
qed

section \<open>Writing a call\<close>

definition char_byte :: "char \<Rightarrow> 8 word" where
  "char_byte c = word_of_nat (of_char c)"

definition byte_char :: "8 word \<Rightarrow> char" where
  "byte_char b = char_of (unat b)"

lemma of_char_less: "(of_char c :: nat) < 256"
proof -
  have "(of_char c :: nat) = of_char (char_of (of_char c :: nat) :: char)" by simp
  also have "\<dots> = of_char c mod 256" by (simp only: of_char_of)
  finally show ?thesis by (metis mod_less_divisor zero_less_numeral)
qed

lemma byte_char_byte [simp]: "byte_char (char_byte c) = c"
  using of_char_less [of c] by (simp add: byte_char_def char_byte_def unat_of_nat)

definition bool_byte :: "bool \<Rightarrow> bytes" where
  "bool_byte b = le_bytes 1 (if b then 1 else 0)"

text \<open>What \<open>serializeCalls\<close> writes after the length field, in its order.\<close>

definition call_body :: "call \<Rightarrow> bytes" where
  "call_body c =
     le_bytes 8 (int (length (ctype c)))
     @ map char_byte (ctype c)
     @ le_bytes 4 (value1 c) @ le_bytes 4 (value2 c) @ le_bytes 4 (value3 c) @ le_bytes 4 (value4 c)
     @ le_bytes 4 (node_id c)
     @ le_bytes 4 (call_id c)
     @ bool_byte (stable c)
     @ concat (map (le_bytes 4) (call_vector_clock c))"

text \<open>
  The buffer after the writes, and the returned size: the length field, the body, and 16 bytes
  more, whose contents are whatever the buffer held. \<open>None\<close> when the buffer is too small.
\<close>

definition serialize_call :: "call \<Rightarrow> bytes \<Rightarrow> (bytes \<times> nat) option" where
  "serialize_call c buffer =
     (let body = call_body c; len = length body in
      if 8 + len \<le> length buffer
      then Some (le_bytes 8 (int len) @ body @ drop (8 + len) buffer, len + 8 + 2 * 8)
      else None)"

section \<open>Reading a call\<close>

definition read_bytes :: "nat \<Rightarrow> bytes \<Rightarrow> (bytes \<times> bytes) option" where
  "read_bytes k bs = (if k \<le> length bs then Some (take k bs, drop k bs) else None)"

definition read_u64 :: "bytes \<Rightarrow> (nat \<times> bytes) option" where
  "read_u64 bs = do { (w, r) \<leftarrow> read_bytes 8 bs; Some (nat (le_value w), r) }"

definition read_int :: "bytes \<Rightarrow> (int \<times> bytes) option" where
  "read_int bs = do { (w, r) \<leftarrow> read_bytes 4 bs; Some (signed32 (le_value w), r) }"

text \<open>A \<open>bool\<close> whose byte is neither 0 nor 1 has no defined value.\<close>

definition read_bool :: "bytes \<Rightarrow> (bool \<times> bytes) option" where
  "read_bool bs = do {
     (w, r) \<leftarrow> read_bytes 1 bs;
     (if le_value w = 0 then Some (False, r)
      else if le_value w = 1 then Some (True, r) else None) }"

fun read_clock :: "nat \<Rightarrow> bytes \<Rightarrow> (int list \<times> bytes) option" where
  "read_clock 0 bs = Some ([], bs)"
| "read_clock (Suc n) bs = do {
     (v, r) \<leftarrow> read_int bs;
     (vs, r') \<leftarrow> read_clock n r;
     Some (v # vs, r') }"

definition deserialize_call :: "nat \<Rightarrow> bytes \<Rightarrow> call option" where
  "deserialize_call number_of_nodes buffer = do {
     (_, s0) \<leftarrow> read_bytes 8 buffer;
     (type_len, s1) \<leftarrow> read_u64 s0;
     (t, s2) \<leftarrow> read_bytes type_len s1;
     (v1, s3) \<leftarrow> read_int s2;
     (v2, s4) \<leftarrow> read_int s3;
     (v3, s5) \<leftarrow> read_int s4;
     (v4, s6) \<leftarrow> read_int s5;
     (n_id, s7) \<leftarrow> read_int s6;
     (c_id, s8) \<leftarrow> read_int s7;
     (st, s9) \<leftarrow> read_bool s8;
     (vc, _) \<leftarrow> read_clock number_of_nodes s9;
     Some ((Call_new (map byte_char t) v1 v2 v3 v4 n_id c_id st False)
             \<lparr>call_vector_clock := vc\<rparr>) }"

section \<open>Round trip of a call\<close>

named_theorems codec_simps \<open>reading what was written\<close>

lemma read_bytes_append [codec_simps]: "length w = k \<Longrightarrow> read_bytes k (w @ r) = Some (w, r)"
  by (auto simp: read_bytes_def)

lemma read_u64_le [codec_simps]: "n < 2 ^ 64 \<Longrightarrow> read_u64 (le_bytes 8 (int n) @ r) = Some (n, r)"
proof -
  assume "n < 2 ^ 64"
  then have "int n < 256 ^ 8" by (simp flip: of_nat_less_iff)
  then have "int n mod 256 ^ 8 = int n" by simp
  then show ?thesis by (simp add: read_u64_def read_bytes_append le_value_bytes)
qed

lemma read_int_le [codec_simps]: "int32 v \<Longrightarrow> read_int (le_bytes 4 v @ r) = Some (v, r)"
  using signed32_mod [of v]
  by (simp add: read_int_def read_bytes_append le_value_bytes del: le_bytes.simps)

lemma read_bool_le [codec_simps]: "read_bool (bool_byte b @ r) = Some (b, r)"
  by (simp add: bool_byte_def read_bool_def read_bytes_append le_value_bytes del: le_bytes.simps)

lemma read_clock_le [codec_simps]:
  "\<forall>v \<in> set vs. int32 v \<Longrightarrow> n \<le> length vs \<Longrightarrow>
     read_clock n (concat (map (le_bytes 4) vs) @ r)
       = Some (take n vs, concat (map (le_bytes 4) (drop n vs)) @ r)"
proof (induction vs arbitrary: n)
  case Nil
  then show ?case by simp
next
  case (Cons v vs)
  then show ?case by (cases n) (simp_all add: read_int_le)
qed

text \<open>A call whose fields fit the wire format.\<close>

definition wire_ok :: "call \<Rightarrow> bool" where
  "wire_ok c \<longleftrightarrow> int32 (value1 c) \<and> int32 (value2 c) \<and> int32 (value3 c) \<and> int32 (value4 c) \<and>
     int32 (node_id c) \<and> int32 (call_id c) \<and> (\<forall>v \<in> set (call_vector_clock c). int32 v) \<and>
     length (ctype c) < 2 ^ 64"

lemma deserialize_body:
  assumes "wire_ok c" and "n \<le> length (call_vector_clock c)" and "length hd8 = 8"
  shows "deserialize_call n (hd8 @ call_body c @ r)
     = Some (c\<lparr>call_vector_clock := take n (call_vector_clock c), applied := False\<rparr>)"
  using assms
  by (simp add: deserialize_call_def call_body_def wire_ok_def codec_simps Call_new_def comp_def
      del: le_bytes.simps)

lemma serialize_call_eq:
  assumes "8 + length (call_body c) \<le> length buffer"
  shows "serialize_call c buffer
     = Some (le_bytes 8 (int (length (call_body c))) @ call_body c
               @ drop (8 + length (call_body c)) buffer, length (call_body c) + 24)"
  using assms by (simp add: serialize_call_def Let_def)

lemma serialize_call_length:
  "serialize_call c buffer = Some (buffer', n) \<Longrightarrow> length buffer' = length buffer"
  by (auto simp: serialize_call_def Let_def split: if_splits)

lemma length_call_body:
  "length (call_body c) = 33 + length (ctype c) + 4 * length (call_vector_clock c)"
  by (simp add: call_body_def bool_byte_def length_concat comp_def sum_list_triv)

section \<open>Framing\<close>

text \<open>
  \<open>ServerConnection::send(Buffer*)\<close> sends the decimal size with its terminating zero, then
  the bytes. The receiver reads up to the zero, converts with \<open>stoi\<close>, and reads as many bytes.
\<close>

definition send_frame :: "bytes \<Rightarrow> bytes" where
  "send_frame content = map char_byte (to_string (int (length content))) @ 0 # content"

datatype recv_result =
    Idle
  | Closed
  | Bad_length
  | Got bytes bytes

text \<open>
  One frame off the bytes that have arrived: \<open>getString\<close>, the early return on an empty length,
  \<open>stoi\<close>, \<open>receive(length)\<close>. A negative length allocates no buffer. \<open>Closed\<close> is the exception
  of a stream that ends early.
\<close>

definition getString :: "bytes \<Rightarrow> (string \<times> bytes) option" where
  "getString bs =
     (case dropWhile (\<lambda>b. b \<noteq> 0) bs of
        [] \<Rightarrow> None
      | _ # r \<Rightarrow> Some (map byte_char (takeWhile (\<lambda>b. b \<noteq> 0) bs), r))"

definition receive_frame :: "bytes \<Rightarrow> recv_result" where
  "receive_frame bs =
     (if bs = [] then Idle
      else case getString bs of
          None \<Rightarrow> Closed
        | Some (s, r) \<Rightarrow>
            (if s = [] then Idle
             else case stoi s of
                 Inl e \<Rightarrow> Bad_length
               | Inr n \<Rightarrow>
                   (if n < 0 then Bad_length
                    else case read_bytes (nat n) r of
                        None \<Rightarrow> Closed
                      | Some (content, r') \<Rightarrow> Got content r')))"

lemma char_byte_nonzero: "of_char c \<noteq> (0::nat) \<Longrightarrow> char_byte c \<noteq> 0"
proof -
  assume "of_char c \<noteq> (0::nat)"
  then have "unat (char_byte c) \<noteq> 0"
    using of_char_less [of c] by (simp add: char_byte_def unat_of_nat)
  then show ?thesis by force
qed

lemma to_string_no_zero: "list_all (\<lambda>c. of_char c \<noteq> (0::nat)) (to_string i)"
  using nat_decimal_digits [of "nat i"] nat_decimal_digits [of "nat (- i)"]
  by (auto simp: to_string_def list_all_iff is_digit_def Let_def of_char_of)

lemma receive_send_frame:
  assumes "length content < 2 ^ 31"
  shows "receive_frame (send_frame content @ r) = Got content r"
proof -
  let ?s = "to_string (int (length content))"
  have nz: "list_all (\<lambda>b. b \<noteq> 0) (map char_byte ?s)"
    using to_string_no_zero [of "int (length content)"] char_byte_nonzero
    by (simp add: list_all_iff)
  have "getString (send_frame content @ r) = Some (?s, content @ r)"
    using takeWhile_run [OF nz, of "0 # content @ r"]
    by (simp add: getString_def send_frame_def comp_def)
  moreover have "?s \<noteq> []" using to_string_hd [of "int (length content)"] by auto
  moreover have "stoi ?s = Inr (int (length content))"
    using assms by (intro stoi_to_string) (simp add: int32_def flip: of_nat_less_iff)
  moreover have "send_frame content @ r \<noteq> []" by (simp add: send_frame_def)
  ultimately show ?thesis
    by (simp add: receive_frame_def read_bytes_append)
qed

text \<open>All frames of a stream, in order; \<open>None\<close> if the stream does not end at a frame border.\<close>

fun receive_all :: "nat \<Rightarrow> bytes \<Rightarrow> bytes list option" where
  "receive_all 0 bs = (if bs = [] then Some [] else None)"
| "receive_all (Suc k) bs =
     (case receive_frame bs of
        Got content r \<Rightarrow> map_option (\<lambda>ms. content # ms) (receive_all k r)
      | Idle \<Rightarrow> (if bs = [] then Some [] else None)
      | _ \<Rightarrow> None)"

lemma receive_all_frames:
  "\<forall>m \<in> set ms. length m < 2 ^ 31 \<Longrightarrow> length ms \<le> k \<Longrightarrow>
     receive_all k (concat (map send_frame ms)) = Some ms"
proof (induction ms arbitrary: k)
  case Nil
  then show ?case by (cases k) (simp_all add: receive_frame_def)
next
  case (Cons m ms)
  then show ?case by (cases k) (simp_all add: receive_send_frame)
qed

section \<open>Control messages\<close>

text \<open>
  \<open>strcmp(content, s) == 0\<close> on the bytes of a message: the text of \<open>s\<close> and a zero byte.
\<close>

definition strcmp_eq :: "bytes \<Rightarrow> string \<Rightarrow> bool" where
  "strcmp_eq content s \<longleftrightarrow> take (Suc (length s)) content = map char_byte s @ [0]"

text \<open>
  A serialised call starts with its body length, whose higher bytes are zero, so it is never
  taken for a control message of four letters or more.
\<close>

lemma call_not_control:
  assumes "length (call_body c) < 65536" and "3 \<le> length s" and "of_char (s ! 2) \<noteq> (0::nat)"
  shows "\<not> strcmp_eq (le_bytes 8 (int (length (call_body c))) @ r) s"
proof
  let ?m = "le_bytes 8 (int (length (call_body c))) @ r"
  assume "strcmp_eq ?m s"
  then have eq: "take (Suc (length s)) ?m = map char_byte s @ [0]" by (simp add: strcmp_eq_def)
  have "take (Suc (length s)) ?m ! 2 = ?m ! 2"
    by (rule nth_take) (use assms(2) in simp)
  also have "\<dots> = word_of_int (int (length (call_body c)) div 256 ^ 2 mod 256)"
    by (simp add: nth_append le_bytes_nth del: le_bytes.simps)
  also have "int (length (call_body c)) div 256 ^ 2 = 0"
    using assms(1) by simp
  finally have "take (Suc (length s)) ?m ! 2 = 0" by simp
  moreover have "(map char_byte s @ [0]) ! 2 = char_byte (s ! 2)"
    using assms(2) by (simp add: nth_append)
  ultimately show False using eq char_byte_nonzero [OF assms(3)] by simp
qed

end
