(* ===== verification/Hamsou_Main.thy ===== *)
theory Hamsou_Main
  imports Hamsou_Node Call_Codec
begin

text \<open>
  The code around the Hamsou handler: the dispatch of a received message
  (\<open>ServerConnection::receive\<close>, compiled with \<open>OPTIMISTIC_REPLICATION\<close>) and one iteration of
  the main loop of \<^verbatim>\<open>tcp/main-replication-protocols.cpp\<close>, which broadcasts acknowledgements and
  invokes the calls of the workload. The lemmas connect both to the handler: a broadcast
  call arrives as the call that was executed, and an iteration never overruns the buffer.
\<close>

section \<open>Receiving\<close>

text \<open>
  A call message: heartbeats and acknowledgements are handled whatever the class says, a call
  only when \<open>checkValidcall\<close> returns true; \<open>valid\<close> is the class's check, \<open>None\<close> where it ends
  without a return, which is undefined behaviour.
\<close>

definition receive_call ::
  "'st usecase \<Rightarrow> (call \<Rightarrow> bool option) \<Rightarrow> nat \<Rightarrow> call \<Rightarrow> 'st handler \<Rightarrow> 'st handler option" where
  "receive_call uc valid now c h =
     (if ctype c = ''Heartbeat'' then updateHeartbeat (node_id c) now h
      else if ctype c = ''Ack'' then updateAcksTable uc c h
      else do {
        v \<leftarrow> valid c;
        (if v then internalDownstreamExecute uc c h else Some h) })"

text \<open>
  One message from \<open>remoteId\<close>, on the counter of initialised peers and the handler. Before it
  handles a call the thread sleeps for \<open>400 / number_of_nodes\<close> microseconds, which is
  undefined for no nodes.
\<close>

definition receive_message ::
  "'st usecase \<Rightarrow> (call \<Rightarrow> bool option) \<Rightarrow> int \<Rightarrow> nat \<Rightarrow> bytes \<Rightarrow> int \<times> 'st handler \<Rightarrow>
     (int \<times> 'st handler) option" where
  "receive_message uc valid remoteId now content = (\<lambda>(initcounter, h).
     if strcmp_eq content ''init'' then Some (initcounter + 1, h)
     else if strcmp_eq content ''shutdown'' then do {
       h' \<leftarrow> markNodeFailed uc remoteId h;
       Some (initcounter, h') }
     else do {
       c \<leftarrow> deserialize_call (number_of_nodes h) content;
       h' \<leftarrow> (if number_of_nodes h = 0 then None else receive_call uc valid now c h);
       Some (initcounter, h') })"

text \<open>The event of the node when the message is a heartbeat, an acknowledgement or a valid call.\<close>

definition message_event :: "nat \<Rightarrow> call \<Rightarrow> node_event" where
  "message_event now c =
     (if ctype c = ''Heartbeat'' then Heartbeat (node_id c) now
      else if ctype c = ''Ack'' then AckMsg c else Deliver c)"

lemma receive_call_event:
  "ctype c = ''Heartbeat'' \<or> ctype c = ''Ack'' \<or> valid c = Some True \<Longrightarrow>
     receive_call uc valid now c h = node_step uc (message_event now c) h"
  by (auto simp: receive_call_def message_event_def)

lemma receive_serialized:
  assumes ser: "serialize_call c buffer = Some (buffer', sz)" and "sz \<le> length buffer'"
    and "wire_ok c" and "number_of_nodes h \<le> length (call_vector_clock c)"
    and "length (call_body c) < 65536"
    and "ctype c = ''Heartbeat'' \<or> ctype c = ''Ack'' \<or> valid c' = Some True"
    and c': "c' = c\<lparr>call_vector_clock := take (number_of_nodes h) (call_vector_clock c),
                     applied := False\<rparr>"
  shows "receive_message uc valid remoteId now (take sz buffer') (k, h)
     = (if number_of_nodes h = 0 then None
        else map_option (Pair k) (node_step uc (message_event now c') h))"
proof -
  let ?len = "length (call_body c)"
  have buf: "buffer' = le_bytes 8 (int ?len) @ call_body c @ drop (8 + ?len) buffer"
    and sz: "sz = ?len + 24"
    using ser by (auto simp: serialize_call_def Let_def split: if_splits)
  obtain r where msg: "take sz buffer' = le_bytes 8 (int ?len) @ call_body c @ r"
    unfolding buf sz by (simp del: le_bytes.simps)
  have "\<not> strcmp_eq (take sz buffer') ''init''" "\<not> strcmp_eq (take sz buffer') ''shutdown''"
    unfolding msg using assms(5) by (intro call_not_control; simp)+
  moreover have "deserialize_call (number_of_nodes h) (take sz buffer') = Some c'"
    unfolding msg c' using assms(3,4) by (intro deserialize_body) simp_all
  ultimately show ?thesis
    using receive_call_event [of c' valid uc now h] assms(6) c'
    by (auto simp: receive_message_def map_option_case split: option.splits)
qed

section \<open>The main loop\<close>

text \<open>
  The variables of \<open>main\<close> an iteration uses. \<open>payload\<close> is the storage of \<open>payload_buffer\<close>
  (its capacity never shrinks), \<open>payload_size\<close> the vector's current size, \<open>outbox\<close> the
  messages broadcast so far.
\<close>

record 'st main_state =
  hdl :: "'st handler"
  bench_calls_var :: "call list"
  it_pos :: nat
  ack_index :: nat
  waiting :: bool
  stableindex_var :: nat
  sent_count :: nat
  payload :: bytes
  payload_size :: nat
  outbox :: "bytes list"

definition main_start :: "'st handler \<Rightarrow> call list \<Rightarrow> 'st main_state" where
  "main_start h cs = \<lparr>hdl = h, bench_calls_var = cs, it_pos = 0, ack_index = 0, waiting = False,
     stableindex_var = 0, sent_count = 0, payload = replicate 256 0, payload_size = 256,
     outbox = []\<rparr>"

text \<open>
  Serialise into the payload buffer, copy the message out of it, resize the vector to the
  message (new elements are zero), broadcast.
\<close>

definition send_call :: "call \<Rightarrow> 'st main_state \<Rightarrow> 'st main_state option" where
  "send_call c m = do {
     (buffer, sz) \<leftarrow> serialize_call c (payload m);
     (if sz \<le> length buffer
      then Some (m\<lparr>
        hdl := (hdl m)\<lparr>test_counter := test_counter (hdl m) + 1\<rparr>,
        payload := take (payload_size m) buffer @ replicate (sz - payload_size m) 0
                     @ drop (max sz (payload_size m)) buffer,
        payload_size := sz,
        outbox := outbox m @ [take sz buffer]\<rparr>)
      else None) }"

definition finish_iteration :: "'st main_state \<Rightarrow> 'st main_state" where
  "finish_iteration m =
     (if last_call_stable (hdl m) then m\<lparr>hdl := (hdl m)\<lparr>last_call_stable := False\<rparr>\<rparr> else m)"

definition send_next_ack :: "'st main_state \<Rightarrow> 'st main_state option" where
  "send_next_ack m =
     (if ack_index m < length (send_ack_call_list (hdl m))
      then do {
        m1 \<leftarrow> send_call (send_ack_call_list (hdl m) ! ack_index m) m;
        Some (m1\<lparr>ack_index := ack_index m1 + 1\<rparr>) }
      else Some m)"

definition end_wait :: "'st main_state \<Rightarrow> 'st main_state" where
  "end_wait m =
     (if waiting m \<and> int (stableindex_var m) < waittobestable (hdl m)
      then m\<lparr>waiting := False\<rparr> else m)"

definition invoke_next :: "'st usecase \<Rightarrow> call \<Rightarrow> 'st main_state \<Rightarrow> 'st main_state option" where
  "invoke_next uc req m = do {
     (h', c', send_flag, permiss, si) \<leftarrow> localHandler uc req (hdl m);
     let m1 = m\<lparr>hdl := h', bench_calls_var := (bench_calls_var m)[it_pos m := c'],
                stableindex_var := si\<rparr>;
     (if send_flag
      then do {
        m2 \<leftarrow> send_call c' m1;
        Some (finish_iteration
          (m2\<lparr>sent_count := sent_count m2 + 1, it_pos := it_pos m2 + 1, waiting := False\<rparr>)) }
      else if permiss then Some (m1\<lparr>waiting := True\<rparr>)
      else Some (finish_iteration (m1\<lparr>it_pos := it_pos m1 + 1\<rparr>))) }"

text \<open>
  One iteration; \<open>due\<close> tells whether the rate limiter lets the next call through.
\<close>

definition main_iteration :: "'st usecase \<Rightarrow> bool \<Rightarrow> 'st main_state \<Rightarrow> 'st main_state option" where
  "main_iteration uc due m0 = do {
     m \<leftarrow> send_next_ack m0;
     (if it_pos m < length (bench_calls_var m)
      then if \<not> due then Some m
      else let m1 = end_wait m; req = bench_calls_var m1 ! it_pos m1 in
        if ctype req \<noteq> ''Read''
        then if \<not> waiting m1 then invoke_next uc req m1 else Some (finish_iteration m1)
        else Some (finish_iteration (m1\<lparr>it_pos := it_pos m1 + 1\<rparr>))
      else Some (finish_iteration m)) }"

text \<open>
  The loop's condition: the process leaves the loop for good once it counts as many stable
  calls as its workload file announced. Afterwards only its receiver threads run.
\<close>

definition main_running :: "'st main_state \<Rightarrow> bool" where
  "main_running m \<longleftrightarrow> waittobestable (hdl m) < expected_calls (hdl m)"

definition main_round :: "'st usecase \<Rightarrow> bool \<Rightarrow> 'st main_state \<Rightarrow> 'st main_state option" where
  "main_round uc due m = (if main_running m then main_iteration uc due m else Some m)"

section \<open>Messages fit the buffer\<close>

text \<open>The size of a message, and the calls whose message fits the 256 bytes.\<close>

definition fits :: "call \<Rightarrow> bool" where
  "fits c \<longleftrightarrow> length (ctype c) + 4 * length (call_vector_clock c) \<le> 199"

lemma send_call_fits:
  assumes "fits c" and "256 \<le> length (payload m)"
  shows "\<exists>r. send_call c m = Some (m\<lparr>
      hdl := (hdl m)\<lparr>test_counter := test_counter (hdl m) + 1\<rparr>,
      payload := payload (the (send_call c m)),
      payload_size := length (call_body c) + 24,
      outbox := outbox m @ [le_bytes 8 (int (length (call_body c))) @ call_body c @ r]\<rparr>) \<and>
    length r = 16 \<and> length (payload (the (send_call c m))) \<ge> 256"
proof -
  let ?len = "length (call_body c)"
  have len: "?len + 24 \<le> length (payload m)"
    using assms by (simp add: fits_def length_call_body)
  let ?buf = "le_bytes 8 (int ?len) @ call_body c @ drop (8 + ?len) (payload m)"
  have ser: "serialize_call c (payload m) = Some (?buf, ?len + 24)"
    using serialize_call_eq [of c "payload m"] len by simp
  have lb: "length ?buf = length (payload m)" using len by simp
  have take: "take (?len + 24) ?buf
      = le_bytes 8 (int ?len) @ call_body c @ take 16 (drop (8 + ?len) (payload m))"
    by (simp del: le_bytes.simps)
  show ?thesis
    using len lb assms(2)
    by (intro exI [of _ "take 16 (drop (8 + ?len) (payload m))"])
      (simp add: send_call_def ser take del: le_bytes.simps)
qed

section \<open>An iteration keeps the node sound\<close>

definition main_inv :: "'st usecase \<Rightarrow> 'st main_state \<Rightarrow> bool" where
  "main_inv uc m \<longleftrightarrow> handler_inv uc (hdl m) \<and> 256 \<le> length (payload m) \<and>
     number_of_nodes (hdl m) \<le> 40 \<and>
     (\<forall>a \<in> set (send_ack_call_list (hdl m)). fits a) \<and>
     (\<forall>c \<in> set (bench_calls_var m). node_id c = hnode_id (hdl m) \<and> 0 \<le> call_id c \<and>
        call_id c < acks_columns \<and> length (ctype c) \<le> 39)"

lemma handler_inv_flags [simp]:
  "handler_inv uc (h\<lparr>test_counter := t\<rparr>) = handler_inv uc h"
  "handler_inv uc (h\<lparr>last_call_stable := b\<rparr>) = handler_inv uc h"
  by (simp_all add: inv_defs)

lemma finish_iteration_frame [simp]:
  "outbox (finish_iteration m) = outbox m"
  "main_inv uc (finish_iteration m) = main_inv uc m"
  "executionList (hdl (finish_iteration m)) = executionList (hdl m)"
  "it_pos (finish_iteration m) = it_pos m"
  "waiting (finish_iteration m) = waiting m"
  by (simp_all add: finish_iteration_def main_inv_def)

lemma main_inv_fields [simp]:
  "main_inv uc (m\<lparr>it_pos := i\<rparr>) = main_inv uc m"
  "main_inv uc (m\<lparr>waiting := w\<rparr>) = main_inv uc m"
  "main_inv uc (m\<lparr>sent_count := k\<rparr>) = main_inv uc m"
  "main_inv uc (m\<lparr>ack_index := i\<rparr>) = main_inv uc m"
  by (simp_all add: main_inv_def)

lemma end_wait_frame [simp]:
  "main_inv uc (end_wait m) = main_inv uc m"
  "hdl (end_wait m) = hdl m" "outbox (end_wait m) = outbox m"
  "it_pos (end_wait m) = it_pos m" "bench_calls_var (end_wait m) = bench_calls_var m"
  by (simp_all add: end_wait_def)

lemma send_call_inv:
  assumes "main_inv uc m" and "fits c"
  shows "\<exists>m' r. send_call c m = Some m' \<and> main_inv uc m' \<and> length r = 16 \<and>
     outbox m' = outbox m @ [le_bytes 8 (int (length (call_body c))) @ call_body c @ r] \<and>
     executionList (hdl m') = executionList (hdl m) \<and>
     send_ack_call_list (hdl m') = send_ack_call_list (hdl m) \<and>
     bench_calls_var m' = bench_calls_var m \<and> it_pos m' = it_pos m"
proof -
  have "256 \<le> length (payload m)" using assms(1) by (simp add: main_inv_def)
  from send_call_fits [OF assms(2) this] obtain r where
    r: "send_call c m = Some (m\<lparr>
      hdl := (hdl m)\<lparr>test_counter := test_counter (hdl m) + 1\<rparr>,
      payload := payload (the (send_call c m)),
      payload_size := length (call_body c) + 24,
      outbox := outbox m @ [le_bytes 8 (int (length (call_body c))) @ call_body c @ r]\<rparr>)"
    "length r = 16" "length (payload (the (send_call c m))) \<ge> 256" by blast
  show ?thesis
    by (subst r(1)) (use assms(1) r in \<open>auto simp: main_inv_def\<close>)
qed

lemma send_next_ack_inv:
  assumes "main_inv uc m"
  shows "\<exists>m' ms. send_next_ack m = Some m' \<and> main_inv uc m' \<and> outbox m' = outbox m @ ms \<and>
     executionList (hdl m') = executionList (hdl m) \<and> bench_calls_var m' = bench_calls_var m \<and>
     it_pos m' = it_pos m"
proof (cases "ack_index m < length (send_ack_call_list (hdl m))")
  case True
  then have "fits (send_ack_call_list (hdl m) ! ack_index m)"
    using assms by (simp add: main_inv_def)
  from send_call_inv [OF assms this] True show ?thesis
    by (auto simp: send_next_ack_def)
next
  case False
  then show ?thesis using assms by (auto simp: send_next_ack_def)
qed

lemma invoke_next_inv:
  assumes inv: "main_inv uc m" and it: "it_pos m < length (bench_calls_var m)"
    and req: "req = bench_calls_var m ! it_pos m"
  shows "\<exists>m'. invoke_next uc req m = Some m' \<and> main_inv uc m' \<and>
     (outbox m' = outbox m \<and> executionList (hdl m') = executionList (hdl m) \<or>
      (\<exists>r. length r = 16 \<and> it_pos m' = it_pos m + 1 \<and>
         executionList (hdl m') = executionList (hdl m) @ [stamp (hdl m) req] \<and>
         outbox m' = outbox m @
           [le_bytes 8 (int (length (call_body (stamp (hdl m) req))))
              @ call_body (stamp (hdl m) req) @ r]))"
proof -
  let ?h = "hdl m"
  have hinv: "handler_inv uc ?h" using inv by (simp add: main_inv_def)
  have r: "node_id req = hnode_id ?h" "0 \<le> call_id req" "call_id req < acks_columns"
    "length (ctype req) \<le> 39"
    using inv it req by (simp_all add: main_inv_def)
  note eq = localHandler_eq [OF hinv r(1)]
  have minv: "main_inv uc (m\<lparr>bench_calls_var := (bench_calls_var m)[it_pos m := req],
      stableindex_var := s\<rparr>)" for s
    using inv req by (simp add: main_inv_def)
  show ?thesis
  proof (cases "locallyPermissibility uc (current_state ?h) (stable_state ?h) req
      \<and> \<not> locally_blocked uc req ?h")
    case False
    then show ?thesis
      using minv by (auto simp: invoke_next_def eq)
  next
    case True
    let ?g = "log_append uc req ?h" and ?c = "stamp ?h req"
    let ?m1 = "m\<lparr>hdl := ?g, bench_calls_var := (bench_calls_var m)[it_pos m := ?c],
                 stableindex_var := stable_index ?h\<rparr>"
    have ginv: "handler_inv uc ?g" using log_append_inv [OF hinv r(1,2,3)] by simp
    have frame: "hnode_id ?g = hnode_id ?h" "number_of_nodes ?g = number_of_nodes ?h"
      "send_ack_call_list ?g = send_ack_call_list ?h"
      by (simp_all add: log_append_def log_insert_def)
    have n: "length (call_vector_clock ?c) = number_of_nodes ?h"
      using hinv by (simp add: stamp_def inv_defs)
    have list: "executionList ?g = executionList ?h @ [?c]"
      by (simp add: log_append_def log_insert_def)
    have m1: "main_inv uc ?m1"
      using inv ginv frame r it
      by (auto simp: main_inv_def dest: subsetD [OF set_update_subset_insert])
    have "fits ?c" using n r(4) inv by (simp add: fits_def main_inv_def)
    from send_call_inv [OF m1 this] show ?thesis
      using True list
      by (auto simp: invoke_next_def eq)
  qed
qed

lemma main_iteration_inv:
  assumes inv: "main_inv uc m"
  shows "\<exists>m'. main_iteration uc due m = Some m' \<and> main_inv uc m' \<and>
     (executionList (hdl m') = executionList (hdl m) \<or>
      (\<exists>c ms r. executionList (hdl m') = executionList (hdl m) @ [c] \<and>
         outbox m' = outbox m @ ms
           @ [le_bytes 8 (int (length (call_body c))) @ call_body c @ r]))"
proof -
  obtain m1 ms where m1: "send_next_ack m = Some m1" "main_inv uc m1"
    "outbox m1 = outbox m @ ms" "executionList (hdl m1) = executionList (hdl m)"
    "bench_calls_var m1 = bench_calls_var m" "it_pos m1 = it_pos m"
    using send_next_ack_inv [OF inv] by blast
  let ?m2 = "end_wait m1"
  show ?thesis
  proof (cases "it_pos m1 < length (bench_calls_var m1) \<and> due \<and> \<not> waiting ?m2 \<and>
      ctype (bench_calls_var m1 ! it_pos m1) \<noteq> ''Read''")
    case True
    then have "main_iteration uc due m
        = invoke_next uc (bench_calls_var ?m2 ! it_pos ?m2) ?m2"
      by (simp add: main_iteration_def m1(1))
    moreover from True m1 obtain m' where "invoke_next uc (bench_calls_var ?m2 ! it_pos ?m2) ?m2
        = Some m'" "main_inv uc m'"
      "outbox m' = outbox ?m2 \<and> executionList (hdl m') = executionList (hdl ?m2) \<or>
       (\<exists>r. executionList (hdl m')
            = executionList (hdl ?m2) @ [stamp (hdl ?m2) (bench_calls_var ?m2 ! it_pos ?m2)] \<and>
         outbox m' = outbox ?m2 @
           [le_bytes 8 (int (length (call_body
               (stamp (hdl ?m2) (bench_calls_var ?m2 ! it_pos ?m2)))))
              @ call_body (stamp (hdl ?m2) (bench_calls_var ?m2 ! it_pos ?m2)) @ r])"
      using invoke_next_inv [of uc ?m2 "bench_calls_var ?m2 ! it_pos ?m2"]
      by (auto simp del: end_wait_frame(5) simp: end_wait_frame(5) [of m1])
    ultimately show ?thesis using m1 by auto
  next
    case False
    then show ?thesis using m1 by (auto simp: main_iteration_def Let_def)
  qed
qed

end
