(* ===== verification/Hamsou_System.thy ===== *)
theory Hamsou_System
  imports Hamsou_Acks Hamsou_Main
begin

text \<open>
  A group of Hamsou nodes: one handler per process, one first-in-first-out channel per
  connected pair, and the steps the threads of the processes take (the main loop invokes a
  call or broadcasts the next acknowledgement, a receiver thread handles the next message of
  one connection). No process fails. The invariant of the group accounts for every call and
  every acknowledgement: a call is at its issuer and, at every other node, either held or
  still on the channel, exactly once; the acknowledgement table counts the
  acknowledgements that were broadcast and have left the channels.
\<close>

section \<open>The group and its steps\<close>

text \<open>
  \<open>links s j i\<close> is the connection from \<open>j\<close> to \<open>i\<close>: what \<open>j\<close> has broadcast and \<open>i\<close> has not
  received. \<open>acks_sent s i\<close> is the index into \<open>send_ack_call_list\<close> of the main loop of \<open>i\<close>.
\<close>

record 'st system =
  procs :: "int \<Rightarrow> 'st handler"
  links :: "int \<Rightarrow> int \<Rightarrow> call list"
  acks_sent :: "int \<Rightarrow> nat"

definition system_start :: "'st usecase \<Rightarrow> nat \<Rightarrow> (int \<Rightarrow> int) \<Rightarrow> int \<Rightarrow> 'st system" where
  "system_start uc n expected wp =
     \<lparr>procs = (\<lambda>i. setVars i n (expected i) wp 0 (Handler_new uc)), links = (\<lambda>j i. []),
      acks_sent = (\<lambda>i. 0)\<rparr>"

definition is_node :: "nat \<Rightarrow> int \<Rightarrow> bool" where
  "is_node n i \<longleftrightarrow> 1 \<le> i \<and> i \<le> int n"

text \<open>\<open>broadcast\<close>: the message is appended to the connection to every other node.\<close>

definition send_all :: "nat \<Rightarrow> int \<Rightarrow> call \<Rightarrow> 'st system \<Rightarrow> 'st system" where
  "send_all n i m s = s\<lparr>links := (\<lambda>a b.
     links s a b @ (if a = i \<and> b \<noteq> i \<and> is_node n b then [m] else []))\<rparr>"

datatype system_event =
    Sys_invoke int call
  | Sys_ack int
  | Sys_receive int int

fun system_step ::
  "'st usecase \<Rightarrow> (call \<Rightarrow> bool option) \<Rightarrow> nat \<Rightarrow> system_event \<Rightarrow> 'st system \<Rightarrow> 'st system option" where
  "system_step uc valid n (Sys_invoke i c) s = do {
     (h', c', send_flag, permiss, si) \<leftarrow> localHandler uc c (procs s i);
     let s1 = s\<lparr>procs := (procs s)(i := h')\<rparr>;
     Some (if send_flag then send_all n i c' s1 else s1) }"
| "system_step uc valid n (Sys_ack i) s =
     (if acks_sent s i < length (send_ack_call_list (procs s i))
      then Some (send_all n i (send_ack_call_list (procs s i) ! acks_sent s i)
             (s\<lparr>acks_sent := (acks_sent s)(i := Suc (acks_sent s i))\<rparr>))
      else Some s)"
| "system_step uc valid n (Sys_receive j i) s =
     (case links s j i of
        [] \<Rightarrow> Some s
      | m # ms \<Rightarrow> do {
          h' \<leftarrow> receive_call uc valid 0 m (procs s i);
          Some (s\<lparr>procs := (procs s)(i := h'),
                  links := (\<lambda>a b. if a = j \<and> b = i then ms else links s a b)\<rparr>) })"

text \<open>
  What the workload and the connections allow: a node invokes calls it numbers itself, each
  number once, with a method name that is no control message, and calls that the receivers'
  \<open>checkValidcall\<close> accepts in the form they are sent in, with the clock of the node.
\<close>

fun system_event_ok ::
  "(call \<Rightarrow> bool option) \<Rightarrow> nat \<Rightarrow> 'st system \<Rightarrow> system_event \<Rightarrow> bool" where
  "system_event_ok valid n s (Sys_invoke i c) \<longleftrightarrow> is_node n i \<and> node_id c = i \<and> 0 \<le> call_id c \<and>
     call_id c < acks_columns \<and> ctype c \<noteq> ''Ack'' \<and> ctype c \<noteq> ''Heartbeat'' \<and>
     call_key c \<notin> call_key ` set (executionList (procs s i)) \<and>
     valid (stamp (procs s i) c) = Some True"
| "system_event_ok valid n s (Sys_ack i) \<longleftrightarrow> is_node n i"
| "system_event_ok valid n s (Sys_receive j i) \<longleftrightarrow> is_node n j \<and> is_node n i \<and> j \<noteq> i"

inductive system_reachable ::
  "'st usecase \<Rightarrow> (call \<Rightarrow> bool option) \<Rightarrow> nat \<Rightarrow> 'st system \<Rightarrow> bool" for uc valid n where
  start: "system_reachable uc valid n (system_start uc n expected wp)"
| step: "system_reachable uc valid n s \<Longrightarrow> system_event_ok valid n s e \<Longrightarrow> system_step uc valid n e s = Some s' \<Longrightarrow>
     system_reachable uc valid n s'"

text \<open>A schedule, run from the left.\<close>

fun run_system ::
  "'st usecase \<Rightarrow> (call \<Rightarrow> bool option) \<Rightarrow> nat \<Rightarrow> system_event list \<Rightarrow> 'st system \<Rightarrow>
     'st system option" where
  "run_system uc valid n [] s = Some s"
| "run_system uc valid n (e # es) s =
     (if system_event_ok valid n s e
      then do { s' \<leftarrow> system_step uc valid n e s; run_system uc valid n es s' } else None)"

lemma run_system_reachable:
  "run_system uc valid n es s = Some s' \<Longrightarrow> system_reachable uc valid n s \<Longrightarrow> system_reachable uc valid n s'"
  by (induction es arbitrary: s)
    (auto simp: Option.bind_eq_Some_conv intro: system_reachable.step split: if_splits)

section \<open>The invariant\<close>

definition others :: "nat \<Rightarrow> int \<Rightarrow> int set" where
  "others n i = {1..int n} - {i}"

definition is_ack :: "call \<Rightarrow> bool" where
  "is_ack m \<longleftrightarrow> ctype m = ''Ack''"

definition issued :: "int \<Rightarrow> 'st handler \<Rightarrow> call multiset" where
  "issued j h = filter_mset (\<lambda>c. node_id c = j) (held h)"

definition calls_on :: "'st system \<Rightarrow> int \<Rightarrow> int \<Rightarrow> call multiset" where
  "calls_on s j i = mset (filter (\<lambda>m. \<not> is_ack m) (links s j i))"

definition acks_on :: "'st system \<Rightarrow> int \<Rightarrow> int \<Rightarrow> (int \<times> int) multiset" where
  "acks_on s j i = mset (map call_key (filter is_ack (links s j i)))"

definition acks_out :: "'st system \<Rightarrow> int \<Rightarrow> (int \<times> int) multiset" where
  "acks_out s j = mset (map call_key (take (acks_sent s j) (send_ack_call_list (procs s j))))"

definition unique_keys :: "call multiset \<Rightarrow> bool" where
  "unique_keys M \<longleftrightarrow> (\<forall>k. count (image_mset call_key M) k \<le> 1)"

lemma unique_keys_add:
  assumes "unique_keys M" and "count (image_mset call_key M) (call_key c) = 0"
  shows "unique_keys (add_mset c M)"
  unfolding unique_keys_def
proof
  fix k
  have "count (image_mset call_key M) k \<le> 1" using assms(1) unfolding unique_keys_def by blast
  then show "count (image_mset call_key (add_mset c M)) k \<le> 1"
    using assms(2) by (cases "call_key c = k") auto
qed

text \<open>A process.\<close>

definition proc_ok :: "'st usecase \<Rightarrow> nat \<Rightarrow> 'st system \<Rightarrow> int \<Rightarrow> bool" where
  "proc_ok uc n s i \<longleftrightarrow> node_reachable uc (procs s i) \<and>
     number_of_nodes (procs s i) = n \<and> hnode_id (procs s i) = i \<and>
     node_failed (procs s i) = replicate n False \<and> ack_log_inv (procs s i) \<and>
     acks_sent s i \<le> length (send_ack_call_list (procs s i)) \<and>
     unique_keys (issued i (procs s i))"

text \<open>A message on the connection from \<open>j\<close>.\<close>

definition message_ok :: "(call \<Rightarrow> bool option) \<Rightarrow> nat \<Rightarrow> int \<Rightarrow> call \<Rightarrow> bool" where
  "message_ok valid n j m \<longleftrightarrow>
     (if is_ack m then ack_in_range n m
      else ctype m \<noteq> ''Heartbeat'' \<and> call_ok n m \<and> node_id m = j \<and> valid m = Some True)"

text \<open>Every call of \<open>j\<close> is at \<open>i\<close> or on its way there, exactly once.\<close>

definition pair_ok :: "(call \<Rightarrow> bool option) \<Rightarrow> nat \<Rightarrow> 'st system \<Rightarrow> int \<Rightarrow> int \<Rightarrow> bool" where
  "pair_ok valid n s j i \<longleftrightarrow> (\<forall>m \<in> set (links s j i). message_ok valid n j m) \<and>
     issued j (procs s j) = issued j (procs s i) + calls_on s j i"

text \<open>Every acknowledgement broadcast by another node is counted or on its way.\<close>

definition acks_ok :: "nat \<Rightarrow> 'st system \<Rightarrow> int \<Rightarrow> bool" where
  "acks_ok n s i \<longleftrightarrow> (\<forall>a k.
     acks (procs s i) a k + int (\<Sum>j\<in>others n i. count (acks_on s j i) (a, k))
       = int (\<Sum>j\<in>others n i. count (acks_out s j) (a, k)))"

definition system_inv :: "'st usecase \<Rightarrow> (call \<Rightarrow> bool option) \<Rightarrow> nat \<Rightarrow> 'st system \<Rightarrow> bool" where
  "system_inv uc valid n s \<longleftrightarrow> (\<forall>i. is_node n i \<longrightarrow> proc_ok uc n s i \<and> acks_ok n s i) \<and>
     (\<forall>j i. is_node n j \<longrightarrow> is_node n i \<longrightarrow> j \<noteq> i \<longrightarrow> pair_ok valid n s j i)"

lemma finite_others [simp]: "finite (others n i)"
  by (simp add: others_def)

lemma in_others [simp]: "j \<in> others n i \<longleftrightarrow> is_node n j \<and> j \<noteq> i"
  by (auto simp: others_def is_node_def)

lemma is_ack_key_range: "ack_log_inv h \<Longrightarrow> handler_inv uc h \<Longrightarrow> a \<in> set (send_ack_call_list h) \<Longrightarrow>
   is_ack a \<and> ack_in_range (number_of_nodes h) a"
proof -
  assume h: "ack_log_inv h" "handler_inv uc h" "a \<in> set (send_ack_call_list h)"
  then have "call_key a \<in># remote_keys h"
    unfolding ack_log_inv_def by (metis image_eqI set_map set_mset_mset)
  then obtain c where "c \<in> set (executionList h)" "call_key a = call_key c"
    by (auto simp: remote_keys_def)
  then show ?thesis
    using h by (auto simp: inv_defs call_ok_def ack_in_range_def call_key_def ack_log_inv_def
        is_ack_def)
qed

lemma sum_change:
  fixes f g :: "'a \<Rightarrow> nat"
  assumes "finite A" and "j \<in> A" and "\<And>x. x \<in> A \<Longrightarrow> x \<noteq> j \<Longrightarrow> f x = g x"
  shows "sum f A + g j = sum g A + f j"
proof -
  have "sum f (A - {j}) = sum g (A - {j})" using assms(3) by (intro sum.cong) auto
  then show ?thesis using assms(1,2) by (simp add: sum.remove [of A j])
qed

section \<open>Sending keeps the invariant\<close>

lemma send_all_simps [simp]:
  "procs (send_all n i m s) = procs s" "acks_sent (send_all n i m s) = acks_sent s"
  "links (send_all n i m s) j k =
     (if j = i \<and> k \<noteq> i \<and> is_node n k then links s j k @ [m] else links s j k)"
  by (simp_all add: send_all_def)

lemma calls_on_send [simp]:
  "calls_on (send_all n i m s) j k = (if j = i \<and> k \<noteq> i \<and> is_node n k \<and> \<not> is_ack m
     then add_mset m (calls_on s j k) else calls_on s j k)"
  by (simp add: calls_on_def)

lemma acks_on_send [simp]:
  "acks_on (send_all n i m s) j k = (if j = i \<and> k \<noteq> i \<and> is_node n k \<and> is_ack m
     then add_mset (call_key m) (acks_on s j k) else acks_on s j k)"
  by (simp add: acks_on_def)

lemma on_other_fields [simp]:
  "acks_on (s\<lparr>acks_sent := k\<rparr>) = acks_on s" "calls_on (s\<lparr>acks_sent := k\<rparr>) = calls_on s"
  "acks_on (s\<lparr>procs := p\<rparr>) = acks_on s" "calls_on (s\<lparr>procs := p\<rparr>) = calls_on s"
  by (simp_all add: acks_on_def calls_on_def fun_eq_iff)

lemma system_inv_proc: "system_inv uc valid n s \<Longrightarrow> is_node n i \<Longrightarrow> proc_ok uc n s i"
  by (simp add: system_inv_def)

lemma proc_handler_inv: "proc_ok uc n s i \<Longrightarrow> handler_inv uc (procs s i)"
  by (simp add: proc_ok_def reachable_inv)

lemma int_balance:
  fixes x :: int
  assumes "a' + b = a + b'" and "x + int a = int b"
  shows "x + int a' = int b'"
  using assms by linarith

lemma acks_ok_balanced:
  assumes "acks_ok n s i" and "acks (procs s' i) = acks (procs s i)"
    and "\<And>x. (\<Sum>j\<in>others n i. count (acks_on s' j i) x) + (\<Sum>j\<in>others n i. count (acks_out s j) x)
       = (\<Sum>j\<in>others n i. count (acks_on s j i) x) + (\<Sum>j\<in>others n i. count (acks_out s' j) x)"
  shows "acks_ok n s' i"
  unfolding acks_ok_def
proof (intro allI)
  fix a k
  show "acks (procs s' i) a k + int (\<Sum>j\<in>others n i. count (acks_on s' j i) (a, k))
      = int (\<Sum>j\<in>others n i. count (acks_out s' j) (a, k))"
    by (rule int_balance [OF assms(3)]) (use assms(1,2) in \<open>simp add: acks_ok_def\<close>)
qed

text \<open>The main loop broadcasts the next acknowledgement.\<close>

lemma ack_step_inv:
  assumes inv: "system_inv uc valid n s" and i: "is_node n i"
    and next_ack: "acks_sent s i < length (send_ack_call_list (procs s i))"
  shows "system_inv uc valid n (send_all n i (send_ack_call_list (procs s i) ! acks_sent s i)
           (s\<lparr>acks_sent := (acks_sent s)(i := Suc (acks_sent s i))\<rparr>))"
proof -
  let ?m = "send_ack_call_list (procs s i) ! acks_sent s i"
  let ?s = "s\<lparr>acks_sent := (acks_sent s)(i := Suc (acks_sent s i))\<rparr>"
  let ?t = "send_all n i ?m ?s"
  have proc: "proc_ok uc n s k" if "is_node n k" for k using inv that by (rule system_inv_proc)
  have m: "is_ack ?m" "ack_in_range n ?m"
    using is_ack_key_range [of "procs s i" uc ?m] proc [OF i] proc_handler_inv [OF proc [OF i]]
      next_ack by (simp_all add: proc_ok_def)
  have out: "acks_out ?t j = (if j = i then add_mset (call_key ?m) (acks_out s j) else acks_out s j)"
    for j
    using next_ack by (simp add: acks_out_def take_Suc_conv_app_nth)
  have "proc_ok uc n ?t k" if "is_node n k" for k
    using proc [OF that] next_ack by (simp add: proc_ok_def)
  moreover have "acks_ok n ?t k" if k: "is_node n k" for k
  proof (rule acks_ok_balanced)
    show "acks_ok n s k" using inv k by (simp add: system_inv_def)
    show "acks (procs ?t k) = acks (procs s k)" by simp
  next
    fix x
    show "(\<Sum>j\<in>others n k. count (acks_on ?t j k) x) + (\<Sum>j\<in>others n k. count (acks_out s j) x)
        = (\<Sum>j\<in>others n k. count (acks_on s j k) x) + (\<Sum>j\<in>others n k. count (acks_out ?t j) x)"
      unfolding sum.distrib [symmetric]
      using k m by (intro sum.cong) (simp_all add: out)
  qed
  moreover have "pair_ok valid n ?t j k" if "is_node n j" "is_node n k" "j \<noteq> k" for j k
  proof -
    have "pair_ok valid n s j k" using inv that by (simp add: system_inv_def)
    then show ?thesis using m by (auto simp: pair_ok_def message_ok_def)
  qed
  ultimately show ?thesis by (simp add: system_inv_def)
qed

section \<open>Invocations and deliveries keep the invariant\<close>

text \<open>One handler is replaced, the others and the main loops stay.\<close>

lemma acks_out_proc:
  assumes "proc_ok uc n s i" and "prefix (send_ack_call_list (procs s i)) (send_ack_call_list h')"
    and "procs t = (procs s)(i := h')" and "acks_sent t = acks_sent s"
  shows "acks_out t = acks_out s"
  using assms by (auto simp: acks_out_def proc_ok_def prefix_def fun_eq_iff)

lemma proc_ok_replaced:
  assumes old: "proc_ok uc n s i" and e: "event_ok (procs s i) e"
    and h': "node_step uc e (procs s i) = Some h'"
    and g: "node_failed g = node_failed (procs s i)" "ack_log_inv g"
      "send_ack_call_list g = send_ack_call_list (procs s i)" and t: "tracks g h'"
    and u: "unique_keys (issued i h')"
    and st: "procs st = (procs s)(i := h')" "acks_sent st = acks_sent s"
  shows "proc_ok uc n st i"
proof -
  have reach: "node_reachable uc h'"
    using old e h' by (auto simp: proc_ok_def intro: node_reachable.step)
  have "handler_inv uc (procs s i)" using old by (rule proc_handler_inv)
  from node_step_progress [OF this e] h' have "extends (procs s i) h'"
    by (auto simp: progress_def)
  moreover have "length (send_ack_call_list g) \<le> length (send_ack_call_list h')"
    using t by (simp add: tracks_def prefix_length_le)
  ultimately show ?thesis
    using old reach g t u st by (auto simp: proc_ok_def tracks_def extends_def)
qed

lemma issued_add [simp]:
  assumes "held h' = add_mset c (held h)"
  shows "issued j h' = (if node_id c = j then add_mset c (issued j h) else issued j h)"
  using assms by (simp add: issued_def)

lemma key_fresh:
  assumes "ack_log_inv h" and "hnode_id h = i" and "node_id c = i"
    and "call_key c \<notin> call_key ` set (executionList h)"
  shows "count (image_mset call_key (issued i h)) (call_key c) = 0"
proof -
  have "call_key c \<notin># image_mset call_key (issued i h)"
  proof
    assume "call_key c \<in># image_mset call_key (issued i h)"
    then obtain x where x: "call_key c = call_key x" "node_id x = i" "x \<in># held h"
      by (auto simp: issued_def)
    then have "x \<in> set (executionList h)" using assms(1,2) by (auto simp: held_def ack_log_inv_def)
    then show False using x assms(4) by blast
  qed
  then show ?thesis by (simp only: not_in_iff)
qed

lemma invoke_step_inv:
  assumes inv: "system_inv uc valid n s" and ok: "system_event_ok valid n s (Sys_invoke i c)"
    and perm: "locallyPermissibility uc (current_state (procs s i)) (stable_state (procs s i)) c"
      "\<not> locally_blocked uc c (procs s i)"
  shows "system_inv uc valid n (send_all n i (stamp (procs s i) c)
           (s\<lparr>procs := (procs s)(i := log_append uc c (procs s i))\<rparr>))"
proof -
  let ?h = "procs s i" and ?c = "stamp (procs s i) c" and ?h' = "log_append uc c (procs s i)"
  let ?t = "send_all n i ?c (s\<lparr>procs := (procs s)(i := ?h')\<rparr>)"
  have proc: "proc_ok uc n s k" if "is_node n k" for k using inv that by (rule system_inv_proc)
  have i: "is_node n i" "node_id c = hnode_id ?h" "hnode_id ?h = i" "number_of_nodes ?h = n"
    using ok proc [of i] by (simp_all add: proc_ok_def)
  have hinv: "handler_inv uc ?h" using proc [OF i(1)] by (rule proc_handler_inv)
  have range: "0 \<le> call_id c" "call_id c < acks_columns" using ok by simp_all
  have held: "held ?h' = add_mset ?c (held ?h)"
    using log_append_inv(3) [OF hinv i(2) range] .
  have tr: "tracks ?h ?h'" using i(2) by (rule log_append_tracks)
  have step: "node_step uc (Invoke c) ?h = Some ?h'"
    using localHandler_eq [OF hinv i(2)] perm by simp
  have key: "call_key ?c = call_key c" by (simp add: call_key_def)
  have uniq: "unique_keys (issued i ?h')"
  proof -
    have "count (image_mset call_key (issued i ?h)) (call_key ?c) = 0"
      using ok i proc [OF i(1)] unfolding key by (intro key_fresh) (simp_all add: proc_ok_def)
    then have "unique_keys (add_mset ?c (issued i ?h))"
      using proc [OF i(1)] by (intro unique_keys_add) (simp_all add: proc_ok_def)
    then show ?thesis using issued_add [OF held] i by simp
  qed
  have msg: "message_ok valid n i ?c"
    using stamp_ok [of ?h c] hinv i range ok
    by (auto simp: message_ok_def is_ack_def handler_inv_def)
  have na: "\<not> is_ack ?c" using ok by (simp add: is_ack_def)
  have out: "acks_out ?t = acks_out s"
    using proc [OF i(1)] tr by (intro acks_out_proc [of uc n s i ?h']) (simp_all add: tracks_def)
  have "proc_ok uc n ?t k" if "is_node n k" for k
  proof (cases "k = i")
    case True
    have "proc_ok uc n ?t i"
      by (rule proc_ok_replaced [OF proc [OF i(1)] _ step refl _ refl tr])
        (use i range uniq proc [OF i(1)] in \<open>auto simp: proc_ok_def\<close>)
    then show ?thesis using True by simp
  next
    case False
    then show ?thesis using proc [OF that] by (simp add: proc_ok_def)
  qed
  moreover have "acks_ok n ?t k" if "is_node n k" for k
  proof (rule acks_ok_balanced)
    show "acks_ok n s k" using inv that by (simp add: system_inv_def)
    show "acks (procs ?t k) = acks (procs s k)" using tr by (simp add: tracks_def)
  qed (simp add: na out)
  moreover have "pair_ok valid n ?t j k" if "is_node n j" "is_node n k" "j \<noteq> k" for j k
  proof -
    have "pair_ok valid n s j k" using inv that by (simp add: system_inv_def)
    then show ?thesis
      using that msg na i issued_add [OF held] by (auto simp: pair_ok_def)
  qed
  ultimately show ?thesis by (simp add: system_inv_def)
qed

text \<open>A receiver thread handles the head of a connection.\<close>

definition received_state :: "int \<Rightarrow> int \<Rightarrow> call list \<Rightarrow> 'st handler \<Rightarrow> 'st system \<Rightarrow> 'st system" where
  "received_state j i ms h' s = s\<lparr>procs := (procs s)(i := h'),
     links := (\<lambda>a b. if a = j \<and> b = i then ms else links s a b)\<rparr>"

lemma received_state_simps [simp]:
  "procs (received_state j i ms h' s) = (procs s)(i := h')"
  "acks_sent (received_state j i ms h' s) = acks_sent s"
  "links (received_state j i ms h' s) a b = (if a = j \<and> b = i then ms else links s a b)"
  by (simp_all add: received_state_def)

lemma on_received:
  "calls_on (received_state j i ms h' s) a b
     = (if a = j \<and> b = i then mset (filter (\<lambda>m. \<not> is_ack m) ms) else calls_on s a b)"
  "acks_on (received_state j i ms h' s) a b
     = (if a = j \<and> b = i then mset (map call_key (filter is_ack ms)) else acks_on s a b)"
  by (simp_all add: calls_on_def acks_on_def)

lemma deliver_step_inv:
  assumes inv: "system_inv uc valid n s" and ok: "is_node n j" "is_node n i" "j \<noteq> i"
    and link: "links s j i = m # ms" and m: "\<not> is_ack m"
  shows "\<exists>h'. internalDownstreamExecute uc m (procs s i) = Some h' \<and>
     system_inv uc valid n (received_state j i ms h' s)"
proof -
  let ?h = "procs s i"
  have proc: "proc_ok uc n s k" if "is_node n k" for k using inv that by (rule system_inv_proc)
  have pair: "pair_ok valid n s a b" if "is_node n a" "is_node n b" "a \<noteq> b" for a b
    using inv that by (simp add: system_inv_def)
  have hinv: "handler_inv uc ?h" using proc [OF ok(2)] by (rule proc_handler_inv)
  have h: "number_of_nodes ?h = n" "hnode_id ?h = i" "ack_log_inv ?h"
    using proc [OF ok(2)] by (simp_all add: proc_ok_def)
  have mok: "call_ok n m" "node_id m = j"
    using pair [OF ok] link m by (auto simp: pair_ok_def message_ok_def)
  from internalDownstreamExecute_progress [OF hinv] mok h obtain h' where
    h': "internalDownstreamExecute uc m ?h = Some h'" "held h' = add_mset m (held ?h)" by metis
  have tr: "tracks ?h h'"
    using mok h ok by (intro deliver_tracks [OF hinv h(3) _ _ h'(1)]) simp_all
  have own: "issued i h' = issued i ?h" using issued_add [OF h'(2), of i] mok(2) ok(3) by simp
  let ?t = "received_state j i ms h' s"
  have out: "acks_out ?t = acks_out s"
    using proc [OF ok(2)] tr by (intro acks_out_proc [of uc n s i h']) (simp_all add: tracks_def)
  have on: "acks_on ?t = acks_on s"
    using link m by (simp add: on_received fun_eq_iff acks_on_def)
  have "proc_ok uc n ?t k" if "is_node n k" for k
  proof (cases "k = i")
    case True
    have "proc_ok uc n ?t i"
      by (rule proc_ok_replaced [OF proc [OF ok(2)] _ _ refl _ refl tr, of "Deliver m"])
        (use h h' mok own proc [OF ok(2)] in \<open>simp_all add: proc_ok_def\<close>)
    then show ?thesis using True by simp
  next
    case False
    then show ?thesis using proc [OF that] by (simp add: proc_ok_def)
  qed
  moreover have "acks_ok n ?t k" if "is_node n k" for k
  proof (rule acks_ok_balanced)
    show "acks_ok n s k" using inv that by (simp add: system_inv_def)
    show "acks (procs ?t k) = acks (procs s k)" using tr by (simp add: tracks_def)
  qed (simp add: on out)
  moreover have "pair_ok valid n ?t a b" if "is_node n a" "is_node n b" "a \<noteq> b" for a b
    using pair [OF that] link m mok(2) issued_add [OF h'(2)] that ok(3)
    by (auto simp: pair_ok_def on_received calls_on_def)
  ultimately show ?thesis using h'(1) by (auto simp: system_inv_def)
qed

lemma ack_received_inv:
  assumes inv: "system_inv uc valid n s" and ok: "is_node n j" "is_node n i" "j \<noteq> i"
    and link: "links s j i = m # ms" and m: "is_ack m"
  shows "\<exists>h'. updateAcksTable uc m (procs s i) = Some h' \<and>
     system_inv uc valid n (received_state j i ms h' s)"
proof -
  let ?h = "procs s i"
  have proc: "proc_ok uc n s k" if "is_node n k" for k using inv that by (rule system_inv_proc)
  have pair: "pair_ok valid n s a b" if "is_node n a" "is_node n b" "a \<noteq> b" for a b
    using inv that by (simp add: system_inv_def)
  have hinv: "handler_inv uc ?h" using proc [OF ok(2)] by (rule proc_handler_inv)
  have h: "number_of_nodes ?h = n" "hnode_id ?h = i" "ack_log_inv ?h"
    using proc [OF ok(2)] by (simp_all add: proc_ok_def)
  have mok: "ack_in_range (number_of_nodes ?h) m"
    using pair [OF ok] link m h by (auto simp: pair_ok_def message_ok_def)
  from updateAcksTable_progress [OF hinv mok] obtain h' where
    h': "updateAcksTable uc m ?h = Some h'" "held h' = held ?h" by metis
  have tr: "tracks (count_ack m ?h) h'" by (rule ack_tracks [OF hinv h(3) mok h'(1)])
  have issued: "issued a h' = issued a ?h" for a using h'(2) by (simp add: issued_def)
  have table: "acks h' a k = acks ?h a k + (if call_key m = (a, k) then 1 else 0)" for a k
    using tr by (simp add: tracks_def count_ack_def call_key_def)
  have pre: "prefix (send_ack_call_list ?h) (send_ack_call_list h')"
    using tr by (simp add: tracks_def count_ack_def)
  let ?t = "received_state j i ms h' s"
  have out: "acks_out ?t = acks_out s"
    using proc [OF ok(2)] pre by (intro acks_out_proc [of uc n s i h']) simp_all
  have on: "acks_on s a b
      = (if a = j \<and> b = i then add_mset (call_key m) (acks_on ?t a b) else acks_on ?t a b)" for a b
    using link m by (simp add: on_received acks_on_def)
  have "proc_ok uc n ?t k" if "is_node n k" for k
  proof (cases "k = i")
    case True
    have "proc_ok uc n ?t i"
      by (rule proc_ok_replaced [OF proc [OF ok(2)] _ _ _ _ _ tr, of "AckMsg m"])
        (use h h' mok issued proc [OF ok(2)] in
          \<open>simp_all add: proc_ok_def count_ack_tracks\<close>, simp_all add: count_ack_def)
    then show ?thesis using True by simp
  next
    case False
    then show ?thesis using proc [OF that] by (simp add: proc_ok_def)
  qed
  moreover have "acks_ok n ?t k" if k: "is_node n k" for k
  proof (cases "k = i")
    case True
    have bal: "(\<Sum>a\<in>others n i. count (acks_on s a i) x)
        = (\<Sum>a\<in>others n i. count (acks_on ?t a i) x) + (if call_key m = x then 1 else 0)" for x
    proof -
      have "(\<Sum>a\<in>others n i. count (acks_on s a i) x) + count (acks_on ?t j i) x
          = (\<Sum>a\<in>others n i. count (acks_on ?t a i) x) + count (acks_on s j i) x"
        by (rule sum_change) (use ok in \<open>simp_all add: on\<close>)
      moreover have "count (acks_on s j i) x
          = count (acks_on ?t j i) x + (if call_key m = x then 1 else 0)"
        unfolding on [of j i] by simp
      ultimately show ?thesis by linarith
    qed
    have old: "acks ?h a k + int (\<Sum>b\<in>others n i. count (acks_on s b i) (a, k))
        = int (\<Sum>b\<in>others n i. count (acks_out s b) (a, k))" for a k
      using inv ok(2) unfolding system_inv_def acks_ok_def by blast
    have "acks h' a k + int (\<Sum>b\<in>others n i. count (acks_on ?t b i) (a, k))
        = int (\<Sum>b\<in>others n i. count (acks_out s b) (a, k))" for a k
      using old [of a k] unfolding bal table by (cases "call_key m = (a, k)") simp_all
    then show ?thesis unfolding acks_ok_def out True by simp
  next
    case False
    show ?thesis
    proof (rule acks_ok_balanced)
      show "acks_ok n s k" using inv that by (simp add: system_inv_def)
      show "acks (procs ?t k) = acks (procs s k)" using False by simp
    qed (use False in \<open>simp add: out on\<close>)
  qed
  moreover have "pair_ok valid n ?t a b" if "is_node n a" "is_node n b" "a \<noteq> b" for a b
    using pair [OF that] link m that issued
    by (auto simp: pair_ok_def on_received calls_on_def)
  ultimately show ?thesis using h'(1) by (auto simp: system_inv_def)
qed

section \<open>Every reachable group\<close>

lemma count_replicate_False [simp]: "filter (\<lambda>f. f) (replicate n False) = []"
  by (induction n) auto

lemma system_start_inv: "system_inv uc valid n (system_start uc n expected wp)"
proof -
  have "proc_ok uc n (system_start uc n expected wp) i" if "is_node n i" for i
    using that node_reachable.start [of i n uc "expected i" wp 0] setVars_ack_log [of i n "expected i" wp 0 uc]
    by (simp add: proc_ok_def system_start_def is_node_def setVars_def Handler_new_def
        unique_keys_def issued_def held_def)
  moreover have "acks_ok n (system_start uc n expected wp) i" for i
    by (simp add: acks_ok_def system_start_def acks_on_def acks_out_def setVars_def Handler_new_def)
  moreover have "pair_ok valid n (system_start uc n expected wp) j i" for j i
    by (simp add: pair_ok_def system_start_def calls_on_def issued_def held_def setVars_def
        Handler_new_def)
  ultimately show ?thesis by (simp add: system_inv_def)
qed

lemma system_step_inv:
  assumes inv: "system_inv uc valid n s" and ok: "system_event_ok valid n s e"
  shows "\<exists>s'. system_step uc valid n e s = Some s' \<and> system_inv uc valid n s'"
proof (cases e)
  case (Sys_invoke i c)
  then have i: "is_node n i" "node_id c = i" using ok by simp_all
  then have "proc_ok uc n s i" using inv by (blast intro: system_inv_proc)
  then have h: "handler_inv uc (procs s i)" "node_id c = hnode_id (procs s i)"
    using i by (simp_all add: proc_handler_inv proc_ok_def)
  have same: "s\<lparr>procs := (procs s)(i := procs s i)\<rparr> = s" by simp
  show ?thesis
    using invoke_step_inv [OF inv ok [unfolded Sys_invoke]] inv
    by (simp add: Sys_invoke localHandler_eq [OF h] same del: fun_upd_apply)
next
  case (Sys_ack i)
  then show ?thesis using ack_step_inv [OF inv, of i] ok inv by simp
next
  case (Sys_receive j i)
  then have ji: "is_node n j" "is_node n i" "j \<noteq> i" using ok by simp_all
  show ?thesis
  proof (cases "links s j i")
    case Nil
    then show ?thesis using Sys_receive inv by simp
  next
    case (Cons m ms)
    have "message_ok valid n j m" using inv ji Cons by (auto simp: system_inv_def pair_ok_def)
    then have "receive_call uc valid 0 m = (if is_ack m then updateAcksTable uc m
        else internalDownstreamExecute uc m)"
      by (auto simp: receive_call_def message_ok_def is_ack_def fun_eq_iff)
    then show ?thesis
      using deliver_step_inv [OF inv ji Cons] ack_received_inv [OF inv ji Cons] Cons
      by (auto simp: Sys_receive received_state_def)
  qed
qed

lemma system_reachable_inv: "system_reachable uc valid n s \<Longrightarrow> system_inv uc valid n s"
proof (induction rule: system_reachable.induct)
  case (start expected wp)
  then show ?case by (rule system_start_inv)
next
  case (step s e s')
  then show ?case using system_step_inv by fastforce
qed

text \<open>A step changes at most one process, by one of its events.\<close>

lemma system_step_node:
  assumes inv: "system_inv uc valid n s" and ok: "system_event_ok valid n s e"
    and s': "system_step uc valid n e s = Some s'"
  shows "\<exists>i h'. procs s' = (procs s)(i := h') \<and> (h' = procs s i \<or> (\<exists>ev. is_node n i \<and>
    \<not> is_failure ev \<and> event_ok (procs s i) ev \<and> node_step uc ev (procs s i) = Some h'))"
proof (cases e)
  case (Sys_invoke i c)
  then have "proc_ok uc n s i" using inv ok by (simp add: system_inv_proc)
  then have "event_ok (procs s i) (Invoke c)" using ok Sys_invoke by (simp add: proc_ok_def)
  moreover obtain h' c' f p t where "localHandler uc c (procs s i) = Some (h', c', f, p, t)"
    "procs s' = (procs s)(i := h')"
    using s' Sys_invoke by (auto simp: Option.bind_eq_Some_conv Let_def split: if_splits)
  ultimately show ?thesis
    using ok Sys_invoke by (intro exI [of _ i] exI [of _ h']) (auto intro!: exI [of _ "Invoke c"])
next
  case (Sys_ack i)
  then have "procs s' = (procs s)(i := procs s i)" using s' by (auto split: if_splits)
  then show ?thesis by blast
next
  case (Sys_receive j i)
  show ?thesis
  proof (cases "links s j i")
    case Nil
    then have "procs s' = (procs s)(i := procs s i)" using s' Sys_receive by auto
    then show ?thesis by blast
  next
    case (Cons m ms)
    have ji: "is_node n j" "is_node n i" "j \<noteq> i" using ok Sys_receive by simp_all
    have m: "message_ok valid n j m" using inv ji Cons by (auto simp: system_inv_def pair_ok_def)
    then have "event_ok (procs s i) (message_event 0 m)" "\<not> is_failure (message_event 0 m)"
      if "number_of_nodes (procs s i) = n"
      using that by (auto simp: message_event_def message_ok_def is_ack_def split: if_splits)
    moreover have "number_of_nodes (procs s i) = n"
      using system_inv_proc [OF inv ji(2)] by (simp add: proc_ok_def)
    ultimately have ev: "event_ok (procs s i) (message_event 0 m)" "\<not> is_failure (message_event 0 m)"
      by blast+
    have "receive_call uc valid 0 m h = node_step uc (message_event 0 m) h" for h
      using m by (intro receive_call_event) (auto simp: message_ok_def is_ack_def split: if_splits)
    then obtain h' where "node_step uc (message_event 0 m) (procs s i) = Some h'"
      "procs s' = (procs s)(i := h')"
      using s' Sys_receive Cons by (auto simp: Option.bind_eq_Some_conv)
    then show ?thesis using ji ev by (intro exI [of _ i] exI [of _ h']) blast
  qed
qed

lemma system_step_extends:
  assumes inv: "system_inv uc valid n s" and ok: "system_event_ok valid n s e"
    and s': "system_step uc valid n e s = Some s'" and k: "is_node n k"
  shows "prefix (stable_calls (procs s k)) (stable_calls (procs s' k))"
proof -
  have ext: "prefix (stable_calls (procs s i)) (stable_calls h')"
    if "is_node n i" "event_ok (procs s i) ev" "node_step uc ev (procs s i) = Some h'" for i ev h'
    using node_step_progress [OF proc_handler_inv [OF system_inv_proc [OF inv that(1)]] that(2)]
      that(3) by (auto simp: progress_def extends_def)
  from system_step_node [OF inv ok s'] obtain i h' where
    h': "procs s' = (procs s)(i := h')" "h' = procs s i \<or> (\<exists>ev. is_node n i \<and> \<not> is_failure ev \<and>
      event_ok (procs s i) ev \<and> node_step uc ev (procs s i) = Some h')"
    by blast
  show ?thesis
  proof (cases "k = i")
    case True
    then show ?thesis using h' ext by auto
  next
    case False
    then show ?thesis using h'(1) by simp
  qed
qed

lemma system_clock_exact:
  "system_reachable uc valid n s \<Longrightarrow> is_node n k \<Longrightarrow> clock_exact (procs s k)"
proof (induction arbitrary: k rule: system_reachable.induct)
  case (start expected wp)
  then show ?case by (simp add: system_start_def setVars_clock)
next
  case (step s e s')
  note inv = system_reachable_inv [OF step.hyps(1)]
  from system_step_node [OF inv step.hyps(2,3)] obtain i h' where
    h': "procs s' = (procs s)(i := h')" "h' = procs s i \<or> (\<exists>ev. is_node n i \<and> \<not> is_failure ev \<and>
      event_ok (procs s i) ev \<and> node_step uc ev (procs s i) = Some h')"
    by blast
  have "clock_exact h'" if "is_node n i"
  proof -
    have "handler_inv uc (procs s i)" by (rule proc_handler_inv [OF system_inv_proc [OF inv that]])
    then show ?thesis
      using h'(2) step.IH [OF that] clock.node_step_keeps by blast
  qed
  then show ?case using h'(1) step.IH step.prems by (cases "k = i") simp_all
qed

lemma run_system_defined:
  "run_system uc valid n es s \<noteq> None \<Longrightarrow> system_reachable uc valid n s \<Longrightarrow>
     system_reachable uc valid n (the (run_system uc valid n es s))"
  by (auto intro: run_system_reachable)

end
