(* ===== verification/Hamsou_Delivery.thy ===== *)
theory Hamsou_Delivery
  imports Hamsou_System
begin

text \<open>
  What a group of Hamsou nodes delivers: every call reaches every node exactly once, nodes
  between which nothing is in flight hold the same calls, and the acknowledgement tables
  count exactly what the quorums of the stabiliser ask for, so that a node that handles an
  acknowledgement after every call has been executed stabilises its whole list.
\<close>

section \<open>Delivery\<close>

lemma count_issued: "count (issued j h) c = (if node_id c = j then count (held h) c else 0)"
  by (simp add: issued_def)

lemma unique_keys_count: "unique_keys M \<Longrightarrow> count M c \<le> 1"
proof -
  assume "unique_keys M"
  then have "count (image_mset call_key M) (call_key c) \<le> 1" unfolding unique_keys_def by blast
  moreover have "count M c \<le> count (image_mset call_key M) (call_key c)"
    by (induction M) auto
  ultimately show ?thesis by simp
qed

lemma held_nodes:
  "system_inv uc valid n s \<Longrightarrow> is_node n i \<Longrightarrow> c \<in># held (procs s i) \<Longrightarrow> is_node n (node_id c)"
  using system_inv_proc [of uc valid n s i] proc_handler_inv [of uc n s i]
  by (auto simp: inv_defs held_def call_ok_def is_node_def proc_ok_def)

lemma delivered_once:
  assumes "system_inv uc valid n s" and "is_node n j" and "is_node n i" and "j \<noteq> i"
    and "node_id c = j"
  shows "count (held (procs s j)) c = count (held (procs s i)) c + count (calls_on s j i) c"
    "count (held (procs s j)) c \<le> 1"
proof -
  have "issued j (procs s j) = issued j (procs s i) + calls_on s j i"
    using assms by (simp add: system_inv_def pair_ok_def)
  then have "count (issued j (procs s j)) c
      = count (issued j (procs s i)) c + count (calls_on s j i) c" by simp
  then show "count (held (procs s j)) c = count (held (procs s i)) c + count (calls_on s j i) c"
    using assms(5) by (simp add: count_issued)
  have "unique_keys (issued j (procs s j))"
    using system_inv_proc [OF assms(1,2)] by (simp add: proc_ok_def)
  then show "count (held (procs s j)) c \<le> 1"
    using unique_keys_count [of "issued j (procs s j)" c] assms(5) by (simp add: count_issued)
qed

text \<open>No call is in flight.\<close>

definition calls_delivered :: "nat \<Rightarrow> 'st system \<Rightarrow> bool" where
  "calls_delivered n s \<longleftrightarrow>
     (\<forall>j i. is_node n j \<longrightarrow> is_node n i \<longrightarrow> j \<noteq> i \<longrightarrow> calls_on s j i = {#})"

lemma delivered_agree:
  assumes inv: "system_inv uc valid n s" and "calls_delivered n s" and "is_node n i" and "is_node n k"
  shows "held (procs s i) = held (procs s k)"
proof (rule multiset_eqI)
  fix c
  have at: "count (held (procs s a)) c = count (held (procs s (node_id c))) c"
    if "is_node n a" "is_node n (node_id c)" for a
  proof (cases "a = node_id c")
    case False
    then show ?thesis
      using delivered_once(1) [OF inv that(2) that(1)] assms(2) that
      by (auto simp: calls_delivered_def)
  qed simp
  show "count (held (procs s i)) c = count (held (procs s k)) c"
  proof (cases "is_node n (node_id c)")
    case True
    then show ?thesis using trans [OF at [OF assms(3)] sym [OF at [OF assms(4)]]] by blast
  next
    case False
    then have "c \<notin># held (procs s i)" "c \<notin># held (procs s k)"
      using held_nodes [OF inv assms(3)] held_nodes [OF inv assms(4)] by blast+
    then show ?thesis by (metis count_eq_zero_iff)
  qed
qed

section \<open>The acknowledgement tables\<close>

text \<open>
  Everything is executed everywhere and every acknowledgement has been broadcast; some may
  still be in flight.
\<close>

definition all_executed :: "nat \<Rightarrow> 'st system \<Rightarrow> bool" where
  "all_executed n s \<longleftrightarrow> calls_delivered n s \<and> (\<forall>i. is_node n i \<longrightarrow>
     priorityQueue (procs s i) = [] \<and> acks_sent s i = length (send_ack_call_list (procs s i)))"

definition inbox_empty :: "nat \<Rightarrow> 'st system \<Rightarrow> int \<Rightarrow> bool" where
  "inbox_empty n s i \<longleftrightarrow> (\<forall>j. is_node n j \<longrightarrow> j \<noteq> i \<longrightarrow> links s j i = [])"

lemma executed_agree:
  assumes "system_inv uc valid n s" and "all_executed n s" and "is_node n i" and "is_node n k"
  shows "mset (executionList (procs s i)) = mset (executionList (procs s k))"
  using delivered_agree [OF assms(1) _ assms(3,4)] assms by (auto simp: all_executed_def held_def)

text \<open>How often the key of an executed call is acknowledged by node \<open>j\<close>.\<close>

lemma remote_key_count:
  assumes inv: "system_inv uc valid n s" and all: "all_executed n s" and j: "is_node n j"
    and c: "c \<in> set (executionList (procs s j))"
  shows "count (remote_keys (procs s j)) (call_key c) = (if node_id c = j then 0 else 1)"
proof -
  let ?a = "node_id c"
  have hj: "hnode_id (procs s j) = j" using system_inv_proc [OF inv j] by (simp add: proc_ok_def)
  have a: "is_node n ?a" using held_nodes [OF inv j] c by (simp add: held_def)
  have keyc: "count (image_mset call_key M) k = size (filter_mset (\<lambda>x. call_key x = k) M)"
    for M k by (induction M) auto
  have q: "held (procs s j) = mset (executionList (procs s j))"
    using all j by (simp add: all_executed_def held_def)
  have part: "filter_mset (\<lambda>x. node_id x \<noteq> j \<and> call_key x = call_key c) M
      = (if ?a = j then {#} else filter_mset (\<lambda>x. node_id x = ?a \<and> call_key x = call_key c) M)"
    for M by (induction M) (auto simp: call_key_def)
  have "count (remote_keys (procs s j)) (call_key c)
      = (if ?a = j then 0 else count (image_mset call_key (issued ?a (procs s j))) (call_key c))"
    unfolding remote_keys_def hj keyc issued_def filter_filter_mset q part by simp
  moreover have "count (image_mset call_key (issued ?a (procs s j))) (call_key c) = 1"
    if "?a \<noteq> j"
  proof -
    have "issued ?a (procs s j) = issued ?a (procs s ?a)"
      using all inv a j that by (auto simp: all_executed_def calls_delivered_def system_inv_def
          pair_ok_def)
    then have "unique_keys (issued ?a (procs s j))"
      using system_inv_proc [OF inv a] by (simp add: proc_ok_def)
    then have "count (image_mset call_key (issued ?a (procs s j))) (call_key c) \<le> 1"
      unfolding unique_keys_def by blast
    moreover have "call_key c \<in># image_mset call_key (issued ?a (procs s j))"
      using c by (auto simp: issued_def held_def)
    then have "count (image_mset call_key (issued ?a (procs s j))) (call_key c) > 0"
      by (simp only: count_greater_zero_iff)
    ultimately show ?thesis by linarith
  qed
  ultimately show ?thesis by simp
qed

text \<open>
  The counts once nothing is in flight: its issuer has one acknowledgement from each of the
  others, every other node all but its own.
\<close>

lemma sum_others:
  assumes "is_node n i" and "is_node n a"
  shows "int (\<Sum>j\<in>others n i. if a = j then 0 else 1) = int n - (if a = i then 1 else 2)"
proof -
  have "(\<Sum>j\<in>others n i. if a = j then 0 else 1::nat) = card (others n i - {a})"
    by (simp add: sum.If_cases Diff_eq Compl_eq)
  then show ?thesis
    using assms by (auto simp: others_def is_node_def card_Diff_singleton_if)
qed

definition acks_total :: "nat \<Rightarrow> 'st system \<Rightarrow> int \<Rightarrow> int \<times> int \<Rightarrow> nat" where
  "acks_total n s i k = (\<Sum>j\<in>others n i. count (remote_keys (procs s j)) k)"

lemma acks_total_call:
  assumes inv: "system_inv uc valid n s" and all: "all_executed n s" and i: "is_node n i"
    and c: "c \<in> set (executionList (procs s i))"
  shows "int (acks_total n s i (call_key c)) = int n - (if node_id c = i then 1 else 2)"
proof -
  have a: "is_node n (node_id c)" using held_nodes [OF inv i] c by (simp add: held_def)
  have "c \<in> set (executionList (procs s j))" if "is_node n j" for j
    using executed_agree [OF inv all i that] c by (metis set_mset_mset)
  then have "acks_total n s i (call_key c) = (\<Sum>j\<in>others n i. if node_id c = j then 0 else 1)"
    unfolding acks_total_def using remote_key_count [OF inv all] by (intro sum.cong) simp_all
  also have "int \<dots> = int n - (if node_id c = i then 1 else 2)"
    by (rule sum_others [OF i a])
  finally show ?thesis .
qed

lemma acks_out_all:
  assumes "system_inv uc valid n s" and "all_executed n s" and "is_node n j"
  shows "acks_out s j = remote_keys (procs s j)"
  using system_inv_proc [OF assms(1,3)] assms(2,3)
  by (simp add: acks_out_def all_executed_def proc_ok_def ack_log_inv_def)

lemma acks_flow:
  assumes inv: "system_inv uc valid n s" and all: "all_executed n s" and i: "is_node n i"
  shows "acks (procs s i) a k + int (\<Sum>j\<in>others n i. count (acks_on s j i) (a, k))
       = int (acks_total n s i (a, k))"
proof -
  have "(\<Sum>j\<in>others n i. count (acks_out s j) (a, k)) = acks_total n s i (a, k)"
    unfolding acks_total_def using acks_out_all [OF inv all] by (intro sum.cong) simp_all
  then show ?thesis using inv i unfolding system_inv_def acks_ok_def by metis
qed

section \<open>Stabilising everything\<close>

definition fully_stable :: "'st handler \<Rightarrow> bool" where
  "fully_stable h \<longleftrightarrow> stable_calls h = executionList h"

lemma stabilize_loop_acks:
  assumes "handler_inv uc h" and "drop (stable_index h) (executionList h) = cs"
    and "stabilize_loop uc q cs f h = Some (h', f')"
  shows "send_ack_call_list h' = send_ack_call_list h"
  using assms
proof (induction cs arbitrary: f h)
  case Nil
  then show ?case by simp
next
  case (Cons c cs)
  note s = stabilized_inv [OF Cons.prems(1,2)]
  have "drop (stable_index (stabilized uc c h)) (executionList (stabilized uc c h)) = cs"
    using Cons.prems(1,2) by (simp add: drop_Suc)
      (metis drop_Suc drop_eq_Nil list.sel(3) tl_drop)
  then have "send_ack_call_list h' = send_ack_call_list h"
    if "stabilize_loop uc q cs True (stabilized uc c h) = Some (h', f')"
    using Cons.IH [OF s(1) _ that] Cons.prems(1) by simp
  then show ?case
    using Cons.prems(3) stabilize_call_eq [OF Cons.prems(1), of c]
    by (auto simp: Option.bind_eq_Some_conv split: if_splits)
qed

text \<open>With an empty queue the stabiliser touches neither list.\<close>

lemma stabilizer_keeps:
  assumes inv: "handler_inv uc g" and q: "priorityQueue g = []"
    and k: "stabilizerWithAck uc g = Some k"
  shows "executionList k = executionList g \<and> priorityQueue k = [] \<and>
    send_ack_call_list k = send_ack_call_list g"
proof (cases "length (executionList g) \<le> stable_index g")
  case True
  then show ?thesis using k q by (simp add: stabilizerWithAck_def Let_def)
next
  case False
  from stabilize_loop_inv [OF inv refl, of "quorum_of g" False] obtain g' f where
    g': "stabilize_loop uc (quorum_of g) (drop (stable_index g) (executionList g)) False g
        = Some (g', f)"
      "executionList g' = executionList g" "priorityQueue g' = priorityQueue g" by auto
  have "k = g'"
    using False k g'(1) drain_queue_empty [of g' uc] g'(3) q
    by (auto simp: stabilizerWithAck_def Let_def quorum_of_def split: if_splits)
  moreover have "send_ack_call_list g' = send_ack_call_list g"
    using stabilize_loop_acks [OF inv refl g'(1)] .
  ultimately show ?thesis using g' q by simp
qed

lemma stabiliser_takes_all:
  assumes inv: "handler_inv uc g" and q: "priorityQueue g = []"
    and acked: "\<And>c. c \<in> set (executionList g) \<Longrightarrow> acked g (quorum_of g) c"
  shows "\<exists>h'. stabilizerWithAck uc g = Some h' \<and> fully_stable h' \<and>
    executionList h' = executionList g \<and> priorityQueue h' = []"
proof -
  from stabilizerWithAck_exact [OF inv] q obtain h' where h': "stabilizerWithAck uc g = Some h'"
    "stable_calls h' = stable_calls g
      @ takeWhile (acked g (quorum_of g)) (drop (stable_index g) (executionList g))"
    "priorityQueue h' = []" by blast
  have run: "takeWhile (acked g (quorum_of g)) (drop (stable_index g) (executionList g))
      = drop (stable_index g) (executionList g)"
    using acked by (simp add: takeWhile_eq_all_conv in_set_dropD)
  have st: "stable_calls h' = executionList g"
    unfolding h'(2) run by (simp add: stable_calls_def)
  have "executionList h' = executionList g"
    using stabilizer_keeps [OF inv q h'(1)] by simp
  then show ?thesis using h' st by (simp add: fully_stable_def)
qed

text \<open>What the tables say when everything has been counted.\<close>

lemma all_acked:
  assumes inv: "system_inv uc valid n s" and all: "all_executed n s" and i: "is_node n i"
    and g: "hnode_id g = i" "number_of_nodes g = n" "node_failed g = replicate n False"
    and full: "\<And>k. acks g (fst k) (snd k) = int (acks_total n s i k)"
    and c: "c \<in> set (executionList (procs s i))"
  shows "acked g (quorum_of g) c"
proof -
  have "acks g (node_id c) (call_id c) = int n - (if node_id c = i then 1 else 2)"
    using full [of "call_key c"] acks_total_call [OF inv all i c] by (simp add: call_key_def)
  then show ?thesis using g by (simp add: acked_def enough_acks_def quorum_of_def countFailed_def)
qed

lemma stabiliser_settles:
  assumes inv: "system_inv uc valid n s" and all: "all_executed n s" and i: "is_node n i"
    and empty: "inbox_empty n s i"
  shows "\<exists>h'. stabilizerWithAck uc (procs s i) = Some h' \<and> fully_stable h' \<and>
    executionList h' = executionList (procs s i) \<and> priorityQueue h' = []"
proof (rule stabiliser_takes_all)
  have p: "proc_ok uc n s i" using inv i by (rule system_inv_proc)
  then show "handler_inv uc (procs s i)" by (rule proc_handler_inv)
  show "priorityQueue (procs s i) = []" using all i by (simp add: all_executed_def)
  have "acks (procs s i) a k = int (acks_total n s i (a, k))" for a k
    using acks_flow [OF inv all i, of a k] empty
    by (simp add: inbox_empty_def acks_on_def)
  then show "acked (procs s i) (quorum_of (procs s i)) c" if "c \<in> set (executionList (procs s i))"
    for c
    using p that by (intro all_acked [OF inv all i]) (simp_all add: proc_ok_def)
qed

section \<open>The last acknowledgement\<close>

text \<open>When everything is executed, the next message of a connection is an acknowledgement.\<close>

lemma executed_head:
  assumes inv: "system_inv uc valid n s" and all: "all_executed n s" and ji: "is_node n j" "is_node n i"
    "j \<noteq> i" and link: "links s j i = m # ms"
  shows "is_ack m" "ack_in_range n m"
    "filter is_ack ms = ms"
proof -
  have none: "calls_on s j i = {#}"
    using all ji by (simp add: all_executed_def calls_delivered_def)
  then show "is_ack m" using link by (auto simp: calls_on_def split: if_splits)
  moreover have "message_ok valid n j m" using inv ji link by (auto simp: system_inv_def pair_ok_def)
  ultimately show "ack_in_range n m" by (simp add: message_ok_def)
  show "filter is_ack ms = ms"
    using none link by (auto simp: calls_on_def filter_empty_conv filter_id_conv split: if_splits)
qed

lemma last_ack:
  assumes inv: "system_inv uc valid n s" and all: "all_executed n s" and ji: "is_node n j" "is_node n i"
    "j \<noteq> i" and link: "links s j i = [m]"
    and rest: "\<And>k. is_node n k \<Longrightarrow> k \<noteq> i \<Longrightarrow> k \<noteq> j \<Longrightarrow> links s k i = []"
    and h': "updateAcksTable uc m (procs s i) = Some h'"
  shows "fully_stable h'"
proof -
  let ?h = "procs s i" and ?g = "count_ack m (procs s i)"
  have p: "proc_ok uc n s i" using inv ji(2) by (rule system_inv_proc)
  then have hinv: "handler_inv uc ?h" by (rule proc_handler_inv)
  have h: "number_of_nodes ?h = n" "hnode_id ?h = i" "ack_log_inv ?h"
    "node_failed ?h = replicate n False" using p by (simp_all add: proc_ok_def)
  note m = executed_head [OF inv all ji link]
  have one: "(\<Sum>k\<in>others n i. count (acks_on s k i) x) = (if call_key m = x then 1 else 0)" for x
  proof -
    have "acks_on s k i = (if k = j then {#call_key m#} else {#})" if "k \<in> others n i" for k
      using that rest link m(1) by (simp add: acks_on_def)
    then have "(\<Sum>k\<in>others n i. count (acks_on s k i) x)
        = (\<Sum>k\<in>others n i. if k = j then (if call_key m = x then 1 else 0) else 0)"
      by (intro sum.cong) simp_all
    then show ?thesis using ji by simp
  qed
  have full: "acks ?g (fst k) (snd k) = int (acks_total n s i k)" for k
    using acks_flow [OF inv all ji(2), of "fst k" "snd k"] unfolding prod.collapse one
    by (cases k) (auto simp: count_ack_def call_key_def split: if_splits)
  have g: "hnode_id ?g = i" "number_of_nodes ?g = n" "node_failed ?g = replicate n False"
    "priorityQueue ?g = []" "executionList ?g = executionList ?h" "quorum_of ?g = quorum_of ?h"
    using h all ji by (simp_all add: count_ack_def all_executed_def quorum_of_def countFailed_def)
  have acked: "acked ?g (quorum_of ?g) c" if "c \<in> set (executionList ?h)" for c
    using all_acked [OF inv all ji(2) g(1,2,3) full that] .
  have "acks_total n s i (call_key m) > 0"
  proof -
    have "acks ?g (node_id m) (call_id m) \<ge> 1"
      using h(3) by (simp add: count_ack_def ack_log_inv_def)
    then show ?thesis using full [of "call_key m"] by (simp add: call_key_def)
  qed
  then obtain k where k: "is_node n k" "count (remote_keys (procs s k)) (call_key m) > 0"
    unfolding acks_total_def by (auto simp: sum_eq_0_iff simp flip: neq0_conv)
  then obtain c where c: "c \<in> set (executionList (procs s k))" "call_key c = call_key m"
    by (auto simp: remote_keys_def count_greater_zero_iff simp del: count_image_mset)
  then have "c \<in> set (executionList ?h)"
    using executed_agree [OF inv all ji(2) k(1)] by (metis set_mset_mset)
  from acked [OF this] have "acked ?g (quorum_of ?h) m"
    using c(2) g(6) by (auto simp: acked_def enough_acks_def call_key_def)
  then have "updateAcksTable uc m ?h = stabilizerWithAck uc ?g"
    using updateAcksTable_eq [OF hinv, of m] m(2) h by simp
  moreover have "handler_inv uc ?g" using hinv by (simp add: frame_simps)
  from stabiliser_takes_all [OF this g(4)] acked g(5) obtain k where
    "stabilizerWithAck uc ?g = Some k" "fully_stable k" by auto
  ultimately show ?thesis using h' by simp
qed

section \<open>Every schedule of the remaining acknowledgements\<close>

definition is_receive :: "system_event \<Rightarrow> bool" where
  "is_receive e \<longleftrightarrow> (case e of Sys_receive j i \<Rightarrow> True | _ \<Rightarrow> False)"

text \<open>Handling an acknowledgement of an executed group leaves it executed.\<close>

lemma executed_receive:
  assumes inv: "system_inv uc valid n s" and all: "all_executed n s" and ji: "is_node n j" "is_node n i"
    "j \<noteq> i" and link: "links s j i = m # ms" and h': "updateAcksTable uc m (procs s i) = Some h'"
  shows "executionList h' = executionList (procs s i)" "priorityQueue h' = []"
    "send_ack_call_list h' = send_ack_call_list (procs s i)"
proof -
  let ?h = "procs s i"
  have p: "proc_ok uc n s i" using inv ji(2) by (rule system_inv_proc)
  then have hinv: "handler_inv uc ?h" by (rule proc_handler_inv)
  have h: "number_of_nodes ?h = n" "ack_log_inv ?h" using p by (simp_all add: proc_ok_def)
  have q: "priorityQueue ?h = []" using all ji by (simp add: all_executed_def)
  note m = executed_head [OF inv all ji link]
  have range: "ack_in_range (number_of_nodes ?h) m" using m h by simp
  have ginv: "handler_inv uc (count_ack m ?h)" using hinv by (simp add: frame_simps)
  have gq: "priorityQueue (count_ack m ?h) = []" "executionList (count_ack m ?h) = executionList ?h"
    "send_ack_call_list (count_ack m ?h) = send_ack_call_list ?h"
    using q by (simp_all add: count_ack_def)
  have "h' = count_ack m ?h \<or> stabilizerWithAck uc (count_ack m ?h) = Some h'"
    using h' unfolding updateAcksTable_eq [OF hinv range] by (auto split: if_splits)
  then have "executionList h' = executionList ?h \<and> priorityQueue h' = [] \<and>
      send_ack_call_list h' = send_ack_call_list ?h"
    using stabilizer_keeps [OF ginv gq(1), of h'] gq by auto
  then show "executionList h' = executionList ?h" "priorityQueue h' = []"
    "send_ack_call_list h' = send_ack_call_list ?h" by simp_all
qed

lemma receive_executed:
  assumes inv: "system_inv uc valid n s" and all: "all_executed n s"
    and ok: "system_event_ok valid n s (Sys_receive j i)" and link: "links s j i = m # ms"
  shows "\<exists>h'. system_step uc valid n (Sys_receive j i) s = Some (received_state j i ms h' s) \<and>
    system_inv uc valid n (received_state j i ms h' s) \<and>
    all_executed n (received_state j i ms h' s) \<and>
    executionList h' = executionList (procs s i) \<and>
    (inbox_empty n (received_state j i ms h' s) i \<longrightarrow> fully_stable h')"
proof -
  have ji: "is_node n j" "is_node n i" "j \<noteq> i" using ok by simp_all
  note m = executed_head [OF inv all ji link]
  from ack_received_inv [OF inv ji link m(1)] obtain h' where
    h': "updateAcksTable uc m (procs s i) = Some h'"
      "system_inv uc valid n (received_state j i ms h' s)" by blast
  let ?t = "received_state j i ms h' s"
  have step: "system_step uc valid n (Sys_receive j i) s = Some ?t"
    using link m(1) h'(1) by (simp add: received_state_def receive_call_def is_ack_def)
  note k = executed_receive [OF inv all ji link h'(1)]
  have "filter (\<lambda>m. \<not> is_ack m) ms = []" using m(3) by (auto simp: filter_empty_conv filter_id_conv)
  then have "all_executed n ?t"
    using all k ji(2) unfolding all_executed_def calls_delivered_def
    by (auto simp: on_received)
  moreover have "fully_stable h'" if "inbox_empty n ?t i"
  proof (rule last_ack [OF inv all ji _ _ h'(1)])
    show "links s j i = [m]" using that link ji by (auto simp: inbox_empty_def)
    show "links s k i = []" if "is_node n k" "k \<noteq> i" "k \<noteq> j" for k
      using \<open>inbox_empty n ?t i\<close> that by (auto simp: inbox_empty_def)
  qed
  ultimately show ?thesis using step h'(2) k by blast
qed

text \<open>
  Whatever the schedule: a node with acknowledgements to come has stabilised its whole list
  when its connections are empty, and nobody's list changes.
\<close>

lemma schedule_settles:
  assumes "system_inv uc valid n s" and "all_executed n s" and "\<forall>e \<in> set es. is_receive e"
    and "run_system uc valid n es s = Some s'" and "is_node n i" and "inbox_empty n s' i"
  shows "executionList (procs s' i) = executionList (procs s i) \<and>
    (inbox_empty n s i \<longrightarrow> procs s' i = procs s i) \<and>
    (\<not> inbox_empty n s i \<longrightarrow> fully_stable (procs s' i))"
  using assms
proof (induction es arbitrary: s)
  case Nil
  then show ?case by simp
next
  case (Cons e es)
  then obtain a b where e: "e = Sys_receive a b" by (auto simp: is_receive_def split: system_event.splits)
  have ok: "system_event_ok valid n s (Sys_receive a b)" using Cons.prems(4) e by (simp split: if_splits)
  show ?case
  proof (cases "links s a b")
    case Nil
    then have "run_system uc valid n es s = Some s'" using Cons.prems(4) e ok by simp
    then show ?thesis using Cons by simp
  next
    case link: (Cons m ms)
    from receive_executed [OF Cons.prems(1,2) ok link] obtain h' where
      h': "system_step uc valid n (Sys_receive a b) s = Some (received_state a b ms h' s)"
        "system_inv uc valid n (received_state a b ms h' s)"
        "all_executed n (received_state a b ms h' s)"
        "executionList h' = executionList (procs s b)"
        "inbox_empty n (received_state a b ms h' s) b \<longrightarrow> fully_stable h'" by blast
    let ?t = "received_state a b ms h' s"
    have "run_system uc valid n es ?t = Some s'" using Cons.prems(4) e ok h'(1) by simp
    then have IH: "executionList (procs s' i) = executionList (procs ?t i) \<and>
        (inbox_empty n ?t i \<longrightarrow> procs s' i = procs ?t i) \<and>
        (\<not> inbox_empty n ?t i \<longrightarrow> fully_stable (procs s' i))"
      using Cons.IH [OF h'(2,3)] Cons.prems(3,5,6) by simp
    have boxes: "inbox_empty n ?t i \<longleftrightarrow> inbox_empty n s i" if "i \<noteq> b"
      using that by (auto simp: inbox_empty_def)
    have "\<not> inbox_empty n s b" using ok link by (auto simp: inbox_empty_def)
    then show ?thesis using IH h'(4,5) boxes by (cases "i = b") auto
  qed
qed

text \<open>And there is such a schedule: every connection can be emptied.\<close>

definition in_flight :: "nat \<Rightarrow> 'st system \<Rightarrow> nat" where
  "in_flight n s = (\<Sum>p\<in>{1..int n} \<times> {1..int n}. length (links s (fst p) (snd p)))"

lemma schedule_exists:
  assumes "system_inv uc valid n s" and "all_executed n s"
  shows "\<exists>es s'. (\<forall>e \<in> set es. is_receive e) \<and> run_system uc valid n es s = Some s' \<and>
    system_inv uc valid n s' \<and> all_executed n s' \<and> (\<forall>i. is_node n i \<longrightarrow> inbox_empty n s' i)"
  using assms
proof (induction "in_flight n s" arbitrary: s rule: less_induct)
  case less
  show ?case
  proof (cases "\<forall>i. is_node n i \<longrightarrow> inbox_empty n s i")
    case True
    then show ?thesis using less.prems by (intro exI [of _ "[]"]) simp
  next
    case False
    then obtain j i m ms where ji: "is_node n j" "is_node n i" "j \<noteq> i"
      and link: "links s j i = m # ms"
      unfolding inbox_empty_def by (metis neq_Nil_conv)
    then have ok: "system_event_ok valid n s (Sys_receive j i)" by simp
    from receive_executed [OF less.prems ok link] obtain h' where
      h': "system_step uc valid n (Sys_receive j i) s = Some (received_state j i ms h' s)"
        "system_inv uc valid n (received_state j i ms h' s)"
        "all_executed n (received_state j i ms h' s)" by blast
    let ?t = "received_state j i ms h' s"
    have "in_flight n ?t < in_flight n s"
      unfolding in_flight_def
    proof (rule sum_strict_mono_ex1)
      show "\<exists>p\<in>{1..int n} \<times> {1..int n}. length (links ?t (fst p) (snd p))
          < length (links s (fst p) (snd p))"
        using ji link by (intro bexI [of _ "(j, i)"]) (auto simp: is_node_def)
    qed (use link in auto)
    from less.hyps [OF this h'(2,3)] obtain es s' where
      "\<forall>e \<in> set es. is_receive e" "run_system uc valid n es ?t = Some s'"
      "system_inv uc valid n s'" "all_executed n s'" "\<forall>i. is_node n i \<longrightarrow> inbox_empty n s' i" by blast
    then show ?thesis
      using ok h'(1)
      by (intro exI [of _ "Sys_receive j i # es"] exI [of _ s']) (simp add: is_receive_def)
  qed
qed

section \<open>Quiet groups\<close>

text \<open>Nothing in flight and nothing left to broadcast, as an executable test.\<close>

definition quiet :: "nat \<Rightarrow> 'st system \<Rightarrow> bool" where
  "quiet n s \<longleftrightarrow> list_all (\<lambda>i. acks_sent s i = length (send_ack_call_list (procs s i)) \<and>
     list_all (\<lambda>j. j = i \<or> links s j i = []) [1..int n]) [1..int n]"

lemma quiet_iff:
  "quiet n s \<longleftrightarrow> (\<forall>i. is_node n i \<longrightarrow>
     acks_sent s i = length (send_ack_call_list (procs s i)) \<and> inbox_empty n s i)"
proof -
  have nodes: "(\<forall>i\<in>set [1..int n]. P i) \<longleftrightarrow> (\<forall>i. is_node n i \<longrightarrow> P i)" for P
    by (auto simp: is_node_def)
  show ?thesis unfolding quiet_def list_all_iff nodes inbox_empty_def by blast
qed

definition all_executed_test :: "nat \<Rightarrow> 'st system \<Rightarrow> bool" where
  "all_executed_test n s \<longleftrightarrow> list_all (\<lambda>i. priorityQueue (procs s i) = [] \<and>
     acks_sent s i = length (send_ack_call_list (procs s i)) \<and>
     list_all (\<lambda>j. j = i \<or> list_all is_ack (links s j i)) [1..int n]) [1..int n]"

lemma all_executed_iff: "all_executed n s \<longleftrightarrow> all_executed_test n s"
proof -
  have nodes: "(\<forall>i\<in>set [1..int n]. P i) \<longleftrightarrow> (\<forall>i. is_node n i \<longrightarrow> P i)" for P
    by (auto simp: is_node_def)
  have on: "calls_on s j i = {#} \<longleftrightarrow> (\<forall>m\<in>set (links s j i). is_ack m)" for j i
    by (auto simp: calls_on_def filter_empty_conv)
  show ?thesis
    unfolding all_executed_test_def list_all_iff nodes all_executed_def calls_delivered_def on by blast
qed

lemma quiet_delivered: "quiet n s \<Longrightarrow> calls_delivered n s"
  by (auto simp: quiet_iff calls_delivered_def inbox_empty_def calls_on_def)

text \<open>Without a new call of the workload a quiet group never changes again.\<close>

definition is_invoke :: "system_event \<Rightarrow> bool" where
  "is_invoke e \<longleftrightarrow> (case e of Sys_invoke i c \<Rightarrow> True | _ \<Rightarrow> False)"

lemma quiet_step:
  assumes "quiet n s" and "system_event_ok valid n s e" and "\<not> is_invoke e"
  shows "system_step uc valid n e s = Some s"
  using assms by (cases e) (auto simp: quiet_iff inbox_empty_def is_invoke_def)

lemma quiet_run:
  "quiet n s \<Longrightarrow> \<forall>e \<in> set es. \<not> is_invoke e \<Longrightarrow> run_system uc valid n es s = Some s' \<Longrightarrow> s' = s"
proof (induction es)
  case Nil
  then show ?case by simp
next
  case (Cons e es)
  then have ok: "system_event_ok valid n s e" by (auto split: if_splits)
  then have "run_system uc valid n es s = Some s'"
    using Cons.prems quiet_step [OF Cons.prems(1) ok, of uc] by simp
  then show ?case using Cons by simp
qed

lemma quiet_executed:
  "quiet n s \<Longrightarrow> (\<And>i. is_node n i \<Longrightarrow> priorityQueue (procs s i) = []) \<Longrightarrow> all_executed n s"
  by (simp add: all_executed_def quiet_delivered) (simp add: quiet_iff)

text \<open>
  Nodes of a quiet group whose whole lists are conflict ordered settle in the same state.
\<close>

lemma quiet_ordered_agree:
  assumes inv: "system_inv uc valid n s" and q: "all_executed n s"
    and uc: "commuting_calls uc (set (executionList (procs s i)))"
    and i: "is_node n i" "conflict_ordered uc (executionList (procs s i))"
    and k: "is_node n k" "conflict_ordered uc (executionList (procs s k))"
  shows "fold (updateStableState uc) (executionList (procs s i)) (initial_state uc)
       = fold (updateStableState uc) (executionList (procs s k)) (initial_state uc)"
  using fold_ordered_permutations [OF i(2) [unfolded conflict_ordered_def]
      k(2) [unfolded conflict_ordered_def] executed_agree [OF inv q i(1) k(1)],
      of "updateStableState uc"] uc
  unfolding commuting_calls_def by blast

section \<open>Bounds of the acknowledgement tables\<close>

text \<open>A node acknowledges a key at most once, and none of its own.\<close>

lemma remote_keys_bound:
  assumes inv: "system_inv uc valid n s" and j: "is_node n j"
  shows "count (remote_keys (procs s j)) (a, k) \<le> (if is_node n a \<and> a \<noteq> j then 1 else 0)"
proof -
  let ?h = "procs s j"
  have hj: "hnode_id ?h = j" using system_inv_proc [OF inv j] by (simp add: proc_ok_def)
  show ?thesis
  proof (cases "is_node n a \<and> a \<noteq> j")
    case True
    have "issued a ?h \<subseteq># issued a (procs s a)"
      using inv j True by (auto simp: system_inv_def pair_ok_def)
    then have "image_mset call_key (issued a ?h) \<subseteq># image_mset call_key (issued a (procs s a))"
      by (rule image_mset_subseteq_mono)
    moreover have "count (image_mset call_key (issued a (procs s a))) (a, k) \<le> 1"
      using system_inv_proc [OF inv, of a] True unfolding proc_ok_def unique_keys_def by blast
    ultimately have one: "count (image_mset call_key (issued a ?h)) (a, k) \<le> 1"
      by (meson le_trans mset_subset_eq_count)
    have keyc: "count (image_mset call_key M) x = size (filter_mset (\<lambda>c. call_key c = x) M)"
      for M x by (induction M) auto
    have same: "filter_mset (\<lambda>c. node_id c \<noteq> j \<and> call_key c = (a, k)) M
        = filter_mset (\<lambda>c. node_id c = a \<and> call_key c = (a, k)) M" for M
      using True by (induction M) (auto simp: call_key_def)
    have "count (remote_keys ?h) (a, k) \<le> count (image_mset call_key (issued a ?h)) (a, k)"
      unfolding remote_keys_def hj keyc issued_def filter_filter_mset same held_def
        filter_union_mset size_union by simp
    then show ?thesis using one True by simp
  next
    case False
    have "(a, k) \<notin># remote_keys ?h"
    proof
      assume "(a, k) \<in># remote_keys ?h"
      then obtain c where "c \<in> set (executionList ?h)" "node_id c \<noteq> j" "node_id c = a"
        by (auto simp: remote_keys_def hj call_key_def)
      then show False using held_nodes [OF inv j, of c] False by (simp add: held_def)
    qed
    then show ?thesis using False by (simp only: not_in_iff if_False)
  qed
qed

lemma acks_table_bound:
  assumes inv: "system_inv uc valid n s" and i: "is_node n i"
  shows "0 \<le> acks (procs s i) a k" and "is_node n a \<Longrightarrow>
    acks (procs s i) a k \<le> int n - (if a = i then 1 else 2)"
proof -
  have p: "proc_ok uc n s j" if "is_node n j" for j using inv that by (rule system_inv_proc)
  show "0 \<le> acks (procs s i) a k" using p [OF i] by (simp add: proc_ok_def ack_log_inv_def)
  assume a: "is_node n a"
  have out: "count (acks_out s j) (a, k) \<le> (if a = j then 0 else 1)" if j: "is_node n j" for j
  proof -
    have "acks_out s j \<subseteq># remote_keys (procs s j)"
    proof -
      have "acks_out s j \<subseteq># mset (map call_key (send_ack_call_list (procs s j)))"
        unfolding acks_out_def mset_map
        by (intro image_mset_subseteq_mono) (metis mset_subset_eq_add_left mset_take_drop)
      then show ?thesis using p [OF j] by (simp add: proc_ok_def ack_log_inv_def)
    qed
    then have "count (acks_out s j) (a, k) \<le> count (remote_keys (procs s j)) (a, k)"
      by (rule mset_subset_eq_count)
    also have "\<dots> \<le> (if a = j then 0 else 1)"
      using remote_keys_bound [OF inv j, of a k] by (auto split: if_splits)
    finally show ?thesis .
  qed
  have "acks (procs s i) a k + int (\<Sum>j\<in>others n i. count (acks_on s j i) (a, k))
      = int (\<Sum>j\<in>others n i. count (acks_out s j) (a, k))"
    using inv i unfolding system_inv_def acks_ok_def by blast
  then have "acks (procs s i) a k \<le> int (\<Sum>j\<in>others n i. count (acks_out s j) (a, k))"
    by linarith
  also have "\<dots> \<le> int (\<Sum>j\<in>others n i. if a = j then 0 else 1)"
    unfolding of_nat_le_iff using out by (intro sum_mono) simp
  also have "\<dots> = int n - (if a = i then 1 else 2)"
    by (rule sum_others [OF i a])
  finally show "acks (procs s i) a k \<le> int n - (if a = i then 1 else 2)" .
qed

section \<open>Bounds of the vector clocks\<close>

lemma unique_size:
  assumes "\<And>x. count M x \<le> 1" and "set_mset M \<subseteq> A" and "finite A"
  shows "size M \<le> card A"
proof -
  have "M = mset_set (set_mset M)"
  proof (rule multiset_eqI)
    fix x
    have "count M x = (if x \<in># M then 1 else 0)"
    proof (cases "x \<in># M")
      case True
      then have "0 < count M x" by (simp only: count_greater_zero_iff)
      then show ?thesis using assms(1) [of x] True by (metis One_nat_def Suc_leI le_antisym)
    next
      case False
      then have "count M x = 0" by (simp only: not_in_iff)
      with False show ?thesis by (simp only: if_False)
    qed
    then show "count M x = count (mset_set (set_mset M)) x"
      by (simp only: count_mset_set' finite_set_mset simp_thms)
  qed
  then have "size M = card (set_mset M)" by (metis size_mset_set)
  then show ?thesis using card_mono [OF assms(3,2)] by simp
qed

lemma clock_bound:
  assumes reach: "system_reachable uc valid n s" and k: "is_node n k" and j: "is_node n j"
  shows "vector_clock (procs s k) ! nat (j - 1) = int (calls_of j (executionList (procs s k)))"
    "vector_clock (procs s k) ! nat (j - 1) \<le> acks_columns"
proof -
  note inv = system_reachable_inv [OF reach]
  have nk: "number_of_nodes (procs s k) = n"
    using system_inv_proc [OF inv k] by (simp add: proc_ok_def)
  show clock: "vector_clock (procs s k) ! nat (j - 1) = int (calls_of j (executionList (procs s k)))"
    using system_clock_exact [OF reach k] j nk by (simp add: clock_exact_def is_node_def)
  have sub: "issued j (procs s k) \<subseteq># issued j (procs s j)"
    using inv k j by (cases "j = k") (auto simp: system_inv_def pair_ok_def)
  have "calls_of j (executionList (procs s k)) \<le> size (issued j (procs s k))"
    by (simp add: calls_of_def issued_def held_def flip: size_mset mset_filter)
  also have "\<dots> \<le> size (issued j (procs s j))" using sub by (rule size_mset_mono)
  also have "\<dots> = size (image_mset call_key (issued j (procs s j)))" by simp
  also have "\<dots> \<le> card (Pair j ` {0..<acks_columns})"
  proof (rule unique_size)
    show "count (image_mset call_key (issued j (procs s j))) x \<le> 1" for x
      using system_inv_proc [OF inv j] unfolding proc_ok_def unique_keys_def by blast
    have "handler_inv uc (procs s j)" using system_inv_proc [OF inv j] by (rule proc_handler_inv)
    then show "set_mset (image_mset call_key (issued j (procs s j))) \<subseteq> Pair j ` {0..<acks_columns}"
      by (auto simp: issued_def held_def inv_defs call_ok_def call_key_def)
  qed (simp add: acks_columns_def)
  also have "\<dots> = nat acks_columns"
    by (simp add: card_image inj_on_def acks_columns_def)
  finally show "vector_clock (procs s k) ! nat (j - 1) \<le> acks_columns"
    unfolding clock by (simp add: acks_columns_def)
qed

end
