(* ===== verification/Hamsou_Wire.thy ===== *)
theory Hamsou_Wire
  imports Hamsou_Delivery
begin

text \<open>
  What lies between the calls the handlers exchange and the bytes the processes exchange:
  two fields of the handler that only the main loop reads do not influence any operation,
  every acknowledgement a node queues can be written to the wire, and a message that carries
  a call is received as that call.
\<close>

section \<open>Fields no operation reads\<close>

text \<open>
  \<open>last_call_stable\<close> is read by the main loop only, \<open>test_counter\<close> (the field \<open>test\<close>) by the
  statistics only.
\<close>

definition flagged :: "int \<Rightarrow> bool \<Rightarrow> 'st handler \<Rightarrow> 'st handler" where
  "flagged t b h = h\<lparr>test_counter := t, last_call_stable := b\<rparr>"

definition unflagged :: "'st handler \<Rightarrow> 'st handler" where
  "unflagged h = flagged 0 False h"

lemma unflagged_flagged [simp]: "unflagged (flagged t b h) = unflagged h"
  by (simp add: unflagged_def flagged_def)

lemma unflagged_eqE:
  assumes "unflagged h = unflagged h'"
  obtains t b where "h' = flagged t b h"
proof -
  have "h' = flagged (test_counter h') (last_call_stable h') (unflagged h')"
    by (simp add: unflagged_def flagged_def)
  also have "\<dots> = flagged (test_counter h') (last_call_stable h') h"
    unfolding assms [symmetric] by (simp add: unflagged_def flagged_def)
  finally show ?thesis by (rule that)
qed

lemma flagged_fields [simp]:
  "executionList (flagged t b h) = executionList h" "hnode_id (flagged t b h) = hnode_id h"
  "number_of_nodes (flagged t b h) = number_of_nodes h" "vector_clock (flagged t b h) = vector_clock h"
  "acks (flagged t b h) = acks h" "acks_rows (flagged t b h) = acks_rows h"
  "priorityQueue (flagged t b h) = priorityQueue h" "current_state (flagged t b h) = current_state h"
  "stable_state (flagged t b h) = stable_state h" "current_index (flagged t b h) = current_index h"
  "stable_index (flagged t b h) = stable_index h" "node_failed (flagged t b h) = node_failed h"
  "send_ack_call_list (flagged t b h) = send_ack_call_list h"
  by (simp_all add: flagged_def)

lemma localHandler_flagged:
  "localHandler uc c (flagged t b h)
     = map_option (\<lambda>(h', r). (flagged t b h', r)) (localHandler uc c h)"
proof (cases "vincr (vector_clock h) (hnode_id h - 1)")
  case None
  then show ?thesis by (simp add: localHandler_def)
next
  case (Some vc)
  obtain c1 f where "copy_clock (number_of_nodes h) vc c = (c1, f)" by fastforce
  then show ?thesis
    using Some by (cases f) (simp_all add: localHandler_def Let_def, simp_all add: flagged_def)
qed

lemma remoteHandler_flagged:
  "remoteHandler uc a c (flagged t b h)
     = map_option (\<lambda>(h', r). (flagged t b h', r)) (remoteHandler uc a c h)"
  apply (simp add: remoteHandler_def queueHandler_def insert_remote_def queue_ack_def Let_def)
  apply (auto simp: flagged_def split: option.splits bind_splits)
  done

lemma drain_queue_flagged:
  "drain_queue uc (flagged t b h) = map_option (flagged t b) (drain_queue uc h)"
proof (induction uc h rule: drain_queue.induct)
  case (1 uc h)
  show ?case
  proof (cases "priorityQueue h")
    case Nil
    then show ?thesis by (simp add: drain_queue.simps)
  next
    case (Cons c cs)
    show ?thesis
    proof (cases "remoteHandler uc False c h")
      case None
      then show ?thesis
        using Cons by (subst (1 2) drain_queue.simps) (simp add: remoteHandler_flagged)
    next
      case (Some r)
      obtain h1 f where r: "r = (h1, f)" by fastforce
      have "(flagged t b h1)\<lparr>priorityQueue := q\<rparr> = flagged t b (h1\<lparr>priorityQueue := q\<rparr>)" for q
        by (simp add: flagged_def)
      then show ?thesis
        using Cons Some r "1.IH" [OF Cons Some, of h1 f]
        by (subst (1 2) drain_queue.simps) (simp add: remoteHandler_flagged)
    qed
  qed
qed

lemma execute_flagged:
  "internalDownstreamExecute uc c (flagged t b h)
     = map_option (flagged t b) (internalDownstreamExecute uc c h)"
  by (cases "remoteHandler uc True c h")
    (auto simp: internalDownstreamExecute_def remoteHandler_flagged drain_queue_flagged)

text \<open>The stabiliser writes one of the flags, so its results agree up to the flags.\<close>

lemma stabilize_loop_flagged:
  "map_option (\<lambda>(h', f'). (unflagged h', f')) (stabilize_loop uc q cs f (flagged t b h))
     = map_option (\<lambda>(h', f'). (unflagged h', f')) (stabilize_loop uc q cs f h)"
proof (induction cs arbitrary: f t b h)
  case Nil
  then show ?case by simp
next
  case (Cons c cs)
  have a: "acks_get (flagged t b h) c = acks_get h c" by (simp add: acks_get_def)
  show ?case
  proof (cases "acks_get h c")
    case None
    then show ?thesis by (simp add: a)
  next
    case (Some k)
    have e: "enough_acks (flagged t b h) q c k = enough_acks h q c k"
      by (simp add: enough_acks_def)
    show ?thesis
    proof (cases "enough_acks h q c k")
      case False
      then show ?thesis using Some by (simp add: a e)
    next
      case True
      have "stabilize_call uc c (flagged t b h)
          = map_option (flagged t (if node_id c = hnode_id h \<and>
              call_id c = expected_calls h sdiv int (number_of_nodes h) - 1 then True else b))
              (stabilize_call uc c h)"
        by (simp add: stabilize_call_def) (simp add: flagged_def)
      then show ?thesis
        using True Some Cons by (cases "stabilize_call uc c h") (simp_all add: a e)
    qed
  qed
qed

lemma stabilizer_flagged:
  "map_option unflagged (stabilizerWithAck uc (flagged t b h))
     = map_option unflagged (stabilizerWithAck uc h)"
proof (cases "length (executionList h) \<le> stable_index h")
  case True
  then show ?thesis by (simp add: stabilizerWithAck_def Let_def)
next
  case False
  have q: "countFailed (flagged t b h) = countFailed h" by (simp add: countFailed_def)
  let ?l = "stabilize_loop uc (int (number_of_nodes h) - 1 - int (countFailed h))
    (drop (stable_index h) (executionList h)) False"
  from stabilize_loop_flagged [of uc _ _ False t b h]
  have l: "map_option (\<lambda>(h', f'). (unflagged h', f')) (?l (flagged t b h))
      = map_option (\<lambda>(h', f'). (unflagged h', f')) (?l h)" .
  show ?thesis
  proof (cases "?l h")
    case None
    then show ?thesis using False l by (simp add: stabilizerWithAck_def Let_def q)
  next
    case (Some r)
    then obtain h1 f h2 where r: "?l h = Some (h1, f)" "?l (flagged t b h) = Some (h2, f)"
      "unflagged h1 = unflagged h2" using l by (cases r) auto
    from unflagged_eqE [OF r(3)] obtain t' b' where h2: "h2 = flagged t' b' h1" .
    show ?thesis
      using False r(1,2) by (auto simp: stabilizerWithAck_def Let_def q h2 drain_queue_flagged
          option.map_comp comp_def)
  qed
qed

lemma updateAcks_flagged:
  "map_option unflagged (updateAcksTable uc c (flagged t b h))
     = map_option unflagged (updateAcksTable uc c h)"
proof -
  have a: "acks_get (flagged t b h) c = acks_get h c" by (simp add: acks_get_def)
  have q: "countFailed (flagged t b h) = countFailed h" by (simp add: countFailed_def)
  have u: "(flagged t b h)\<lparr>acks := x\<rparr> = flagged t b (h\<lparr>acks := x\<rparr>)" for x
    by (simp add: flagged_def)
  have e: "enough_acks (flagged t b g) k c v = enough_acks g k c v" for g k v
    by (simp add: enough_acks_def)
  show ?thesis
    by (cases "acks_get h c") (simp_all add: updateAcksTable_def Let_def a q u e stabilizer_flagged)
qed

section \<open>Every queued acknowledgement can be sent\<close>

text \<open>The template \<open>send_ack_call\<close> and its copies keep the 31 clock entries of the constructor.\<close>

definition wire_ack :: "call \<Rightarrow> bool" where
  "wire_ack a \<longleftrightarrow> wire_ok a \<and> length (ctype a) \<le> 3 \<and> length (call_vector_clock a) = 31"

definition wire_inv :: "'st handler \<Rightarrow> bool" where
  "wire_inv h \<longleftrightarrow> number_of_nodes h \<le> 31 \<and> wire_ack (send_ack_call h) \<and>
     (\<forall>a \<in> set (send_ack_call_list h). wire_ack a) \<and>
     (\<forall>c \<in> set (priorityQueue h). int32 (value1 c))"

lemma wire_inv_queue_ack:
  assumes "wire_inv h" and "int32 (value1 c)" and "call_ok (number_of_nodes h) c"
  shows "wire_inv (queue_ack c h)"
  using assms by (auto simp: wire_inv_def wire_ack_def wire_ok_def queue_ack_def Let_def call_ok_def
      int32_def acks_columns_def)

lemma wire_inv_frame [simp]:
  "wire_inv (log_append uc c h) = wire_inv h" "wire_inv (log_remote uc c h) = wire_inv h"
  "wire_inv (count_ack c h) = wire_inv h" "wire_inv (h\<lparr>last_heartbeat_time := t\<rparr>) = wire_inv h"
  by (simp_all add: wire_inv_def log_append_def log_remote_def log_insert_def count_ack_def)

interpretation wire: handler_property uc wire_inv "\<lambda>c. int32 (value1 c)" for uc :: "'st usecase"
proof unfold_locales
  fix h :: "'st handler" and c
  assume h: "wire_inv h"
  show "wire_inv (queue_ack c (log_remote uc c h))"
    if "int32 (value1 c)" "call_ok (number_of_nodes h) c"
    using h that by (intro wire_inv_queue_ack) (simp_all add: frame_simps)
  show "wire_inv (enqueue c h)" if "int32 (value1 c)"
    using h that by (auto simp: wire_inv_def enqueue_def pq.set_push)
  show "wire_inv (dequeue h)" if "priorityQueue h \<noteq> []"
    using h pq.set_pop_subset [OF that, of queue_less] by (auto simp: wire_inv_def dequeue_def)
  show "int32 (value1 c)" if "c \<in> set (priorityQueue h)"
    using h that by (simp add: wire_inv_def)
  show "wire_inv (stabilized uc c h)" if "handler_inv uc h"
    using h that by (simp add: wire_inv_def stabilized_def stabilize_call_def inv_defs)
qed simp_all

lemma setVars_wire: "n \<le> 31 \<Longrightarrow> wire_inv (setVars me n expected wp now (Handler_new uc))"
  by (simp add: wire_inv_def wire_ack_def wire_ok_def setVars_def Handler_new_def Call_default_def
      int32_def)

section \<open>Messages that carry a call\<close>

text \<open>
  The message \<open>w\<close> on a connection carries \<open>c\<close>: the length field, the body of the call, and
  the sixteen bytes the sender's buffer held behind it.
\<close>

definition carries :: "(call \<Rightarrow> bool option) \<Rightarrow> nat \<Rightarrow> call \<Rightarrow> bytes \<Rightarrow> bool" where
  "carries valid n c w \<longleftrightarrow>
     (\<exists>r. length r = 16 \<and> w = le_bytes 8 (int (length (call_body c))) @ call_body c @ r) \<and>
     wire_ok c \<and> n \<le> length (call_vector_clock c) \<and> length (call_body c) < 65536 \<and>
     (is_ack c \<or> ctype c \<noteq> ''Heartbeat'' \<and> length (call_vector_clock c) = n \<and> \<not> applied c \<and>
        valid c = Some True)"

lemma updateAcksTable_key:
  assumes "node_id c' = node_id c" and "call_id c' = call_id c"
  shows "updateAcksTable uc c' h = updateAcksTable uc c h"
  using assms by (simp add: updateAcksTable_def acks_get_def enough_acks_def Let_def)

lemma receive_carried:
  assumes w: "carries valid n c w" and n: "number_of_nodes h = n" "n \<noteq> 0"
  shows "receive_message uc valid remoteId now w (k, h)
     = map_option (Pair k) (node_step uc (message_event now c) h)"
proof -
  obtain r where r: "w = le_bytes 8 (int (length (call_body c))) @ call_body c @ r"
    using w by (auto simp: carries_def)
  let ?c = "c\<lparr>call_vector_clock := take n (call_vector_clock c), applied := False\<rparr>"
  have "\<not> strcmp_eq w ''init''" "\<not> strcmp_eq w ''shutdown''"
    unfolding r using w by (intro call_not_control; simp add: carries_def)+
  moreover have "deserialize_call (number_of_nodes h) w = Some ?c"
    unfolding r n(1) using w by (intro deserialize_body) (simp_all add: carries_def)
  ultimately have recv: "receive_message uc valid remoteId now w (k, h)
      = map_option (Pair k) (receive_call uc valid now ?c h)"
    using n by (simp add: receive_message_def map_conv_bind_option comp_def)
  show ?thesis
  proof (cases "is_ack c")
    case True
    then show ?thesis
      using updateAcksTable_key [of ?c c uc h] unfolding recv
      by (simp add: is_ack_def receive_call_def message_event_def)
  next
    case False
    then have "?c = c" "valid c = Some True" "ctype c \<noteq> ''Ack''" "ctype c \<noteq> ''Heartbeat''"
      using w by (simp_all add: carries_def is_ack_def)
    then show ?thesis using receive_call_event [of c valid uc now h] unfolding recv by simp
  qed
qed

end
