(* ===== verification/Hamsou_Bytes.thy ===== *)
theory Hamsou_Bytes
  imports Hamsou_Wire
begin

text \<open>
  The group again, one level below: every process is the main loop with its handler, and the
  connections carry the bytes the main loop serialised. One round of a main loop may
  broadcast an acknowledgement and a call, a receiver thread parses the next message. The
  lemmas prove that every byte-level step is defined and matches a schedule of steps of the
  group of handlers, so what holds of the reachable groups of handlers holds of the processes.
\<close>

section \<open>Processes and connections\<close>

text \<open>\<open>ready\<close> is the counter of peers that reported for the start (\<open>initcounter\<close>).\<close>

record 'st byte_group =
  machines :: "int \<Rightarrow> 'st main_state"
  wires :: "int \<Rightarrow> int \<Rightarrow> bytes list"
  ready :: "int \<Rightarrow> int"

text \<open>The state after the start barrier, from the processes as they were set up.\<close>

definition byte_start :: "nat \<Rightarrow> (int \<Rightarrow> 'st main_state) \<Rightarrow> 'st byte_group" where
  "byte_start n ms = \<lparr>machines = ms, wires = (\<lambda>j i. []), ready = (\<lambda>i. int n - 1)\<rparr>"

text \<open>Process \<open>i\<close> goes to \<open>m\<close>, having broadcast the messages \<open>ws\<close>.\<close>

definition advance ::
  "nat \<Rightarrow> int \<Rightarrow> 'st main_state \<Rightarrow> bytes list \<Rightarrow> 'st byte_group \<Rightarrow> 'st byte_group" where
  "advance n i m ws b = b\<lparr>machines := (machines b)(i := m),
     wires := (\<lambda>x y. wires b x y @ (if x = i \<and> y \<noteq> i \<and> is_node n y then ws else []))\<rparr>"

datatype byte_event =
    Byte_main int bool
  | Byte_receive int int

text \<open>
  One round of the main loop of \<open>i\<close> (\<open>due\<close>: the rate limiter lets a call through), and the
  receiver thread of \<open>i\<close> for the connection from \<open>j\<close>.
\<close>

fun byte_step ::
  "'st usecase \<Rightarrow> (call \<Rightarrow> bool option) \<Rightarrow> nat \<Rightarrow> byte_event \<Rightarrow> 'st byte_group \<Rightarrow>
     'st byte_group option" where
  "byte_step uc valid n (Byte_main i due) b = do {
     m \<leftarrow> main_round uc due (machines b i);
     Some (advance n i m (drop (length (outbox (machines b i))) (outbox m)) b) }"
| "byte_step uc valid n (Byte_receive j i) b =
     (case wires b j i of
        [] \<Rightarrow> Some b
      | w # ws \<Rightarrow> do {
          (k, h) \<leftarrow> receive_message uc valid j 0 w (ready b i, hdl (machines b i));
          Some (b\<lparr>machines := (machines b)(i := (machines b i)\<lparr>hdl := h\<rparr>),
                  wires := (\<lambda>x y. if x = j \<and> y = i then ws else wires b x y),
                  ready := (ready b)(i := k)\<rparr>) })"

fun byte_event_ok :: "nat \<Rightarrow> byte_event \<Rightarrow> bool" where
  "byte_event_ok n (Byte_main i due) \<longleftrightarrow> is_node n i"
| "byte_event_ok n (Byte_receive j i) \<longleftrightarrow> is_node n j \<and> is_node n i \<and> j \<noteq> i"

fun run_bytes ::
  "'st usecase \<Rightarrow> (call \<Rightarrow> bool option) \<Rightarrow> nat \<Rightarrow> byte_event list \<Rightarrow> 'st byte_group \<Rightarrow>
     'st byte_group option" where
  "run_bytes uc valid n [] b = Some b"
| "run_bytes uc valid n (e # es) b =
     (if byte_event_ok n e
      then do { b' \<leftarrow> byte_step uc valid n e b; run_bytes uc valid n es b' } else None)"

section \<open>Workloads\<close>

text \<open>
  What a generated workload file holds for node \<open>i\<close>: updates that carry the node's number, a
  call number of the acknowledgement table and 32-bit arguments, under a short method name
  that is no control message and that the class accepts. Reads are never sent.
\<close>

definition load_ok :: "(call \<Rightarrow> bool option) \<Rightarrow> int \<Rightarrow> call \<Rightarrow> bool" where
  "load_ok valid i c \<longleftrightarrow> node_id c = i \<and> 0 \<le> call_id c \<and> call_id c < acks_columns \<and>
     ctype c \<noteq> ''Ack'' \<and> ctype c \<noteq> ''Heartbeat'' \<and> length (ctype c) \<le> 39 \<and>
     int32 (value1 c) \<and> int32 (value2 c) \<and> int32 (value3 c) \<and> int32 (value4 c) \<and>
     \<not> applied c \<and> (\<forall>v. valid (c\<lparr>call_vector_clock := v\<rparr>) = Some True)"

definition workload_ok :: "(call \<Rightarrow> bool option) \<Rightarrow> int \<Rightarrow> call list \<Rightarrow> bool" where
  "workload_ok valid i cs \<longleftrightarrow>
     (\<forall>c \<in> set (updates cs). load_ok valid i c) \<and> distinct (map call_id (updates cs))"

inductive byte_reachable ::
  "'st usecase \<Rightarrow> (call \<Rightarrow> bool option) \<Rightarrow> nat \<Rightarrow> 'st byte_group \<Rightarrow> bool" for uc valid n where
  start: "n \<le> 31 \<Longrightarrow> (\<And>i. is_node n i \<Longrightarrow> workload_ok valid i (loads i) \<and>
       ms i = main_start (setVars i n (expected i) wp 0 (Handler_new uc)) (loads i)) \<Longrightarrow>
     byte_reachable uc valid n (byte_start n ms)"
| step: "byte_reachable uc valid n b \<Longrightarrow> byte_event_ok n e \<Longrightarrow>
     byte_step uc valid n e b = Some b' \<Longrightarrow> byte_reachable uc valid n b'"

section \<open>The relation\<close>

definition unsent :: "'st main_state \<Rightarrow> call list" where
  "unsent m = updates (drop (it_pos m) (bench_calls_var m))"

definition machine_rel ::
  "(call \<Rightarrow> bool option) \<Rightarrow> int \<Rightarrow> 'st handler \<Rightarrow> nat \<Rightarrow> 'st main_state \<Rightarrow> bool" where
  "machine_rel valid i h k m \<longleftrightarrow> unflagged (hdl m) = unflagged h \<and> ack_index m = k \<and>
     256 \<le> length (payload m) \<and> workload_ok valid i (unsent m) \<and>
     (\<forall>c \<in> set (unsent m). count (image_mset call_key (issued i h)) (call_key c) = 0)"

definition group_rel ::
  "'st usecase \<Rightarrow> (call \<Rightarrow> bool option) \<Rightarrow> nat \<Rightarrow> 'st byte_group \<Rightarrow> 'st system \<Rightarrow> bool" where
  "group_rel uc valid n b s \<longleftrightarrow> system_reachable uc valid n s \<and> n \<le> 31 \<and>
     (\<forall>i. is_node n i \<longrightarrow> wire_inv (procs s i) \<and>
        machine_rel valid i (procs s i) (acks_sent s i) (machines b i)) \<and>
     (\<forall>j i. is_node n j \<longrightarrow> is_node n i \<longrightarrow> j \<noteq> i \<longrightarrow>
        list_all2 (carries valid n) (links s j i) (wires b j i))"

lemma updates_idem [simp]: "updates (updates cs) = updates cs"
  by (simp add: updates_def)

lemma group_relD:
  assumes "group_rel uc valid n b s" and "is_node n i"
  shows "system_reachable uc valid n s" "n \<le> 31" "wire_inv (procs s i)" "proc_ok uc n s i"
    "machine_rel valid i (procs s i) (acks_sent s i) (machines b i)"
  using assms system_reachable_inv [of uc valid n s] by (auto simp: group_rel_def intro: system_inv_proc)

lemma advance_advance [simp]:
  "advance n i m' ws' (advance n i m ws b) = advance n i m' (ws @ ws') b"
  by (simp add: advance_def fun_eq_iff)

lemma machine_advance [simp]: "machines (advance n i m ws b) i = m"
  by (simp add: advance_def)

text \<open>A process advances together with its handler.\<close>

lemma group_rel_advance:
  assumes rel: "group_rel uc valid n b s" and reach: "system_reachable uc valid n s'"
    and procs: "procs s' = (procs s)(i := h')" and sent: "acks_sent s' = (acks_sent s)(i := k')"
    and links: "\<And>x y. links s' x y
      = links s x y @ (if x = i \<and> y \<noteq> i \<and> is_node n y then ms else [])"
    and ms: "list_all2 (carries valid n) ms ws"
    and h': "wire_inv h'" "machine_rel valid i h' k' m'"
  shows "group_rel uc valid n (advance n i m' ws b) s'"
  unfolding group_rel_def
proof (intro conjI allI impI)
  show "system_reachable uc valid n s'" by (rule reach)
  show "n \<le> 31" using rel by (simp add: group_rel_def)
  show "wire_inv (procs s' k)" if "is_node n k" for k
    using group_relD(3) [OF rel that] h'(1) procs by simp
  show "machine_rel valid k (procs s' k) (acks_sent s' k) (machines (advance n i m' ws b) k)"
    if "is_node n k" for k
    using group_relD(5) [OF rel that] h'(2) procs sent by (simp add: advance_def)
  show "list_all2 (carries valid n) (links s' x y) (wires (advance n i m' ws b) x y)"
    if "is_node n x" "is_node n y" "x \<noteq> y" for x y
  proof -
    have "list_all2 (carries valid n) (links s x y) (wires b x y)"
      using rel that by (simp add: group_rel_def)
    then show ?thesis using ms by (simp add: links advance_def list_all2_appendI)
  qed
qed

lemma group_rel_local:
  assumes "group_rel uc valid n b s" and "is_node n i"
    and "machine_rel valid i (procs s i) (acks_sent s i) m'"
  shows "group_rel uc valid n (advance n i m' [] b) s"
  using assms group_relD [OF assms(1,2)]
  by (intro group_rel_advance [where s' = s and h' = "procs s i" and k' = "acks_sent s i"]) auto

section \<open>The main loop broadcasts an acknowledgement\<close>

lemma unflagged_test [simp]: "unflagged (h\<lparr>test_counter := t\<rparr>) = unflagged h"
  by (simp add: unflagged_def flagged_def)

lemma unflagged_stable [simp]: "unflagged (h\<lparr>last_call_stable := v\<rparr>) = unflagged h"
  by (simp add: unflagged_def flagged_def)

lemma machine_rel_flagged:
  assumes "machine_rel valid i h k m"
  obtains t v where "hdl m = flagged t v h"
  using assms unflagged_eqE [of h "hdl m"] by (auto simp: machine_rel_def)

lemma send_call_carries:
  assumes c: "fits c" "wire_ok c" "n \<le> length (call_vector_clock c)"
    and kind: "is_ack c \<or> ctype c \<noteq> ''Heartbeat'' \<and> length (call_vector_clock c) = n \<and>
      \<not> applied c \<and> valid c = Some True"
    and buf: "256 \<le> length (payload m)"
  shows "\<exists>m' w. send_call c m = Some m' \<and> outbox m' = outbox m @ [w] \<and> carries valid n c w \<and>
    unflagged (hdl m') = unflagged (hdl m) \<and> 256 \<le> length (payload m') \<and>
    bench_calls_var m' = bench_calls_var m \<and> it_pos m' = it_pos m \<and>
    ack_index m' = ack_index m \<and> waiting m' = waiting m"
proof -
  from send_call_fits [OF c(1) buf] obtain r where
    r: "send_call c m = Some (m\<lparr>
      hdl := (hdl m)\<lparr>test_counter := test_counter (hdl m) + 1\<rparr>,
      payload := payload (the (send_call c m)),
      payload_size := length (call_body c) + 24,
      outbox := outbox m @ [le_bytes 8 (int (length (call_body c))) @ call_body c @ r]\<rparr>)"
    "length r = 16" "length (payload (the (send_call c m))) \<ge> 256" by blast
  let ?w = "le_bytes 8 (int (length (call_body c))) @ call_body c @ r"
  have "length (call_body c) < 65536" using c(1) by (simp add: fits_def length_call_body)
  then have "carries valid n c ?w"
    unfolding carries_def using c kind r(2) by blast
  then show ?thesis by (subst r(1)) (use r(3) in \<open>simp\<close>)
qed

lemma send_next_ack_sim:
  assumes rel: "group_rel uc valid n b s" and i: "is_node n i"
  shows "\<exists>m ws s'. send_next_ack (machines b i) = Some m \<and>
    outbox m = outbox (machines b i) @ ws \<and> run_system uc valid n [Sys_ack i] s = Some s' \<and>
    group_rel uc valid n (advance n i m ws b) s' \<and>
    bench_calls_var m = bench_calls_var (machines b i) \<and> it_pos m = it_pos (machines b i)"
proof -
  let ?m = "machines b i" and ?h = "procs s i"
  note r = group_relD [OF rel i]
  obtain t v where hdl: "hdl ?m = flagged t v ?h" using r(5) by (rule machine_rel_flagged)
  have idx: "ack_index ?m = acks_sent s i" "256 \<le> length (payload ?m)"
    using r(5) by (simp_all add: machine_rel_def)
  show ?thesis
  proof (cases "acks_sent s i < length (send_ack_call_list ?h)")
    case False
    then show ?thesis
      using group_rel_local [OF rel i r(5)] idx i by (auto simp: send_next_ack_def hdl)
  next
    case True
    let ?a = "send_ack_call_list ?h ! acks_sent s i"
    have a: "is_ack ?a" "wire_ack ?a"
      using True r(3,4) by (auto simp: proc_ok_def ack_log_inv_def is_ack_def wire_inv_def)
    then have "fits ?a" "wire_ok ?a" "n \<le> length (call_vector_clock ?a)"
      using r(2) by (auto simp: wire_ack_def fits_def)
    from send_call_carries [OF this disjI1 [OF a(1)] idx(2)] obtain m w where
      m: "send_call ?a ?m = Some m" "outbox m = outbox ?m @ [w]" "carries valid n ?a w"
      "unflagged (hdl m) = unflagged (hdl ?m)" "256 \<le> length (payload m)"
      "bench_calls_var m = bench_calls_var ?m" "it_pos m = it_pos ?m" "ack_index m = ack_index ?m"
      by blast
    let ?s = "send_all n i ?a (s\<lparr>acks_sent := (acks_sent s)(i := Suc (acks_sent s i))\<rparr>)"
    let ?m' = "m\<lparr>ack_index := ack_index m + 1\<rparr>"
    have step: "system_step uc valid n (Sys_ack i) s = Some ?s" using True by simp
    have reach: "system_reachable uc valid n ?s"
      using system_reachable.step [OF r(1) _ step] i by simp
    have "machine_rel valid i ?h (Suc (acks_sent s i)) ?m'"
      using r(5) m idx by (simp add: machine_rel_def unsent_def)
    then have "group_rel uc valid n (advance n i ?m' [w] b) ?s"
      using r(3) m(3)
      by (intro group_rel_advance [OF rel reach, where h' = ?h and k' = "Suc (acks_sent s i)"
            and ms = "[?a]"]) auto
    then show ?thesis
      using m True i step
      by (intro exI [of _ ?m'] exI [of _ "[w]"] exI [of _ ?s])
        (simp add: send_next_ack_def hdl idx del: system_step.simps)
  qed
qed

section \<open>The main loop invokes a call\<close>

lemma updates_pending [simp]: "updates (unsent m) = unsent m"
  by (simp add: unsent_def)

lemma pending_next:
  assumes "it_pos m < length (bench_calls_var m)"
    and "ctype (bench_calls_var m ! it_pos m) \<noteq> ''Read''"
  shows "unsent m = bench_calls_var m ! it_pos m
    # updates (drop (Suc (it_pos m)) (bench_calls_var m))"
  using assms by (simp add: unsent_def updates_def flip: Cons_nth_drop_Suc)

lemma machine_rel_iff:
  "machine_rel valid i h k m \<longleftrightarrow> unflagged (hdl m) = unflagged h \<and> ack_index m = k \<and>
     256 \<le> length (payload m) \<and> (\<forall>c \<in> set (unsent m). load_ok valid i c) \<and>
     distinct (map call_id (unsent m)) \<and>
     (\<forall>c \<in> set (unsent m). count (image_mset call_key (issued i h)) (call_key c) = 0)"
  by (simp add: machine_rel_def workload_ok_def conj_assoc)

lemma machine_rel_next:
  assumes rel: "machine_rel valid i h k m" and p: "unsent m = req # unsent m'"
    and m': "unflagged (hdl m') = unflagged h" "ack_index m' = k" "256 \<le> length (payload m')"
  shows "machine_rel valid i h k m'"
  using rel m' p by (auto simp: machine_rel_iff)

lemma machine_rel_skip:
  assumes rel: "machine_rel valid i h k m" and p: "unsent m' = unsent m"
    and m': "unflagged (hdl m') = unflagged (hdl m)" "ack_index m' = ack_index m"
      "payload m' = payload m"
  shows "machine_rel valid i h k m'"
  using rel m' p by (simp add: machine_rel_def)

lemma finish_iteration_rel [simp]:
  "machine_rel valid i h k (finish_iteration m) = machine_rel valid i h k m"
  by (simp add: finish_iteration_def machine_rel_def unsent_def)

text \<open>The clock of a node without failures fits the wire format.\<close>

lemma clock_int32:
  assumes reach: "system_reachable uc valid n s" and i: "is_node n i"
  shows "\<forall>v \<in> set (vector_clock (procs s i)). int32 v"
proof
  fix v
  assume "v \<in> set (vector_clock (procs s i))"
  then obtain p where p: "p < length (vector_clock (procs s i))" "v = vector_clock (procs s i) ! p"
    by (auto simp: in_set_conv_nth)
  have ok: "proc_ok uc n s i" using system_reachable_inv [OF reach] i by (rule system_inv_proc)
  then have "length (vector_clock (procs s i)) = n"
    using proc_handler_inv [OF ok] by (simp add: proc_ok_def inv_defs)
  then have "is_node n (int p + 1)" using p(1) by (simp add: is_node_def)
  from clock_bound [OF reach i this] show "int32 v"
    using p(2) by (simp add: int32_def acks_columns_def)
qed

lemma invoke_next_sim:
  assumes rel: "group_rel uc valid n b s" and i: "is_node n i"
    and it: "it_pos (machines b i) < length (bench_calls_var (machines b i))"
    and req: "req = bench_calls_var (machines b i) ! it_pos (machines b i)" "ctype req \<noteq> ''Read''"
  shows "\<exists>m ws es s'. invoke_next uc req (machines b i) = Some m \<and>
    outbox m = outbox (machines b i) @ ws \<and> run_system uc valid n es s = Some s' \<and>
    group_rel uc valid n (advance n i m ws b) s'"
proof -
  let ?m = "machines b i" and ?h = "procs s i"
  note r = group_relD [OF rel i]
  obtain t v where hdl: "hdl ?m = flagged t v ?h" using r(5) by (rule machine_rel_flagged)
  have pend: "unsent ?m = req # updates (drop (Suc (it_pos ?m)) (bench_calls_var ?m))"
    using pending_next [OF it] req by simp
  have work: "\<forall>c \<in> set (unsent ?m). load_ok valid i c" "distinct (map call_id (unsent ?m))"
    "\<forall>c \<in> set (unsent ?m). count (image_mset call_key (issued i ?h)) (call_key c) = 0"
    using r(5) by (simp_all add: machine_rel_iff)
  have load: "load_ok valid i req" "count (image_mset call_key (issued i ?h)) (call_key req) = 0"
    and dist: "call_id req \<notin> call_id ` set (updates (drop (Suc (it_pos ?m)) (bench_calls_var ?m)))"
    using work pend by auto
  have hinv: "handler_inv uc ?h" and h: "hnode_id ?h = i" "number_of_nodes ?h = n"
    using r(4) proc_handler_inv [OF r(4)] by (simp_all add: proc_ok_def)
  have node: "node_id req = hnode_id ?h" using load(1) h by (simp add: load_ok_def)
  note eq = localHandler_flagged [of uc req t v ?h, folded hdl, unfolded localHandler_eq [OF hinv node]]
  show ?thesis
  proof (cases "locallyPermissibility uc (current_state ?h) (stable_state ?h) req
      \<and> \<not> locally_blocked uc req ?h")
    case False
    have drop: "drop (Suc (it_pos ?m)) ((bench_calls_var ?m)[it_pos ?m := req])
        = drop (Suc (it_pos ?m)) (bench_calls_var ?m)" by simp
    have same: "(bench_calls_var ?m)[it_pos ?m := req] = bench_calls_var ?m" using req it by simp
    show ?thesis
    proof (cases "locallyPermissibility uc (current_state ?h) (stable_state ?h) req")
      case True
      let ?m' = "?m\<lparr>stableindex_var := stable_index ?h, waiting := True\<rparr>"
      have "invoke_next uc req ?m = Some ?m'"
        using True False same by (simp add: invoke_next_def eq Let_def) (simp add: hdl [symmetric])
      moreover have "machine_rel valid i ?h (acks_sent s i) ?m'"
        by (rule machine_rel_skip [OF r(5)]) (simp_all add: unsent_def)
      ultimately show ?thesis
        using group_rel_local [OF rel i, of ?m']
        by (intro exI [of _ ?m'] exI [of _ "[]"] exI [of _ "[] :: system_event list"] exI [of _ s]) simp
    next
      case no: False
      let ?m' = "finish_iteration (?m\<lparr>stableindex_var := stable_index ?h, it_pos := it_pos ?m + 1\<rparr>)"
      have "invoke_next uc req ?m = Some ?m'"
        using no same by (simp add: invoke_next_def eq Let_def) (simp add: hdl [symmetric])
      moreover have "machine_rel valid i ?h (acks_sent s i) ?m'"
        unfolding finish_iteration_rel
        by (rule machine_rel_next [OF r(5)])
          (use pend r(5) in \<open>simp_all add: unsent_def machine_rel_def\<close>)
      ultimately show ?thesis
        using group_rel_local [OF rel i, of ?m']
        by (intro exI [of _ ?m'] exI [of _ "[]"] exI [of _ "[] :: system_event list"] exI [of _ s]) simp
    qed
  next
    case True
    let ?g = "log_append uc req ?h" and ?c = "stamp ?h req"
    let ?s = "send_all n i ?c (s\<lparr>procs := (procs s)(i := ?g)\<rparr>)"
    have step: "system_step uc valid n (Sys_invoke i req) s = Some ?s"
      using True by (simp add: localHandler_eq [OF hinv node])
    have "call_key req \<notin> call_key ` set (executionList ?h)"
    proof
      assume "call_key req \<in> call_key ` set (executionList ?h)"
      then obtain x where x: "x \<in> set (executionList ?h)" "call_key req = call_key x" by blast
      then have "x \<in># issued i ?h"
        using load(1) by (auto simp: issued_def held_def call_key_def load_ok_def)
      then have "call_key req \<in># image_mset call_key (issued i ?h)" using x(2) by simp
      then show False using load(2) by (metis not_in_iff)
    qed
    then have ok: "system_event_ok valid n s (Sys_invoke i req)"
      using i load(1) by (simp add: load_ok_def stamp_def)
    have reach: "system_reachable uc valid n ?s" using system_reachable.step [OF r(1) ok step] .
    have clock: "call_vector_clock ?c = vector_clock ?g"
      by (simp add: stamp_def log_append_def log_insert_def)
    have len: "length (call_vector_clock ?c) = n"
      using hinv h by (simp add: stamp_def inv_defs)
    let ?m1 = "?m\<lparr>hdl := flagged t v ?g,
        bench_calls_var := (bench_calls_var ?m)[it_pos ?m := ?c], stableindex_var := stable_index ?h\<rparr>"
    have "wire_ok ?c"
      using clock_int32 [OF reach i] load(1) r(2) i
      by (auto simp: wire_ok_def clock load_ok_def int32_def acks_columns_def is_node_def)
        (simp_all add: stamp_def)
    moreover have "fits ?c" using len load(1) r(2) by (simp add: fits_def load_ok_def)
    moreover have "valid ?c = Some True" "\<not> applied ?c" "ctype ?c \<noteq> ''Heartbeat''"
      using load(1) by (simp_all add: load_ok_def stamp_def)
    moreover have "256 \<le> length (payload ?m1)" using r(5) by (simp add: machine_rel_def)
    ultimately obtain m2 w where m2: "send_call ?c ?m1 = Some m2" "outbox m2 = outbox ?m @ [w]"
      "carries valid n ?c w" "unflagged (hdl m2) = unflagged ?g" "256 \<le> length (payload m2)"
      "bench_calls_var m2 = (bench_calls_var ?m)[it_pos ?m := ?c]" "it_pos m2 = it_pos ?m"
      "ack_index m2 = ack_index ?m"
      using send_call_carries [of ?c n valid ?m1] len by auto
    let ?m' = "finish_iteration
      (m2\<lparr>sent_count := sent_count m2 + 1, it_pos := it_pos m2 + 1, waiting := False\<rparr>)"
    have call: "invoke_next uc req ?m = Some ?m'"
      using True m2(1) by (simp add: invoke_next_def eq Let_def)
    have issued: "issued i ?g = add_mset ?c (issued i ?h)"
      using issued_add [OF log_append_inv(3) [OF hinv node]] load(1) by (simp add: load_ok_def)
    let ?m3 = "m2\<lparr>sent_count := sent_count m2 + 1, it_pos := it_pos m2 + 1, waiting := False\<rparr>"
    have rest: "unsent ?m3 = updates (drop (Suc (it_pos ?m)) (bench_calls_var ?m))"
      using m2(6,7) by (simp add: unsent_def)
    have "call_key ?c \<noteq> call_key c" if "c \<in> set (unsent ?m3)" for c
      using dist that unfolding rest by (auto simp: call_key_def)
    then have "machine_rel valid i ?g (acks_sent s i) ?m3"
      using m2(4,5,8) r(5) work pend unfolding machine_rel_iff rest
      by (simp add: issued)
    then have "machine_rel valid i ?g (acks_sent s i) ?m'" by simp
    then have "group_rel uc valid n (advance n i ?m' [w] b) ?s"
      using r(3) m2(3)
      by (intro group_rel_advance [OF rel reach, where h' = ?g and k' = "acks_sent s i"
            and ms = "[?c]"]) auto
    then show ?thesis
      using call m2(2) ok step
      by (intro exI [of _ ?m'] exI [of _ "[w]"] exI [of _ "[Sys_invoke i req]"] exI [of _ ?s])
        (simp del: system_step.simps system_event_ok.simps)
  qed
qed

section \<open>One round of the main loop\<close>

lemma run_system_append:
  "run_system uc valid n es s = Some s1 \<Longrightarrow> run_system uc valid n fs s1 = Some s2 \<Longrightarrow>
     run_system uc valid n (es @ fs) s = Some s2"
  by (induction es arbitrary: s) (auto simp: Option.bind_eq_Some_conv split: if_splits)

text \<open>A round that changes neither the handler nor the connections.\<close>

lemma quiet_round_sim:
  assumes rel: "group_rel uc valid n b s" and i: "is_node n i"
    and m: "machine_rel valid i (procs s i) (acks_sent s i) m" "outbox m = outbox (machines b i)"
  shows "\<exists>m' ws es s'. Some m = Some m' \<and> outbox m' = outbox (machines b i) @ ws \<and>
    run_system uc valid n es s = Some s' \<and> group_rel uc valid n (advance n i m' ws b) s'"
  using group_rel_local [OF rel i m(1)] m(2)
  by (intro exI [of _ m] exI [of _ "[]"] exI [of _ "[] :: system_event list"] exI [of _ s]) simp

lemma after_ack_sim:
  assumes rel: "group_rel uc valid n b s" and i: "is_node n i" and m: "m = machines b i"
  shows "\<exists>m' ws es s'. (if it_pos m < length (bench_calls_var m)
      then if \<not> due then Some m
      else let m1 = end_wait m; req = bench_calls_var m1 ! it_pos m1 in
        if ctype req \<noteq> ''Read''
        then if \<not> waiting m1 then invoke_next uc req m1 else Some (finish_iteration m1)
        else Some (finish_iteration (m1\<lparr>it_pos := it_pos m1 + 1\<rparr>))
      else Some (finish_iteration m)) = Some m' \<and>
    outbox m' = outbox m @ ws \<and> run_system uc valid n es s = Some s' \<and>
    group_rel uc valid n (advance n i m' ws b) s'"
proof -
  note r = group_relD(5) [OF rel i, folded m]
  note quiet = quiet_round_sim [OF rel i, folded m]
  let ?e = "end_wait m"
  have e: "machine_rel valid i (procs s i) (acks_sent s i) ?e"
    by (rule machine_rel_skip [OF r]) (simp_all add: end_wait_def unsent_def)
  show ?thesis
  proof (cases "it_pos m < length (bench_calls_var m) \<and> due")
    case False
    then show ?thesis using quiet [OF r] quiet [of "finish_iteration m"] r by auto
  next
    case True
    let ?req = "bench_calls_var m ! it_pos m"
    show ?thesis
    proof (cases "ctype ?req = ''Read''")
      case read: True
      have "unsent (?e\<lparr>it_pos := it_pos m + 1\<rparr>) = unsent m"
        using True read by (simp add: unsent_def updates_def flip: Cons_nth_drop_Suc)
      then have "machine_rel valid i (procs s i) (acks_sent s i) (?e\<lparr>it_pos := it_pos m + 1\<rparr>)"
        by (rule machine_rel_skip [OF r]) (simp_all add: end_wait_def)
      then show ?thesis
        using quiet [of "finish_iteration (?e\<lparr>it_pos := it_pos m + 1\<rparr>)"] True read by simp
    next
      case update: False
      let ?b = "advance n i ?e [] b"
      have rel': "group_rel uc valid n ?b s" using group_rel_local [OF rel i e] .
      show ?thesis
      proof (cases "waiting ?e")
        case True
        then show ?thesis
          using quiet [of "finish_iteration ?e"] e update \<open>it_pos m < _ \<and> due\<close> by simp
      next
        case False
        have "it_pos (machines ?b i) < length (bench_calls_var (machines ?b i))"
          "?req = bench_calls_var (machines ?b i) ! it_pos (machines ?b i)"
          using True by simp_all
        from invoke_next_sim [OF rel' i this update] show ?thesis
          using True update False by simp
      qed
    qed
  qed
qed

lemma main_round_sim:
  assumes rel: "group_rel uc valid n b s" and i: "is_node n i"
  shows "\<exists>b' es s'. byte_step uc valid n (Byte_main i due) b = Some b' \<and>
    run_system uc valid n es s = Some s' \<and> group_rel uc valid n b' s'"
proof -
  show ?thesis
  proof (cases "main_running (machines b i)")
    case False
    then have "byte_step uc valid n (Byte_main i due) b = Some (advance n i (machines b i) [] b)"
      by (simp add: main_round_def)
    then show ?thesis
      using group_rel_local [OF rel i group_relD(5) [OF rel i]]
      by (intro exI [of _ "advance n i (machines b i) [] b"] exI [of _ "[] :: system_event list"]
          exI [of _ s]) simp
  next
    case True
    from send_next_ack_sim [OF rel i] obtain m ws s1 where
      m: "send_next_ack (machines b i) = Some m" "outbox m = outbox (machines b i) @ ws"
        "run_system uc valid n [Sys_ack i] s = Some s1" "group_rel uc valid n (advance n i m ws b) s1"
      by blast
    from after_ack_sim [OF m(4) i, of m due] obtain m' ws' es s' where
      m': "main_iteration uc due (machines b i) = Some m'" "outbox m' = outbox m @ ws'"
        "run_system uc valid n es s1 = Some s'"
        "group_rel uc valid n (advance n i m' (ws @ ws') b) s'"
      by (auto simp: main_iteration_def m(1))
    have "byte_step uc valid n (Byte_main i due) b = Some (advance n i m' (ws @ ws') b)"
      using m'(1,2) m(2) True by (simp add: main_round_def)
    then show ?thesis using run_system_append [OF m(3) m'(3)] m'(4) by blast
  qed
qed

section \<open>A receiver thread\<close>

lemma message_event_flagged:
  "map_option unflagged (node_step uc (message_event 0 c) (flagged t v h))
     = map_option unflagged (node_step uc (message_event 0 c) h)"
  if "ctype c \<noteq> ''Heartbeat''"
  using that updateAcks_flagged [of uc c t v h] execute_flagged [of uc c t v h]
  by (simp add: message_event_def option.map_comp comp_def)

lemma receive_sim:
  assumes rel: "group_rel uc valid n b s" and ji: "is_node n j" "is_node n i" "j \<noteq> i"
  shows "\<exists>b' es s'. byte_step uc valid n (Byte_receive j i) b = Some b' \<and>
    run_system uc valid n es s = Some s' \<and> group_rel uc valid n b' s'"
proof (cases "wires b j i")
  case Nil
  then show ?thesis
    using rel by (intro exI [of _ b] exI [of _ "[] :: system_event list"] exI [of _ s]) simp
next
  case (Cons w ws)
  let ?m = "machines b i" and ?h = "procs s i"
  note r = group_relD [OF rel ji(2)]
  note inv = system_reachable_inv [OF r(1)]
  have "list_all2 (carries valid n) (links s j i) (w # ws)"
    using rel ji Cons by (simp add: group_rel_def flip: Cons)
  then obtain c cs where link: "links s j i = c # cs" "carries valid n c w"
    "list_all2 (carries valid n) cs ws" by (auto simp: list_all2_Cons2)
  have hinv: "handler_inv uc ?h" and n: "number_of_nodes ?h = n"
    using r(4) proc_handler_inv [OF r(4)] by (simp_all add: proc_ok_def)
  have ok: "message_ok valid n j c"
    using inv ji link(1) by (auto simp: system_inv_def pair_ok_def)
  then have nh: "ctype c \<noteq> ''Heartbeat''" and ev: "event_ok ?h (message_event 0 c)"
    "\<not> is_failure (message_event 0 c)"
    using n by (auto simp: message_ok_def is_ack_def message_event_def split: if_splits)
  from node_step_progress [OF hinv ev(1)] obtain h' where
    h': "node_step uc (message_event 0 c) ?h = Some h'" by blast
  obtain t v where hdl: "hdl ?m = flagged t v ?h" using r(5) by (rule machine_rel_flagged)
  from message_event_flagged [OF nh, of uc t v ?h] obtain g where
    g: "node_step uc (message_event 0 c) (hdl ?m) = Some g" "unflagged g = unflagged h'"
    by (auto simp: h' hdl)
  have recv: "receive_message uc valid j 0 w (ready b i, hdl ?m) = Some (ready b i, g)"
    using receive_carried [OF link(2), of "hdl ?m" uc j 0 "ready b i"] g(1) n ji
    by (simp add: hdl is_node_def)
  let ?s = "s\<lparr>procs := (procs s)(i := h'), links := (\<lambda>x y. if x = j \<and> y = i then cs else links s x y)\<rparr>"
  let ?b = "b\<lparr>machines := (machines b)(i := ?m\<lparr>hdl := g\<rparr>),
    wires := (\<lambda>x y. if x = j \<and> y = i then ws else wires b x y), ready := (ready b)(i := ready b i)\<rparr>"
  have "receive_call uc valid 0 c ?h = node_step uc (message_event 0 c) ?h"
    using ok by (intro receive_call_event) (auto simp: message_ok_def is_ack_def split: if_splits)
  then have step: "system_step uc valid n (Sys_receive j i) s = Some ?s" using link(1) h' by simp
  have reach: "system_reachable uc valid n ?s" using system_reachable.step [OF r(1) _ step] ji by simp
  have "int32 (value1 c)" using link(2) by (simp add: carries_def wire_ok_def)
  then have arg: "\<And>d. message_event 0 c = Invoke d \<or> message_event 0 c = Deliver d \<Longrightarrow>
      int32 (value1 d)"
    by (auto simp: message_event_def split: if_splits)
  have wire: "wire_inv h'" by (rule wire.node_step_keeps [OF hinv r(3) ev(1) h' ev(2) arg])
  have issued: "issued i h' = issued i ?h"
  proof (cases "is_ack c")
    case True
    then have "updateAcksTable uc c ?h = Some h'" "ack_in_range (number_of_nodes ?h) c"
      using h' ok n by (simp_all add: message_event_def is_ack_def message_ok_def)
    then show ?thesis using updateAcksTable_progress [OF hinv, of c] by (auto simp: issued_def)
  next
    case False
    then have "internalDownstreamExecute uc c ?h = Some h'" "call_ok (number_of_nodes ?h) c" "node_id c = j"
      using h' ok n nh by (simp_all add: message_event_def is_ack_def message_ok_def)
    then show ?thesis
      using internalDownstreamExecute_progress [OF hinv, of c] ji by (auto simp: issued_def)
  qed
  have mach: "machine_rel valid i h' (acks_sent s i) (?m\<lparr>hdl := g\<rparr>)"
    using r(5) g(2) by (simp add: machine_rel_def unsent_def issued)
  have "group_rel uc valid n ?b ?s"
    unfolding group_rel_def
  proof (intro conjI allI impI)
    show "system_reachable uc valid n ?s" by (rule reach)
    show "n \<le> 31" by (rule r(2))
    show "wire_inv (procs ?s k)" "machine_rel valid k (procs ?s k) (acks_sent ?s k) (machines ?b k)"
      if "is_node n k" for k
      using group_relD [OF rel that] wire mach by simp_all
    show "list_all2 (carries valid n) (links ?s x y) (wires ?b x y)"
      if "is_node n x" "is_node n y" "x \<noteq> y" for x y
      using rel that link(3) by (simp add: group_rel_def)
  qed
  moreover have "byte_step uc valid n (Byte_receive j i) b = Some ?b" using Cons recv by simp
  moreover have "run_system uc valid n [Sys_receive j i] s = Some ?s"
    using ji step by (simp del: system_step.simps)
  ultimately show ?thesis by blast
qed

section \<open>Refinement\<close>

lemma byte_step_sim:
  assumes "group_rel uc valid n b s" and "byte_event_ok n e"
  shows "\<exists>b' es s'. byte_step uc valid n e b = Some b' \<and>
    run_system uc valid n es s = Some s' \<and> group_rel uc valid n b' s'"
proof (cases e)
  case (Byte_main i due)
  then show ?thesis using main_round_sim [OF assms(1)] assms(2) by simp
next
  case (Byte_receive j i)
  then show ?thesis using receive_sim [OF assms(1), of j i] assms(2) by simp
qed

lemma byte_start_rel:
  assumes "n \<le> 31" and "\<And>i. is_node n i \<Longrightarrow> workload_ok valid i (loads i) \<and>
      ms i = main_start (setVars i n (expected i) wp 0 (Handler_new uc)) (loads i)"
  shows "group_rel uc valid n (byte_start n ms) (system_start uc n expected wp)"
proof -
  have "machine_rel valid i (setVars i n (expected i) wp 0 (Handler_new uc)) 0 (ms i)" if "is_node n i" for i
    using assms(2) [OF that]
    by (simp add: machine_rel_def main_start_def unsent_def workload_ok_def issued_def held_def
        setVars_def Handler_new_def)
  then show ?thesis
    using assms(1) setVars_wire system_reachable.start
    by (auto simp: group_rel_def byte_start_def system_start_def intro: system_reachable.start
        [unfolded system_start_def])
qed

lemma byte_reachable_rel:
  "byte_reachable uc valid n b \<Longrightarrow> \<exists>s. group_rel uc valid n b s"
proof (induction rule: byte_reachable.induct)
  case (start loads ms expected wp)
  then show ?case using byte_start_rel [of n valid loads ms expected wp uc] by blast
next
  case (step b e b')
  then show ?case using byte_step_sim by fastforce
qed

lemma run_bytes_reachable:
  "run_bytes uc valid n es b = Some b' \<Longrightarrow> byte_reachable uc valid n b \<Longrightarrow>
     byte_reachable uc valid n b'"
  by (induction es arbitrary: b)
    (auto simp: Option.bind_eq_Some_conv intro: byte_reachable.step split: if_splits)

text \<open>What a process and its handler have in common, and what the connections carry.\<close>

definition same_view ::
  "(call \<Rightarrow> bool option) \<Rightarrow> nat \<Rightarrow> 'st byte_group \<Rightarrow> 'st system \<Rightarrow> bool" where
  "same_view valid n b s \<longleftrightarrow>
     (\<forall>i. is_node n i \<longrightarrow> unflagged (hdl (machines b i)) = unflagged (procs s i) \<and>
        ack_index (machines b i) = acks_sent s i) \<and>
     (\<forall>j i. is_node n j \<longrightarrow> is_node n i \<longrightarrow> j \<noteq> i \<longrightarrow>
        list_all2 (carries valid n) (links s j i) (wires b j i))"

lemma group_rel_view: "group_rel uc valid n b s \<Longrightarrow> same_view valid n b s"
  by (simp add: group_rel_def same_view_def machine_rel_def)

lemma run_bytes_defined:
  assumes "byte_reachable uc valid n b" and "list_all (byte_event_ok n) es"
  shows "\<exists>b'. run_bytes uc valid n es b = Some b' \<and> byte_reachable uc valid n b'"
  using assms
proof (induction es arbitrary: b)
  case Nil
  then show ?case by simp
next
  case (Cons e es)
  obtain s where "group_rel uc valid n b s" using byte_reachable_rel [OF Cons.prems(1)] by blast
  with Cons.prems(2) obtain b1 where b1: "byte_step uc valid n e b = Some b1"
    using byte_step_sim by fastforce
  have "byte_reachable uc valid n b1"
    by (rule byte_reachable.step [OF Cons.prems(1) _ b1]) (use Cons.prems(2) in simp)
  then show ?case using Cons b1 by simp
qed

text \<open>Nothing in flight.\<close>

definition drained :: "nat \<Rightarrow> 'st byte_group \<Rightarrow> bool" where
  "drained n b \<longleftrightarrow> (\<forall>j i. is_node n j \<longrightarrow> is_node n i \<longrightarrow> j \<noteq> i \<longrightarrow> wires b j i = [])"

lemma drained_held:
  assumes reach: "byte_reachable uc valid n b" and d: "drained n b"
    and i: "is_node n i" and k: "is_node n k"
  shows "held (hdl (machines b i)) = held (hdl (machines b k))"
proof -
  obtain s where rel: "group_rel uc valid n b s" using byte_reachable_rel [OF reach] by blast
  have same: "held (hdl (machines b x)) = held (procs s x)" if x: "is_node n x" for x
  proof -
    obtain t v where "hdl (machines b x) = flagged t v (procs s x)"
      using group_relD(5) [OF rel x] by (rule machine_rel_flagged)
    then show ?thesis by (simp add: held_def)
  qed
  have empty: "links s x y = []" if "is_node n x" "is_node n y" "x \<noteq> y" for x y
  proof -
    have "list_all2 (carries valid n) (links s x y) (wires b x y)"
      using rel that by (simp add: group_rel_def)
    then show ?thesis using d that by (simp add: drained_def)
  qed
  have "calls_delivered n s" using empty by (simp add: calls_delivered_def calls_on_def)
  from delivered_agree [OF system_reachable_inv [OF group_relD(1) [OF rel i]] this i k]
  show ?thesis using same i k by simp
qed

section \<open>Groups that have come to rest\<close>

text \<open>
  Nothing is in flight, and every process has left its loop or has neither an
  acknowledgement nor an update left to send. Such a group never changes again: a process
  that waits in its loop waits for ever.
\<close>

definition resting :: "'st main_state \<Rightarrow> bool" where
  "resting m \<longleftrightarrow> \<not> main_running m \<or>
     length (send_ack_call_list (hdl m)) \<le> ack_index m \<and> unsent m = []"

definition halted :: "nat \<Rightarrow> 'st byte_group \<Rightarrow> bool" where
  "halted n b \<longleftrightarrow> drained n b \<and> (\<forall>i. is_node n i \<longrightarrow> resting (machines b i))"

lemma resting_unflagged:
  assumes "unflagged (hdl m') = unflagged (hdl m)" and "unsent m' = unsent m"
    and "ack_index m' = ack_index m"
  shows "resting m' = resting m" "main_running m' = main_running m"
proof -
  obtain t v where "hdl m' = flagged t v (hdl m)"
    using unflagged_eqE [OF assms(1) [symmetric]] by blast
  then show "resting m' = resting m" "main_running m' = main_running m"
    using assms(2,3) by (simp_all add: resting_def main_running_def flagged_def)
qed

lemma finish_iteration_same [simp]:
  "unflagged (hdl (finish_iteration m)) = unflagged (hdl m)"
  "unsent (finish_iteration m) = unsent m" "ack_index (finish_iteration m) = ack_index m"
  by (simp_all add: finish_iteration_def unsent_def)

lemma resting_round:
  assumes "resting m"
  shows "\<exists>m'. main_round uc due m = Some m' \<and> outbox m' = outbox m \<and>
    unflagged (hdl m') = unflagged (hdl m) \<and> unsent m' = unsent m \<and> ack_index m' = ack_index m"
proof (cases "main_running m")
  case False
  then show ?thesis by (simp add: main_round_def)
next
  case True
  then have a: "send_next_ack m = Some m" and p: "unsent m = []"
    using assms by (simp_all add: resting_def send_next_ack_def)
  have read: "ctype (bench_calls_var m ! it_pos m) = ''Read''"
    "unsent (end_wait m\<lparr>it_pos := Suc (it_pos m)\<rparr>) = unsent m"
    if "it_pos m < length (bench_calls_var m)"
    using p that by (auto simp: unsent_def updates_def simp flip: Cons_nth_drop_Suc split: if_splits)
  have "ack_index (end_wait m) = ack_index m" by (simp add: end_wait_def)
  with True a read show ?thesis
    by (cases "it_pos m < length (bench_calls_var m)")
      (simp_all add: main_round_def main_iteration_def Let_def)
qed

lemma halted_step:
  assumes "halted n b" and "byte_event_ok n e" and "byte_step uc valid n e b = Some b'"
  shows "halted n b' \<and> (\<forall>i. is_node n i \<longrightarrow>
    unflagged (hdl (machines b' i)) = unflagged (hdl (machines b i)) \<and>
    main_running (machines b' i) = main_running (machines b i))"
proof (cases e)
  case (Byte_main i due)
  then have "resting (machines b i)" using assms(1,2) by (simp add: halted_def)
  from resting_round [OF this, of uc due] obtain m where
    m: "main_round uc due (machines b i) = Some m" "outbox m = outbox (machines b i)"
      "unflagged (hdl m) = unflagged (hdl (machines b i))" "unsent m = unsent (machines b i)"
      "ack_index m = ack_index (machines b i)" by blast
  have b': "b' = advance n i m [] b" using assms(3) Byte_main m(1,2) by simp
  then show ?thesis
    using assms(1) m(3) resting_unflagged [OF m(3-5)]
    by (auto simp: halted_def drained_def advance_def)
next
  case (Byte_receive j i)
  then have "b' = b" using assms by (simp add: halted_def drained_def)
  then show ?thesis using assms(1) by simp
qed

lemma halted_run:
  "run_bytes uc valid n es b = Some b' \<Longrightarrow> halted n b \<Longrightarrow> is_node n i \<Longrightarrow>
     unflagged (hdl (machines b' i)) = unflagged (hdl (machines b i)) \<and>
     main_running (machines b' i) = main_running (machines b i)"
proof (induction es arbitrary: b)
  case Nil
  then show ?case by simp
next
  case (Cons e es)
  then obtain b1 where b1: "byte_event_ok n e" "byte_step uc valid n e b = Some b1"
    "run_bytes uc valid n es b1 = Some b'"
    by (auto simp: Option.bind_eq_Some_conv split: if_splits)
  from halted_step [OF Cons.prems(2) b1(1,2)] Cons.IH [OF b1(3)] Cons.prems(3)
  show ?case by simp
qed

end
