(* ===== verification/Complex_Courseware.thy ===== *)
theory Complex_Courseware
  imports Use_Case Bench_File
begin

text \<open>
  The class \<open>ComplexCourseWare\<close> of \<^verbatim>\<open>wellcoordination/benchmark/complex-courseware.hpp\<close>: a
  small relational database of students, instructors, courses and departments with two link
  tables, cascading deletions and renamings, and an index that keeps course names unique.
  The lemmas show that every update keeps course names unique and links between existing rows,
  and what the cascades make of the link tables.
\<close>

section \<open>The tables\<close>

record StudentRow =
  s_first_name :: int
  s_last_name :: int

record InstructorRow =
  i_first_name :: int
  i_last_name :: int
  i_department :: int

record CourseRow =
  course_name :: int
  semester :: int
  c_department :: int

record ComplexState =
  students :: "int \<rightharpoonup> StudentRow"
  instructors :: "int \<rightharpoonup> InstructorRow"
  courses :: "int \<rightharpoonup> CourseRow"
  departments :: "int set"
  cc_enroll :: "(int \<times> int) set"
  teach :: "(int \<times> int) set"
  course_name_index :: "int \<rightharpoonup> int"

definition ComplexState_init :: ComplexState where
  "ComplexState_init = \<lparr>students = Map.empty, instructors = Map.empty,
     courses = Map.empty, departments = {}, cc_enroll = {}, teach = {},
     course_name_index = Map.empty\<rparr>"

section \<open>Methods and their conflicts\<close>

datatype ComplexEnum =
  CC_AddStudentForce | CC_DeleteStudentCascade | CC_UpdateStudentIDCascade |
  CC_UpdateStudentOther | CC_AddInstructorForce | CC_DeleteInstructorCascade |
  CC_UpdateInstructorIDCascade | CC_UpdateInstructorOther | CC_AddCourseForce |
  CC_DeleteCourseCascade | CC_UpdateCourseIDCascade | CC_UpdateCourseNameForce |
  CC_UpdateCourseOther | CC_AddDepartment | CC_DeleteDepartmentNoAction |
  CC_Enroll | CC_WithdrawEnrollment | CC_Teach |
  CC_WithdrawTeaching | CC_Read

text \<open>The enumerators in declaration order; \<open>static_cast\<close> picks by position.\<close>

definition ComplexEnum_all :: "ComplexEnum list" where
  "ComplexEnum_all =
  [CC_AddStudentForce, CC_DeleteStudentCascade, CC_UpdateStudentIDCascade,
   CC_UpdateStudentOther, CC_AddInstructorForce, CC_DeleteInstructorCascade,
   CC_UpdateInstructorIDCascade, CC_UpdateInstructorOther, CC_AddCourseForce,
   CC_DeleteCourseCascade, CC_UpdateCourseIDCascade, CC_UpdateCourseNameForce,
   CC_UpdateCourseOther, CC_AddDepartment, CC_DeleteDepartmentNoAction,
   CC_Enroll, CC_WithdrawEnrollment, CC_Teach,
   CC_WithdrawTeaching, CC_Read]"

definition ComplexEnum_cast :: "int \<Rightarrow> ComplexEnum option" where
  "ComplexEnum_cast n = vget ComplexEnum_all n"

definition cc_coursewareToString :: "int \<Rightarrow> string" where
  "cc_coursewareToString n = (case ComplexEnum_cast n of
     Some CC_AddStudentForce \<Rightarrow> ''AddStudentForce''
   | Some CC_DeleteStudentCascade \<Rightarrow> ''DeleteStudentCascade''
   | Some CC_UpdateStudentIDCascade \<Rightarrow> ''UpdateStudentIDCascade''
   | Some CC_UpdateStudentOther \<Rightarrow> ''UpdateStudentOther''
   | Some CC_AddInstructorForce \<Rightarrow> ''AddInstructorForce''
   | Some CC_DeleteInstructorCascade \<Rightarrow> ''DeleteInstructorCascade''
   | Some CC_UpdateInstructorIDCascade \<Rightarrow> ''UpdateInstructorIDCascade''
   | Some CC_UpdateInstructorOther \<Rightarrow> ''UpdateInstructorOther''
   | Some CC_AddCourseForce \<Rightarrow> ''AddCourseForce''
   | Some CC_DeleteCourseCascade \<Rightarrow> ''DeleteCourseCascade''
   | Some CC_UpdateCourseIDCascade \<Rightarrow> ''UpdateCourseIDCascade''
   | Some CC_UpdateCourseNameForce \<Rightarrow> ''UpdateCourseNameForce''
   | Some CC_UpdateCourseOther \<Rightarrow> ''UpdateCourseOther''
   | Some CC_AddDepartment \<Rightarrow> ''AddDepartment''
   | Some CC_DeleteDepartmentNoAction \<Rightarrow> ''DeleteDepartmentNoAction''
   | Some CC_Enroll \<Rightarrow> ''Enroll''
   | Some CC_WithdrawEnrollment \<Rightarrow> ''WithdrawEnrollment''
   | Some CC_Teach \<Rightarrow> ''Teach''
   | Some CC_WithdrawTeaching \<Rightarrow> ''WithdrawTeaching''
   | Some CC_Read \<Rightarrow> ''Read''
   | None \<Rightarrow> ''Invalid'')"

definition Complex_permissible :: "ComplexState \<Rightarrow> ComplexState \<Rightarrow> call \<Rightarrow> bool" where
  "Complex_permissible current stab c = True"

text \<open>The one class that returns the result of the test.\<close>

definition Complex_checkValidcall :: "call \<Rightarrow> bool option" where
  "Complex_checkValidcall c = Some (ctype c \<in>
    {''AddStudentForce'', ''DeleteStudentCascade'', ''UpdateStudentIDCascade'',
     ''UpdateStudentOther'', ''AddInstructorForce'', ''DeleteInstructorCascade'',
     ''UpdateInstructorIDCascade'', ''UpdateInstructorOther'', ''AddCourseForce'',
     ''DeleteCourseCascade'', ''UpdateCourseIDCascade'', ''UpdateCourseNameForce'',
     ''UpdateCourseOther'', ''AddDepartment'', ''DeleteDepartmentNoAction'',
     ''Enroll'', ''WithdrawEnrollment'', ''Teach'',
     ''WithdrawTeaching'', ''Read''})"

definition Complex_reachlocal :: "call \<Rightarrow> call \<Rightarrow> bool" where
  "Complex_reachlocal input1 input2 \<longleftrightarrow>
     (let t1 = ctype input1; t2 = ctype input2 in
      (t1 = ''AddStudentForce'' \<and> t2 = ''AddStudentForce'' \<and> node_id input1 < node_id input2) \<or>
      (t1 = ''AddStudentForce'' \<and>
        t2 \<in> {''DeleteStudentCascade'', ''UpdateStudentIDCascade''}) \<or>
      (t1 = ''UpdateStudentIDCascade'' \<and> t2 = ''UpdateStudentIDCascade'' \<and> node_id input1 < node_id input2) \<or>
      (t1 = ''UpdateStudentOther'' \<and> t2 = ''UpdateStudentOther'' \<and> node_id input1 < node_id input2) \<or>
      (t1 = ''UpdateStudentOther'' \<and>
        t2 \<in> {''AddStudentForce'', ''UpdateStudentIDCascade''}) \<or>
      (t1 = ''AddInstructorForce'' \<and> t2 = ''AddInstructorForce'' \<and> node_id input1 < node_id input2) \<or>
      (t1 = ''AddInstructorForce'' \<and>
        t2 \<in> {''DeleteInstructorCascade'', ''UpdateInstructorIDCascade'',
          ''DeleteDepartmentNoAction''}) \<or>
      (t1 = ''UpdateInstructorIDCascade'' \<and> t2 = ''UpdateInstructorIDCascade'' \<and> node_id input1 < node_id input2) \<or>
      (t1 = ''UpdateInstructorOther'' \<and> t2 = ''UpdateInstructorOther'' \<and> node_id input1 < node_id input2) \<or>
      (t1 = ''UpdateInstructorOther'' \<and>
        t2 \<in> {''AddInstructorForce'', ''UpdateInstructorIDCascade'',
          ''DeleteDepartmentNoAction''}) \<or>
      (t1 = ''AddCourseForce'' \<and> t2 = ''AddCourseForce'' \<and> node_id input1 < node_id input2) \<or>
      (t1 = ''AddCourseForce'' \<and>
        t2 \<in> {''DeleteCourseCascade'', ''UpdateCourseIDCascade'',
          ''DeleteDepartmentNoAction''}) \<or>
      (t1 = ''UpdateCourseIDCascade'' \<and> t2 = ''UpdateCourseIDCascade'' \<and> node_id input1 < node_id input2) \<or>
      (t1 = ''UpdateCourseNameForce'' \<and> t2 = ''UpdateCourseNameForce'' \<and> node_id input1 < node_id input2) \<or>
      (t1 = ''UpdateCourseNameForce'' \<and>
        t2 \<in> {''AddCourseForce'', ''UpdateCourseIDCascade''}) \<or>
      (t1 = ''UpdateCourseOther'' \<and> t2 = ''UpdateCourseOther'' \<and> node_id input1 < node_id input2) \<or>
      (t1 = ''UpdateCourseOther'' \<and>
        t2 \<in> {''AddCourseForce'', ''UpdateCourseIDCascade'',
          ''DeleteDepartmentNoAction''}) \<or>
      (t1 = ''AddDepartment'' \<and>
        t2 \<in> {''DeleteDepartmentNoAction''}) \<or>
      (t1 = ''Enroll'' \<and>
        t2 \<in> {''DeleteStudentCascade'', ''UpdateStudentIDCascade'', ''DeleteCourseCascade'',
          ''UpdateCourseIDCascade'', ''WithdrawEnrollment''}) \<or>
      (t1 = ''Teach'' \<and>
        t2 \<in> {''DeleteInstructorCascade'', ''UpdateInstructorIDCascade'', ''DeleteCourseCascade'',
          ''UpdateCourseIDCascade'', ''WithdrawTeaching''}))"

definition Complex_reachremote :: "call \<Rightarrow> call \<Rightarrow> bool" where
  "Complex_reachremote input1 input2 \<longleftrightarrow>
     (let t1 = ctype input1; t2 = ctype input2 in
      (t1 = ''AddStudentForce'' \<and> t2 = ''AddStudentForce'' \<and> node_id input1 < node_id input2) \<or>
      (t1 = ''AddStudentForce'' \<and>
        t2 \<in> {''DeleteStudentCascade'', ''UpdateStudentIDCascade''}) \<or>
      (t1 = ''UpdateStudentIDCascade'' \<and> t2 = ''UpdateStudentIDCascade'' \<and> node_id input1 < node_id input2) \<or>
      (t1 = ''UpdateStudentOther'' \<and> t2 = ''UpdateStudentOther'' \<and> node_id input1 < node_id input2) \<or>
      (t1 = ''UpdateStudentOther'' \<and>
        t2 \<in> {''AddStudentForce'', ''UpdateStudentIDCascade''}) \<or>
      (t1 = ''AddInstructorForce'' \<and> t2 = ''AddInstructorForce'' \<and> node_id input1 < node_id input2) \<or>
      (t1 = ''AddInstructorForce'' \<and>
        t2 \<in> {''DeleteInstructorCascade'', ''UpdateInstructorIDCascade'',
          ''DeleteDepartmentNoAction''}) \<or>
      (t1 = ''UpdateInstructorIDCascade'' \<and> t2 = ''UpdateInstructorIDCascade'' \<and> node_id input1 < node_id input2) \<or>
      (t1 = ''UpdateInstructorOther'' \<and> t2 = ''UpdateInstructorOther'' \<and> node_id input1 < node_id input2) \<or>
      (t1 = ''UpdateInstructorOther'' \<and>
        t2 \<in> {''AddInstructorForce'', ''UpdateInstructorIDCascade'',
          ''DeleteDepartmentNoAction''}) \<or>
      (t1 = ''AddCourseForce'' \<and> t2 = ''AddCourseForce'' \<and> node_id input1 < node_id input2) \<or>
      (t1 = ''AddCourseForce'' \<and>
        t2 \<in> {''DeleteCourseCascade'', ''UpdateCourseIDCascade'',
          ''DeleteDepartmentNoAction''}) \<or>
      (t1 = ''UpdateCourseIDCascade'' \<and> t2 = ''UpdateCourseIDCascade'' \<and> node_id input1 < node_id input2) \<or>
      (t1 = ''UpdateCourseNameForce'' \<and> t2 = ''UpdateCourseNameForce'' \<and> node_id input1 < node_id input2) \<or>
      (t1 = ''UpdateCourseNameForce'' \<and>
        t2 \<in> {''AddCourseForce'', ''UpdateCourseIDCascade''}) \<or>
      (t1 = ''UpdateCourseOther'' \<and> t2 = ''UpdateCourseOther'' \<and> node_id input1 < node_id input2) \<or>
      (t1 = ''UpdateCourseOther'' \<and>
        t2 \<in> {''AddCourseForce'', ''UpdateCourseIDCascade'',
          ''DeleteDepartmentNoAction''}) \<or>
      (t1 = ''AddDepartment'' \<and>
        t2 \<in> {''DeleteDepartmentNoAction''}) \<or>
      (t1 = ''Enroll'' \<and>
        t2 \<in> {''DeleteStudentCascade'', ''UpdateStudentIDCascade'', ''DeleteCourseCascade'',
          ''UpdateCourseIDCascade'', ''WithdrawEnrollment''}) \<or>
      (t1 = ''Teach'' \<and>
        t2 \<in> {''DeleteInstructorCascade'', ''UpdateInstructorIDCascade'', ''DeleteCourseCascade'',
          ''UpdateCourseIDCascade'', ''WithdrawTeaching''}))"

section \<open>Reading a workload\<close>

text \<open>\<open>iss >> call.value1;\<close> and its siblings.\<close>

definition read_value1 :: "sstream \<times> call \<Rightarrow> sstream \<times> call" where
  "read_value1 = (\<lambda>(iss, c). let (iss', v) = extract_into iss (value1 c) in (iss', c\<lparr>value1 := v\<rparr>))"

definition read_value2 :: "sstream \<times> call \<Rightarrow> sstream \<times> call" where
  "read_value2 = (\<lambda>(iss, c). let (iss', v) = extract_into iss (value2 c) in (iss', c\<lparr>value2 := v\<rparr>))"

definition read_value3 :: "sstream \<times> call \<Rightarrow> sstream \<times> call" where
  "read_value3 = (\<lambda>(iss, c). let (iss', v) = extract_into iss (value3 c) in (iss', c\<lparr>value3 := v\<rparr>))"

definition read_value4 :: "sstream \<times> call \<Rightarrow> sstream \<times> call" where
  "read_value4 = (\<lambda>(iss, c). let (iss', v) = extract_into iss (value4 c) in (iss', c\<lparr>value4 := v\<rparr>))"

definition Complex_operands :: "sstream \<Rightarrow> call \<Rightarrow> bench_error + call" where
  "Complex_operands iss c =
     (if ctype c \<in> {''Enroll'', ''Teach'', ''WithdrawEnrollment'', ''WithdrawTeaching'',
          ''UpdateStudentIDCascade'', ''UpdateInstructorIDCascade'', ''UpdateCourseIDCascade''}
      then read_pair iss c
      else if ctype c \<in> {''AddStudentForce'', ''UpdateStudentOther''}
      then Inr (snd (read_value3 (read_value2 (read_value1 (iss, c)))))
      else if ctype c \<in> {''AddInstructorForce'', ''UpdateInstructorOther''}
      then Inr (snd (read_value4 (read_value3 (read_value2 (read_value1 (iss, c))))))
      else if ctype c = ''AddCourseForce''
      then Inr (snd (read_value4 (read_value3 (read_value2 (read_value1 (iss, c))))))
      else if ctype c = ''UpdateCourseOther''
      then Inr (snd (read_value3 (read_value2 (read_value1 (iss, c)))))
      else if ctype c = ''UpdateCourseNameForce''
      then Inr (snd (read_value2 (read_value1 (iss, c))))
      else Inr (snd (read_value1 (iss, c))))"

text \<open>This reader clears the four operands on every line, before it parses any.\<close>

fun Complex_bench_loop ::
  "int \<Rightarrow> string list \<Rightarrow> int \<Rightarrow> call \<Rightarrow> call list \<Rightarrow> bench_error + call list" where
  "Complex_bench_loop node [] counter c cs = Inr cs"
| "Complex_bench_loop node (line # lines) counter c cs =
     (case extract_int (istringstream line) of
        (iss, None) \<Rightarrow> Inl Uninitialised_read
      | (iss, Some tmp_op) \<Rightarrow>
          (let c1 = c\<lparr>ctype := cc_coursewareToString tmp_op, value1 := 0, value2 := 0,
                       value3 := 0, value4 := 0\<rparr> in
           if ctype c1 \<noteq> ''Read''
           then (case Complex_operands iss (c1\<lparr>call_id := counter + 1\<rparr>) of
                   Inl e \<Rightarrow> Inl e
                 | Inr c2 \<Rightarrow>
                     (let c3 = c2\<lparr>node_id := node, stable := False\<rparr>
                      in Complex_bench_loop node lines (counter + 1) c3 (cs @ [c3])))
           else (let c3 = c1\<lparr>node_id := node, stable := False\<rparr>
                 in Complex_bench_loop node lines counter c3 (cs @ [c3]))))"

definition Complex_readBenchFile ::
  "string option \<Rightarrow> int \<Rightarrow> int \<Rightarrow> call \<Rightarrow> call list \<Rightarrow> bench_error + (int \<times> call list)" where
  "Complex_readBenchFile infile expected node c cs =
     (case infile of
        None \<Rightarrow> Inr (expected, cs)
      | Some content \<Rightarrow>
          (case file_lines content of
             [] \<Rightarrow> Inr (expected, cs)
           | line # lines \<Rightarrow>
               (if line = [] then Inl Out_of_range
                else case stoi (tl line) of
                    Inl e \<Rightarrow> Inl e
                  | Inr n \<Rightarrow>
                      (case Complex_bench_loop node lines 0 c cs of
                         Inl e \<Rightarrow> Inl e
                       | Inr cs' \<Rightarrow> Inr (n, cs')))))"

section \<open>Updates of students and instructors\<close>

text \<open>The erasing loops over a link table, and the loops that rename one side of it.\<close>

definition erase_first :: "int \<Rightarrow> (int \<times> int) set \<Rightarrow> (int \<times> int) set" where
  "erase_first x r = {p \<in> r. fst p \<noteq> x}"

definition erase_second :: "int \<Rightarrow> (int \<times> int) set \<Rightarrow> (int \<times> int) set" where
  "erase_second x r = {p \<in> r. snd p \<noteq> x}"

definition rename_first :: "int \<Rightarrow> int \<Rightarrow> (int \<times> int) set \<Rightarrow> (int \<times> int) set" where
  "rename_first x y r = (\<lambda>p. if fst p = x then (y, snd p) else p) ` r"

definition rename_second :: "int \<Rightarrow> int \<Rightarrow> (int \<times> int) set \<Rightarrow> (int \<times> int) set" where
  "rename_second x y r = (\<lambda>p. if snd p = x then (fst p, y) else p) ` r"

definition cc_add_student :: "call \<Rightarrow> ComplexState \<Rightarrow> ComplexState" where
  "cc_add_student c s =
     s\<lparr>students := (students s)(value1 c \<mapsto> \<lparr>s_first_name = value2 c, s_last_name = value3 c\<rparr>)\<rparr>"

definition cc_delete_student :: "call \<Rightarrow> ComplexState \<Rightarrow> ComplexState" where
  "cc_delete_student c s =
     s\<lparr>students := (students s)(value1 c := None),
       cc_enroll := erase_second (value1 c) (cc_enroll s)\<rparr>"

definition cc_update_student_id :: "call \<Rightarrow> ComplexState \<Rightarrow> ComplexState" where
  "cc_update_student_id c s =
     (let old_id = value1 c; new_id = value2 c;
          s1 = (case students s old_id of
                  Some row \<Rightarrow> s\<lparr>students := ((students s)(old_id := None))(new_id \<mapsto> row)\<rparr>
                | None \<Rightarrow> s)
      in s1\<lparr>cc_enroll := rename_second old_id new_id (cc_enroll s1)\<rparr>)"

definition cc_update_student_other :: "call \<Rightarrow> ComplexState \<Rightarrow> ComplexState" where
  "cc_update_student_other c s =
     (case students s (value1 c) of
        Some row \<Rightarrow> s\<lparr>students := (students s)(value1 c \<mapsto>
                       row\<lparr>s_first_name := value2 c, s_last_name := value3 c\<rparr>)\<rparr>
      | None \<Rightarrow> s)"

definition cc_add_instructor :: "call \<Rightarrow> ComplexState \<Rightarrow> ComplexState" where
  "cc_add_instructor c s =
     s\<lparr>instructors := (instructors s)(value1 c \<mapsto>
         \<lparr>i_first_name = value2 c, i_last_name = value3 c, i_department = value4 c\<rparr>)\<rparr>"

definition cc_delete_instructor :: "call \<Rightarrow> ComplexState \<Rightarrow> ComplexState" where
  "cc_delete_instructor c s =
     s\<lparr>instructors := (instructors s)(value1 c := None),
       teach := erase_second (value1 c) (teach s)\<rparr>"

definition cc_update_instructor_id :: "call \<Rightarrow> ComplexState \<Rightarrow> ComplexState" where
  "cc_update_instructor_id c s =
     (let old_id = value1 c; new_id = value2 c;
          s1 = (case instructors s old_id of
                  Some row \<Rightarrow> s\<lparr>instructors := ((instructors s)(old_id := None))(new_id \<mapsto> row)\<rparr>
                | None \<Rightarrow> s)
      in s1\<lparr>teach := rename_second old_id new_id (teach s1)\<rparr>)"

definition cc_update_instructor_other :: "call \<Rightarrow> ComplexState \<Rightarrow> ComplexState" where
  "cc_update_instructor_other c s =
     (case instructors s (value1 c) of
        Some row \<Rightarrow> s\<lparr>instructors := (instructors s)(value1 c \<mapsto>
                       row\<lparr>i_first_name := value2 c, i_last_name := value3 c,
                           i_department := value4 c\<rparr>)\<rparr>
      | None \<Rightarrow> s)"

section \<open>Updates of courses\<close>

text \<open>Another course that holds the name is deleted with its links; its index entry stays.\<close>

definition cc_evict_name :: "int \<Rightarrow> int \<Rightarrow> ComplexState \<Rightarrow> ComplexState" where
  "cc_evict_name course_id name s =
     (case course_name_index s name of
        Some old_course_id \<Rightarrow>
          (if old_course_id \<noteq> course_id
           then s\<lparr>cc_enroll := erase_first old_course_id (cc_enroll s),
                  teach := erase_first old_course_id (teach s),
                  courses := (courses s)(old_course_id := None)\<rparr>
           else s)
      | None \<Rightarrow> s)"

text \<open>The index entry of a name is dropped if it points to the course.\<close>

definition cc_unindex :: "int \<Rightarrow> int \<Rightarrow> ComplexState \<Rightarrow> ComplexState" where
  "cc_unindex course_id old_name s =
     (if course_name_index s old_name = Some course_id
      then s\<lparr>course_name_index := (course_name_index s)(old_name := None)\<rparr> else s)"

definition cc_add_course :: "call \<Rightarrow> ComplexState \<Rightarrow> ComplexState" where
  "cc_add_course c s =
     (let s1 = cc_evict_name (value1 c) (value2 c) s;
          s2 = (case courses s1 (value1 c) of
                  Some row \<Rightarrow> cc_unindex (value1 c) (course_name row) s1
                | None \<Rightarrow> s1)
      in s2\<lparr>course_name_index := (course_name_index s2)(value2 c \<mapsto> value1 c),
            courses := (courses s2)(value1 c \<mapsto>
              \<lparr>course_name = value2 c, semester = value3 c, c_department = value4 c\<rparr>)\<rparr>)"

definition cc_delete_course :: "call \<Rightarrow> ComplexState \<Rightarrow> ComplexState" where
  "cc_delete_course c s =
     (let s1 = (case courses s (value1 c) of
                  Some row \<Rightarrow>
                    (let s' = cc_unindex (value1 c) (course_name row) s
                     in s'\<lparr>courses := (courses s')(value1 c := None)\<rparr>)
                | None \<Rightarrow> s)
      in s1\<lparr>cc_enroll := erase_first (value1 c) (cc_enroll s1),
            teach := erase_first (value1 c) (teach s1)\<rparr>)"

definition cc_update_course_id :: "call \<Rightarrow> ComplexState \<Rightarrow> ComplexState" where
  "cc_update_course_id c s =
     (let old_id = value1 c; new_id = value2 c;
          s1 = (case courses s old_id of
                  Some row \<Rightarrow>
                    s\<lparr>courses := ((courses s)(old_id := None))(new_id \<mapsto> row),
                      course_name_index := (course_name_index s)(course_name row \<mapsto> new_id)\<rparr>
                | None \<Rightarrow> s)
      in s1\<lparr>cc_enroll := rename_first old_id new_id (cc_enroll s1),
            teach := rename_first old_id new_id (teach s1)\<rparr>)"

text \<open>
  The renaming of a course; the flag says whether the name of a missing course is indexed,
  which the current state does and the stable state does not.
\<close>

definition cc_rename_course :: "bool \<Rightarrow> call \<Rightarrow> ComplexState \<Rightarrow> ComplexState" where
  "cc_rename_course index_missing c s =
     (let course_id = value1 c; new_name = value2 c;
          s1 = cc_evict_name course_id new_name s
      in case courses s1 course_id of
           Some row \<Rightarrow>
             (let s2 = cc_unindex course_id (course_name row) s1
              in s2\<lparr>courses := (courses s2)(course_id \<mapsto> row\<lparr>course_name := new_name\<rparr>),
                    course_name_index := (course_name_index s2)(new_name \<mapsto> course_id)\<rparr>)
         | None \<Rightarrow>
             (if index_missing
              then s1\<lparr>course_name_index := (course_name_index s1)(new_name \<mapsto> course_id)\<rparr>
              else s1))"

definition cc_update_course_other :: "call \<Rightarrow> ComplexState \<Rightarrow> ComplexState" where
  "cc_update_course_other c s =
     (case courses s (value1 c) of
        Some row \<Rightarrow> s\<lparr>courses := (courses s)(value1 c \<mapsto>
                       row\<lparr>semester := value2 c, c_department := value3 c\<rparr>)\<rparr>
      | None \<Rightarrow> s)"

definition Complex_updateCurrentState :: "call \<Rightarrow> ComplexState \<Rightarrow> ComplexState" where
  "Complex_updateCurrentState c s =
     (if ctype c = ''AddStudentForce'' then cc_add_student c s
      else if ctype c = ''DeleteStudentCascade'' then cc_delete_student c s
      else if ctype c = ''UpdateStudentIDCascade'' then cc_update_student_id c s
      else if ctype c = ''UpdateStudentOther'' then cc_update_student_other c s
      else if ctype c = ''AddInstructorForce'' then cc_add_instructor c s
      else if ctype c = ''DeleteInstructorCascade'' then cc_delete_instructor c s
      else if ctype c = ''UpdateInstructorIDCascade'' then cc_update_instructor_id c s
      else if ctype c = ''UpdateInstructorOther'' then cc_update_instructor_other c s
      else if ctype c = ''AddCourseForce'' then cc_add_course c s
      else if ctype c = ''DeleteCourseCascade'' then cc_delete_course c s
      else if ctype c = ''UpdateCourseIDCascade'' then cc_update_course_id c s
      else if ctype c = ''UpdateCourseNameForce'' then cc_rename_course True c s
      else if ctype c = ''UpdateCourseOther'' then cc_update_course_other c s
      else if ctype c = ''AddDepartment'' then s\<lparr>departments := insert (value1 c) (departments s)\<rparr>
      else if ctype c = ''DeleteDepartmentNoAction'' then s\<lparr>departments := departments s - {value1 c}\<rparr>
      else if ctype c = ''Enroll'' then s\<lparr>cc_enroll := insert (value1 c, value2 c) (cc_enroll s)\<rparr>
      else if ctype c = ''WithdrawEnrollment'' then s\<lparr>cc_enroll := cc_enroll s - {(value1 c, value2 c)}\<rparr>
      else if ctype c = ''Teach'' then s\<lparr>teach := insert (value1 c, value2 c) (teach s)\<rparr>
      else if ctype c = ''WithdrawTeaching'' then s\<lparr>teach := teach s - {(value1 c, value2 c)}\<rparr>
      else s)"

definition Complex_updateStableState :: "call \<Rightarrow> ComplexState \<Rightarrow> ComplexState" where
  "Complex_updateStableState c s =
     (if ctype c = ''AddStudentForce'' then cc_add_student c s
      else if ctype c = ''DeleteStudentCascade'' then cc_delete_student c s
      else if ctype c = ''UpdateStudentIDCascade'' then cc_update_student_id c s
      else if ctype c = ''UpdateStudentOther'' then cc_update_student_other c s
      else if ctype c = ''AddInstructorForce'' then cc_add_instructor c s
      else if ctype c = ''DeleteInstructorCascade'' then cc_delete_instructor c s
      else if ctype c = ''UpdateInstructorIDCascade'' then cc_update_instructor_id c s
      else if ctype c = ''UpdateInstructorOther'' then cc_update_instructor_other c s
      else if ctype c = ''AddCourseForce'' then cc_add_course c s
      else if ctype c = ''DeleteCourseCascade'' then cc_delete_course c s
      else if ctype c = ''UpdateCourseIDCascade'' then cc_update_course_id c s
      else if ctype c = ''UpdateCourseNameForce'' then cc_rename_course False c s
      else if ctype c = ''UpdateCourseOther'' then cc_update_course_other c s
      else if ctype c = ''AddDepartment'' then s\<lparr>departments := insert (value1 c) (departments s)\<rparr>
      else if ctype c = ''DeleteDepartmentNoAction'' then s\<lparr>departments := departments s - {value1 c}\<rparr>
      else if ctype c = ''Enroll'' then s\<lparr>cc_enroll := insert (value1 c, value2 c) (cc_enroll s)\<rparr>
      else if ctype c = ''WithdrawEnrollment'' then s\<lparr>cc_enroll := cc_enroll s - {(value1 c, value2 c)}\<rparr>
      else if ctype c = ''Teach'' then s\<lparr>teach := insert (value1 c, value2 c) (teach s)\<rparr>
      else if ctype c = ''WithdrawTeaching'' then s\<lparr>teach := teach s - {(value1 c, value2 c)}\<rparr>
      else s)"

definition Complex_uc :: "ComplexState usecase" where
  "Complex_uc = \<lparr>initial_state = ComplexState_init, locallyPermissibility = Complex_permissible,
     fastisreachablelocal = Complex_reachlocal, fastisreachableremote = Complex_reachremote,
     updateCurrentState = Complex_updateCurrentState,
     updateStableState = Complex_updateStableState\<rparr>"

lemma Complex_uc_simps [simp]:
  "initial_state Complex_uc = ComplexState_init"
  "locallyPermissibility Complex_uc = Complex_permissible"
  "fastisreachablelocal Complex_uc = Complex_reachlocal"
  "fastisreachableremote Complex_uc = Complex_reachremote"
  "updateCurrentState Complex_uc = Complex_updateCurrentState"
  "updateStableState Complex_uc = Complex_updateStableState"
  by (simp_all add: Complex_uc_def)

lemmas cc_row_defs = cc_add_student_def cc_delete_student_def cc_update_student_id_def
  cc_update_student_other_def cc_add_instructor_def cc_delete_instructor_def
  cc_update_instructor_id_def cc_update_instructor_other_def

lemmas cc_course_defs = cc_add_course_def cc_delete_course_def cc_update_course_id_def
  cc_rename_course_def cc_update_course_other_def cc_evict_name_def cc_unindex_def

section \<open>Course names stay unique\<close>

text \<open>Every course is the one its name is indexed under.\<close>

definition names_indexed :: "ComplexState \<Rightarrow> bool" where
  "names_indexed s \<longleftrightarrow>
     (\<forall>i row. courses s i = Some row \<longrightarrow> course_name_index s (course_name row) = Some i)"

lemma names_indexed_unique:
  "names_indexed s \<Longrightarrow> courses s i = Some r \<Longrightarrow> courses s j = Some q \<Longrightarrow>
     course_name r = course_name q \<Longrightarrow> i = j"
  unfolding names_indexed_def by (metis option.inject)

lemma names_indexed_init [simp]: "names_indexed ComplexState_init"
  by (simp add: names_indexed_def ComplexState_init_def)

lemma names_indexed_rows:
  "names_indexed s \<Longrightarrow> names_indexed (cc_add_student c s)"
  "names_indexed s \<Longrightarrow> names_indexed (cc_delete_student c s)"
  "names_indexed s \<Longrightarrow> names_indexed (cc_update_student_id c s)"
  "names_indexed s \<Longrightarrow> names_indexed (cc_update_student_other c s)"
  "names_indexed s \<Longrightarrow> names_indexed (cc_add_instructor c s)"
  "names_indexed s \<Longrightarrow> names_indexed (cc_delete_instructor c s)"
  "names_indexed s \<Longrightarrow> names_indexed (cc_update_instructor_id c s)"
  "names_indexed s \<Longrightarrow> names_indexed (cc_update_instructor_other c s)"
  by (simp_all add: cc_row_defs names_indexed_def Let_def split: option.splits)

text \<open>After the eviction nobody but the course itself holds the name.\<close>

lemma cc_evict_name_indexed:
  "names_indexed s \<Longrightarrow> names_indexed (cc_evict_name i n s)"
  by (auto simp: cc_evict_name_def names_indexed_def split: option.splits)

lemma cc_evict_name_free:
  assumes "names_indexed s" and "courses (cc_evict_name i n s) j = Some row"
    and "course_name row = n"
  shows "j = i"
  using assms
  by (auto simp: cc_evict_name_def names_indexed_def split: option.splits if_splits)

lemma names_indexed_unindex:
  assumes "names_indexed s"
  shows "courses (cc_unindex i n s) = courses s"
    and "courses s j = Some row \<Longrightarrow> j \<noteq> i \<Longrightarrow>
           course_name_index (cc_unindex i n s) (course_name row) = Some j"
  using assms by (auto simp: cc_unindex_def names_indexed_def)

lemma names_indexed_add_course:
  assumes "names_indexed s"
  shows "names_indexed (cc_add_course c s)"
proof -
  let ?s1 = "cc_evict_name (value1 c) (value2 c) s"
  have n1: "names_indexed ?s1" using assms by (rule cc_evict_name_indexed)
  show ?thesis
    using cc_evict_name_free [OF assms] names_indexed_unindex [OF n1] n1
    unfolding names_indexed_def cc_add_course_def Let_def
    by (auto split: option.splits if_splits)
qed

lemma names_indexed_delete_course:
  assumes "names_indexed s"
  shows "names_indexed (cc_delete_course c s)"
  using names_indexed_unindex [OF assms] assms
  unfolding names_indexed_def cc_delete_course_def Let_def
  by (auto split: option.splits if_splits)

lemma names_indexed_update_course_id:
  assumes "names_indexed s"
  shows "names_indexed (cc_update_course_id c s)"
  using assms names_indexed_unique [OF assms]
  unfolding names_indexed_def cc_update_course_id_def Let_def
  by (auto split: option.splits if_splits)

lemma names_indexed_rename_course:
  assumes "names_indexed s"
  shows "names_indexed (cc_rename_course b c s)"
proof -
  let ?s1 = "cc_evict_name (value1 c) (value2 c) s"
  have n1: "names_indexed ?s1" using assms by (rule cc_evict_name_indexed)
  show ?thesis
    using cc_evict_name_free [OF assms] names_indexed_unindex [OF n1] n1
    unfolding names_indexed_def cc_rename_course_def Let_def
    by (auto split: option.splits if_splits)
qed

lemma names_indexed_update_course_other:
  "names_indexed s \<Longrightarrow> names_indexed (cc_update_course_other c s)"
  by (auto simp: cc_update_course_other_def names_indexed_def split: option.splits)

lemmas names_indexed_courses = names_indexed_add_course names_indexed_delete_course
  names_indexed_update_course_id names_indexed_rename_course names_indexed_update_course_other

lemma names_indexed_links [simp]:
  "names_indexed (s\<lparr>cc_enroll := e\<rparr>) = names_indexed s"
  "names_indexed (s\<lparr>teach := e\<rparr>) = names_indexed s"
  "names_indexed (s\<lparr>departments := d\<rparr>) = names_indexed s"
  by (simp_all add: names_indexed_def)

lemma names_indexed_current:
  "names_indexed s \<Longrightarrow> names_indexed (Complex_updateCurrentState c s)"
  by (simp add: Complex_updateCurrentState_def names_indexed_rows names_indexed_courses)

lemma names_indexed_stable:
  "names_indexed s \<Longrightarrow> names_indexed (Complex_updateStableState c s)"
  by (simp add: Complex_updateStableState_def names_indexed_rows names_indexed_courses)

section \<open>Current and stable updates\<close>

lemma cc_evict_name_self: "courses (cc_evict_name i n s) i = courses s i"
  by (simp add: cc_evict_name_def split: option.splits)

lemma cc_rename_present:
  "courses s (value1 c) \<noteq> None \<Longrightarrow> cc_rename_course True c s = cc_rename_course False c s"
  by (auto simp: cc_rename_course_def Let_def cc_evict_name_self)

lemma Complex_updates_agree:
  assumes "\<not> (ctype c = ''UpdateCourseNameForce'' \<and> courses s (value1 c) = None)"
  shows "Complex_updateCurrentState c s = Complex_updateStableState c s"
proof (cases "ctype c = ''UpdateCourseNameForce''")
  case True
  with assms show ?thesis
    by (simp add: Complex_updateCurrentState_def Complex_updateStableState_def cc_rename_present)
next
  case False
  then show ?thesis
    by (simp add: Complex_updateCurrentState_def Complex_updateStableState_def)
qed

text \<open>Everything but the name index agrees on every call.\<close>

lemma Complex_updates_tables:
  "Complex_updateCurrentState c s
     = (Complex_updateStableState c s)
         \<lparr>course_name_index := course_name_index (Complex_updateCurrentState c s)\<rparr>"
proof (cases "ctype c = ''UpdateCourseNameForce'' \<and> courses s (value1 c) = None")
  case False
  then have "Complex_updateCurrentState c s = Complex_updateStableState c s"
    by (rule Complex_updates_agree)
  then show ?thesis by simp
next
  case True
  then have "courses (cc_evict_name (value1 c) (value2 c) s) (value1 c) = None"
    by (simp add: cc_evict_name_self)
  with True show ?thesis
    by (simp add: Complex_updateCurrentState_def Complex_updateStableState_def
        cc_rename_course_def Let_def)
qed

section \<open>Cascades\<close>

lemma cascade_simps:
  "(x, y) \<in> erase_first i r \<longleftrightarrow> (x, y) \<in> r \<and> x \<noteq> i"
  "(x, y) \<in> erase_second j r \<longleftrightarrow> (x, y) \<in> r \<and> y \<noteq> j"
  by (auto simp: erase_first_def erase_second_def)

lemma rename_second_member:
  "(x, y) \<in> rename_second old new r \<longleftrightarrow>
     (if y = new then (x, old) \<in> r \<or> (x, new) \<in> r else (x, y) \<in> r \<and> y \<noteq> old)"
  unfolding rename_second_def by (force simp: image_iff split: if_splits)

lemma rename_first_member:
  "(x, y) \<in> rename_first old new r \<longleftrightarrow>
     (if x = new then (old, y) \<in> r \<or> (new, y) \<in> r else (x, y) \<in> r \<and> x \<noteq> old)"
  unfolding rename_first_def by (force simp: image_iff split: if_splits)

text \<open>Referential integrity: every link is between rows that exist.\<close>

definition links_resolved :: "ComplexState \<Rightarrow> bool" where
  "links_resolved s \<longleftrightarrow>
     (\<forall>(x, y) \<in> cc_enroll s. courses s x \<noteq> None \<and> students s y \<noteq> None) \<and>
     (\<forall>(x, y) \<in> teach s. courses s x \<noteq> None \<and> instructors s y \<noteq> None)"

lemma links_resolvedI:
  assumes "\<And>x y. (x, y) \<in> cc_enroll s \<Longrightarrow> courses s x \<noteq> None \<and> students s y \<noteq> None"
    and "\<And>x y. (x, y) \<in> teach s \<Longrightarrow> courses s x \<noteq> None \<and> instructors s y \<noteq> None"
  shows "links_resolved s"
  using assms by (auto simp: links_resolved_def)

lemma links_resolvedD:
  assumes "links_resolved s"
  shows "(x, y) \<in> cc_enroll s \<Longrightarrow> courses s x \<noteq> None" "(x, y) \<in> cc_enroll s \<Longrightarrow> students s y \<noteq> None"
    "(x, y) \<in> teach s \<Longrightarrow> courses s x \<noteq> None" "(x, y) \<in> teach s \<Longrightarrow> instructors s y \<noteq> None"
  using assms by (auto simp: links_resolved_def)

lemma links_resolved_init [simp]: "links_resolved ComplexState_init"
  by (simp add: links_resolved_def ComplexState_init_def)

text \<open>The call names rows that exist, where it makes a link.\<close>

definition link_rows_exist :: "call \<Rightarrow> ComplexState \<Rightarrow> bool" where
  "link_rows_exist c s \<longleftrightarrow>
     (ctype c = ''Enroll'' \<longrightarrow> courses s (value1 c) \<noteq> None \<and> students s (value2 c) \<noteq> None) \<and>
     (ctype c = ''Teach'' \<longrightarrow> courses s (value1 c) \<noteq> None \<and> instructors s (value2 c) \<noteq> None)"

lemma links_resolved_people:
  assumes "links_resolved s"
  shows "links_resolved (cc_add_student c s)" "links_resolved (cc_delete_student c s)"
    "links_resolved (cc_update_student_id c s)" "links_resolved (cc_update_student_other c s)"
    "links_resolved (cc_add_instructor c s)" "links_resolved (cc_delete_instructor c s)"
    "links_resolved (cc_update_instructor_id c s)" "links_resolved (cc_update_instructor_other c s)"
  using assms
  by (auto simp: cc_row_defs Let_def cascade_simps rename_second_member split: option.splits if_splits
      intro!: links_resolvedI dest: links_resolvedD)

lemma links_resolved_evict:
  assumes "links_resolved s"
  shows "links_resolved (cc_evict_name i n s)"
  using assms by (auto simp: cc_evict_name_def cascade_simps split: option.splits if_splits
      intro!: links_resolvedI dest: links_resolvedD)

lemma links_resolved_index [simp]:
  "links_resolved (s\<lparr>course_name_index := m\<rparr>) = links_resolved s"
  by (simp add: links_resolved_def)

lemma links_resolved_unindex [simp]: "links_resolved (cc_unindex i n s) = links_resolved s"
  by (simp add: cc_unindex_def)

lemma links_resolved_course:
  assumes "links_resolved s"
  shows "links_resolved (s\<lparr>courses := (courses s)(i \<mapsto> row)\<rparr>)"
  using assms by (auto intro!: links_resolvedI dest: links_resolvedD)

lemma links_resolved_add_course:
  assumes "links_resolved s"
  shows "links_resolved (cc_add_course c s)"
proof -
  let ?s1 = "cc_evict_name (value1 c) (value2 c) s"
  let ?s2 = "case courses ?s1 (value1 c) of
    Some row \<Rightarrow> cc_unindex (value1 c) (course_name row) ?s1 | None \<Rightarrow> ?s1"
  let ?s3 = "?s2\<lparr>course_name_index := (course_name_index ?s2)(value2 c \<mapsto> value1 c)\<rparr>"
  let ?row = "\<lparr>course_name = value2 c, semester = value3 c, c_department = value4 c\<rparr>"
  have "links_resolved ?s3" using links_resolved_evict [OF assms] by (simp split: option.splits)
  from links_resolved_course [OF this, of "value1 c" ?row] show ?thesis
    by (simp add: cc_add_course_def Let_def)
qed

lemma links_resolved_delete_course:
  assumes "links_resolved s"
  shows "links_resolved (cc_delete_course c s)"
  using assms by (auto simp: cc_delete_course_def cc_unindex_def cascade_simps Let_def
      split: option.splits intro!: links_resolvedI dest: links_resolvedD)

lemma links_resolved_update_course_id:
  assumes "links_resolved s"
  shows "links_resolved (cc_update_course_id c s)"
  using assms by (auto simp: cc_update_course_id_def Let_def rename_first_member
      split: option.splits if_splits intro!: links_resolvedI dest: links_resolvedD)

lemma links_resolved_rename_course:
  assumes "links_resolved s"
  shows "links_resolved (cc_rename_course b c s)"
proof -
  let ?s1 = "cc_evict_name (value1 c) (value2 c) s"
  have s1: "links_resolved ?s1" by (rule links_resolved_evict [OF assms])
  show ?thesis
  proof (cases "courses ?s1 (value1 c)")
    case None
    then show ?thesis using s1 by (simp add: cc_rename_course_def Let_def)
  next
    case (Some row)
    let ?s2 = "cc_unindex (value1 c) (course_name row) ?s1"
    have "links_resolved ?s2" using s1 by simp
    from links_resolved_course [OF this, of "value1 c" "row\<lparr>course_name := value2 c\<rparr>"] Some
    show ?thesis by (simp add: cc_rename_course_def Let_def links_resolved_def)
  qed
qed

lemma links_resolved_update_course_other:
  assumes "links_resolved s"
  shows "links_resolved (cc_update_course_other c s)"
  using links_resolved_course [OF assms] assms
  by (auto simp: cc_update_course_other_def split: option.split)

lemmas links_resolved_courses = links_resolved_add_course links_resolved_delete_course
  links_resolved_update_course_id links_resolved_rename_course links_resolved_update_course_other

lemma links_resolved_links:
  assumes "links_resolved s"
  shows "links_resolved (s\<lparr>departments := d\<rparr>)" "links_resolved (s\<lparr>cc_enroll := cc_enroll s - e\<rparr>)"
    "links_resolved (s\<lparr>teach := teach s - t\<rparr>)"
    "courses s x \<noteq> None \<Longrightarrow> students s y \<noteq> None \<Longrightarrow>
      links_resolved (s\<lparr>cc_enroll := insert (x, y) (cc_enroll s)\<rparr>)"
    "courses s x \<noteq> None \<Longrightarrow> instructors s y \<noteq> None \<Longrightarrow>
      links_resolved (s\<lparr>teach := insert (x, y) (teach s)\<rparr>)"
  using assms by (auto simp: links_resolved_def)

lemma links_resolved_stable:
  assumes "links_resolved s" and "link_rows_exist c s"
  shows "links_resolved (Complex_updateStableState c s)"
  using assms(2) unfolding Complex_updateStableState_def link_rows_exist_def
  by (simp add: assms(1) links_resolved_people [OF assms(1)] links_resolved_courses [OF assms(1)]
      links_resolved_links [OF assms(1)])

lemma links_resolved_current:
  assumes "links_resolved s" and "link_rows_exist c s"
  shows "links_resolved (Complex_updateCurrentState c s)"
proof -
  have "links_resolved ((Complex_updateStableState c s)
      \<lparr>course_name_index := course_name_index (Complex_updateCurrentState c s)\<rparr>)"
    using links_resolved_stable [OF assms] by simp
  then show ?thesis using Complex_updates_tables [of c s] by simp
qed

text \<open>What the renaming cascades make of the link tables.\<close>

lemma rename_images:
  "rename_first old new r = (\<lambda>(x, y). (if x = old then new else x, y)) ` r"
  "rename_second old new r = (\<lambda>(x, y). (x, if y = old then new else y)) ` r"
proof -
  have "(\<lambda>p :: int \<times> int. if fst p = old then (new, snd p) else p) = (\<lambda>(x, y). (if x = old then new else x, y))"
    "(\<lambda>p :: int \<times> int. if snd p = old then (fst p, new) else p) = (\<lambda>(x, y). (x, if y = old then new else y))"
    by (auto simp: fun_eq_iff)
  then show "rename_first old new r = (\<lambda>(x, y). (if x = old then new else x, y)) ` r"
    "rename_second old new r = (\<lambda>(x, y). (x, if y = old then new else y)) ` r"
    by (simp_all only: rename_first_def rename_second_def)
qed

lemma cascade_links:
  "cc_enroll (cc_update_student_id c s) = rename_second (value1 c) (value2 c) (cc_enroll s)"
  "teach (cc_update_student_id c s) = teach s"
  "teach (cc_update_instructor_id c s) = rename_second (value1 c) (value2 c) (teach s)"
  "cc_enroll (cc_update_instructor_id c s) = cc_enroll s"
  "cc_enroll (cc_update_course_id c s) = rename_first (value1 c) (value2 c) (cc_enroll s)"
  "teach (cc_update_course_id c s) = rename_first (value1 c) (value2 c) (teach s)"
  by (auto simp: cc_update_student_id_def cc_update_instructor_id_def cc_update_course_id_def Let_def
      split: option.split)

text \<open>A small database: course 4 with two students and one instructor.\<close>

definition linked_courses :: ComplexState where
  "linked_courses = ComplexState_init\<lparr>
     students := [5 \<mapsto> \<lparr>s_first_name = 1, s_last_name = 2\<rparr>, 6 \<mapsto> \<lparr>s_first_name = 3, s_last_name = 4\<rparr>],
     instructors := [7 \<mapsto> \<lparr>i_first_name = 5, i_last_name = 6, i_department = 1\<rparr>],
     courses := [4 \<mapsto> \<lparr>course_name = 4, semester = 1, c_department = 1\<rparr>],
     departments := {1}, cc_enroll := {(4, 5), (4, 6)}, teach := {(4, 7)},
     course_name_index := [4 \<mapsto> 4]\<rparr>"

lemma linked_courses_resolved: "links_resolved linked_courses"
  by (simp add: links_resolved_def linked_courses_def)

end
