(* ===== verification/Main_Setup.thy ===== *)
theory Main_Setup
  imports Hamsou_Main
begin

text \<open>
  What \<open>main\<close> does around its loop: it reads its arguments, the ports of the group and the
  path of the workload follow from them; it reads the workload and sets the handler up; and
  a monitor thread marks the nodes whose connection died as failed.
\<close>

section \<open>Arguments\<close>

record main_args =
  arg_id :: int
  numnodes :: int
  numop :: int
  writep :: int
  arg_usecase :: string
  oppersecond :: int
  failed_arg :: int
  arg_ports :: "int list"
  arg_hosts :: "string list"
  arg_loc :: string

text \<open>
  \<open>std::stoi\<close> throws on a bad number and \<open>new int[n]\<close> on a negative size; \<open>argv[argc]\<close> is a
  null pointer, which no \<open>std::string\<close> can be made from, and a port number past the range of
  \<open>int\<close> is an overflow: \<open>None\<close>.
\<close>

datatype start_error =
    Bad_argument bench_error
  | Bad_array_length

definition arg_int ::
  "string list \<Rightarrow> int \<Rightarrow> (int \<Rightarrow> (start_error + 'a) option) \<Rightarrow> (start_error + 'a) option" where
  "arg_int argv k f =
     (case vget argv k of
        None \<Rightarrow> None
      | Some s \<Rightarrow> (case stoi s of Inl e \<Rightarrow> Some (Inl (Bad_argument e)) | Inr v \<Rightarrow> f v))"

definition baseport :: "int \<Rightarrow> int" where
  "baseport n = 8150 + (n + 1) * n"

definition main_ports :: "int \<Rightarrow> int list" where
  "main_ports n = map (\<lambda>i. baseport n + int i) [0..<nat n]"

definition workload_dir :: "int \<Rightarrow> int \<Rightarrow> int \<Rightarrow> string \<Rightarrow> string" where
  "workload_dir n ops wp usecase_name =
     ''/home/tejas/Optimistic-Replication/wellcoordination/workload/'' @
     to_string n @ ''-'' @ to_string ops @ ''-'' @ to_string wp @ ''/'' @ usecase_name @ ''/''"

text \<open>The host names, \<open>argv[8]\<close> onwards; \<open>k\<close> are left.\<close>

fun read_hosts :: "string list \<Rightarrow> int \<Rightarrow> nat \<Rightarrow> string list option" where
  "read_hosts argv i 0 = Some []"
| "read_hosts argv i (Suc k) = do {
     h \<leftarrow> vget argv i;
     hs \<leftarrow> read_hosts argv (i + 1) k;
     Some (h # hs) }"

definition main_arguments :: "string list \<Rightarrow> (start_error + main_args) option" where
  "main_arguments argv =
     arg_int argv 1 (\<lambda>me. arg_int argv 2 (\<lambda>n. arg_int argv 3 (\<lambda>ops. arg_int argv 4 (\<lambda>wp. do {
       name \<leftarrow> vget argv 5;
       arg_int argv 6 (\<lambda>rate. arg_int argv 7 (\<lambda>dead.
         if n < 0 then Some (Inl Bad_array_length)
         else if \<not> int32 (baseport n + n) then None
         else do {
           hosts \<leftarrow> read_hosts argv 8 (nat n);
           Some (Inr \<lparr>arg_id = me, numnodes = n, numop = ops, writep = wp, arg_usecase = name,
             oppersecond = rate, failed_arg = dead, arg_ports = main_ports n, arg_hosts = hosts,
             arg_loc = workload_dir n ops wp name\<rparr>) })) }))))"

text \<open>The file the node reads its calls from.\<close>

definition workload_path :: "main_args \<Rightarrow> string" where
  "workload_path a = arg_loc a @ to_string (arg_id a) @ ''.txt''"

text \<open>Every node listens on its own port, below those of a larger group.\<close>

lemma main_ports_distinct: "distinct (main_ports n)"
  by (simp add: main_ports_def distinct_map inj_on_def)

lemma main_ports_groups:
  assumes "0 \<le> n" and "n < m" and "p \<in> set (main_ports n)" and "q \<in> set (main_ports m)"
  shows "p < q"
proof -
  have p: "p < baseport n + n" using assms(1,3) by (auto simp: main_ports_def)
  have q: "baseport m \<le> q" using assms(4) by (auto simp: main_ports_def)
  have "(n + 1) * n + n \<le> (n + 2) * (n + 1)" by (simp add: algebra_simps assms(1))
  also have "\<dots> \<le> (m + 1) * m" using assms(1,2) by (intro mult_mono) simp_all
  finally show ?thesis using p q by (simp add: baseport_def)
qed

lemma read_hosts_drop:
  "i + k \<le> length argv \<Longrightarrow> read_hosts argv (int i) k = Some (take k (drop i argv))"
proof (induction k arbitrary: i)
  case 0
  then show ?case by simp
next
  case (Suc k)
  have "read_hosts argv (int i + 1) k = read_hosts argv (int (Suc i)) k" by (simp add: add.commute)
  also have "\<dots> = Some (take k (drop (Suc i) argv))" using Suc.prems by (intro Suc.IH) simp
  finally show ?case
    using Suc.prems by (simp add: vget_def Cons_nth_drop_Suc [symmetric])
qed

text \<open>What the launch script prints is what \<open>main\<close> reads.\<close>

definition launch_line ::
  "string \<Rightarrow> int \<Rightarrow> int \<Rightarrow> int \<Rightarrow> int \<Rightarrow> string \<Rightarrow> int \<Rightarrow> int \<Rightarrow> string list \<Rightarrow> string list" where
  "launch_line prog me n ops wp name rate dead hosts =
     [prog, to_string me, to_string n, to_string ops, to_string wp, name, to_string rate,
      to_string dead] @ hosts"

lemma launch_line_nth:
  "vget (launch_line prog me n ops wp name rate dead hosts) 1 = Some (to_string me)"
  "vget (launch_line prog me n ops wp name rate dead hosts) 2 = Some (to_string n)"
  "vget (launch_line prog me n ops wp name rate dead hosts) 3 = Some (to_string ops)"
  "vget (launch_line prog me n ops wp name rate dead hosts) 4 = Some (to_string wp)"
  "vget (launch_line prog me n ops wp name rate dead hosts) 5 = Some name"
  "vget (launch_line prog me n ops wp name rate dead hosts) 6 = Some (to_string rate)"
  "vget (launch_line prog me n ops wp name rate dead hosts) 7 = Some (to_string dead)"
  by (simp_all add: launch_line_def vget_def)

lemma main_arguments_launch:
  assumes "int32 me" "int32 n" "int32 ops" "int32 wp" "int32 rate" "int32 dead"
    and "0 \<le> n" "int32 (baseport n + n)" "length hosts = nat n"
  shows "main_arguments (launch_line prog me n ops wp name rate dead hosts) =
    Some (Inr \<lparr>arg_id = me, numnodes = n, numop = ops, writep = wp, arg_usecase = name,
      oppersecond = rate, failed_arg = dead, arg_ports = main_ports n, arg_hosts = hosts,
      arg_loc = workload_dir n ops wp name\<rparr>)"
proof -
  let ?argv = "launch_line prog me n ops wp name rate dead hosts"
  have "read_hosts ?argv (int 8) (nat n) = Some (take (nat n) (drop 8 ?argv))"
    by (rule read_hosts_drop) (simp add: launch_line_def assms(9))
  then have "read_hosts ?argv 8 (nat n) = Some hosts"
    using assms(9) by (simp add: launch_line_def)
  then show ?thesis
    using assms(1-8) by (simp add: main_arguments_def arg_int_def launch_line_nth stoi_to_string)
qed

section \<open>Setting a process up\<close>

text \<open>
  The workload is read with a default call, the number of calls it announces goes to the
  handler. \<open>reader\<close> is the class's \<open>readBenchFile\<close>; \<open>infile\<close> the file's text, if there is one.
\<close>

definition main_setup ::
  "'st usecase \<Rightarrow>
     (string option \<Rightarrow> int \<Rightarrow> int \<Rightarrow> call \<Rightarrow> call list \<Rightarrow> bench_error + (int \<times> call list)) \<Rightarrow>
     int \<Rightarrow> nat \<Rightarrow> int \<Rightarrow> string option \<Rightarrow> bench_error + 'st main_state" where
  "main_setup uc reader me n wp infile =
     (case reader infile 0 me Call_default [] of
        Inl e \<Rightarrow> Inl e
      | Inr (expected, calls) \<Rightarrow>
          Inr (main_start (setVars me n expected wp 0 (Handler_new uc)) calls))"

section \<open>The monitor thread\<close>

text \<open>
  One pass over the nodes \<open>is\<close> (0-based): a node not yet marked whose connection is dead is
  marked. \<open>dead\<close> is \<open>isConnectionDead\<close> at that moment.
\<close>

fun monitor_scan ::
  "'st usecase \<Rightarrow> int \<Rightarrow> (int \<Rightarrow> bool) \<Rightarrow> int list \<Rightarrow> 'st handler \<Rightarrow> 'st handler option" where
  "monitor_scan uc me dead [] h = Some h"
| "monitor_scan uc me dead (i # is) h =
     (if i = me - 1 then monitor_scan uc me dead is h
      else do {
        already_failed \<leftarrow> vget (node_failed h) i;
        h' \<leftarrow> (if \<not> already_failed \<and> dead (i + 1) then markNodeFailed uc (i + 1) h else Some h);
        monitor_scan uc me dead is h' })"

definition monitor_round :: "'st usecase \<Rightarrow> (int \<Rightarrow> bool) \<Rightarrow> 'st handler \<Rightarrow> 'st handler option" where
  "monitor_round uc dead h =
     monitor_scan uc (hnode_id h) dead (map int [0..<number_of_nodes h]) h"

lemma monitor_scan_progress:
  assumes "handler_inv uc h" and "\<forall>i \<in> set is. 0 \<le> i \<and> i < int (number_of_nodes h)"
  shows "\<exists>h'. monitor_scan uc me dead is h = Some h' \<and> progress uc h h'"
  using assms
proof (induction "is" arbitrary: h)
  case Nil
  then show ?case by (simp add: progress_refl)
next
  case (Cons i "is")
  show ?case
  proof (cases "i = me - 1")
    case True
    then show ?thesis using Cons by simp
  next
    case False
    let ?f = "node_failed h ! nat i"
    have i: "0 \<le> i" "i < int (number_of_nodes h)" using Cons.prems(2) by simp_all
    have get: "vget (node_failed h) i = Some ?f"
      using Cons.prems(1) i by (simp add: vget_def inv_defs)
    have "\<exists>g. (if \<not> ?f \<and> dead (i + 1) then markNodeFailed uc (i + 1) h else Some h) = Some g \<and>
        progress uc h g"
      using markNodeFailed_progress [OF Cons.prems(1), of "i + 1"] i
        progress_refl [OF Cons.prems(1)] by auto
    then obtain g where g: "(if \<not> ?f \<and> dead (i + 1) then markNodeFailed uc (i + 1) h else Some h)
        = Some g" "progress uc h g" by blast
    from Cons.IH [OF progress_inv [OF g(2)]] Cons.prems(2) progress_nodes [OF g(2)]
    obtain h' where "monitor_scan uc me dead is g = Some h'" "progress uc g h'" by auto
    then show ?thesis using False get g progress_trans by auto
  qed
qed

lemma monitor_round_progress:
  "handler_inv uc h \<Longrightarrow> \<exists>h'. monitor_round uc dead h = Some h' \<and> progress uc h h'"
  unfolding monitor_round_def by (rule monitor_scan_progress) auto

end
