(* ===== verification/Byte_Workloads.thy ===== *)
theory Byte_Workloads
  imports Hamsou_Bytes Complex_Courseware Main_Setup
begin

text \<open>
  From the workload files to the processes: whatever file the reader of the courseware
  database accepts, the calls it returns meet what the group of processes asks of a workload,
  as long as the file names existing methods and fits the acknowledgement table.
\<close>

section \<open>Operands in range\<close>

definition args32 :: "call \<Rightarrow> bool" where
  "args32 c \<longleftrightarrow> int32 (value1 c) \<and> int32 (value2 c) \<and> int32 (value3 c) \<and> int32 (value4 c)"

lemma extract_into_int32: "int32 x \<Longrightarrow> int32 (snd (extract_into iss x))"
  by (auto simp: extract_into_def extract_int_def Let_def int32_def clamp32_def
      split: option.splits prod.splits)

lemma stoi_int32: "stoi s = Inr v \<Longrightarrow> int32 v"
  by (auto simp: stoi_def split: option.splits if_splits)

text \<open>What an operand reader may change of a call.\<close>

definition operands_only :: "call \<Rightarrow> call \<Rightarrow> bool" where
  "operands_only c c' \<longleftrightarrow> call_id c' = call_id c \<and> ctype c' = ctype c \<and> applied c' = applied c \<and>
     (args32 c \<longrightarrow> args32 c')"

lemma operands_only_trans [trans]:
  "operands_only a b \<Longrightarrow> operands_only b c \<Longrightarrow> operands_only a c"
  by (auto simp: operands_only_def)

lemma extract_into_int32D: "extract_into iss x = (iss', v) \<Longrightarrow> int32 x \<Longrightarrow> int32 v"
  using extract_into_int32 [of x iss] by simp

lemma read_value_only:
  "operands_only (snd p) (snd (read_value1 p))" "operands_only (snd p) (snd (read_value2 p))"
  "operands_only (snd p) (snd (read_value3 p))" "operands_only (snd p) (snd (read_value4 p))"
  by (cases p, auto simp: operands_only_def args32_def read_value1_def read_value2_def
      read_value3_def read_value4_def dest: extract_into_int32D split: prod.split)+

lemma read_pair_only: "read_pair iss c = Inr c' \<Longrightarrow> operands_only c c'"
  by (auto simp: read_pair_def operands_only_def args32_def
      dest: extract_into_int32D stoi_int32 split: prod.splits sum.splits)

lemma Complex_operands_only: "Complex_operands iss c = Inr c' \<Longrightarrow> operands_only c c'"
proof -
  let ?p1 = "read_value1 (iss, c)" and ?p2 = "read_value2 (read_value1 (iss, c))"
  let ?p3 = "read_value3 ?p2"
  have 1: "operands_only c (snd ?p1)" using read_value_only(1) [of "(iss, c)"] by simp
  also note read_value_only(2) [of ?p1]
  finally have 2: "operands_only c (snd ?p2)" .
  also note read_value_only(3) [of ?p2]
  finally have 3: "operands_only c (snd ?p3)" .
  also note read_value_only(4) [of ?p3]
  finally have "operands_only c (snd (read_value4 ?p3))" .
  with 1 2 3 show "Complex_operands iss c = Inr c' \<Longrightarrow> operands_only c c'"
    unfolding Complex_operands_def using read_pair_only [of iss c c'] by (auto split: if_splits)
qed

section \<open>The calls of a file\<close>

lemma valid_name_length:
  "Complex_checkValidcall c = Some True \<Longrightarrow> length (ctype c) \<le> 39 \<and> ctype c \<noteq> ''Ack'' \<and>
     ctype c \<noteq> ''Heartbeat''"
  by (auto simp: Complex_checkValidcall_def)

lemma method_names:
  "cc_coursewareToString n = ''Invalid'' \<or>
     Complex_checkValidcall (c\<lparr>ctype := cc_coursewareToString n\<rparr>) = Some True"
  by (cases "ComplexEnum_cast n")
    (auto simp: cc_coursewareToString_def Complex_checkValidcall_def split: ComplexEnum.split)

lemma Complex_loop_calls:
  assumes "Complex_bench_loop node lines k c cs = Inr cs'" and "\<not> applied c"
  shows "\<exists>ds. cs' = cs @ ds \<and> length ds = length lines \<and>
     (\<forall>d \<in> set ds. node_id d = node \<and> \<not> applied d \<and> args32 d \<and>
        (ctype d = ''Invalid'' \<or> Complex_checkValidcall d = Some True)) \<and>
     map call_id (updates ds) = map (\<lambda>i. k + int i) [1..<Suc (length (updates ds))]"
  using assms
proof (induction lines arbitrary: k c cs)
  case Nil
  then show ?case by simp
next
  case (Cons line lines)
  obtain iss tmp_op where ex: "extract_int (istringstream line) = (iss, Some tmp_op)"
    using Cons.prems(1) by (auto split: prod.splits option.splits)
  let ?c1 = "c\<lparr>ctype := cc_coursewareToString tmp_op, value1 := 0, value2 := 0, value3 := 0,
    value4 := 0\<rparr>"
  have zero: "args32 ?c1" "args32 (?c1\<lparr>call_id := k + 1\<rparr>)" by (simp_all add: args32_def int32_def)
  have name: "ctype d = cc_coursewareToString tmp_op \<Longrightarrow>
      ctype d = ''Invalid'' \<or> Complex_checkValidcall d = Some True" for d
    using method_names [of tmp_op d] by (simp add: Complex_checkValidcall_def)
  show ?case
  proof (cases "cc_coursewareToString tmp_op = ''Read''")
    case True
    let ?c3 = "?c1\<lparr>node_id := node, stable := False\<rparr>"
    have "Complex_bench_loop node lines k ?c3 (cs @ [?c3]) = Inr cs'"
      using Cons.prems ex True by (simp add: Let_def)
    from Cons.IH [OF this] Cons.prems(2) obtain ds where
      "cs' = (cs @ [?c3]) @ ds" "length ds = length lines"
      "\<forall>d \<in> set ds. node_id d = node \<and> \<not> applied d \<and> args32 d \<and>
        (ctype d = ''Invalid'' \<or> Complex_checkValidcall d = Some True)"
      "map call_id (updates ds) = map (\<lambda>i. k + int i) [1..<Suc (length (updates ds))]" by auto
    moreover have "ctype ?c3 = ''Invalid'' \<or> Complex_checkValidcall ?c3 = Some True"
      by (rule name) simp
    ultimately show ?thesis
      using True zero(1) Cons.prems(2) by (intro exI [of _ "?c3 # ds"]) (simp add: args32_def)
  next
    case False
    then obtain c2 where c2: "Complex_operands iss (?c1\<lparr>call_id := k + 1\<rparr>) = Inr c2"
      using Cons.prems ex by (auto simp: Let_def split: sum.splits)
    let ?c3 = "c2\<lparr>node_id := node, stable := False\<rparr>"
    have keep: "call_id c2 = k + 1" "ctype c2 = cc_coursewareToString tmp_op" "\<not> applied c2"
      "args32 c2"
      using Complex_operands_only [OF c2] zero(2) Cons.prems(2) by (simp_all add: operands_only_def)
    have "Complex_bench_loop node lines (k + 1) ?c3 (cs @ [?c3]) = Inr cs'"
      using Cons.prems ex False c2 by (simp add: Let_def)
    from Cons.IH [OF this] keep(3) obtain ds where
      ds: "cs' = (cs @ [?c3]) @ ds" "length ds = length lines"
      "\<forall>d \<in> set ds. node_id d = node \<and> \<not> applied d \<and> args32 d \<and>
        (ctype d = ''Invalid'' \<or> Complex_checkValidcall d = Some True)"
      "map call_id (updates ds) = map (\<lambda>i. k + 1 + int i) [1..<Suc (length (updates ds))]"
      by auto
    moreover have "ctype ?c3 = ''Invalid'' \<or> Complex_checkValidcall ?c3 = Some True"
      by (rule name) (simp add: keep)
    moreover have "args32 ?c3" using keep(4) by (simp add: args32_def)
    ultimately show ?thesis
      using keep False numbered_from_next [of k] by (intro exI [of _ "?c3 # ds"]) (simp del: upt_Suc)
  qed
qed

text \<open>The calls a file yields are a workload of its node.\<close>

lemma Complex_file_workload:
  assumes read: "Complex_readBenchFile (Some text_read) expected i Call_default [] = Inr (n, cs)"
    and len: "length (file_lines text_read) \<le> 350000"
    and names: "\<forall>c \<in> set cs. ctype c \<noteq> ''Invalid''"
  shows "workload_ok Complex_checkValidcall i cs"
proof (cases "file_lines text_read")
  case Nil
  then show ?thesis using read by (simp add: Complex_readBenchFile_def workload_ok_def)
next
  case (Cons line lines)
  then have "Complex_bench_loop i lines 0 Call_default [] = Inr cs"
    using read by (auto simp: Complex_readBenchFile_def split: if_splits sum.splits)
  from Complex_loop_calls [OF this] have
    cs: "length cs = length lines" "\<forall>d \<in> set cs. node_id d = i \<and> \<not> applied d \<and> args32 d \<and>
        (ctype d = ''Invalid'' \<or> Complex_checkValidcall d = Some True)"
      "map call_id (updates cs) = map (\<lambda>i. 0 + int i) [1..<Suc (length (updates cs))]"
    by (auto simp: Call_default_def simp del: upt_Suc)
  have "length (updates cs) \<le> length cs" by (simp add: updates_def)
  then have few: "length (updates cs) < 350000" using cs(1) len Cons by simp
  have "distinct (map call_id (updates cs))"
    unfolding cs(3) by (simp add: distinct_map inj_on_def del: upt_Suc)
  moreover have "load_ok Complex_checkValidcall i c" if "c \<in> set (updates cs)" for c
  proof -
    have "call_id c \<in> set (map call_id (updates cs))" using that by simp
    then have "1 \<le> call_id c \<and> call_id c < 350000"
      unfolding cs(3) using few by (auto simp del: upt_Suc)
    moreover have "c \<in> set cs" using that by (simp add: updates_def)
    then have "node_id c = i" "\<not> applied c" "args32 c" "Complex_checkValidcall c = Some True"
      using cs(2) names by auto
    moreover have "Complex_checkValidcall (c\<lparr>call_vector_clock := v\<rparr>) = Complex_checkValidcall c" for v
      by (simp add: Complex_checkValidcall_def)
    ultimately show ?thesis
      using valid_name_length [of c] by (simp add: load_ok_def acks_columns_def args32_def)
  qed
  ultimately show ?thesis by (simp add: workload_ok_def)
qed

section \<open>Processes set up from their files\<close>

lemma main_setup_Inr:
  assumes "main_setup uc reader me n wp infile = Inr m"
  obtains expected cs where "reader infile 0 me Call_default [] = Inr (expected, cs)"
    "m = main_start (setVars me n expected wp 0 (Handler_new uc)) cs" "bench_calls_var m = cs"
  using assms by (auto simp: main_setup_def main_start_def split: sum.splits prod.splits)

lemma byte_reachable_files:
  assumes n: "n \<le> 31"
    and files: "\<And>i. is_node n i \<Longrightarrow>
      main_setup Complex_uc Complex_readBenchFile i n wp (Some (input i)) = Inr (ms i) \<and>
      length (file_lines (input i)) \<le> 350000 \<and>
      (\<forall>c \<in> set (bench_calls_var (ms i)). ctype c \<noteq> ''Invalid'')"
  shows "byte_reachable Complex_uc Complex_checkValidcall n (byte_start n ms)"
proof -
  have "\<exists>e. workload_ok Complex_checkValidcall i (bench_calls_var (ms i)) \<and>
      ms i = main_start (setVars i n e wp 0 (Handler_new Complex_uc)) (bench_calls_var (ms i))"
    if i: "is_node n i" for i
  proof -
    from files [OF i] obtain e cs where
      r: "Complex_readBenchFile (Some (input i)) 0 i Call_default [] = Inr (e, cs)"
      "ms i = main_start (setVars i n e wp 0 (Handler_new Complex_uc)) cs" "bench_calls_var (ms i) = cs"
      using main_setup_Inr by metis
    from Complex_file_workload [OF r(1)] files [OF i] r(2,3) show ?thesis by auto
  qed
  then obtain expected where "\<And>i. is_node n i \<Longrightarrow>
      workload_ok Complex_checkValidcall i (bench_calls_var (ms i)) \<and>
      ms i = main_start (setVars i n (expected i) wp 0 (Handler_new Complex_uc)) (bench_calls_var (ms i))"
    by metis
  then show ?thesis by (rule byte_reachable.start [OF n])
qed

end
