(* ===== verification/Set_Object.thy ===== *)
theory Set_Object
  imports Use_Case Bench_File
begin

text \<open>
  The class \<open>Set\<close> of \<^verbatim>\<open>wellcoordination/benchmark/set.hpp\<close>: a set of integers with \<open>Add\<close> and
  \<open>Remove\<close>, where every addition is ordered before every removal. The lemmas give the
  meaning of an ordered execution (removal wins) and show that the class keeps the contract
  of \<open>Use_Case\<close>.
\<close>

section \<open>State and methods\<close>

record SetState =
  set_elements :: "int set"

definition SetState_init :: SetState where
  "SetState_init = \<lparr>set_elements = {}\<rparr>"

datatype SetEnum = SetAdd | SetRemove | SetRead

text \<open>\<open>static_cast<SetEnum>\<close> on an \<open>int\<close>, \<open>None\<close> for a value that is no enumerator.\<close>

definition SetEnum_cast :: "int \<Rightarrow> SetEnum option" where
  "SetEnum_cast n = (if n = 0 then Some SetAdd else if n = 1 then Some SetRemove
     else if n = 2 then Some SetRead else None)"

definition setToString :: "int \<Rightarrow> string" where
  "setToString n = (case SetEnum_cast n of
     Some SetAdd \<Rightarrow> ''Add'' | Some SetRemove \<Rightarrow> ''Remove'' | Some SetRead \<Rightarrow> ''Read''
   | None \<Rightarrow> ''Invalid'')"

definition Set_permissible :: "SetState \<Rightarrow> SetState \<Rightarrow> call \<Rightarrow> bool" where
  "Set_permissible current stab c = True"

text \<open>
  The test is computed and dropped: the function ends without a \<open>return\<close>, so its result is
  undefined (\<open>None\<close>) on every call.
\<close>

definition Set_checkValidcall :: "call \<Rightarrow> bool option" where
  "Set_checkValidcall c = (if ctype c = ''Add'' \<or> ctype c = ''Remove'' then None else None)"

definition Set_reachlocal :: "call \<Rightarrow> call \<Rightarrow> bool" where
  "Set_reachlocal input1 input2 \<longleftrightarrow> ctype input1 = ''Add'' \<and> ctype input2 = ''Remove''"

definition Set_reachremote :: "call \<Rightarrow> call \<Rightarrow> bool" where
  "Set_reachremote input1 input2 \<longleftrightarrow> ctype input1 = ''Add'' \<and> ctype input2 = ''Remove''"

definition Set_operands :: "sstream \<Rightarrow> call \<Rightarrow> bench_error + call" where
  "Set_operands iss c =
     (if ctype c = ''Add'' \<or> ctype c = ''Remove'' then read_single iss c else Inr c)"

definition Set_readBenchFile ::
  "string option \<Rightarrow> int \<Rightarrow> int \<Rightarrow> call \<Rightarrow> call list \<Rightarrow> bench_error + (int \<times> call list)" where
  "Set_readBenchFile = read_bench setToString Set_operands"

definition Set_updateCurrentState :: "call \<Rightarrow> SetState \<Rightarrow> SetState" where
  "Set_updateCurrentState c s =
     (if ctype c = ''Add'' then s\<lparr>set_elements := insert (value1 c) (set_elements s)\<rparr>
      else if ctype c = ''Remove'' then s\<lparr>set_elements := set_elements s - {value1 c}\<rparr>
      else s)"

definition Set_updateStableState :: "call \<Rightarrow> SetState \<Rightarrow> SetState" where
  "Set_updateStableState c s =
     (if ctype c = ''Add'' then s\<lparr>set_elements := insert (value1 c) (set_elements s)\<rparr>
      else if ctype c = ''Remove'' then s\<lparr>set_elements := set_elements s - {value1 c}\<rparr>
      else s)"

definition Set_uc :: "SetState usecase" where
  "Set_uc = \<lparr>initial_state = SetState_init, locallyPermissibility = Set_permissible,
     fastisreachablelocal = Set_reachlocal, fastisreachableremote = Set_reachremote,
     updateCurrentState = Set_updateCurrentState, updateStableState = Set_updateStableState\<rparr>"

lemma Set_uc_simps [simp]:
  "initial_state Set_uc = SetState_init"
  "locallyPermissibility Set_uc = Set_permissible"
  "fastisreachablelocal Set_uc = Set_reachlocal"
  "fastisreachableremote Set_uc = Set_reachremote"
  "updateCurrentState Set_uc = Set_updateCurrentState"
  "updateStableState Set_uc = Set_updateStableState"
  by (simp_all add: Set_uc_def)

lemmas Set_defs = Set_reachlocal_def Set_reachremote_def Set_updateCurrentState_def
  Set_updateStableState_def

section \<open>The contract of the protocol\<close>

interpretation set_uc: commuting_updates Set_uc
  by unfold_locales (auto simp: Set_defs insert_commute insert_Diff_if remove_remove_commute)

section \<open>Meaning of an ordered execution\<close>

lemma Set_fold_elements:
  "conflict_ordered Set_uc xs \<Longrightarrow>
     v \<in> set_elements (fold Set_updateStableState xs s) \<longleftrightarrow>
       (v \<in> set_elements s \<or> (\<exists>c \<in> set xs. ctype c = ''Add'' \<and> value1 c = v)) \<and>
       \<not> (\<exists>c \<in> set xs. ctype c = ''Remove'' \<and> value1 c = v)"
proof (induction xs arbitrary: s)
  case Nil
  then show ?case by simp
next
  case (Cons x xs)
  then have "conflict_ordered Set_uc xs"
    and later: "\<forall>y \<in> set xs. \<not> Set_reachremote y x"
    by (simp_all add: conflict_ordered_Cons)
  with Cons.IH [of "Set_updateStableState x s"] show ?case
    by (auto simp: Set_defs)
qed

lemma keeps_header_Set [simp]: "keeps_header Set_operands"
  unfolding Set_operands_def by simp

end
