(* ===== verification/Ycsb_Object.thy ===== *)
theory Ycsb_Object
  imports Use_Case Bench_File
begin

text \<open>
  The class \<open>Ycsb\<close> of \<^verbatim>\<open>wellcoordination/benchmark/ycsb.hpp\<close>: the set object driven by the YCSB
  workloads.
\<close>

section \<open>State and methods\<close>

record YcsbState =
  ycsb_elements :: "int set"

definition YcsbState_init :: YcsbState where
  "YcsbState_init = \<lparr>ycsb_elements = {}\<rparr>"

datatype YcsbEnum = YcsbAdd | YcsbRemove | YcsbRead

text \<open>\<open>static_cast<YcsbEnum>\<close> on an \<open>int\<close>, \<open>None\<close> for a value that is no enumerator.\<close>

definition YcsbEnum_cast :: "int \<Rightarrow> YcsbEnum option" where
  "YcsbEnum_cast n =
    (if n = 0 then Some YcsbAdd
     else if n = 1 then Some YcsbRemove
     else if n = 2 then Some YcsbRead
     else None)"

definition ycsb_setToString :: "int \<Rightarrow> string" where
  "ycsb_setToString n = (case YcsbEnum_cast n of
     Some YcsbAdd \<Rightarrow> ''Add''
   | Some YcsbRemove \<Rightarrow> ''Remove''
   | Some YcsbRead \<Rightarrow> ''Read''
   | None \<Rightarrow> ''Invalid'')"

definition Ycsb_permissible :: "YcsbState \<Rightarrow> YcsbState \<Rightarrow> call \<Rightarrow> bool" where
  "Ycsb_permissible current stab c = True"

text \<open>The test is computed and dropped; the function ends without a \<open>return\<close> (\<open>None\<close>).\<close>

definition Ycsb_checkValidcall :: "call \<Rightarrow> bool option" where
  "Ycsb_checkValidcall c =
     (if ctype c = ''Add'' \<or> ctype c = ''Remove''
      then None else None)"

definition Ycsb_reachlocal :: "call \<Rightarrow> call \<Rightarrow> bool" where
  "Ycsb_reachlocal input1 input2 \<longleftrightarrow>
       ctype input1 = ''Add'' \<and> ctype input2 = ''Remove''"

definition Ycsb_reachremote :: "call \<Rightarrow> call \<Rightarrow> bool" where
  "Ycsb_reachremote input1 input2 \<longleftrightarrow>
       ctype input1 = ''Add'' \<and> ctype input2 = ''Remove''"

definition Ycsb_operands :: "sstream \<Rightarrow> call \<Rightarrow> bench_error + call" where
  "Ycsb_operands iss c =
     (if ctype c = ''Add'' \<or> ctype c = ''Remove'' then read_single iss c else Inr c)"

definition Ycsb_readBenchFile ::
  "string option \<Rightarrow> int \<Rightarrow> int \<Rightarrow> call \<Rightarrow> call list \<Rightarrow> bench_error + (int \<times> call list)" where
  "Ycsb_readBenchFile = read_bench ycsb_setToString Ycsb_operands"

definition Ycsb_updateCurrentState :: "call \<Rightarrow> YcsbState \<Rightarrow> YcsbState" where
  "Ycsb_updateCurrentState c s =
     (if ctype c = ''Add'' then s\<lparr>ycsb_elements := insert (value1 c) (ycsb_elements s)\<rparr>
      else if ctype c = ''Remove'' then s\<lparr>ycsb_elements := ycsb_elements s - {value1 c}\<rparr>
      else s)"

definition Ycsb_updateStableState :: "call \<Rightarrow> YcsbState \<Rightarrow> YcsbState" where
  "Ycsb_updateStableState c s =
     (if ctype c = ''Add'' then s\<lparr>ycsb_elements := insert (value1 c) (ycsb_elements s)\<rparr>
      else if ctype c = ''Remove'' then s\<lparr>ycsb_elements := ycsb_elements s - {value1 c}\<rparr>
      else s)"

definition Ycsb_uc :: "YcsbState usecase" where
  "Ycsb_uc = \<lparr>initial_state = YcsbState_init, locallyPermissibility = Ycsb_permissible,
     fastisreachablelocal = Ycsb_reachlocal, fastisreachableremote = Ycsb_reachremote,
     updateCurrentState = Ycsb_updateCurrentState, updateStableState = Ycsb_updateStableState\<rparr>"

lemma Ycsb_uc_simps [simp]:
  "initial_state Ycsb_uc = YcsbState_init"
  "locallyPermissibility Ycsb_uc = Ycsb_permissible"
  "fastisreachablelocal Ycsb_uc = Ycsb_reachlocal"
  "fastisreachableremote Ycsb_uc = Ycsb_reachremote"
  "updateCurrentState Ycsb_uc = Ycsb_updateCurrentState"
  "updateStableState Ycsb_uc = Ycsb_updateStableState"
  by (simp_all add: Ycsb_uc_def)

lemmas Ycsb_defs = Ycsb_reachlocal_def Ycsb_reachremote_def Ycsb_updateCurrentState_def
  Ycsb_updateStableState_def

lemma keeps_header_Ycsb [simp]: "keeps_header Ycsb_operands"
  unfolding Ycsb_operands_def by simp

section \<open>The contract of the protocol\<close>

interpretation ycsb_uc: commuting_updates Ycsb_uc
  by unfold_locales
    (auto simp: Ycsb_defs insert_commute insert_Diff_if remove_remove_commute)

section \<open>Meaning of an ordered execution\<close>


lemma Ycsb_fold_elements:
  "conflict_ordered Ycsb_uc xs \<Longrightarrow>
     v \<in> ycsb_elements (fold Ycsb_updateStableState xs s) \<longleftrightarrow>
       (v \<in> ycsb_elements s \<or> (\<exists>c \<in> set xs. ctype c = ''Add'' \<and> value1 c = v)) \<and>
       \<not> (\<exists>c \<in> set xs. ctype c = ''Remove'' \<and> value1 c = v)"
proof (induction xs arbitrary: s)
  case Nil
  then show ?case by simp
next
  case (Cons x xs)
  then have "conflict_ordered Ycsb_uc xs"
    and later: "\<forall>y \<in> set xs. \<not> Ycsb_reachremote y x"
    by (simp_all add: conflict_ordered_Cons)
  with Cons.IH [of "Ycsb_updateStableState x s"] show ?case
    by (auto simp: Ycsb_defs)
qed

end
