(* ===== verification/Movie_Object.thy ===== *)
theory Movie_Object
  imports Use_Case Bench_File
begin

text \<open>
  The class \<open>Movie\<close> of \<^verbatim>\<open>wellcoordination/benchmark/movie.hpp\<close>: two independent sets, of movies
  and of customers, where additions are ordered before deletions of the same kind.
\<close>

section \<open>State and methods\<close>

record MovieState =
  movie_ids :: "int set"
  customer_ids :: "int set"

definition MovieState_init :: MovieState where
  "MovieState_init = \<lparr>movie_ids = {}, customer_ids = {}\<rparr>"

datatype MovieEnum = MovieAddMovie | MovieDeleteMovie | MovieAddCustomer | MovieDeleteCustomer | MovieRead

text \<open>\<open>static_cast<MovieEnum>\<close> on an \<open>int\<close>, \<open>None\<close> for a value that is no enumerator.\<close>

definition MovieEnum_cast :: "int \<Rightarrow> MovieEnum option" where
  "MovieEnum_cast n =
    (if n = 0 then Some MovieAddMovie
     else if n = 1 then Some MovieDeleteMovie
     else if n = 2 then Some MovieAddCustomer
     else if n = 3 then Some MovieDeleteCustomer
     else if n = 4 then Some MovieRead
     else None)"

definition movieToString :: "int \<Rightarrow> string" where
  "movieToString n = (case MovieEnum_cast n of
     Some MovieAddMovie \<Rightarrow> ''AddMovie''
   | Some MovieDeleteMovie \<Rightarrow> ''DeleteMovie''
   | Some MovieAddCustomer \<Rightarrow> ''AddCustomer''
   | Some MovieDeleteCustomer \<Rightarrow> ''DeleteCustomer''
   | Some MovieRead \<Rightarrow> ''Read''
   | None \<Rightarrow> ''Invalid'')"

definition Movie_permissible :: "MovieState \<Rightarrow> MovieState \<Rightarrow> call \<Rightarrow> bool" where
  "Movie_permissible current stab c = True"

text \<open>The test is computed and dropped; the function ends without a \<open>return\<close> (\<open>None\<close>).\<close>

definition Movie_checkValidcall :: "call \<Rightarrow> bool option" where
  "Movie_checkValidcall c =
     (if ctype c = ''AddMovie'' \<or> ctype c = ''DeleteMovie'' \<or> ctype c = ''AddCustomer'' \<or> ctype c = ''DeleteCustomer''
      then None else None)"

definition Movie_reachlocal :: "call \<Rightarrow> call \<Rightarrow> bool" where
  "Movie_reachlocal input1 input2 \<longleftrightarrow>
       ctype input1 = ''AddMovie'' \<and> ctype input2 = ''DeleteMovie''
     \<or> ctype input1 = ''AddCustomer'' \<and> ctype input2 = ''DeleteCustomer''"

definition Movie_reachremote :: "call \<Rightarrow> call \<Rightarrow> bool" where
  "Movie_reachremote input1 input2 \<longleftrightarrow>
       ctype input1 = ''AddMovie'' \<and> ctype input2 = ''DeleteMovie''
     \<or> ctype input1 = ''AddCustomer'' \<and> ctype input2 = ''DeleteCustomer''"

definition Movie_operands :: "sstream \<Rightarrow> call \<Rightarrow> bench_error + call" where
  "Movie_operands iss c =
     read_single iss c"

definition Movie_readBenchFile ::
  "string option \<Rightarrow> int \<Rightarrow> int \<Rightarrow> call \<Rightarrow> call list \<Rightarrow> bench_error + (int \<times> call list)" where
  "Movie_readBenchFile = read_bench movieToString Movie_operands"

definition Movie_updateCurrentState :: "call \<Rightarrow> MovieState \<Rightarrow> MovieState" where
  "Movie_updateCurrentState c s =
     (if ctype c = ''AddMovie'' then s\<lparr>movie_ids := insert (value1 c) (movie_ids s)\<rparr>
      else if ctype c = ''DeleteMovie'' then s\<lparr>movie_ids := movie_ids s - {value1 c}\<rparr>
      else if ctype c = ''AddCustomer'' then s\<lparr>customer_ids := insert (value1 c) (customer_ids s)\<rparr>
      else if ctype c = ''DeleteCustomer'' then s\<lparr>customer_ids := customer_ids s - {value1 c}\<rparr>
      else s)"

definition Movie_updateStableState :: "call \<Rightarrow> MovieState \<Rightarrow> MovieState" where
  "Movie_updateStableState c s =
     (if ctype c = ''AddMovie'' then s\<lparr>movie_ids := insert (value1 c) (movie_ids s)\<rparr>
      else if ctype c = ''DeleteMovie'' then s\<lparr>movie_ids := movie_ids s - {value1 c}\<rparr>
      else if ctype c = ''AddCustomer'' then s\<lparr>customer_ids := insert (value1 c) (customer_ids s)\<rparr>
      else if ctype c = ''DeleteCustomer'' then s\<lparr>customer_ids := customer_ids s - {value1 c}\<rparr>
      else s)"

definition Movie_uc :: "MovieState usecase" where
  "Movie_uc = \<lparr>initial_state = MovieState_init, locallyPermissibility = Movie_permissible,
     fastisreachablelocal = Movie_reachlocal, fastisreachableremote = Movie_reachremote,
     updateCurrentState = Movie_updateCurrentState, updateStableState = Movie_updateStableState\<rparr>"

lemma Movie_uc_simps [simp]:
  "initial_state Movie_uc = MovieState_init"
  "locallyPermissibility Movie_uc = Movie_permissible"
  "fastisreachablelocal Movie_uc = Movie_reachlocal"
  "fastisreachableremote Movie_uc = Movie_reachremote"
  "updateCurrentState Movie_uc = Movie_updateCurrentState"
  "updateStableState Movie_uc = Movie_updateStableState"
  by (simp_all add: Movie_uc_def)

lemmas Movie_defs = Movie_reachlocal_def Movie_reachremote_def Movie_updateCurrentState_def
  Movie_updateStableState_def

lemma keeps_header_Movie [simp]: "keeps_header Movie_operands"
  unfolding Movie_operands_def by simp

section \<open>The contract of the protocol\<close>

interpretation movie_uc: commuting_updates Movie_uc
  by unfold_locales
    (auto simp: Movie_defs insert_commute insert_Diff_if remove_remove_commute)

section \<open>Meaning of an ordered execution\<close>


lemma Movie_fold_movies:
  "conflict_ordered Movie_uc xs \<Longrightarrow>
     v \<in> movie_ids (fold Movie_updateStableState xs s) \<longleftrightarrow>
       (v \<in> movie_ids s \<or> (\<exists>c \<in> set xs. ctype c = ''AddMovie'' \<and> value1 c = v)) \<and>
       \<not> (\<exists>c \<in> set xs. ctype c = ''DeleteMovie'' \<and> value1 c = v)"
proof (induction xs arbitrary: s)
  case Nil
  then show ?case by simp
next
  case (Cons x xs)
  then have "conflict_ordered Movie_uc xs"
    and later: "\<forall>y \<in> set xs. \<not> Movie_reachremote y x"
    by (simp_all add: conflict_ordered_Cons)
  with Cons.IH [of "Movie_updateStableState x s"] show ?case
    by (auto simp: Movie_defs)
qed

lemma Movie_fold_customers:
  "conflict_ordered Movie_uc xs \<Longrightarrow>
     v \<in> customer_ids (fold Movie_updateStableState xs s) \<longleftrightarrow>
       (v \<in> customer_ids s \<or> (\<exists>c \<in> set xs. ctype c = ''AddCustomer'' \<and> value1 c = v)) \<and>
       \<not> (\<exists>c \<in> set xs. ctype c = ''DeleteCustomer'' \<and> value1 c = v)"
proof (induction xs arbitrary: s)
  case Nil
  then show ?case by simp
next
  case (Cons x xs)
  then have "conflict_ordered Movie_uc xs"
    and later: "\<forall>y \<in> set xs. \<not> Movie_reachremote y x"
    by (simp_all add: conflict_ordered_Cons)
  with Cons.IH [of "Movie_updateStableState x s"] show ?case
    by (auto simp: Movie_defs)
qed

end
