(* ===== verification/Project_Object.thy ===== *)
theory Project_Object
  imports Use_Case Bench_File
begin

text \<open>
  The class \<open>Project\<close> of \<^verbatim>\<open>wellcoordination/benchmark/project.hpp\<close>: employees, projects and the
  relation of who works on what. Additions and assignments are ordered before deletions.
  The commented-out referential check is not part of the code, so every call is permissible.
\<close>

section \<open>State and methods\<close>

record ProjectState =
  employee_ids :: "int set"
  project_ids :: "int set"
  works :: "(int \<times> int) set"

definition ProjectState_init :: ProjectState where
  "ProjectState_init = \<lparr>employee_ids = {}, project_ids = {}, works = {}\<rparr>"

datatype ProjectEnum = ProjectAddProject | ProjectDeleteProject | ProjectWorksOn | ProjectAddEmployee | ProjectDeleteEmployee | ProjectRead

text \<open>\<open>static_cast<ProjectEnum>\<close> on an \<open>int\<close>, \<open>None\<close> for a value that is no enumerator.\<close>

definition ProjectEnum_cast :: "int \<Rightarrow> ProjectEnum option" where
  "ProjectEnum_cast n =
    (if n = 0 then Some ProjectAddProject
     else if n = 1 then Some ProjectDeleteProject
     else if n = 2 then Some ProjectWorksOn
     else if n = 3 then Some ProjectAddEmployee
     else if n = 4 then Some ProjectDeleteEmployee
     else if n = 5 then Some ProjectRead
     else None)"

definition projectToString :: "int \<Rightarrow> string" where
  "projectToString n = (case ProjectEnum_cast n of
     Some ProjectAddProject \<Rightarrow> ''AddProject''
   | Some ProjectDeleteProject \<Rightarrow> ''DeleteProject''
   | Some ProjectWorksOn \<Rightarrow> ''WorksOn''
   | Some ProjectAddEmployee \<Rightarrow> ''AddEmployee''
   | Some ProjectDeleteEmployee \<Rightarrow> ''DeleteEmployee''
   | Some ProjectRead \<Rightarrow> ''Read''
   | None \<Rightarrow> ''Invalid'')"

definition Project_permissible :: "ProjectState \<Rightarrow> ProjectState \<Rightarrow> call \<Rightarrow> bool" where
  "Project_permissible current stab c = True"

text \<open>The test is computed and dropped; the function ends without a \<open>return\<close> (\<open>None\<close>).\<close>

definition Project_checkValidcall :: "call \<Rightarrow> bool option" where
  "Project_checkValidcall c =
     (if ctype c = ''AddProject'' \<or> ctype c = ''DeleteProject'' \<or> ctype c = ''WorksOn'' \<or> ctype c = ''AddEmployee'' \<or> ctype c = ''DeleteEmployee''
      then None else None)"

definition Project_reachlocal :: "call \<Rightarrow> call \<Rightarrow> bool" where
  "Project_reachlocal input1 input2 \<longleftrightarrow>
       ctype input1 = ''AddEmployee'' \<and> ctype input2 = ''DeleteEmployee''
     \<or> ctype input1 = ''AddProject'' \<and> ctype input2 = ''DeleteProject''
     \<or> ctype input1 = ''WorksOn'' \<and> ctype input2 = ''DeleteEmployee''
     \<or> ctype input1 = ''WorksOn'' \<and> ctype input2 = ''DeleteProject''"

definition Project_reachremote :: "call \<Rightarrow> call \<Rightarrow> bool" where
  "Project_reachremote input1 input2 \<longleftrightarrow>
       ctype input1 = ''AddEmployee'' \<and> ctype input2 = ''DeleteEmployee''
     \<or> ctype input1 = ''AddProject'' \<and> ctype input2 = ''DeleteProject''
     \<or> ctype input1 = ''WorksOn'' \<and> ctype input2 = ''DeleteEmployee''
     \<or> ctype input1 = ''WorksOn'' \<and> ctype input2 = ''DeleteProject''"

definition Project_operands :: "sstream \<Rightarrow> call \<Rightarrow> bench_error + call" where
  "Project_operands iss c =
     (if ctype c = ''WorksOn'' then read_pair iss c else read_single iss c)"

definition Project_readBenchFile ::
  "string option \<Rightarrow> int \<Rightarrow> int \<Rightarrow> call \<Rightarrow> call list \<Rightarrow> bench_error + (int \<times> call list)" where
  "Project_readBenchFile = read_bench projectToString Project_operands"

definition Project_updateCurrentState :: "call \<Rightarrow> ProjectState \<Rightarrow> ProjectState" where
  "Project_updateCurrentState c s =
     (if ctype c = ''AddProject'' then s\<lparr>project_ids := insert (value1 c) (project_ids s)\<rparr>
      else if ctype c = ''DeleteProject'' then s\<lparr>project_ids := project_ids s - {value1 c}\<rparr>
      else if ctype c = ''WorksOn'' then s\<lparr>works := insert (value1 c, value2 c) (works s)\<rparr>
      else if ctype c = ''AddEmployee'' then s\<lparr>employee_ids := insert (value1 c) (employee_ids s)\<rparr>
      else if ctype c = ''DeleteEmployee'' then s\<lparr>employee_ids := employee_ids s - {value1 c}\<rparr>
      else s)"

definition Project_updateStableState :: "call \<Rightarrow> ProjectState \<Rightarrow> ProjectState" where
  "Project_updateStableState c s =
     (if ctype c = ''AddProject'' then s\<lparr>project_ids := insert (value1 c) (project_ids s)\<rparr>
      else if ctype c = ''DeleteProject'' then s\<lparr>project_ids := project_ids s - {value1 c}\<rparr>
      else if ctype c = ''WorksOn'' then s\<lparr>works := insert (value1 c, value2 c) (works s)\<rparr>
      else if ctype c = ''AddEmployee'' then s\<lparr>employee_ids := insert (value1 c) (employee_ids s)\<rparr>
      else if ctype c = ''DeleteEmployee'' then s\<lparr>employee_ids := employee_ids s - {value1 c}\<rparr>
      else s)"

definition Project_uc :: "ProjectState usecase" where
  "Project_uc = \<lparr>initial_state = ProjectState_init, locallyPermissibility = Project_permissible,
     fastisreachablelocal = Project_reachlocal, fastisreachableremote = Project_reachremote,
     updateCurrentState = Project_updateCurrentState, updateStableState = Project_updateStableState\<rparr>"

lemma Project_uc_simps [simp]:
  "initial_state Project_uc = ProjectState_init"
  "locallyPermissibility Project_uc = Project_permissible"
  "fastisreachablelocal Project_uc = Project_reachlocal"
  "fastisreachableremote Project_uc = Project_reachremote"
  "updateCurrentState Project_uc = Project_updateCurrentState"
  "updateStableState Project_uc = Project_updateStableState"
  by (simp_all add: Project_uc_def)

lemmas Project_defs = Project_reachlocal_def Project_reachremote_def Project_updateCurrentState_def
  Project_updateStableState_def

lemma keeps_header_Project [simp]: "keeps_header Project_operands"
  unfolding Project_operands_def by simp

section \<open>The contract of the protocol\<close>

interpretation project_uc: commuting_updates Project_uc
  by unfold_locales
    (auto simp: Project_defs insert_commute insert_Diff_if remove_remove_commute)

section \<open>Meaning of an ordered execution\<close>


lemma Project_fold_projects:
  "conflict_ordered Project_uc xs \<Longrightarrow>
     v \<in> project_ids (fold Project_updateStableState xs s) \<longleftrightarrow>
       (v \<in> project_ids s \<or> (\<exists>c \<in> set xs. ctype c = ''AddProject'' \<and> value1 c = v)) \<and>
       \<not> (\<exists>c \<in> set xs. ctype c = ''DeleteProject'' \<and> value1 c = v)"
proof (induction xs arbitrary: s)
  case Nil
  then show ?case by simp
next
  case (Cons x xs)
  then have "conflict_ordered Project_uc xs"
    and later: "\<forall>y \<in> set xs. \<not> Project_reachremote y x"
    by (simp_all add: conflict_ordered_Cons)
  with Cons.IH [of "Project_updateStableState x s"] show ?case
    by (auto simp: Project_defs)
qed

lemma Project_fold_employees:
  "conflict_ordered Project_uc xs \<Longrightarrow>
     v \<in> employee_ids (fold Project_updateStableState xs s) \<longleftrightarrow>
       (v \<in> employee_ids s \<or> (\<exists>c \<in> set xs. ctype c = ''AddEmployee'' \<and> value1 c = v)) \<and>
       \<not> (\<exists>c \<in> set xs. ctype c = ''DeleteEmployee'' \<and> value1 c = v)"
proof (induction xs arbitrary: s)
  case Nil
  then show ?case by simp
next
  case (Cons x xs)
  then have "conflict_ordered Project_uc xs"
    and later: "\<forall>y \<in> set xs. \<not> Project_reachremote y x"
    by (simp_all add: conflict_ordered_Cons)
  with Cons.IH [of "Project_updateStableState x s"] show ?case
    by (auto simp: Project_defs)
qed

text \<open>No method removes a pair: the relation only grows.\<close>

lemma Project_fold_works:
  "(v, w) \<in> works (fold Project_updateStableState xs s) \<longleftrightarrow>
     (v, w) \<in> works s \<or> (\<exists>c \<in> set xs. ctype c = ''WorksOn'' \<and> value1 c = v \<and> value2 c = w)"
  by (induction xs arbitrary: s) (auto simp: Project_updateStableState_def)

end
