(* ===== verification/Courseware_Object.thy ===== *)
theory Courseware_Object
  imports Use_Case Bench_File
begin

text \<open>
  The class \<open>Courseware\<close> of \<^verbatim>\<open>wellcoordination/benchmark/courseware.hpp\<close>: students, courses and
  enrolments, with additions and enrolments ordered before deletions.
\<close>

section \<open>State and methods\<close>

record CoursewareState =
  student_ids :: "int set"
  course_ids :: "int set"
  enroll :: "(int \<times> int) set"

definition CoursewareState_init :: CoursewareState where
  "CoursewareState_init = \<lparr>student_ids = {}, course_ids = {}, enroll = {}\<rparr>"

datatype CoursewareEnum = CoursewareAddCourse | CoursewareDeleteCourse | CoursewareEnroll | CoursewareAddStudent | CoursewareDeleteStudent | CoursewareRead

text \<open>\<open>static_cast<CoursewareEnum>\<close> on an \<open>int\<close>, \<open>None\<close> for a value that is no enumerator.\<close>

definition CoursewareEnum_cast :: "int \<Rightarrow> CoursewareEnum option" where
  "CoursewareEnum_cast n =
    (if n = 0 then Some CoursewareAddCourse
     else if n = 1 then Some CoursewareDeleteCourse
     else if n = 2 then Some CoursewareEnroll
     else if n = 3 then Some CoursewareAddStudent
     else if n = 4 then Some CoursewareDeleteStudent
     else if n = 5 then Some CoursewareRead
     else None)"

definition coursewareToString :: "int \<Rightarrow> string" where
  "coursewareToString n = (case CoursewareEnum_cast n of
     Some CoursewareAddCourse \<Rightarrow> ''AddCourse''
   | Some CoursewareDeleteCourse \<Rightarrow> ''DeleteCourse''
   | Some CoursewareEnroll \<Rightarrow> ''Enroll''
   | Some CoursewareAddStudent \<Rightarrow> ''AddStudent''
   | Some CoursewareDeleteStudent \<Rightarrow> ''DeleteStudent''
   | Some CoursewareRead \<Rightarrow> ''Read''
   | None \<Rightarrow> ''Invalid'')"

definition Courseware_permissible :: "CoursewareState \<Rightarrow> CoursewareState \<Rightarrow> call \<Rightarrow> bool" where
  "Courseware_permissible current stab c = True"

text \<open>The test is computed and dropped; the function ends without a \<open>return\<close> (\<open>None\<close>).\<close>

definition Courseware_checkValidcall :: "call \<Rightarrow> bool option" where
  "Courseware_checkValidcall c =
     (if ctype c = ''AddCourse'' \<or> ctype c = ''DeleteCourse'' \<or> ctype c = ''Enroll'' \<or> ctype c = ''AddStudent'' \<or> ctype c = ''DeleteStudent''
      then None else None)"

definition Courseware_reachlocal :: "call \<Rightarrow> call \<Rightarrow> bool" where
  "Courseware_reachlocal input1 input2 \<longleftrightarrow>
       ctype input1 = ''AddCourse'' \<and> ctype input2 = ''DeleteCourse''
     \<or> ctype input1 = ''AddStudent'' \<and> ctype input2 = ''DeleteStudent''
     \<or> ctype input1 = ''Enroll'' \<and> ctype input2 = ''DeleteCourse''
     \<or> ctype input1 = ''Enroll'' \<and> ctype input2 = ''DeleteStudent''"

definition Courseware_reachremote :: "call \<Rightarrow> call \<Rightarrow> bool" where
  "Courseware_reachremote input1 input2 \<longleftrightarrow>
       ctype input1 = ''AddCourse'' \<and> ctype input2 = ''DeleteCourse''
     \<or> ctype input1 = ''AddStudent'' \<and> ctype input2 = ''DeleteStudent''
     \<or> ctype input1 = ''Enroll'' \<and> ctype input2 = ''DeleteCourse''
     \<or> ctype input1 = ''Enroll'' \<and> ctype input2 = ''DeleteStudent''"

definition Courseware_operands :: "sstream \<Rightarrow> call \<Rightarrow> bench_error + call" where
  "Courseware_operands iss c =
     (if ctype c = ''Enroll'' then read_pair iss c else read_single iss c)"

definition Courseware_readBenchFile ::
  "string option \<Rightarrow> int \<Rightarrow> int \<Rightarrow> call \<Rightarrow> call list \<Rightarrow> bench_error + (int \<times> call list)" where
  "Courseware_readBenchFile = read_bench coursewareToString Courseware_operands"

definition Courseware_updateCurrentState :: "call \<Rightarrow> CoursewareState \<Rightarrow> CoursewareState" where
  "Courseware_updateCurrentState c s =
     (if ctype c = ''AddCourse'' then s\<lparr>course_ids := insert (value1 c) (course_ids s)\<rparr>
      else if ctype c = ''DeleteCourse'' then s\<lparr>course_ids := course_ids s - {value1 c}\<rparr>
      else if ctype c = ''Endroll'' then s\<lparr>enroll := insert (value1 c, value2 c) (enroll s)\<rparr>
      else if ctype c = ''AddStudent'' then s\<lparr>student_ids := insert (value1 c) (student_ids s)\<rparr>
      else if ctype c = ''DeleteStudent'' then s\<lparr>student_ids := student_ids s - {value1 c}\<rparr>
      else s)"

definition Courseware_updateStableState :: "call \<Rightarrow> CoursewareState \<Rightarrow> CoursewareState" where
  "Courseware_updateStableState c s =
     (if ctype c = ''AddCourse'' then s\<lparr>course_ids := insert (value1 c) (course_ids s)\<rparr>
      else if ctype c = ''DeleteCourse'' then s\<lparr>course_ids := course_ids s - {value1 c}\<rparr>
      else if ctype c = ''Enroll'' then s\<lparr>enroll := insert (value1 c, value2 c) (enroll s)\<rparr>
      else if ctype c = ''AddStudent'' then s\<lparr>student_ids := insert (value1 c) (student_ids s)\<rparr>
      else if ctype c = ''DeleteStudent'' then s\<lparr>student_ids := student_ids s - {value1 c}\<rparr>
      else s)"

definition Courseware_uc :: "CoursewareState usecase" where
  "Courseware_uc = \<lparr>initial_state = CoursewareState_init, locallyPermissibility = Courseware_permissible,
     fastisreachablelocal = Courseware_reachlocal, fastisreachableremote = Courseware_reachremote,
     updateCurrentState = Courseware_updateCurrentState, updateStableState = Courseware_updateStableState\<rparr>"

lemma Courseware_uc_simps [simp]:
  "initial_state Courseware_uc = CoursewareState_init"
  "locallyPermissibility Courseware_uc = Courseware_permissible"
  "fastisreachablelocal Courseware_uc = Courseware_reachlocal"
  "fastisreachableremote Courseware_uc = Courseware_reachremote"
  "updateCurrentState Courseware_uc = Courseware_updateCurrentState"
  "updateStableState Courseware_uc = Courseware_updateStableState"
  by (simp_all add: Courseware_uc_def)

lemmas Courseware_defs = Courseware_reachlocal_def Courseware_reachremote_def Courseware_updateCurrentState_def
  Courseware_updateStableState_def

lemma keeps_header_Courseware [simp]: "keeps_header Courseware_operands"
  unfolding Courseware_operands_def by simp

section \<open>The contract of the protocol\<close>

interpretation courseware_uc: commuting_updates Courseware_uc
  by unfold_locales
    (auto simp: Courseware_defs insert_commute insert_Diff_if remove_remove_commute)

section \<open>Meaning of an ordered execution\<close>


lemma Courseware_fold_courses:
  "conflict_ordered Courseware_uc xs \<Longrightarrow>
     v \<in> course_ids (fold Courseware_updateStableState xs s) \<longleftrightarrow>
       (v \<in> course_ids s \<or> (\<exists>c \<in> set xs. ctype c = ''AddCourse'' \<and> value1 c = v)) \<and>
       \<not> (\<exists>c \<in> set xs. ctype c = ''DeleteCourse'' \<and> value1 c = v)"
proof (induction xs arbitrary: s)
  case Nil
  then show ?case by simp
next
  case (Cons x xs)
  then have "conflict_ordered Courseware_uc xs"
    and later: "\<forall>y \<in> set xs. \<not> Courseware_reachremote y x"
    by (simp_all add: conflict_ordered_Cons)
  with Cons.IH [of "Courseware_updateStableState x s"] show ?case
    by (auto simp: Courseware_defs)
qed

lemma Courseware_fold_students:
  "conflict_ordered Courseware_uc xs \<Longrightarrow>
     v \<in> student_ids (fold Courseware_updateStableState xs s) \<longleftrightarrow>
       (v \<in> student_ids s \<or> (\<exists>c \<in> set xs. ctype c = ''AddStudent'' \<and> value1 c = v)) \<and>
       \<not> (\<exists>c \<in> set xs. ctype c = ''DeleteStudent'' \<and> value1 c = v)"
proof (induction xs arbitrary: s)
  case Nil
  then show ?case by simp
next
  case (Cons x xs)
  then have "conflict_ordered Courseware_uc xs"
    and later: "\<forall>y \<in> set xs. \<not> Courseware_reachremote y x"
    by (simp_all add: conflict_ordered_Cons)
  with Cons.IH [of "Courseware_updateStableState x s"] show ?case
    by (auto simp: Courseware_defs)
qed

text \<open>No method removes a pair: the relation only grows.\<close>

lemma Courseware_fold_enroll:
  "(v, w) \<in> enroll (fold Courseware_updateStableState xs s) \<longleftrightarrow>
     (v, w) \<in> enroll s \<or> (\<exists>c \<in> set xs. ctype c = ''Enroll'' \<and> value1 c = v \<and> value2 c = w)"
  by (induction xs arbitrary: s) (auto simp: Courseware_updateStableState_def)

text \<open>
  The two update methods differ in one spelling: the current state tests for \<open>Endroll\<close>, so
  an \<open>Enroll\<close> call changes the stable state only.
\<close>

lemma Courseware_updates_agree:
  "ctype c \<noteq> ''Enroll'' \<Longrightarrow> ctype c \<noteq> ''Endroll'' \<Longrightarrow>
     Courseware_updateCurrentState c s = Courseware_updateStableState c s"
  by (simp add: Courseware_defs)

lemma Courseware_current_enroll:
  "\<forall>c \<in> set xs. ctype c \<noteq> ''Endroll'' \<Longrightarrow>
     enroll (fold Courseware_updateCurrentState xs s) = enroll s"
  by (induction xs arbitrary: s) (auto simp: Courseware_updateCurrentState_def)

end
