(* ===== verification/Stack_Object.thy ===== *)
theory Stack_Object
  imports Use_Case Bench_File
begin

text \<open>
  The class \<open>Stack\<close> of \<^verbatim>\<open>wellcoordination/benchmark/stack.hpp\<close>. Locally, pushes of nodes with a
  greater number and pops block a push; remotely, a push is ordered before the pops it is
  concurrent with, and pushes are not ordered at all.
\<close>

section \<open>State and methods\<close>

record StackState =
  stack_elements :: "int list"

definition StackState_init :: StackState where
  "StackState_init = \<lparr>stack_elements = []\<rparr>"

datatype StackEnum = StackPush | StackPop | StackRead

text \<open>\<open>static_cast<StackEnum>\<close> on an \<open>int\<close>, \<open>None\<close> for a value that is no enumerator.\<close>

definition StackEnum_cast :: "int \<Rightarrow> StackEnum option" where
  "StackEnum_cast n =
    (if n = 0 then Some StackPush
     else if n = 1 then Some StackPop
     else if n = 2 then Some StackRead
     else None)"

definition stackToString :: "int \<Rightarrow> string" where
  "stackToString n = (case StackEnum_cast n of
     Some StackPush \<Rightarrow> ''Push''
   | Some StackPop \<Rightarrow> ''Pop''
   | Some StackRead \<Rightarrow> ''Read''
   | None \<Rightarrow> ''Invalid'')"

definition Stack_permissible :: "StackState \<Rightarrow> StackState \<Rightarrow> call \<Rightarrow> bool" where
  "Stack_permissible current stab c = True"

text \<open>The test is computed and dropped; the function ends without a \<open>return\<close> (\<open>None\<close>).\<close>

definition Stack_checkValidcall :: "call \<Rightarrow> bool option" where
  "Stack_checkValidcall c =
     (if ctype c = ''Push'' \<or> ctype c = ''Pop''
      then None else None)"

definition Stack_reachlocal :: "call \<Rightarrow> call \<Rightarrow> bool" where
  "Stack_reachlocal input1 input2 \<longleftrightarrow>
       ctype input1 = ''Push'' \<and> ctype input2 = ''Push'' \<and> node_id input1 < node_id input2
     \<or> ctype input1 = ''Push'' \<and> ctype input2 = ''Pop''"

definition Stack_reachremote :: "call \<Rightarrow> call \<Rightarrow> bool" where
  "Stack_reachremote input1 input2 \<longleftrightarrow>
       ctype input1 = ''Push'' \<and> ctype input2 = ''Pop'' \<and>
       compareVectorClocks (call_vector_clock input1) (call_vector_clock input2) = 1"

definition Stack_operands :: "sstream \<Rightarrow> call \<Rightarrow> bench_error + call" where
  "Stack_operands iss c =
     (if ctype c = ''Push'' then read_single iss c else Inr c)"

definition Stack_readBenchFile ::
  "string option \<Rightarrow> int \<Rightarrow> int \<Rightarrow> call \<Rightarrow> call list \<Rightarrow> bench_error + (int \<times> call list)" where
  "Stack_readBenchFile = read_bench stackToString Stack_operands"

definition Stack_updateCurrentState :: "call \<Rightarrow> StackState \<Rightarrow> StackState" where
  "Stack_updateCurrentState c s =
     (if ctype c = ''Push'' then s\<lparr>stack_elements := stack_elements s @ [value1 c]\<rparr>
      else if ctype c = ''Pop'' then
        (if stack_elements s \<noteq> [] then s\<lparr>stack_elements := butlast (stack_elements s)\<rparr> else s)
      else s)"

definition Stack_updateStableState :: "call \<Rightarrow> StackState \<Rightarrow> StackState" where
  "Stack_updateStableState c s =
     (if ctype c = ''Push'' then s\<lparr>stack_elements := stack_elements s @ [value1 c]\<rparr>
      else if ctype c = ''Pop'' then
        (if stack_elements s \<noteq> [] then s\<lparr>stack_elements := butlast (stack_elements s)\<rparr> else s)
      else s)"

definition Stack_uc :: "StackState usecase" where
  "Stack_uc = \<lparr>initial_state = StackState_init, locallyPermissibility = Stack_permissible,
     fastisreachablelocal = Stack_reachlocal, fastisreachableremote = Stack_reachremote,
     updateCurrentState = Stack_updateCurrentState, updateStableState = Stack_updateStableState\<rparr>"

lemma Stack_uc_simps [simp]:
  "initial_state Stack_uc = StackState_init"
  "locallyPermissibility Stack_uc = Stack_permissible"
  "fastisreachablelocal Stack_uc = Stack_reachlocal"
  "fastisreachableremote Stack_uc = Stack_reachremote"
  "updateCurrentState Stack_uc = Stack_updateCurrentState"
  "updateStableState Stack_uc = Stack_updateStableState"
  by (simp_all add: Stack_uc_def)

lemmas Stack_defs = Stack_reachlocal_def Stack_reachremote_def Stack_updateCurrentState_def
  Stack_updateStableState_def

lemma keeps_header_Stack [simp]: "keeps_header Stack_operands"
  unfolding Stack_operands_def by simp

section \<open>The contract of the protocol\<close>

text \<open>The stack keeps the ordering contract, but not the one of convergence.\<close>

interpretation stack_uc: conflict_resolution Stack_uc
  by unfold_locales (auto simp: Stack_defs)

section \<open>Executions\<close>


lemma Stack_updates_agree: "Stack_updateCurrentState = Stack_updateStableState"
  by (intro ext) (simp add: Stack_defs)

lemma Stack_push_run:
  "\<forall>c \<in> set xs. ctype c = ''Push'' \<Longrightarrow>
     stack_elements (fold Stack_updateStableState xs s) = stack_elements s @ map value1 xs"
  by (induction xs arbitrary: s) (auto simp: Stack_updateStableState_def)

lemma Stack_pop_run:
  "\<forall>c \<in> set xs. ctype c = ''Pop'' \<Longrightarrow>
     stack_elements (fold Stack_updateStableState xs s)
       = take (length (stack_elements s) - length xs) (stack_elements s)"
proof (induction xs arbitrary: s)
  case Nil
  then show ?case by simp
next
  case (Cons x xs)
  have step: "stack_elements (Stack_updateStableState x s) = butlast (stack_elements s)"
    using Cons.prems by (simp add: Stack_updateStableState_def)
  have "stack_elements (fold Stack_updateStableState xs (Stack_updateStableState x s))
      = take (length (butlast (stack_elements s)) - length xs) (butlast (stack_elements s))"
    using Cons.IH [of "Stack_updateStableState x s"] Cons.prems step by simp
  then show ?case by (simp add: butlast_conv_take min_def)
qed

end
