(* ===== verification/Hamsou_Examples.thy ===== *)
theory Hamsou_Examples
  imports Hamsou_Main Set_Object Ycsb_Object Movie_Object Project_Object Courseware_Object
    Stack_Object Complex_Courseware
begin

text \<open>
  Small concrete runs of Hamsou nodes, used to show that the hypotheses of the properties
  can be met, and the generic facts on reachable nodes the properties of the root theory
  instantiate for each use case.
\<close>

section \<open>Reachable nodes\<close>

lemma reach_step:
  assumes "node_reachable uc h" and "event_ok h e"
  shows "node_reachable uc (the (node_step uc e h))"
proof -
  obtain h' where "node_step uc e h = Some h'"
    using node_step_progress [OF reachable_inv [OF assms(1)] assms(2)] by blast
  then show ?thesis using node_reachable.step [OF assms] by simp
qed

text \<open>Whatever holds initially and is kept by both updates holds of both states of a node.\<close>

lemma fold_invariant_kept: "P s \<Longrightarrow> (\<And>c s. P s \<Longrightarrow> P (f c s)) \<Longrightarrow> P (fold f cs s)"
  by (induction cs arbitrary: s) auto

lemma reachable_stable_state:
  assumes "node_reachable uc h" and "P (initial_state uc)"
    and "\<And>c s. P s \<Longrightarrow> P (updateStableState uc c s)"
  shows "P (stable_state h)"
proof -
  have "stable_state h = fold (updateStableState uc) (stable_calls h) (initial_state uc)"
    using reachable_inv [OF assms(1)] by (simp add: inv_defs stable_calls_def)
  then show ?thesis using assms(2,3) by (simp add: fold_invariant_kept)
qed

section \<open>The state a node settles in\<close>

text \<open>The stable state once every call of the execution list has become stable.\<close>

definition settled :: "'st usecase \<Rightarrow> 'st handler \<Rightarrow> 'st" where
  "settled uc h =
     fold (updateStableState uc) (drop (stable_index h) (executionList h)) (stable_state h)"

definition unstable_calls :: "'st handler \<Rightarrow> call list" where
  "unstable_calls h = drop (stable_index h) (executionList h)"

lemma reachable_unstable_ordered:
  "node_reachable uc h \<Longrightarrow> conflict_resolution uc \<Longrightarrow> conflict_ordered uc (unstable_calls h)"
  using reachable_ordered [of uc h] by (simp add: suffix_ordered_def unstable_calls_def)

lemma settled_agree:
  assumes "commuting_updates uc" and "node_reachable uc h1" and "node_reachable uc h2"
    and "stable_state h1 = stable_state h2"
    and "mset (unstable_calls h1) = mset (unstable_calls h2)"
  shows "settled uc h1 = settled uc h2"
proof -
  have "conflict_resolution uc" using assms(1) by (simp add: commuting_updates_def)
  then show ?thesis
    using commuting_updates.ordered_permutations_agree [OF assms(1)]
      reachable_unstable_ordered assms
    unfolding settled_def unstable_calls_def by metis
qed

section \<open>A run of a set node\<close>

definition demo_add :: "int \<Rightarrow> int \<Rightarrow> int list \<Rightarrow> call" where
  "demo_add v node clock = (Call_new ''Add'' v 0 0 0 node 1 False False)
     \<lparr>call_vector_clock := clock\<rparr>"

definition demo_remove :: "int \<Rightarrow> int \<Rightarrow> int list \<Rightarrow> call" where
  "demo_remove v node clock = (Call_new ''Remove'' v 0 0 0 node 1 False False)
     \<lparr>call_vector_clock := clock\<rparr>"

text \<open>Node 1 of three; it removes 7, then hears of a concurrent addition at node 2.\<close>

definition demo0 :: "SetState handler" where
  "demo0 = setVars 1 3 3 100 0 (Handler_new Set_uc)"

definition demo1 :: "SetState handler" where
  "demo1 = the (node_step Set_uc (Invoke (demo_remove 7 1 [])) demo0)"

definition demo2 :: "SetState handler" where
  "demo2 = the (node_step Set_uc (Deliver (demo_add 7 2 [0, 1, 0])) demo1)"

lemma demo0_reachable: "node_reachable Set_uc demo0"
  unfolding demo0_def by (rule node_reachable.start) simp_all

lemma demo1_reachable: "node_reachable Set_uc demo1"
  unfolding demo1_def
  by (rule reach_step [OF demo0_reachable])
    (simp add: demo0_def setVars_def Handler_new_def demo_remove_def Call_new_def acks_columns_def)

lemma demo1_event: "event_ok demo1 (Deliver (demo_add 7 2 [0, 1, 0]))"
  by code_simp

lemma demo2_reachable: "node_reachable Set_uc demo2"
  unfolding demo2_def by (rule reach_step [OF demo1_reachable demo1_event])

lemma demo2_calls: "map ctype (executionList demo2) = [''Add'', ''Remove'']"
  by code_simp

text \<open>Node 2 of the same group: it adds 7, then hears of the removal at node 1.\<close>

definition demo0b :: "SetState handler" where
  "demo0b = setVars 2 3 3 100 0 (Handler_new Set_uc)"

definition demo1b :: "SetState handler" where
  "demo1b = the (node_step Set_uc (Invoke (demo_add 7 2 [])) demo0b)"

definition demo2b :: "SetState handler" where
  "demo2b = the (node_step Set_uc (Deliver (demo_remove 7 1 [1, 0, 0])) demo1b)"

lemma demo1b_reachable: "node_reachable Set_uc demo1b"
proof -
  have "node_reachable Set_uc demo0b"
    unfolding demo0b_def by (rule node_reachable.start) simp_all
  moreover have "event_ok demo0b (Invoke (demo_add 7 2 []))" by code_simp
  ultimately show ?thesis unfolding demo1b_def by (rule reach_step)
qed

lemma demo2b_reachable: "node_reachable Set_uc demo2b"
proof -
  have "event_ok demo1b (Deliver (demo_remove 7 1 [1, 0, 0]))" by code_simp
  then show ?thesis unfolding demo2b_def by (rule reach_step [OF demo1b_reachable])
qed

section \<open>Runs of other objects\<close>

definition demo_call :: "string \<Rightarrow> int \<Rightarrow> int \<Rightarrow> int \<Rightarrow> int \<Rightarrow> int \<Rightarrow> int \<Rightarrow> int list \<Rightarrow> call" where
  "demo_call t v1 v2 v3 v4 node k clock =
     (Call_new t v1 v2 v3 v4 node k False False)\<lparr>call_vector_clock := clock\<rparr>"

definition demo_push :: "int \<Rightarrow> int \<Rightarrow> int list \<Rightarrow> call" where
  "demo_push v node clock = demo_call ''Push'' v 0 0 0 node 1 clock"

text \<open>A project node that deletes project 7 and hears of a concurrent addition of it.\<close>

definition demop0 :: "ProjectState handler" where
  "demop0 = setVars 1 2 2 100 0 (Handler_new Project_uc)"

definition demop1 :: "ProjectState handler" where
  "demop1 = the (node_step Project_uc (Invoke (demo_call ''DeleteProject'' 7 0 0 0 1 1 [])) demop0)"

definition demop :: "ProjectState handler" where
  "demop = the (node_step Project_uc
     (Deliver (demo_call ''AddProject'' 7 0 0 0 2 1 [0, 1])) demop1)"

lemma demop_reachable: "node_reachable Project_uc demop"
proof -
  have "node_reachable Project_uc demop0"
    unfolding demop0_def by (rule node_reachable.start) simp_all
  moreover have "event_ok demop0 (Invoke (demo_call ''DeleteProject'' 7 0 0 0 1 1 []))"
    by code_simp
  ultimately have "node_reachable Project_uc demop1" unfolding demop1_def by (rule reach_step)
  moreover have "event_ok demop1 (Deliver (demo_call ''AddProject'' 7 0 0 0 2 1 [0, 1]))"
    by code_simp
  ultimately show ?thesis unfolding demop_def by (rule reach_step)
qed

text \<open>Two stack nodes that push concurrently and exchange their pushes.\<close>

definition demok0 :: "int \<Rightarrow> StackState handler" where
  "demok0 me = setVars me 2 2 100 0 (Handler_new Stack_uc)"

definition demok1 :: "StackState handler" where
  "demok1 = the (node_step Stack_uc (Deliver (demo_push 20 2 [0, 1]))
     (the (node_step Stack_uc (Invoke (demo_push 10 1 [])) (demok0 1))))"

definition demok2 :: "StackState handler" where
  "demok2 = the (node_step Stack_uc (Deliver (demo_push 10 1 [1, 0]))
     (the (node_step Stack_uc (Invoke (demo_push 20 2 [])) (demok0 2))))"

lemma demok0_reachable: "1 \<le> me \<Longrightarrow> me \<le> 2 \<Longrightarrow> node_reachable Stack_uc (demok0 me)"
  unfolding demok0_def by (rule node_reachable.start) simp_all

lemma demok1_reachable: "node_reachable Stack_uc demok1"
proof -
  have "event_ok (demok0 1) (Invoke (demo_push 10 1 []))"
    "event_ok (the (node_step Stack_uc (Invoke (demo_push 10 1 [])) (demok0 1)))
       (Deliver (demo_push 20 2 [0, 1]))"
    by code_simp+
  then show ?thesis unfolding demok1_def by (intro reach_step demok0_reachable) simp_all
qed

lemma demok2_reachable: "node_reachable Stack_uc demok2"
proof -
  have "event_ok (demok0 2) (Invoke (demo_push 20 2 []))"
    "event_ok (the (node_step Stack_uc (Invoke (demo_push 20 2 [])) (demok0 2)))
       (Deliver (demo_push 10 1 [1, 0]))"
    by code_simp+
  then show ?thesis unfolding demok2_def by (intro reach_step demok0_reachable) simp_all
qed

text \<open>A complex courseware node that adds a course, acknowledged by the other node.\<close>

definition democ0 :: "ComplexState handler" where
  "democ0 = setVars 1 2 2 100 0 (Handler_new Complex_uc)"

definition democ1 :: "ComplexState handler" where
  "democ1 = the (node_step Complex_uc (Invoke (demo_call ''AddCourseForce'' 3 9 1 1 1 1 [])) democ0)"

definition democ :: "ComplexState handler" where
  "democ = the (node_step Complex_uc (AckMsg (demo_call ''Ack'' 3 0 0 0 1 1 [])) democ1)"

lemma democ_reachable: "node_reachable Complex_uc democ"
proof -
  have "node_reachable Complex_uc democ0"
    unfolding democ0_def by (rule node_reachable.start) simp_all
  moreover have "event_ok democ0 (Invoke (demo_call ''AddCourseForce'' 3 9 1 1 1 1 []))"
    by code_simp
  ultimately have "node_reachable Complex_uc democ1" unfolding democ1_def by (rule reach_step)
  moreover have "event_ok democ1 (AckMsg (demo_call ''Ack'' 3 0 0 0 1 1 []))"
    by code_simp
  ultimately show ?thesis unfolding democ_def by (rule reach_step)
qed

end
