(* ===== verification/Hamsou_Schedules.thy ===== *)
theory Hamsou_Schedules
  imports Hamsou_Delivery Hamsou_Examples Complex_Courseware
begin

text \<open>
  Concrete schedules of groups of nodes of the courseware database, the one class whose
  \<open>checkValidcall\<close> returns its result, so that a received call is handled at all: a run in
  which everything becomes stable, one that ends quietly with an acknowledged call unstable,
  one in which the nodes hold two calls in different orders, and one whose nodes end quietly
  with different stable states.
\<close>

definition group_call :: "string \<Rightarrow> int \<Rightarrow> int \<Rightarrow> int \<Rightarrow> call" where
  "group_call t v node k = demo_call t v 0 0 0 node k []"

definition course_group :: "nat \<Rightarrow> ComplexState system" where
  "course_group n = system_start Complex_uc n (\<lambda>i. 3) 100"

text \<open>Steps and schedules of groups of this class, with its own validity check.\<close>

abbreviation course_step :: "nat \<Rightarrow> system_event \<Rightarrow> ComplexState system \<Rightarrow> ComplexState system option" where
  "course_step \<equiv> system_step Complex_uc Complex_checkValidcall"

abbreviation course_run :: "nat \<Rightarrow> system_event list \<Rightarrow> ComplexState system \<Rightarrow> ComplexState system option" where
  "course_run \<equiv> run_system Complex_uc Complex_checkValidcall"

abbreviation course_reachable :: "nat \<Rightarrow> ComplexState system \<Rightarrow> bool" where
  "course_reachable \<equiv> system_reachable Complex_uc Complex_checkValidcall"

lemma schedule_reachable:
  "course_run n es (course_group n) \<noteq> None \<Longrightarrow>
     course_reachable n (the (course_run n es (course_group n)))"
  unfolding course_group_def by (intro run_system_defined system_reachable.start)

text \<open>
  What a node shows: its list as pairs of issuer and number, how much of it is stable, what
  it has queued, and whether student 5 is in its stable state.
\<close>

definition node_view :: "ComplexState system \<Rightarrow> int \<Rightarrow> (int \<times> int) list \<times> nat \<times> nat \<times> bool" where
  "node_view s i = (map call_key (executionList (procs s i)), stable_index (procs s i),
     length (priorityQueue (procs s i)), students (stable_state (procs s i)) 5 \<noteq> None)"

lemma node_viewD:
  assumes "node_view s i = (ks, k, q, b)"
  shows "map call_key (executionList (procs s i)) = ks" "q = 0 \<longleftrightarrow> priorityQueue (procs s i) = []"
    "k = length ks \<Longrightarrow> fully_stable (procs s i)" "k = 0 \<Longrightarrow> stable_calls (procs s i) = []"
    "students (stable_state (procs s i)) 5 \<noteq> None \<longleftrightarrow> b"
  using assms by (auto simp: node_view_def fully_stable_def stable_calls_def)

lemma settled_whole_list:
  "handler_inv uc h \<Longrightarrow>
     settled uc h = fold (updateStableState uc) (executionList h) (initial_state uc)"
  unfolding settled_def
  by (simp add: inv_defs) (metis append_take_drop_id comp_apply fold_append)

section \<open>A run that settles\<close>

text \<open>Node 1 adds student 5; everybody acknowledges; the acknowledgements are in flight.\<close>

definition settling_schedule :: "system_event list" where
  "settling_schedule = [Sys_invoke 1 (group_call ''AddStudentForce'' 5 1 0), Sys_receive 1 2,
     Sys_receive 1 3, Sys_ack 2, Sys_ack 3]"

definition settling_group :: "ComplexState system" where
  "settling_group = the (course_run 3 settling_schedule (course_group 3))"

section \<open>An acknowledgement that overtakes its call\<close>

text \<open>Node 3 receives the acknowledgement of node 2 before the call of node 1.\<close>

definition overtaking_schedule :: "system_event list" where
  "overtaking_schedule = [Sys_invoke 1 (group_call ''AddStudentForce'' 5 1 0), Sys_receive 1 2, Sys_ack 2,
     Sys_receive 2 3, Sys_receive 1 3, Sys_ack 3, Sys_receive 3 2, Sys_receive 3 1,
     Sys_receive 2 1]"

definition overtaken_group :: "ComplexState system" where
  "overtaken_group = the (course_run 3 overtaking_schedule (course_group 3))"

section \<open>Two orders of the same calls\<close>

text \<open>Nodes 1 and 2 add a department each, at the same time.\<close>

definition crossing_schedule :: "system_event list" where
  "crossing_schedule = [Sys_invoke 1 (group_call ''AddDepartment'' 7 1 0),
     Sys_invoke 2 (group_call ''AddDepartment'' 8 2 0), Sys_receive 1 2, Sys_receive 2 1,
     Sys_receive 2 3, Sys_receive 1 3, Sys_ack 1, Sys_ack 2, Sys_ack 3, Sys_ack 3,
     Sys_receive 1 2, Sys_receive 1 3, Sys_receive 2 1, Sys_receive 2 3, Sys_receive 3 1,
     Sys_receive 3 1, Sys_receive 3 2, Sys_receive 3 2]"

definition crossed_group :: "ComplexState system" where
  "crossed_group = the (course_run 3 crossing_schedule (course_group 3))"

section \<open>A run that diverges\<close>

text \<open>
  Nodes 1 and 2 delete student 5, then node 1, where its own deletion is stable, adds it. Node 3 holds
  the addition back until both deletions are stable there; nodes 1 and 2 place it before the
  deletion of node 2.
\<close>

definition diverging_schedule :: "system_event list" where
  "diverging_schedule =
     [Sys_invoke 1 (group_call ''DeleteStudentCascade'' 5 1 0), Sys_receive 1 2, Sys_ack 2,
      Sys_invoke 2 (group_call ''DeleteStudentCascade'' 5 2 0), Sys_receive 2 3, Sys_receive 2 3,
      Sys_receive 1 3, Sys_ack 3, Sys_ack 3, Sys_receive 2 1, Sys_receive 3 1, Sys_receive 3 1,
      Sys_invoke 1 (group_call ''AddStudentForce'' 5 1 1), Sys_receive 2 1, Sys_receive 1 3, Sys_ack 1,
      Sys_receive 1 3, Sys_receive 3 2, Sys_receive 3 2, Sys_receive 1 2, Sys_receive 1 2,
      Sys_ack 2, Sys_ack 3, Sys_receive 2 1, Sys_receive 3 1, Sys_receive 3 2, Sys_receive 2 3]"

definition diverged_group :: "ComplexState system" where
  "diverged_group = the (course_run 3 diverging_schedule (course_group 3))"

section \<open>The groups the schedules reach\<close>

text \<open>One evaluation per schedule.\<close>

lemma course_group_run:
  assumes "map_option f (course_run n es (course_group n)) = Some x"
  shows "course_reachable n (the (course_run n es (course_group n)))"
    "f (the (course_run n es (course_group n))) = x"
  using assms schedule_reachable [of n es] by auto

lemma three_nodes: "(\<forall>i. is_node 3 i \<longrightarrow> P i) \<longleftrightarrow> P 1 \<and> P 2 \<and> P 3"
proof -
  have "is_node 3 i \<longleftrightarrow> i = 1 \<or> i = 2 \<or> i = 3" for i by (auto simp: is_node_def)
  then show ?thesis by auto
qed

lemma settling_run:
  "map_option (\<lambda>s. (all_executed_test 3 s, map (\<lambda>(j, i). links s j i = []) [(2, 1), (3, 2), (2, 3)]))
     (course_run 3 settling_schedule (course_group 3)) = Some (True, [False, False, False])"
  by code_simp

lemma settling_reachable: "course_reachable 3 settling_group"
  unfolding settling_group_def by (rule course_group_run(1) [OF settling_run])

lemma settling_executed: "all_executed 3 settling_group"
  using course_group_run(2) [OF settling_run] by (simp add: settling_group_def all_executed_iff)

lemma settling_inboxes: "\<forall>i. is_node 3 i \<longrightarrow> \<not> inbox_empty 3 settling_group i"
proof -
  have full: "\<not> inbox_empty 3 s i" if "links s j i \<noteq> []" "is_node 3 j" "j \<noteq> i"
    for s :: "ComplexState system" and i j
    using that by (auto simp: inbox_empty_def)
  have "links settling_group 2 1 \<noteq> []" "links settling_group 3 2 \<noteq> []"
    "links settling_group 2 3 \<noteq> []"
    using course_group_run(2) [OF settling_run] by (simp_all add: settling_group_def)
  from full [OF this(1)] full [OF this(2)] full [OF this(3)] show ?thesis
    unfolding three_nodes by (simp add: is_node_def)
qed

lemma overtaking_run:
  "map_option (\<lambda>s. (quiet 3 s, acks (procs s 3) 1 0, map (node_view s) [1, 2, 3]))
     (course_run 3 overtaking_schedule (course_group 3)) = Some (True, 1,
       [([(1, 0)], 1, 0, True), ([(1, 0)], 1, 0, True), ([(1, 0)], 0, 0, False)])"
  by code_simp

lemma overtaken_reachable: "course_reachable 3 overtaken_group"
  unfolding overtaken_group_def by (rule course_group_run(1) [OF overtaking_run])

lemma overtaken_quiet: "quiet 3 overtaken_group"
  and overtaken_acks: "acks (procs overtaken_group 3) 1 0 = 1"
  and overtaken_views: "node_view overtaken_group 1 = ([(1, 0)], 1, 0, True)"
    "node_view overtaken_group 2 = ([(1, 0)], 1, 0, True)"
    "node_view overtaken_group 3 = ([(1, 0)], 0, 0, False)"
  using course_group_run(2) [OF overtaking_run] by (simp_all add: overtaken_group_def)

lemma crossing_run:
  "map_option (\<lambda>s. (quiet 3 s, map (\<lambda>i. (map (\<lambda>c. (ctype c, value1 c)) (executionList (procs s i)),
       length (priorityQueue (procs s i)))) [1, 2, 3]))
     (course_run 3 crossing_schedule (course_group 3)) = Some (True,
       [([(''AddDepartment'', 7), (''AddDepartment'', 8)], 0), ([(''AddDepartment'', 8), (''AddDepartment'', 7)], 0),
        ([(''AddDepartment'', 8), (''AddDepartment'', 7)], 0)])"
  by code_simp

lemma crossed_reachable: "course_reachable 3 crossed_group"
  unfolding crossed_group_def by (rule course_group_run(1) [OF crossing_run])

lemma crossed_quiet: "quiet 3 crossed_group"
  and crossed_queues: "priorityQueue (procs crossed_group 1) = []"
    "priorityQueue (procs crossed_group 2) = []" "priorityQueue (procs crossed_group 3) = []"
  and crossed_lists: "map (\<lambda>c. (ctype c, value1 c)) (executionList (procs crossed_group 1))
      = [(''AddDepartment'', 7), (''AddDepartment'', 8)]"
    "map (\<lambda>c. (ctype c, value1 c)) (executionList (procs crossed_group 2))
      = [(''AddDepartment'', 8), (''AddDepartment'', 7)]"
  using course_group_run(2) [OF crossing_run] by (simp_all add: crossed_group_def)

lemma departments_commute:
  "\<forall>c \<in> cs. ctype c = ''AddDepartment'' \<Longrightarrow> commuting_calls Complex_uc cs"
  by (auto simp: commuting_calls_def Complex_updateStableState_def insert_commute)

lemma departments_ordered:
  "\<forall>c \<in> set xs. ctype c = ''AddDepartment'' \<Longrightarrow> conflict_ordered Complex_uc xs"
  by (induction xs) (auto simp: conflict_ordered_Cons Complex_reachremote_def Let_def)

lemma diverging_run:
  "map_option (\<lambda>s. (quiet 3 s, map (node_view s) [1, 2, 3]))
     (course_run 3 diverging_schedule (course_group 3)) = Some (True,
       [([(1, 0), (1, 1), (2, 0)], 3, 0, False), ([(1, 0), (1, 1), (2, 0)], 3, 0, False),
        ([(2, 0), (1, 0), (1, 1)], 3, 0, True)])"
  by code_simp

lemma diverged_reachable: "course_reachable 3 diverged_group"
  unfolding diverged_group_def by (rule course_group_run(1) [OF diverging_run])

lemma diverged_quiet: "quiet 3 diverged_group"
  and diverged_views: "node_view diverged_group 1 = ([(1, 0), (1, 1), (2, 0)], 3, 0, False)"
    "node_view diverged_group 2 = ([(1, 0), (1, 1), (2, 0)], 3, 0, False)"
    "node_view diverged_group 3 = ([(2, 0), (1, 0), (1, 1)], 3, 0, True)"
  using course_group_run(2) [OF diverging_run] by (simp_all add: diverged_group_def)

lemmas overtaken_nodes = node_viewD [OF overtaken_views(1)] node_viewD [OF overtaken_views(2)]
  node_viewD [OF overtaken_views(3)]
lemmas diverged_nodes = node_viewD [OF diverged_views(1)] node_viewD [OF diverged_views(2)]
  node_viewD [OF diverged_views(3)]

end
