(* ===== verification/Byte_Examples.thy ===== *)
theory Byte_Examples
  imports Byte_Workloads Hamsou_Schedules
begin

text \<open>
  Concrete runs of three processes of the courseware database, the class whose validity
  check returns a result: one in which a call becomes stable everywhere, and one in which a
  process leaves its loop before it has sent its last acknowledgement.
\<close>

definition course_loads :: "int \<Rightarrow> call list" where
  "course_loads i =
     (if i = 1 then [demo_call ''AddCourseForce'' 3 9 1 1 1 1 (replicate 31 0)] else [])"

definition course_processes :: "ComplexState byte_group" where
  "course_processes = byte_start 3
     (\<lambda>i. main_start (setVars i 3 1 100 0 (Handler_new Complex_uc)) (course_loads i))"

lemma course_processes_reachable: "byte_reachable Complex_uc Complex_checkValidcall 3 course_processes"
  unfolding course_processes_def
  by (rule byte_reachable.start [where loads = course_loads and expected = "\<lambda>i. 1"])
    (auto simp: workload_ok_def updates_def course_loads_def load_ok_def demo_call_def
      Call_new_def int32_def acks_columns_def Complex_checkValidcall_def)

text \<open>The call of process 1 is broadcast and acknowledged, everything is received.\<close>

definition course_rounds :: "byte_event list" where
  "course_rounds = [Byte_main 1 True, Byte_receive 1 2, Byte_receive 1 3, Byte_main 2 False,
     Byte_main 3 False, Byte_receive 2 1, Byte_receive 2 3, Byte_receive 3 1, Byte_receive 3 2]"

definition course_end :: "ComplexState byte_group" where
  "course_end = the (run_bytes Complex_uc Complex_checkValidcall 3 course_rounds course_processes)"

definition process_view :: "'st byte_group \<Rightarrow> int \<Rightarrow> (int \<times> int) list \<times> nat" where
  "process_view b i =
     (map call_key (executionList (hdl (machines b i))), stable_index (hdl (machines b i)))"

lemma course_run:
  "map_option (\<lambda>b. (list_all (\<lambda>(j, i). wires b j i = []) [(1, 2), (1, 3), (2, 1), (2, 3), (3, 1), (3, 2)],
       map (process_view b) [1, 2, 3]))
     (run_bytes Complex_uc Complex_checkValidcall 3 course_rounds course_processes)
   = Some (True, [([(1, 1)], 1), ([(1, 1)], 1), ([(1, 1)], 1)])"
  by code_simp

lemma course_end_reachable: "byte_reachable Complex_uc Complex_checkValidcall 3 course_end"
proof -
  obtain b where b: "run_bytes Complex_uc Complex_checkValidcall 3 course_rounds course_processes = Some b"
    using course_run by auto
  then show ?thesis
    using run_bytes_reachable [OF b course_processes_reachable] by (simp add: course_end_def)
qed

lemma drained_three:
  assumes "list_all (\<lambda>(j, i). wires b j i = []) [(1, 2), (1, 3), (2, 1), (2, 3), (3, 1), (3, 2)]"
  shows "drained 3 b"
proof -
  have nodes: "is_node 3 i \<Longrightarrow> i = 1 \<or> i = 2 \<or> i = 3" for i by (auto simp: is_node_def)
  show ?thesis
    unfolding drained_def
  proof (intro allI impI)
    fix j i :: int
    assume "is_node 3 j" "is_node 3 i" "j \<noteq> i"
    with nodes [of j] nodes [of i] assms show "wires b j i = []" by auto
  qed
qed

lemma course_end_drained: "drained 3 course_end"
  using course_run by (intro drained_three) (auto simp: course_end_def)

lemma course_end_views: "process_view course_end 1 = ([(1, 1)], 1)"
  "process_view course_end 2 = ([(1, 1)], 1)" "process_view course_end 3 = ([(1, 1)], 1)"
  using course_run by (auto simp: course_end_def)

section \<open>A process that stops too early\<close>

text \<open>
  Process 3 receives the acknowledgement of process 2 before its own main loop has come
  round: the call is stable there, which was all its workload file announced.
\<close>

definition early_rounds :: "byte_event list" where
  "early_rounds = [Byte_main 1 True, Byte_receive 1 2, Byte_receive 1 3, Byte_main 2 False,
     Byte_receive 2 3, Byte_receive 2 1]"

definition early_end :: "ComplexState byte_group" where
  "early_end = the (run_bytes Complex_uc Complex_checkValidcall 3 early_rounds course_processes)"

lemma early_run:
  "map_option (\<lambda>b. (list_all (\<lambda>(j, i). wires b j i = []) [(1, 2), (1, 3), (2, 1), (2, 3), (3, 1), (3, 2)],
       map (\<lambda>i. (process_view b i, main_running (machines b i), resting (machines b i))) [1, 2, 3]))
     (run_bytes Complex_uc Complex_checkValidcall 3 early_rounds course_processes)
   = Some (True, [(([(1, 1)], 0), True, True), (([(1, 1)], 0), True, True),
       (([(1, 1)], 1), False, True)])"
  by code_simp

lemma early_end_reachable: "byte_reachable Complex_uc Complex_checkValidcall 3 early_end"
proof -
  obtain b where b: "run_bytes Complex_uc Complex_checkValidcall 3 early_rounds course_processes = Some b"
    using early_run by auto
  then show ?thesis
    using run_bytes_reachable [OF b course_processes_reachable] by (simp add: early_end_def)
qed

lemma early_end_halted: "halted 3 early_end"
proof -
  have "is_node 3 i \<Longrightarrow> i = 1 \<or> i = 2 \<or> i = 3" for i by (auto simp: is_node_def)
  moreover have "resting (machines early_end 1)" "resting (machines early_end 2)"
    "resting (machines early_end 3)" "drained 3 early_end"
    using early_run by (auto simp: early_end_def intro!: drained_three)
  ultimately show ?thesis unfolding halted_def by metis
qed

lemma early_end_views:
  "process_view early_end 1 = ([(1, 1)], 0)" "main_running (machines early_end 1)"
  "process_view early_end 2 = ([(1, 1)], 0)" "main_running (machines early_end 2)"
  "process_view early_end 3 = ([(1, 1)], 1)" "\<not> main_running (machines early_end 3)"
  using early_run by (auto simp: early_end_def)

lemma process_view_unflagged:
  assumes "unflagged (hdl (machines b' i)) = unflagged (hdl (machines b i))"
  shows "process_view b' i = process_view b i"
proof -
  obtain t v where "hdl (machines b' i) = flagged t v (hdl (machines b i))"
    using unflagged_eqE [OF assms [symmetric]] by blast
  then show ?thesis by (simp add: process_view_def)
qed

section \<open>Processes set up from files\<close>

definition course_file :: "int \<Rightarrow> string" where
  "course_file i =
     (if i = 1 then ''#1'' @ [char_of (10::nat)] @ ''8 9 9 1 1'' @ [char_of (10::nat)]
      else ''#0'' @ [char_of (10::nat)])"

definition course_machines :: "int \<Rightarrow> ComplexState main_state" where
  "course_machines i =
     projr (main_setup Complex_uc Complex_readBenchFile i 3 100 (Some (course_file i)))"

lemma course_files_read:
  "map (\<lambda>i. case Complex_readBenchFile (Some (course_file i)) 0 i Call_default [] of
       Inl e \<Rightarrow> None | Inr (k, cs) \<Rightarrow> Some (k, map ctype cs, length (file_lines (course_file i))))
     [1, 2, 3]
   = [Some (1, [''AddCourseForce''], 2), Some (0, [], 1), Some (0, [], 1)]"
  by code_simp

lemma course_machines_setup:
  assumes "is_node 3 i"
  shows "main_setup Complex_uc Complex_readBenchFile i 3 100 (Some (course_file i)) = Inr (course_machines i) \<and>
    length (file_lines (course_file i)) \<le> 350000 \<and>
    (\<forall>c \<in> set (bench_calls_var (course_machines i)). ctype c \<noteq> ''Invalid'')"
proof -
  have "i = 1 \<or> i = 2 \<or> i = 3" using assms by (auto simp: is_node_def)
  then obtain k cs where "Complex_readBenchFile (Some (course_file i)) 0 i Call_default [] = Inr (k, cs)"
    "map ctype cs = [''AddCourseForce''] \<or> cs = []" "length (file_lines (course_file i)) \<le> 2"
    using course_files_read by (fastforce split: sum.splits prod.splits)
  then show ?thesis
    by (auto simp: course_machines_def main_setup_def main_start_def map_eq_Cons_conv)
qed

end
