(* ===== verification/Ecros_Handler.thy ===== *)
theory Ecros_Handler
  imports Vector_Clock "HOL-Library.Signed_Division"
begin

text \<open>
  The baseline protocol of \<^verbatim>\<open>protocol-ecros.cpp\<close> (an implementation of ECRO): every node
  keeps its unstable calls in a graph whose edges say which call goes first, and replays a
  topological order of it after every remote call. Calls are heap objects here, named by
  addresses (natural numbers, 0 is the null pointer); reading a freed object or indexing a
  clock out of range is \<open>None\<close>. The address \<open>operator new\<close> returns and the order in which
  an \<open>unordered_set\<close> is traversed are arguments.
\<close>

section \<open>The use-case object\<close>

text \<open>
  The functions and methods of a use-case file \<^verbatim>\<open>ecros-*.hpp\<close> the handler calls. The state
  includes the set \<open>applied\<close>. \<open>resolution\<close> and \<open>idcmp\<close> return a \<open>char\<close>, given by its code.
\<close>

record 'st ecros_uc =
  ecros_initial :: 'st
  seqCommutative :: "call \<Rightarrow> call \<Rightarrow> bool"
  commutative :: "call \<Rightarrow> call \<Rightarrow> bool"
  resolution :: "call \<Rightarrow> call \<Rightarrow> int"
  idcmp :: "call \<Rightarrow> call \<Rightarrow> int"
  shouldSkip :: "call \<Rightarrow> 'st \<Rightarrow> bool"
  applyCall :: "call \<Rightarrow> 'st \<Rightarrow> 'st"
  recomputeObj :: "call list \<Rightarrow> 'st \<Rightarrow> 'st"

text \<open>
  The character codes of \<open>'<'\<close>, \<open>'>'\<close> and \<open>'T'\<close>, and of the three-byte literal the use cases
  write for top, of which the conversion to \<open>char\<close> keeps the last byte.
\<close>

definition res_before :: int where "res_before = 60"
definition res_after :: int where "res_after = 62"
definition res_T :: int where "res_T = 84"
definition res_top :: int where "res_top = 0xA4 - 0x100"

text \<open>The tie-break every use-case file repeats: node number, then call number.\<close>

definition idcmp_calls :: "call \<Rightarrow> call \<Rightarrow> int" where
  "idcmp_calls a b =
     (if node_id a < node_id b then res_before
      else if node_id b < node_id a then res_after
      else if call_id a < call_id b then res_before
      else if call_id b < call_id a then res_after
      else res_top)"

section \<open>State\<close>

record edge =
  efrom :: nat
  eto :: nat
  etype :: string

record 'st ecros =
  e_node_id :: int
  e_number_of_nodes :: nat
  e_expected_calls :: int
  e_write_percentage :: int
  e_last_call_stable :: bool
  e_vc :: "int list"
  e_seen :: "int list"
  e_heap :: "nat \<rightharpoonup> call"
  e_calls :: "nat list"
  e_edges :: "edge list"
  e_topoOrder :: "nat list"
  e_ackCounts :: "int \<times> int \<Rightarrow> int"
  e_stableCalls :: "nat list"
  e_obj :: 'st
  e_waittobestable :: int
  e_send_ack :: bool
  e_send_ack_call :: call
  e_send_ack_call_list :: "call list"
  e_ackindex :: int

definition Ecros_new :: "'st ecros_uc \<Rightarrow> 'st ecros" where
  "Ecros_new uc = \<lparr>e_node_id = 0, e_number_of_nodes = 0, e_expected_calls = 0,
     e_write_percentage = 0, e_last_call_stable = False, e_vc = [], e_seen = [],
     e_heap = Map.empty, e_calls = [], e_edges = [], e_topoOrder = [],
     e_ackCounts = (\<lambda>_. 0), e_stableCalls = [], e_obj = ecros_initial uc,
     e_waittobestable = 0, e_send_ack = False, e_send_ack_call = Call_default,
     e_send_ack_call_list = [], e_ackindex = 0\<rparr>"

text \<open>\<open>ecros_initial\<close> is the object after its own \<open>setVars\<close>, which the handler's calls.\<close>

definition ecros_setVars :: "int \<Rightarrow> nat \<Rightarrow> int \<Rightarrow> int \<Rightarrow> 'st ecros \<Rightarrow> 'st ecros" where
  "ecros_setVars me n expected wp h =
     h\<lparr>e_write_percentage := wp, e_last_call_stable := False, e_expected_calls := expected,
       e_node_id := me, e_number_of_nodes := n, e_vc := replicate n 0,
       e_seen := vresize n 0 (e_seen h)\<rparr>"

section \<open>Local calls\<close>

text \<open>The loop over the in-flight calls, with the edges it pushes.\<close>

fun local_edges ::
  "'st ecros_uc \<Rightarrow> nat \<Rightarrow> (nat \<rightharpoonup> call) \<Rightarrow> nat \<Rightarrow> nat list \<Rightarrow> edge list option" where
  "local_edges uc n heap p [] = Some []"
| "local_edges uc n heap p (v # vs) =
     (if v = p then local_edges uc n heap p vs
      else do {
        cv \<leftarrow> heap v;
        cp \<leftarrow> heap p;
        before \<leftarrow> happenedBefore n cv cp;
        after \<leftarrow> happenedBefore n cp cv;
        rest \<leftarrow> local_edges uc n heap p vs;
        Some ((if before \<and> \<not> seqCommutative uc cv cp
               then [\<lparr>efrom = v, eto = p, etype = ''hb''\<rparr>] else [])
            @ (if after \<and> \<not> seqCommutative uc cp cv
               then [\<lparr>efrom = p, eto = v, etype = ''hb''\<rparr>] else [])
            @ rest) })"

text \<open>
  \<open>exeLocal\<close>: returns the handler and the call (passed by reference). \<open>p\<close> is the address of the
  new object, \<open>iter\<close> the traversal of \<open>calls\<close>. The clock is indexed with the 1-based node
  number, without subtracting 1.
\<close>

definition exeLocal ::
  "'st ecros_uc \<Rightarrow> (nat list \<Rightarrow> nat list) \<Rightarrow> nat \<Rightarrow> call \<Rightarrow> 'st ecros \<Rightarrow>
     ('st ecros \<times> call) option" where
  "exeLocal uc iter p c h =
     (if shouldSkip uc c (e_obj h) then Some (h, c)
      else do {
        vc \<leftarrow> vincr (e_vc h) (e_node_id h);
        let c1 = c\<lparr>call_vector_clock := vc, node_id := e_node_id h\<rparr>;
        let heap = (e_heap h)(p \<mapsto> c1);
        let cs = p # e_calls h;
        es \<leftarrow> local_edges uc (e_number_of_nodes h) heap p (iter cs);
        Some (h\<lparr>e_vc := vc, e_heap := heap, e_calls := cs, e_edges := e_edges h @ es,
                e_obj := applyCall uc c1 (e_obj h)\<rparr>, c1) })"

section \<open>Acknowledgements\<close>

definition commitStableCalls :: "'st ecros \<Rightarrow> 'st ecros" where
  "commitStableCalls h =
     h\<lparr>e_calls := filter (\<lambda>p. p \<notin> set (e_stableCalls h)) (e_calls h),
       e_edges := filter (\<lambda>e. efrom e \<notin> set (e_stableCalls h) \<and> eto e \<notin> set (e_stableCalls h))
                    (e_edges h),
       e_heap := (\<lambda>p. if p \<in> set (e_stableCalls h) then None else e_heap h p),
       e_stableCalls := []\<rparr>"

text \<open>The search for the acknowledged call among the in-flight ones.\<close>

fun find_acked :: "(nat \<rightharpoonup> call) \<Rightarrow> call \<Rightarrow> nat list \<Rightarrow> (nat \<times> call) option option" where
  "find_acked heap ack [] = Some None"
| "find_acked heap ack (p # ps) = do {
     c \<leftarrow> heap p;
     (if node_id c = node_id ack \<and> call_id c = call_id ack \<and> \<not> stable c
      then Some (Some (p, c)) else find_acked heap ack ps) }"

definition handleAckAndMaybeStabilize ::
  "(nat list \<Rightarrow> nat list) \<Rightarrow> call \<Rightarrow> 'st ecros \<Rightarrow> 'st ecros option" where
  "handleAckAndMaybeStabilize iter ack h =
     (let key = (node_id ack, call_id ack);
          h1 = h\<lparr>e_ackCounts := (e_ackCounts h)(key := e_ackCounts h key + 1)\<rparr>;
          required = (if node_id ack = e_node_id h then int (e_number_of_nodes h) - 1
                      else int (e_number_of_nodes h) - 2)
      in if required \<le> e_ackCounts h1 key
         then do {
           found \<leftarrow> find_acked (e_heap h1) ack (iter (e_calls h1));
           (case found of
              None \<Rightarrow> Some h1
            | Some (p, c) \<Rightarrow>
                (if node_id c = e_node_id h \<and> e_number_of_nodes h = 0 then None
                 else
                   let h2 = h1\<lparr>
                         e_heap := (e_heap h1)(p \<mapsto> c\<lparr>stable := True\<rparr>),
                         e_last_call_stable :=
                           (if node_id c = e_node_id h \<and>
                               call_id c
                                 = e_expected_calls h sdiv int (e_number_of_nodes h) - 1
                            then True else e_last_call_stable h1),
                         e_stableCalls := p # e_stableCalls h1\<rparr>;
                       h3 = commitStableCalls h2
                   in Some (h3\<lparr>e_waittobestable := e_waittobestable h3 + 1\<rparr>))) }
         else Some h1)"

section \<open>Cycles\<close>

text \<open>
  The walk along \<open>parent\<close> from \<open>p\<close> to \<open>neighbor\<close>, collecting edges; \<open>fuel\<close> bounds it.
\<close>

fun parent_walk ::
  "nat \<Rightarrow> (nat \<rightharpoonup> nat) \<Rightarrow> (nat \<rightharpoonup> string) \<Rightarrow> nat \<Rightarrow> nat \<Rightarrow> edge list \<Rightarrow> edge list option" where
  "parent_walk 0 parent inc p neighbor cyc = None"
| "parent_walk (Suc fuel) parent inc p neighbor cyc =
     (if p \<noteq> neighbor \<and> parent p \<noteq> None
      then parent_walk fuel parent inc (the (parent p)) neighbor
             (cyc @ [\<lparr>efrom = the (parent p), eto = p,
                     etype = (case inc p of Some t \<Rightarrow> t | None \<Rightarrow> [])\<rparr>])
      else Some cyc)"

text \<open>
  Breaking a cycle: its first \<open>ao\<close> edge is removed; without one, its first edge is moved to
  the end of the edge list as a \<open>co\<close> edge.
\<close>

definition break_cycle :: "edge list \<Rightarrow> edge list \<Rightarrow> edge list" where
  "break_cycle cyc es =
     (case find (\<lambda>e. etype e = ''ao'') cyc of
        Some ao \<Rightarrow> filter (\<lambda>e. e \<noteq> ao) es
      | None \<Rightarrow>
          (case cyc of
             [] \<Rightarrow> es
           | front # _ \<Rightarrow>
               if front \<in> set es
               then remove1 front es @ [front\<lparr>etype := ''co''\<rparr>]
               else es))"

text \<open>
  The scan of all edges for those that leave \<open>cur\<close>: either it closes a cycle and returns the
  new edge list (\<open>Inl\<close>), or it pushes the new neighbours (\<open>Inr\<close>). Testing \<open>parent[cur]\<close>
  creates a null entry when there is none.
\<close>

fun scan_edges ::
  "edge list \<Rightarrow> nat list \<Rightarrow> nat \<Rightarrow> edge list \<Rightarrow> (nat \<rightharpoonup> nat) \<Rightarrow> (nat \<rightharpoonup> string) \<Rightarrow> nat list \<Rightarrow>
     (edge list + (nat \<rightharpoonup> nat) \<times> (nat \<rightharpoonup> string) \<times> nat list) option" where
  "scan_edges all visited cur [] parent inc stk = Some (Inr (parent, inc, stk))"
| "scan_edges all visited cur (e # es) parent inc stk =
     (if efrom e = cur
      then let neighbor = eto e in
        if neighbor \<notin> set visited
        then scan_edges all visited cur es (parent(neighbor \<mapsto> cur)) (inc(neighbor \<mapsto> etype e))
               (neighbor # stk)
        else let parent' = (if parent cur = None then parent(cur \<mapsto> 0) else parent) in
          if parent' cur \<noteq> Some neighbor
          then do {
            cyc \<leftarrow> parent_walk (Suc (Suc (length visited))) parent' inc cur neighbor [];
            Some (Inl (break_cycle (cyc @ [\<lparr>efrom = cur, eto = neighbor, etype = etype e\<rparr>]) all)) }
          else scan_edges all visited cur es parent' inc stk
      else scan_edges all visited cur es parent inc stk)"

lemma scan_edges_stack:
  "scan_edges all visited cur es parent inc stk = Some (Inr (parent', inc', stk')) \<Longrightarrow>
     set stk' \<subseteq> set stk \<union> (eto ` set es - set visited)"
proof (induction es arbitrary: parent inc stk)
  case Nil
  then show ?case by simp
next
  case (Cons e es)
  show ?case
  proof (cases "efrom e = cur \<and> eto e \<notin> set visited")
    case True
    then have "scan_edges all visited cur es (parent(eto e \<mapsto> cur)) (inc(eto e \<mapsto> etype e))
        (eto e # stk) = Some (Inr (parent', inc', stk'))"
      using Cons.prems by (simp add: Let_def)
    from Cons.IH [OF this] True show ?thesis by auto
  next
    case False
    then obtain parent2 where
      "scan_edges all visited cur es parent2 inc stk = Some (Inr (parent', inc', stk'))"
      using Cons.prems by (auto simp: Let_def Option.bind_eq_Some_conv split: if_splits)
    from Cons.IH [OF this] show ?thesis by auto
  qed
qed

text \<open>The depth-first search; the stack has its top at the head.\<close>

function cycle_dfs ::
  "edge list \<Rightarrow> nat list \<Rightarrow> (nat \<rightharpoonup> nat) \<Rightarrow> (nat \<rightharpoonup> string) \<Rightarrow> nat list \<Rightarrow> edge list option" where
  "cycle_dfs es visited parent inc stk =
     (case stk of
        [] \<Rightarrow> Some es
      | cur # rest \<Rightarrow>
          (if cur \<in> set visited then cycle_dfs es visited parent inc rest
           else
             (case scan_edges es (cur # visited) cur es parent inc rest of
                None \<Rightarrow> None
              | Some (Inl es') \<Rightarrow> Some es'
              | Some (Inr (parent', inc', stk')) \<Rightarrow>
                  cycle_dfs es (cur # visited) parent' inc' stk')))"
  by pat_completeness auto
termination
proof (relation "measures [\<lambda>(es, visited, parent, inc, stk).
    card ((eto ` set es \<union> set stk) - set visited), \<lambda>(es, visited, parent, inc, stk). length stk]",
    goal_cases)
  case 1
  show ?case by simp
next
  case (2 es visited parent inc stk cur rest)
  then have "card ((eto ` set es \<union> set rest) - set visited)
      \<le> card ((eto ` set es \<union> set stk) - set visited)"
    by (intro card_mono) auto
  with 2 show ?case by auto
next
  case (3 es visited parent inc stk cur rest r s parent' y inc' stk')
  then have "set stk' \<subseteq> set rest \<union> (eto ` set es - set (cur # visited))"
    by (metis scan_edges_stack)
  with 3 have "(eto ` set es \<union> set stk') - set (cur # visited)
      \<subset> (eto ` set es \<union> set stk) - set visited"
    by auto
  then have "card ((eto ` set es \<union> set stk') - set (cur # visited))
      < card ((eto ` set es \<union> set stk) - set visited)"
    by (intro psubset_card_mono) simp_all
  then show ?case by simp
qed

declare cycle_dfs.simps [simp del]

definition detectAndResolveCycles :: "nat \<Rightarrow> 'st ecros \<Rightarrow> 'st ecros option" where
  "detectAndResolveCycles start h = do {
     es \<leftarrow> cycle_dfs (e_edges h) [] Map.empty Map.empty [start];
     Some (h\<lparr>e_edges := es\<rparr>) }"

section \<open>Topological sort\<close>

definition indegrees :: "edge list \<Rightarrow> nat \<Rightarrow> int" where
  "indegrees es v = int (length (filter (\<lambda>e. eto e = v) es))"

text \<open>The edges of \<open>u\<close> are released; a call with none left is pushed.\<close>

fun release_edges ::
  "nat \<Rightarrow> edge list \<Rightarrow> (nat \<Rightarrow> int) \<Rightarrow> nat list \<Rightarrow> (nat \<Rightarrow> int) \<times> nat list" where
  "release_edges u [] indeg q = (indeg, q)"
| "release_edges u (e # es) indeg q =
     (if efrom e = u
      then let indeg' = indeg(eto e := indeg (eto e) - 1)
           in release_edges u es indeg' (if indeg' (eto e) = 0 then eto e # q else q)
      else release_edges u es indeg q)"

definition pending_total :: "edge list \<Rightarrow> (nat \<Rightarrow> int) \<Rightarrow> nat" where
  "pending_total es indeg = (\<Sum>v \<in> eto ` set es. nat (indeg v))"

lemma release_edges_total:
  "set es \<subseteq> set all \<Longrightarrow> release_edges u es indeg q = (indeg', q') \<Longrightarrow>
     pending_total all indeg' + length q' \<le> pending_total all indeg + length q"
proof (induction es arbitrary: indeg q)
  case Nil
  then show ?case by simp
next
  case (Cons e es)
  show ?case
  proof (cases "efrom e = u")
    case False
    then show ?thesis using Cons by simp
  next
    case True
    let ?d = "indeg(eto e := indeg (eto e) - 1)"
    let ?q = "if ?d (eto e) = 0 then eto e # q else q"
    have mem: "eto e \<in> eto ` set all" using Cons.prems(1) by auto
    have "pending_total all ?d + length ?q \<le> pending_total all indeg + length q"
    proof -
      let ?V = "eto ` set all"
      have rest: "(\<Sum>v \<in> ?V - {eto e}. nat (?d v)) = (\<Sum>v \<in> ?V - {eto e}. nat (indeg v))"
        by (intro sum.cong) auto
      have "pending_total all ?d = nat (indeg (eto e) - 1) + (\<Sum>v \<in> ?V - {eto e}. nat (?d v))"
        using sum.remove [of ?V "eto e" "\<lambda>v. nat (?d v)"] mem by (simp add: pending_total_def)
      moreover have "pending_total all indeg
          = nat (indeg (eto e)) + (\<Sum>v \<in> ?V - {eto e}. nat (indeg v))"
        using sum.remove [of ?V "eto e" "\<lambda>v. nat (indeg v)"] mem by (simp add: pending_total_def)
      ultimately show ?thesis using rest by auto
    qed
    moreover have "pending_total all indeg' + length q' \<le> pending_total all ?d + length ?q"
    proof (rule Cons.IH)
      show "set es \<subseteq> set all" using Cons.prems(1) by simp
      show "release_edges u es ?d ?q = (indeg', q')"
        using Cons.prems(2) True by (simp only: release_edges.simps Let_def if_True refl)
    qed
    ultimately show ?thesis by linarith
  qed
qed

text \<open>The loop of Kahn's algorithm: the queue is used from its back, the head here.\<close>

function kahn :: "edge list \<Rightarrow> (nat \<Rightarrow> int) \<Rightarrow> nat list \<Rightarrow> nat list \<Rightarrow> nat list" where
  "kahn es indeg q order =
     (case q of
        [] \<Rightarrow> order
      | u # q1 \<Rightarrow>
          (case release_edges u es indeg q1 of
             (indeg', q2) \<Rightarrow> kahn es indeg' q2 (order @ [u])))"
  by pat_completeness auto
termination
proof (relation "measure (\<lambda>(es, indeg, q, order). pending_total es indeg + length q)", goal_cases)
  case 1
  show ?case by simp
next
  case (2 es indeg q order u q1 indeg' q2)
  then show ?case using release_edges_total [of es es u indeg q1 indeg' q2] by simp
qed

declare kahn.simps [simp del]

text \<open>The keys of the map \<open>indeg\<close>, in address order: the calls and the targets of edges.\<close>

definition topo_keys :: "nat list \<Rightarrow> edge list \<Rightarrow> nat list" where
  "topo_keys cs es = sort (remdups (cs @ map eto es))"

definition topo_sort :: "nat list \<Rightarrow> edge list \<Rightarrow> nat list" where
  "topo_sort cs es =
     kahn es (indegrees es) (rev (filter (\<lambda>v. indegrees es v = 0) (topo_keys cs es))) []"

definition fullTopoSort :: "'st ecros \<Rightarrow> 'st ecros" where
  "fullTopoSort h = h\<lparr>e_topoOrder := topo_sort (e_calls h) (e_edges h)\<rparr>"

section \<open>Remote calls\<close>

fun deref :: "(nat \<rightharpoonup> call) \<Rightarrow> nat list \<Rightarrow> call list option" where
  "deref heap [] = Some []"
| "deref heap (p # ps) = do { c \<leftarrow> heap p; cs \<leftarrow> deref heap ps; Some (c # cs) }"

definition recomputeState :: "'st ecros_uc \<Rightarrow> 'st ecros \<Rightarrow> 'st ecros option" where
  "recomputeState uc h = do {
     cs \<leftarrow> deref (e_heap h) (e_topoOrder h);
     Some (h\<lparr>e_obj := recomputeObj uc cs (e_obj h)\<rparr>) }"

text \<open>\<open>vc[i] = max(vc[i], call.vc[i])\<close> for the first \<open>n\<close> entries.\<close>

fun merge_clock :: "nat \<Rightarrow> int list \<Rightarrow> int list \<Rightarrow> int list option" where
  "merge_clock 0 v w = Some v"
| "merge_clock (Suc n) (a # v) (b # w) = map_option (\<lambda>r. max a b # r) (merge_clock n v w)"
| "merge_clock (Suc n) v w = None"

text \<open>The edge between the new call (at \<open>p\<close>) and another unstable one (at \<open>v\<close>), if any.\<close>

definition remote_edge ::
  "'st ecros_uc \<Rightarrow> nat \<Rightarrow> nat \<Rightarrow> call \<Rightarrow> nat \<Rightarrow> call \<Rightarrow> edge list option" where
  "remote_edge uc n p cp v cv = do {
     before \<leftarrow> happenedBefore n cv cp;
     (if before \<and> \<not> seqCommutative uc cv cp
      then Some [\<lparr>efrom = v, eto = p, etype = ''hb''\<rparr>]
      else do {
        after \<leftarrow> happenedBefore n cp cv;
        (if after \<and> \<not> seqCommutative uc cp cv
         then Some [\<lparr>efrom = p, eto = v, etype = ''hb''\<rparr>]
         else do {
           conc \<leftarrow> concurrent n cv cp;
           Some (if conc
              then if resolution uc cp cv = res_before
                then [\<lparr>efrom = p, eto = v, etype = ''co''\<rparr>]
                else if resolution uc cp cv = res_after
                then [\<lparr>efrom = v, eto = p, etype = ''co''\<rparr>]
                else if resolution uc cv cp = res_T \<and> \<not> commutative uc cv cp
                then if idcmp uc cp cv = res_before
                  then [\<lparr>efrom = p, eto = v, etype = ''ao''\<rparr>]
                  else [\<lparr>efrom = v, eto = p, etype = ''ao''\<rparr>]
                else []
              else []) }) }) }"

fun remote_edges ::
  "'st ecros_uc \<Rightarrow> nat \<Rightarrow> (nat \<rightharpoonup> call) \<Rightarrow> nat \<Rightarrow> nat list \<Rightarrow> edge list option" where
  "remote_edges uc n heap p [] = Some []"
| "remote_edges uc n heap p (v # vs) =
     (if v = p then remote_edges uc n heap p vs
      else do {
        cv \<leftarrow> heap v;
        cp \<leftarrow> heap p;
        new \<leftarrow> (if stable cv then Some [] else remote_edge uc n p cp v cv);
        rest \<leftarrow> remote_edges uc n heap p vs;
        Some (new @ rest) })"

definition ecros_queue_ack :: "call \<Rightarrow> 'st ecros \<Rightarrow> 'st ecros" where
  "ecros_queue_ack c h =
     (let a = (e_send_ack_call h)\<lparr>ctype := ''Ack'', node_id := node_id c, call_id := call_id c,
                                  value1 := value1 c, call_vector_clock := e_seen h\<rparr>
      in h\<lparr>e_send_ack := True, e_send_ack_call := a,
           e_send_ack_call_list := e_send_ack_call_list h @ [a],
           e_ackindex := e_ackindex h + 1\<rparr>)"

definition exeRemote ::
  "'st ecros_uc \<Rightarrow> (nat list \<Rightarrow> nat list) \<Rightarrow> nat \<Rightarrow> call \<Rightarrow> 'st ecros \<Rightarrow> 'st ecros option" where
  "exeRemote uc iter p c h =
     (if ctype c = ''Ack'' then handleAckAndMaybeStabilize iter c h
      else do {
        vc \<leftarrow> merge_clock (e_number_of_nodes h) (e_vc h) (call_vector_clock c);
        let heap = (e_heap h)(p \<mapsto> c);
        let cs = p # e_calls h;
        es \<leftarrow> remote_edges uc (e_number_of_nodes h) heap p (iter cs);
        h1 \<leftarrow> detectAndResolveCycles p
          (h\<lparr>e_vc := vc, e_heap := heap, e_calls := cs, e_edges := e_edges h @ es\<rparr>);
        h2 \<leftarrow> recomputeState uc (fullTopoSort h1);
        Some (ecros_queue_ack c h2) })"

end
