(* ===== verification/Ecros_Graph.thy ===== *)
theory Ecros_Graph
  imports Ecros_Handler
begin

text \<open>
  The graph algorithms of the ECRO handler: Kahn's sort returns each call once and after
  all its predecessors, and leaves out exactly the calls on a cycle or behind one; the search
  for a cycle always ends with an edge list over the same calls.
\<close>

section \<open>Releasing the edges of a call\<close>

definition edges_between :: "edge list \<Rightarrow> nat \<Rightarrow> nat \<Rightarrow> int" where
  "edges_between es u v = int (length (filter (\<lambda>e. efrom e = u \<and> eto e = v) es))"

lemma edges_between_nonneg [simp]: "0 \<le> edges_between es u v"
  by (simp add: edges_between_def)

lemma edges_between_Cons:
  "edges_between (e # es) u v = (if efrom e = u \<and> eto e = v then 1 else 0) + edges_between es u v"
  by (simp add: edges_between_def)

lemma edges_between_Nil [simp]: "edges_between [] u v = 0"
  by (simp add: edges_between_def)

lemma edges_between_pos_iff:
  "0 < edges_between es u v \<longleftrightarrow> (\<exists>e \<in> set es. efrom e = u \<and> eto e = v)"
proof -
  have "0 < edges_between es u v \<longleftrightarrow> filter (\<lambda>e. efrom e = u \<and> eto e = v) es \<noteq> []"
    by (simp add: edges_between_def)
  then show ?thesis by (auto simp: filter_empty_conv)
qed

text \<open>
  When every in-degree still counts the edges to be released, each target is decremented by
  its edges and pushed once, exactly if that brings it to zero.
\<close>

lemma release_edges_spec:
  assumes "\<And>v. edges_between es u v \<le> d v" and "release_edges u es d q = (d', q')"
  shows "(\<forall>v. d' v = d v - edges_between es u v) \<and>
     (\<exists>new. q' = new @ q \<and> distinct new \<and>
        set new = {v. 0 < edges_between es u v \<and> d v = edges_between es u v})"
  using assms
proof (induction es arbitrary: d q)
  case Nil
  then show ?case by simp
next
  case (Cons e es)
  show ?case
  proof (cases "efrom e = u")
    case False
    then show ?thesis using Cons by (simp add: edges_between_Cons)
  next
    case True
    let ?v = "eto e"
    let ?d = "d(?v := d ?v - 1)"
    let ?q = "if ?d ?v = 0 then ?v # q else q"
    have run: "release_edges u es ?d ?q = (d', q')"
      using Cons.prems(2) True by (simp only: release_edges.simps Let_def if_True refl)
    have le: "edges_between es u w \<le> ?d w" for w
      using Cons.prems(1) [of w] True by (simp add: edges_between_Cons split: if_splits)
    from Cons.IH [OF le run] obtain new where
      new: "\<forall>w. d' w = ?d w - edges_between es u w" "q' = new @ ?q" "distinct new"
      "set new = {w. 0 < edges_between es u w \<and> ?d w = edges_between es u w}" by blast
    have d': "\<forall>w. d' w = d w - edges_between (e # es) u w"
      using new(1) True by (simp add: edges_between_Cons)
    show ?thesis
    proof (cases "?d ?v = 0")
      case z: True
      then have "edges_between es u ?v = 0"
        using le [of ?v] edges_between_nonneg [of es u ?v] by linarith
      then have "?v \<notin> set new" using new(4) by simp
      moreover have "insert ?v (set new)
          = {w. 0 < edges_between (e # es) u w \<and> d w = edges_between (e # es) u w}"
      proof (rule set_eqI)
        fix w
        show "w \<in> insert ?v (set new) \<longleftrightarrow>
            w \<in> {w. 0 < edges_between (e # es) u w \<and> d w = edges_between (e # es) u w}"
          using new(4) z True \<open>edges_between es u ?v = 0\<close>
          by (cases "w = ?v") (simp_all add: edges_between_Cons)
      qed
      ultimately show ?thesis
        using d' new(2,3) z by (intro conjI exI [of _ "new @ [?v]"]) auto
    next
      case nz: False
      have "set new = {w. 0 < edges_between (e # es) u w \<and> d w = edges_between (e # es) u w}"
      proof (rule set_eqI)
        fix w
        show "w \<in> set new \<longleftrightarrow>
            w \<in> {w. 0 < edges_between (e # es) u w \<and> d w = edges_between (e # es) u w}"
          using new(4) nz True edges_between_nonneg [of es u ?v]
          by (cases "w = ?v") (auto simp: edges_between_Cons)
      qed
      then show ?thesis using d' new(2,3) nz by auto
    qed
  qed
qed

section \<open>Topological order\<close>

text \<open>Every call stands after the origins of all its edges.\<close>

definition edges_respected :: "edge list \<Rightarrow> nat list \<Rightarrow> bool" where
  "edges_respected es order \<longleftrightarrow>
     (\<forall>i < length order. \<forall>e \<in> set es. eto e = order ! i \<longrightarrow> efrom e \<in> set (take i order))"

text \<open>The edges to \<open>v\<close> whose origin has not been placed.\<close>

definition unplaced :: "edge list \<Rightarrow> nat list \<Rightarrow> nat \<Rightarrow> int" where
  "unplaced es order v = int (length (filter (\<lambda>e. eto e = v \<and> efrom e \<notin> set order) es))"

lemma unplaced_zero_iff:
  "unplaced es order v = 0 \<longleftrightarrow> (\<forall>e \<in> set es. eto e = v \<longrightarrow> efrom e \<in> set order)"
  by (auto simp: unplaced_def filter_empty_conv)

lemma unplaced_nonneg [simp]: "0 \<le> unplaced es order v"
  by (simp add: unplaced_def)

lemma unplaced_snoc:
  "u \<notin> set order \<Longrightarrow> unplaced es (order @ [u]) v = unplaced es order v - edges_between es u v"
  by (induction es) (auto simp: unplaced_def edges_between_def)

lemma edges_between_le: "u \<notin> set order \<Longrightarrow> edges_between es u v \<le> unplaced es order v"
  using unplaced_snoc [of u order es v] unplaced_nonneg [of es "order @ [u]" v] by linarith

definition kahn_inv :: "nat set \<Rightarrow> edge list \<Rightarrow> (nat \<Rightarrow> int) \<Rightarrow> nat list \<Rightarrow> nat list \<Rightarrow> bool" where
  "kahn_inv keys es d q order \<longleftrightarrow>
     d = unplaced es order \<and> distinct (order @ q) \<and> edges_respected es order \<and>
     (\<forall>v \<in> set q. d v = 0) \<and> set (order @ q) \<subseteq> keys \<and>
     (\<forall>v \<in> keys. d v = 0 \<longrightarrow> v \<in> set (order @ q))"

lemma edges_respected_snoc:
  assumes "edges_respected es order" and "unplaced es order u = 0"
  shows "edges_respected es (order @ [u])"
  unfolding edges_respected_def
proof (intro allI impI ballI)
  fix i e
  assume i: "i < length (order @ [u])" and e: "e \<in> set es" "eto e = (order @ [u]) ! i"
  show "efrom e \<in> set (take i (order @ [u]))"
  proof (cases "i < length order")
    case True
    then show ?thesis using assms(1) e by (auto simp: edges_respected_def nth_append)
  next
    case False
    then have "i = length order" using i by simp
    then show ?thesis using assms(2) e by (simp add: unplaced_zero_iff)
  qed
qed

lemma kahn_inv_step:
  assumes inv: "kahn_inv keys es d (u # q) order" and run: "release_edges u es d q = (d', q')"
    and keys: "eto ` set es \<subseteq> keys"
  shows "kahn_inv keys es d' q' (order @ [u])"
proof -
  have d: "d = unplaced es order" and dist: "distinct (order @ u # q)" and u0: "d u = 0"
    and resp: "edges_respected es order" and q0: "\<forall>v \<in> set q. d v = 0"
    and sub: "set (order @ u # q) \<subseteq> keys"
    and compl: "\<forall>v \<in> keys. d v = 0 \<longrightarrow> v \<in> set (order @ u # q)"
    using inv by (auto simp: kahn_inv_def)
  have u: "u \<notin> set order" using dist by simp
  have le: "edges_between es u v \<le> d v" for v using edges_between_le [OF u] d by simp
  from release_edges_spec [OF le run] obtain new where
    new: "\<forall>v. d' v = d v - edges_between es u v" "q' = new @ q" "distinct new"
    "set new = {v. 0 < edges_between es u v \<and> d v = edges_between es u v}" by blast
  have d': "d' = unplaced es (order @ [u])"
    using new(1) d unplaced_snoc [OF u] by (simp add: fun_eq_iff)
  have order0: "unplaced es order v = 0" if "v \<in> set order" for v
  proof -
    from that obtain i where "i < length order" "order ! i = v" by (metis in_set_conv_nth)
    then show ?thesis using resp
      by (auto simp: unplaced_zero_iff edges_respected_def dest: in_set_takeD)
  qed
  have fresh: "v \<notin> set (order @ u # q)" if "v \<in> set new" for v
  proof -
    have "0 < d v" using that new(4) by simp
    then show ?thesis using order0 [of v] u0 q0 d by auto
  qed
  have "distinct ((order @ [u]) @ q')" using dist fresh new(2,3) by auto
  moreover have "edges_respected es (order @ [u])" using edges_respected_snoc [OF resp] u0 d by simp
  moreover have "\<forall>v \<in> set q'. d' v = 0"
  proof
    fix v assume "v \<in> set q'"
    then consider "v \<in> set new" | "v \<in> set q" using new(2) by auto
    then show "d' v = 0"
    proof cases
      case 1
      then show ?thesis using new(1,4) by simp
    next
      case 2
      then show ?thesis using q0 new(1) le [of v] edges_between_nonneg [of es u v] by force
    qed
  qed
  moreover have "set ((order @ [u]) @ q') \<subseteq> keys"
  proof -
    have "set new \<subseteq> eto ` set es" using new(4) edges_between_pos_iff by force
    then show ?thesis using sub new(2) keys by auto
  qed
  moreover have "\<forall>v \<in> keys. d' v = 0 \<longrightarrow> v \<in> set ((order @ [u]) @ q')"
  proof (intro ballI impI)
    fix v assume v: "v \<in> keys" "d' v = 0"
    show "v \<in> set ((order @ [u]) @ q')"
    proof (cases "d v = 0")
      case True
      then show ?thesis using compl v new(2) by auto
    next
      case False
      moreover have "d v = edges_between es u v" using v(2) new(1) by simp
      ultimately have "v \<in> set new" using new(4) by (simp add: order_less_le)
      then show ?thesis using new(2) by simp
    qed
  qed
  ultimately show ?thesis using d' by (simp add: kahn_inv_def)
qed

lemma kahn_result:
  assumes "eto ` set es \<subseteq> keys" and "kahn_inv keys es d q order"
  shows "\<exists>d'. kahn_inv keys es d' [] (kahn es d q order)"
  using assms
proof (induction es d q order rule: kahn.induct)
  case (1 es d q order)
  show ?case
  proof (cases q)
    case Nil
    then show ?thesis using "1.prems" by (subst kahn.simps) auto
  next
    case (Cons u q1)
    obtain d' q2 where rel: "release_edges u es d q1 = (d', q2)" by fastforce
    have step: "kahn es d q order = kahn es d' q2 (order @ [u])"
      by (subst kahn.simps) (simp add: Cons rel)
    have "kahn_inv keys es d' q2 (order @ [u])"
      using kahn_inv_step [OF _ rel "1.prems"(1)] "1.prems"(2) unfolding Cons by blast
    then show ?thesis using "1.IH" [OF Cons rel [symmetric] "1.prems"(1)] step by simp
  qed
qed

lemma topo_start:
  "kahn_inv (set (topo_keys cs es)) es (indegrees es)
     (rev (filter (\<lambda>v. indegrees es v = 0) (topo_keys cs es))) []"
  by (auto simp: kahn_inv_def edges_respected_def topo_keys_def indegrees_def unplaced_def
      fun_eq_iff)

lemma topo_keys_set: "set (topo_keys cs es) = set cs \<union> eto ` set es"
  by (simp add: topo_keys_def)

lemma topo_sort_spec:
  shows "distinct (topo_sort cs es)" and "edges_respected es (topo_sort cs es)"
    and "set (topo_sort cs es) \<subseteq> set cs \<union> eto ` set es"
    and "\<And>v. v \<in> set cs \<union> eto ` set es \<Longrightarrow>
      \<forall>e \<in> set es. eto e = v \<longrightarrow> efrom e \<in> set (topo_sort cs es) \<Longrightarrow> v \<in> set (topo_sort cs es)"
proof -
  have "eto ` set es \<subseteq> set (topo_keys cs es)" by (simp add: topo_keys_set)
  from kahn_result [OF this topo_start]
  obtain d where inv: "kahn_inv (set (topo_keys cs es)) es d [] (topo_sort cs es)"
    unfolding topo_sort_def by blast
  show "distinct (topo_sort cs es)" "edges_respected es (topo_sort cs es)"
    "set (topo_sort cs es) \<subseteq> set cs \<union> eto ` set es"
    using inv by (simp_all add: kahn_inv_def topo_keys_set)
  show "v \<in> set (topo_sort cs es)"
    if "v \<in> set cs \<union> eto ` set es"
      "\<forall>e \<in> set es. eto e = v \<longrightarrow> efrom e \<in> set (topo_sort cs es)" for v
  proof -
    have "d v = 0" using that(2) inv by (simp add: kahn_inv_def unplaced_zero_iff)
    then show ?thesis using that(1) inv by (simp add: kahn_inv_def topo_keys_set)
  qed
qed

text \<open>Without a cycle nothing is left out.\<close>

definition edge_rel :: "edge list \<Rightarrow> (nat \<times> nat) set" where
  "edge_rel es = (\<lambda>e. (efrom e, eto e)) ` set es"

lemma topo_sort_complete:
  assumes "acyclic (edge_rel es)" and "efrom ` set es \<subseteq> set cs"
  shows "set (topo_sort cs es) = set cs \<union> eto ` set es"
proof -
  have "wf (edge_rel es)"
    using assms(1) by (intro finite_acyclic_wf) (simp_all add: edge_rel_def)
  then have "v \<in> set cs \<union> eto ` set es \<longrightarrow> v \<in> set (topo_sort cs es)" for v
  proof (induction v rule: wf_induct_rule)
    case (less v)
    show ?case
    proof
      assume v: "v \<in> set cs \<union> eto ` set es"
      have "efrom e \<in> set (topo_sort cs es)" if "e \<in> set es" "eto e = v" for e
      proof -
        have "(efrom e, v) \<in> edge_rel es" using that by (force simp: edge_rel_def)
        moreover have "efrom e \<in> set cs" using that assms(2) by auto
        ultimately show ?thesis using less by blast
      qed
      then show "v \<in> set (topo_sort cs es)" using topo_sort_spec(4) [OF v] by blast
    qed
  qed
  then show ?thesis using topo_sort_spec(3) by blast
qed

text \<open>With cycles, exactly the calls on a cycle or behind one are left out.\<close>

definition behind_cycle :: "edge list \<Rightarrow> nat \<Rightarrow> bool" where
  "behind_cycle es v \<longleftrightarrow> (\<exists>r. (r, r) \<in> (edge_rel es)\<^sup>+ \<and> (r, v) \<in> (edge_rel es)\<^sup>*)"

lemma behind_cycle_step:
  "behind_cycle es u \<Longrightarrow> (u, v) \<in> edge_rel es \<Longrightarrow> behind_cycle es v"
  unfolding behind_cycle_def by (meson rtrancl.rtrancl_into_rtrancl)

lemma respected_path:
  assumes resp: "edges_respected es order" and path: "(u, v) \<in> (edge_rel es)\<^sup>+"
  shows "i < length order \<Longrightarrow> order ! i = v \<Longrightarrow> \<exists>j < i. order ! j = u"
  using path
proof (induction arbitrary: i rule: trancl_induct)
  case (base v)
  then obtain e where "e \<in> set es" "efrom e = u" "eto e = order ! i" by (auto simp: edge_rel_def)
  then have "u \<in> set (take i order)" using resp base.prems(1) by (auto simp: edges_respected_def)
  then show ?case by (auto simp: in_set_conv_nth)
next
  case (step v w)
  then obtain e where "e \<in> set es" "efrom e = v" "eto e = order ! i" by (auto simp: edge_rel_def)
  then have "v \<in> set (take i order)" using resp step.prems(1) by (auto simp: edges_respected_def)
  then obtain k where k: "k < i" "order ! k = v" by (auto simp: in_set_conv_nth)
  then obtain j where "j < k" "order ! j = u" using step.IH [of k] step.prems(1) by auto
  then show ?case using k(1) by (intro exI [of _ j]) simp
qed

lemma respected_not_behind:
  assumes resp: "edges_respected es order" and dist: "distinct order" and v: "behind_cycle es v"
  shows "v \<notin> set order"
proof
  assume "v \<in> set order"
  then obtain i where i: "i < length order" "order ! i = v" by (auto simp: in_set_conv_nth)
  obtain r where r: "(r, r) \<in> (edge_rel es)\<^sup>+" "(r, v) \<in> (edge_rel es)\<^sup>*"
    using v by (auto simp: behind_cycle_def)
  have "\<exists>j \<le> i. order ! j = r"
  proof (cases "r = v")
    case True
    then show ?thesis using i by auto
  next
    case False
    then have "(r, v) \<in> (edge_rel es)\<^sup>+" using r(2) by (simp add: rtrancl_eq_or_trancl)
    from respected_path [OF resp this i] obtain j where "j < i" "order ! j = r" by blast
    then show ?thesis by (intro exI [of _ j]) simp
  qed
  then obtain j where j: "j \<le> i" "order ! j = r" by blast
  have jl: "j < length order" using j(1) i(1) by simp
  obtain k where "k < j" "order ! k = r" using respected_path [OF resp r(1) jl j(2)] by blast
  then show False using dist jl j(2) by (metis less_trans nat_neq_iff nth_eq_iff_index_eq)
qed

lemma topo_sort_set:
  assumes "efrom ` set es \<subseteq> set cs"
  shows "set (topo_sort cs es) = {v \<in> set cs \<union> eto ` set es. \<not> behind_cycle es v}"
proof -
  let ?R = "{(u, v) \<in> edge_rel es. \<not> behind_cycle es v}"
  have "acyclic ?R"
  proof (rule acyclicI, rule allI, rule notI)
    fix v assume v: "(v, v) \<in> ?R\<^sup>+"
    then have "(v, v) \<in> (edge_rel es)\<^sup>+" by (rule trancl_mono) auto
    then have "behind_cycle es v" by (auto simp: behind_cycle_def)
    moreover from v obtain u where "(u, v) \<in> ?R" by (meson tranclD2)
    ultimately show False by simp
  qed
  moreover have "finite ?R" by (rule finite_subset [of _ "edge_rel es"]) (auto simp: edge_rel_def)
  ultimately have "wf ?R" by (simp add: finite_acyclic_wf)
  then have "v \<in> set cs \<union> eto ` set es \<longrightarrow> \<not> behind_cycle es v \<longrightarrow> v \<in> set (topo_sort cs es)" for v
  proof (induction v rule: wf_induct_rule)
    case (less v)
    show ?case
    proof (intro impI)
      assume v: "v \<in> set cs \<union> eto ` set es" "\<not> behind_cycle es v"
      have "efrom e \<in> set (topo_sort cs es)" if "e \<in> set es" "eto e = v" for e
      proof -
        have e: "(efrom e, v) \<in> edge_rel es" using that by (force simp: edge_rel_def)
        then have "\<not> behind_cycle es (efrom e)" using v(2) behind_cycle_step by blast
        moreover have "efrom e \<in> set cs" using that assms by auto
        ultimately show ?thesis using less e v(2) by blast
      qed
      then show "v \<in> set (topo_sort cs es)" using topo_sort_spec(4) [OF v(1)] by blast
    qed
  qed
  moreover have "\<not> behind_cycle es v" if "v \<in> set (topo_sort cs es)" for v
    using respected_not_behind [OF topo_sort_spec(2,1)] that by blast
  ultimately show ?thesis using topo_sort_spec(3) by blast
qed

section \<open>The search for a cycle\<close>

text \<open>
  Along \<open>parent\<close>, the calls already visited lead to ever earlier visited ones or to the null
  pointer; \<open>visited\<close> has the latest call at its head.
\<close>

definition parents_earlier :: "nat list \<Rightarrow> (nat \<rightharpoonup> nat) \<Rightarrow> bool" where
  "parents_earlier visited parent \<longleftrightarrow>
     (\<forall>ps x qs. visited = ps @ x # qs \<longrightarrow>
        (case parent x of None \<Rightarrow> True | Some y \<Rightarrow> y = 0 \<or> y \<in> set qs)) \<and>
     parent 0 = None \<and> 0 \<notin> set visited"

lemma parent_walk_returns:
  assumes "parents_earlier visited parent" and "visited = ps @ x # qs"
    and "Suc (Suc (length qs)) \<le> fuel"
  shows "parent_walk fuel parent inc x neighbor cyc \<noteq> None"
  using assms(2,3)
proof (induction "length qs" arbitrary: ps x qs fuel cyc rule: less_induct)
  case less
  obtain k where k: "fuel = Suc k" "Suc (length qs) \<le> k"
    using less.prems(2) by (cases fuel) auto
  show ?case
  proof (cases "x \<noteq> neighbor \<and> parent x \<noteq> None")
    case False
    then show ?thesis using k by auto
  next
    case True
    then obtain y where y: "parent x = Some y" by blast
    then consider "y = 0" | "y \<in> set qs"
      using assms(1) less.prems(1) by (fastforce simp: parents_earlier_def)
    then show ?thesis
    proof cases
      case 1
      obtain k' where "k = Suc k'" using k by (cases k) auto
      moreover have "parent 0 = None" using assms(1) by (simp add: parents_earlier_def)
      ultimately show ?thesis using True y 1 k by simp
    next
      case 2
      then obtain as bs where qs: "qs = as @ y # bs" by (meson split_list)
      have "parent_walk k parent inc y neighbor
          (cyc @ [\<lparr>efrom = y, eto = x, etype = (case inc x of Some t \<Rightarrow> t | None \<Rightarrow> [])\<rparr>]) \<noteq> None"
        using less.hyps [of bs "ps @ x # as" y k] qs k(2) less.prems(1) by simp
      then show ?thesis using True y k by simp
    qed
  qed
qed

lemma scan_edges_returns:
  assumes "parents_earlier (cur # vs) parent" and "cur \<noteq> 0"
    and "\<forall>e \<in> set es. eto e \<noteq> 0"
  shows "\<exists>r. scan_edges all (cur # vs) cur es parent inc stk = Some r \<and>
     (\<forall>parent' inc' stk'. r = Inr (parent', inc', stk') \<longrightarrow>
        parents_earlier (cur # vs) parent' \<and>
        (\<forall>x. x \<notin> set (cur # vs) \<longrightarrow> parent' x = parent x \<or> parent' x = Some cur))"
  using assms
proof (induction es arbitrary: parent inc stk)
  case Nil
  then show ?case by simp
next
  case (Cons e es)
  let ?n = "eto e"
  have rest: "\<forall>e \<in> set es. eto e \<noteq> 0" using Cons.prems(3) by simp
  show ?case
  proof (cases "efrom e = cur")
    case False
    then show ?thesis using Cons by simp
  next
    case from_cur: True
    show ?thesis
    proof (cases "?n \<in> set (cur # vs)")
      case new: False
      have "parents_earlier (cur # vs) (parent(?n \<mapsto> cur))"
        using Cons.prems(1,3) new unfolding parents_earlier_def
        by (metis fun_upd_apply in_set_conv_decomp list.set_intros(1))
      from Cons.IH [OF this Cons.prems(2) rest, of "inc(?n \<mapsto> etype e)" "?n # stk"]
      obtain r where "scan_edges all (cur # vs) cur es (parent(?n \<mapsto> cur)) (inc(?n \<mapsto> etype e))
          (?n # stk) = Some r"
        "\<forall>parent' inc' stk'. r = Inr (parent', inc', stk') \<longrightarrow>
          parents_earlier (cur # vs) parent' \<and> (\<forall>x. x \<notin> set (cur # vs) \<longrightarrow>
            parent' x = (parent(?n \<mapsto> cur)) x \<or> parent' x = Some cur)"
        by blast
      then show ?thesis using from_cur new by (simp add: Let_def) (metis fun_upd_apply)
    next
      case old: True
      let ?p = "if parent cur = None then parent(cur \<mapsto> 0) else parent"
      have p: "parents_earlier (cur # vs) ?p"
      proof (cases "parent cur = None")
        case True
        then show ?thesis
          using Cons.prems(1,2) unfolding parents_earlier_def by (auto split: option.splits)
      next
        case False
        then show ?thesis using Cons.prems(1) by auto
      qed
      show ?thesis
      proof (cases "?p cur = Some ?n")
        case False
        have "parent_walk (Suc (Suc (length (cur # vs)))) ?p inc cur ?n [] \<noteq> None"
          by (rule parent_walk_returns [OF p, of "[]" cur vs]) simp_all
        then obtain cyc where
          "parent_walk (Suc (Suc (length (cur # vs)))) ?p inc cur ?n [] = Some cyc" by blast
        then show ?thesis using from_cur old False by (auto simp: Let_def simp del: parent_walk.simps)
      next
        case True
        from Cons.IH [OF p Cons.prems(2) rest, of inc stk]
        obtain r where r: "scan_edges all (cur # vs) cur es ?p inc stk = Some r"
          "\<forall>parent' inc' stk'. r = Inr (parent', inc', stk') \<longrightarrow>
            parents_earlier (cur # vs) parent' \<and> (\<forall>x. x \<notin> set (cur # vs) \<longrightarrow>
              parent' x = ?p x \<or> parent' x = Some cur)"
          by blast
        have "scan_edges all (cur # vs) cur (e # es) parent inc stk
            = scan_edges all (cur # vs) cur es ?p inc stk"
          using from_cur old True by (simp only: scan_edges.simps Let_def) simp
        moreover have "?p x = parent x" if "x \<notin> set (cur # vs)" for x using that by auto
        ultimately show ?thesis using r by metis
      qed
    qed
  qed
qed

text \<open>The edge list that comes out has no new end points and no new arbitration edge.\<close>

definition ends_within :: "edge list \<Rightarrow> edge list \<Rightarrow> bool" where
  "ends_within es' es \<longleftrightarrow> edge_rel es' \<subseteq> edge_rel es \<and>
     (\<forall>e \<in> set es'. etype e = ''ao'' \<longrightarrow> e \<in> set es)"

lemma ends_within_refl [simp]: "ends_within es es"
  by (simp add: ends_within_def)

lemma break_cycle_ends: "ends_within (break_cycle cyc es) es"
proof (cases "find (\<lambda>e. etype e = ''ao'') cyc")
  case (Some ao)
  then show ?thesis by (auto simp: break_cycle_def ends_within_def edge_rel_def)
next
  case None
  have "edge_rel (remove1 f es @ [f\<lparr>etype := t\<rparr>]) \<subseteq> edge_rel es" if "f \<in> set es" for f t
    using that set_remove1_subset [of f es] by (auto simp: edge_rel_def intro: rev_image_eqI)
  with None show ?thesis
    by (auto simp: break_cycle_def ends_within_def split: list.splits dest: subsetD [OF set_remove1_subset])
qed

lemma scan_edges_ends:
  "scan_edges all visited cur es parent inc stk = Some (Inl es') \<Longrightarrow> ends_within es' all"
  by (induction all visited cur es parent inc stk rule: scan_edges.induct)
    (auto simp: Let_def Option.bind_eq_Some_conv break_cycle_ends split: if_splits)

text \<open>
  The search always ends with an edge list: the walks along \<open>parent\<close> never run out of fuel.
  What is on the stack has a parent among the visited calls, or none.
\<close>

definition parents_visited :: "nat list \<Rightarrow> (nat \<rightharpoonup> nat) \<Rightarrow> bool" where
  "parents_visited visited parent \<longleftrightarrow>
     (\<forall>x y. x \<notin> set visited \<longrightarrow> parent x = Some y \<longrightarrow> y \<in> set visited)"

lemma parents_earlier_visit:
  assumes "parents_earlier visited parent" and "parents_visited visited parent"
    and "cur \<notin> set visited" and "cur \<noteq> 0"
  shows "parents_earlier (cur # visited) parent"
  unfolding parents_earlier_def
proof (intro conjI allI impI)
  fix ps x qs
  assume split: "cur # visited = ps @ x # qs"
  show "case parent x of None \<Rightarrow> True | Some y \<Rightarrow> y = 0 \<or> y \<in> set qs"
  proof (cases ps)
    case Nil
    then show ?thesis using split assms(2,3) by (auto simp: parents_visited_def split: option.splits)
  next
    case (Cons a as)
    then have "visited = as @ x # qs" using split by simp
    then show ?thesis using assms(1) unfolding parents_earlier_def by blast
  qed
qed (use assms in \<open>simp_all add: parents_earlier_def\<close>)

lemma cycle_dfs_returns:
  assumes "\<forall>e \<in> set es. eto e \<noteq> 0" and "0 \<notin> set stk"
    and "parents_earlier visited parent" and "parents_visited visited parent"
  shows "\<exists>es'. cycle_dfs es visited parent inc stk = Some es' \<and> ends_within es' es"
  using assms
proof (induction es visited parent inc stk rule: cycle_dfs.induct)
  case (1 es visited parent inc stk)
  show ?case
  proof (cases stk)
    case Nil
    then show ?thesis by (subst cycle_dfs.simps) simp
  next
    case (Cons cur rest)
    have c0: "cur \<noteq> 0" using "1.prems"(2) Cons by simp
    show ?thesis
    proof (cases "cur \<in> set visited")
      case True
      then have "cycle_dfs es visited parent inc stk = cycle_dfs es visited parent inc rest"
        by (subst cycle_dfs.simps) (simp add: Cons)
      then show ?thesis using "1.IH"(1) [OF Cons True] "1.prems" Cons by simp
    next
      case False
      note earlier = parents_earlier_visit [OF "1.prems"(3,4) False c0]
      from scan_edges_returns [OF earlier c0 "1.prems"(1), of es inc rest]
      obtain r where r: "scan_edges es (cur # visited) cur es parent inc rest = Some r"
        "\<forall>parent' inc' stk'. r = Inr (parent', inc', stk') \<longrightarrow>
          parents_earlier (cur # visited) parent' \<and> (\<forall>x. x \<notin> set (cur # visited) \<longrightarrow>
            parent' x = parent x \<or> parent' x = Some cur)" by blast
      show ?thesis
      proof (cases r)
        case (Inl es')
        then have "cycle_dfs es visited parent inc stk = Some es'"
          using r(1) False by (subst cycle_dfs.simps) (simp add: Cons)
        then show ?thesis using scan_edges_ends r(1) Inl by blast
      next
        case (Inr t)
        obtain parent' inc' stk' where t: "t = (parent', inc', stk')" by (cases t)
        have step: "cycle_dfs es visited parent inc stk
            = cycle_dfs es (cur # visited) parent' inc' stk'"
          using r(1) False Inr t by (subst cycle_dfs.simps) (simp add: Cons)
        have stk: "0 \<notin> set stk'"
        proof
          assume "0 \<in> set stk'"
          then have "0 \<in> set rest \<or> 0 \<in> eto ` set es"
            using scan_edges_stack [OF r(1) [unfolded Inr t]] by blast
          then show False using "1.prems"(1,2) Cons by force
        qed
        have pe: "parents_earlier (cur # visited) parent'"
          and px: "\<forall>x. x \<notin> set (cur # visited) \<longrightarrow> parent' x = parent x \<or> parent' x = Some cur"
          using r(2) Inr t by blast+
        have "parents_visited (cur # visited) parent'"
          using px "1.prems"(4) unfolding parents_visited_def
          by (metis list.set_intros(1,2) option.inject)
        then show ?thesis
          using "1.IH"(2) [OF Cons False r(1) Inr] t "1.prems"(1) stk pe step by simp
      qed
    qed
  qed
qed

lemma detectAndResolveCycles_returns:
  assumes "\<forall>e \<in> set (e_edges h). eto e \<noteq> 0" and "p \<noteq> 0"
  shows "\<exists>es. detectAndResolveCycles p h = Some (h\<lparr>e_edges := es\<rparr>) \<and> ends_within es (e_edges h)"
proof -
  have "parents_earlier [] Map.empty" "parents_visited [] Map.empty"
    by (simp_all add: parents_earlier_def parents_visited_def)
  from cycle_dfs_returns [OF assms(1) _ this, of "[p]" Map.empty] assms(2)
  show ?thesis by (auto simp: detectAndResolveCycles_def)
qed

section \<open>Cycles without arbitration edges\<close>

text \<open>
  When no edge is an arbitration edge, breaking a cycle moves an edge to the end of the list:
  the relation the edges stand for, and every cycle in it, stay.
\<close>

definition no_ao_types :: "(nat \<rightharpoonup> string) \<Rightarrow> bool" where
  "no_ao_types inc \<longleftrightarrow> (\<forall>p. inc p \<noteq> Some ''ao'')"

lemma parent_walk_types:
  "parent_walk fuel parent inc p neighbor cyc = Some cyc' \<Longrightarrow> no_ao_types inc \<Longrightarrow>
     \<forall>e \<in> set cyc. etype e \<noteq> ''ao'' \<Longrightarrow> \<forall>e \<in> set cyc'. etype e \<noteq> ''ao''"
proof (induction fuel parent inc p neighbor cyc rule: parent_walk.induct)
  case (1 parent inc p neighbor cyc)
  then show ?case by simp
next
  case (2 fuel parent inc p neighbor cyc)
  have "(case inc p of Some t \<Rightarrow> t | None \<Rightarrow> []) \<noteq> ''ao''"
    using "2.prems"(2) by (auto simp: no_ao_types_def split: option.splits)
  with 2 show ?case by (auto split: if_splits)
qed

lemma break_cycle_keeps:
  assumes "\<forall>e \<in> set cyc. etype e \<noteq> ''ao''"
  shows "edge_rel (break_cycle cyc es) = edge_rel es"
proof -
  have none: "find (\<lambda>e. etype e = ''ao'') cyc = None"
    using assms by (auto simp: find_None_iff)
  have moved: "edge_rel (remove1 f es @ [f\<lparr>etype := t\<rparr>]) = edge_rel es" if "f \<in> set es" for f t
  proof -
    have "set es = insert f (set (remove1 f es))"
      using that by (induction es) auto
    then show ?thesis by (simp add: edge_rel_def)
  qed
  show ?thesis using none moved by (simp add: break_cycle_def split: list.split)
qed

lemma scan_edges_keeps:
  "scan_edges all visited cur es parent inc stk = Some r \<Longrightarrow> no_ao_types inc \<Longrightarrow>
     \<forall>e \<in> set es. etype e \<noteq> ''ao'' \<Longrightarrow>
     (case r of Inl es' \<Rightarrow> edge_rel es' = edge_rel all | Inr (parent', inc', stk') \<Rightarrow> no_ao_types inc')"
proof (induction all visited cur es parent inc stk rule: scan_edges.induct)
  case (1 all visited cur parent inc stk)
  then show ?case by auto
next
  case (2 all visited cur e es parent inc stk)
  let ?parent = "if parent cur = None then parent(cur \<mapsto> 0) else parent"
  show ?case
  proof (cases "efrom e = cur \<and> eto e \<in> set visited \<and> ?parent cur \<noteq> Some (eto e)")
    case True
    then obtain cyc where cyc:
      "parent_walk (Suc (Suc (length visited))) ?parent inc cur (eto e) [] = Some cyc"
      and r: "r = Inl (break_cycle (cyc @ [\<lparr>efrom = cur, eto = eto e, etype = etype e\<rparr>]) all)"
      using "2.prems"(1) by (auto simp: Let_def Option.bind_eq_Some_conv)
    have "\<forall>e \<in> set cyc. etype e \<noteq> ''ao''"
      by (rule parent_walk_types [OF cyc "2.prems"(2)]) simp
    then show ?thesis using r "2.prems"(3) by (simp add: break_cycle_keeps)
  next
    case False
    have upd: "no_ao_types (inc(eto e \<mapsto> etype e))"
      using "2.prems"(2,3) by (auto simp: no_ao_types_def)
    show ?thesis
    proof (cases "efrom e = cur \<and> eto e \<notin> set visited")
      case True
      then show ?thesis using "2.IH"(1) [OF _ refl] "2.prems" upd
        by (simp add: Let_def fun_upd_def)
    next
      case other: False
      then show ?thesis
        using 2 False by (auto simp: Let_def split: if_splits)
    qed
  qed
qed

lemma cycle_dfs_keeps:
  "cycle_dfs es visited parent inc stk = Some es' \<Longrightarrow> no_ao_types inc \<Longrightarrow>
     \<forall>e \<in> set es. etype e \<noteq> ''ao'' \<Longrightarrow> edge_rel es' = edge_rel es"
proof (induction es visited parent inc stk rule: cycle_dfs.induct)
  case (1 es visited parent inc stk)
  show ?case
  proof (cases stk)
    case Nil
    then show ?thesis using "1.prems"(1) by (subst (asm) cycle_dfs.simps) simp
  next
    case (Cons cur rest)
    show ?thesis
    proof (cases "cur \<in> set visited")
      case True
      then have "cycle_dfs es visited parent inc rest = Some es'"
        using "1.prems"(1) Cons by (subst (asm) cycle_dfs.simps) simp
      then show ?thesis using "1.IH"(1) [OF Cons True] "1.prems" by blast
    next
      case False
      then obtain r where r: "scan_edges es (cur # visited) cur es parent inc rest = Some r"
        and step: "case r of Inl es2 \<Rightarrow> es' = es2
          | Inr (parent', inc', stk') \<Rightarrow> cycle_dfs es (cur # visited) parent' inc' stk' = Some es'"
        using "1.prems"(1) Cons
        by (subst (asm) cycle_dfs.simps) (auto split: option.splits sum.splits)
      note kept = scan_edges_keeps [OF r "1.prems"(2,3)]
      show ?thesis
      proof (cases r)
        case (Inl es2)
        then show ?thesis using step kept by simp
      next
        case (Inr t)
        obtain parent' inc' stk' where t: "t = (parent', inc', stk')" by (cases t)
        show ?thesis
          using "1.IH"(2) [OF Cons False r Inr] step kept Inr t "1.prems"(3) by simp
      qed
    qed
  qed
qed

lemma detectAndResolveCycles_keeps:
  assumes "detectAndResolveCycles p h = Some h'" and "\<forall>e \<in> set (e_edges h). etype e \<noteq> ''ao''"
  shows "edge_rel (e_edges h') = edge_rel (e_edges h)"
  using assms cycle_dfs_keeps [of "e_edges h" "[]" Map.empty Map.empty "[p]"]
  by (auto simp: detectAndResolveCycles_def no_ao_types_def Option.bind_eq_Some_conv)

end
