(* ===== verification/Ecros_Node.thy ===== *)
theory Ecros_Node
  imports Ecros_Graph
begin

text \<open>
  An ECRO node as a state machine: its invariant (every in-flight call is an allocated,
  unstable object with a clock of the group's size, every edge joins in-flight calls), its
  preservation by every step, and what an acknowledgement removes.
\<close>

section \<open>The invariant\<close>

definition ecros_inv :: "'st ecros \<Rightarrow> bool" where
  "ecros_inv h \<longleftrightarrow> 0 < e_number_of_nodes h \<and> length (e_vc h) = e_number_of_nodes h \<and>
     distinct (e_calls h) \<and> e_stableCalls h = [] \<and>
     (\<forall>p \<in> set (e_calls h). p \<noteq> 0 \<and>
        (\<exists>c. e_heap h p = Some c \<and> length (call_vector_clock c) = e_number_of_nodes h \<and>
             \<not> stable c)) \<and>
     (\<forall>e \<in> set (e_edges h). efrom e \<in> set (e_calls h) \<and> eto e \<in> set (e_calls h))"

text \<open>A new object: not null, and no call points to it.\<close>

definition fresh :: "nat \<Rightarrow> 'st ecros \<Rightarrow> bool" where
  "fresh p h \<longleftrightarrow> p \<noteq> 0 \<and> e_heap h p = None"

text \<open>A traversal visits each element.\<close>

definition traversal :: "(nat list \<Rightarrow> nat list) \<Rightarrow> bool" where
  "traversal iter \<longleftrightarrow> (\<forall>xs. set (iter xs) = set xs)"

lemma traversal_set [simp]: "traversal iter \<Longrightarrow> set (iter xs) = set xs"
  by (simp add: traversal_def)

lemma traversal_id [simp]: "traversal (\<lambda>xs. xs)"
  by (simp add: traversal_def)

lemma ends_within_calls:
  "ends_within es' es \<Longrightarrow> \<forall>e \<in> set es. efrom e \<in> A \<and> eto e \<in> A \<Longrightarrow>
     \<forall>e \<in> set es'. efrom e \<in> A \<and> eto e \<in> A"
proof
  fix e
  assume A: "ends_within es' es" "\<forall>e \<in> set es. efrom e \<in> A \<and> eto e \<in> A" and e: "e \<in> set es'"
  then have "(efrom e, eto e) \<in> edge_rel es"
    unfolding ends_within_def edge_rel_def by blast
  then show "efrom e \<in> A \<and> eto e \<in> A" using A(2) by (auto simp: edge_rel_def)
qed

section \<open>The edge loops\<close>

definition clocked :: "(nat \<rightharpoonup> call) \<Rightarrow> nat \<Rightarrow> nat \<Rightarrow> bool" where
  "clocked heap n p \<longleftrightarrow> (\<exists>c. heap p = Some c \<and> length (call_vector_clock c) = n)"

lemma happenedBefore_total:
  "length (call_vector_clock a) = n \<Longrightarrow> length (call_vector_clock b) = n \<Longrightarrow>
     \<exists>r. happenedBefore n a b = Some r"
  by (simp add: happenedBefore_def hb_scan_eq)

lemma concurrent_total:
  "length (call_vector_clock a) = n \<Longrightarrow> length (call_vector_clock b) = n \<Longrightarrow>
     \<exists>r. concurrent n a b = Some r"
  by (simp add: concurrent_def concurrent_scan_eq)

lemma local_edges_returns:
  assumes "clocked heap n p" and "\<forall>v \<in> set vs. clocked heap n v"
  shows "\<exists>es. local_edges uc n heap p vs = Some es \<and>
     (\<forall>e \<in> set es. efrom e \<in> insert p (set vs) \<and> eto e \<in> insert p (set vs) \<and> etype e = ''hb'')"
  using assms(2)
proof (induction vs)
  case Nil
  then show ?case by simp
next
  case (Cons v vs)
  then obtain es where es: "local_edges uc n heap p vs = Some es"
    "\<forall>e \<in> set es. efrom e \<in> insert p (set vs) \<and> eto e \<in> insert p (set vs) \<and> etype e = ''hb''"
    by auto
  obtain cv cp where c: "heap v = Some cv" "heap p = Some cp"
    "length (call_vector_clock cv) = n" "length (call_vector_clock cp) = n"
    using assms(1) Cons.prems by (auto simp: clocked_def)
  obtain r1 r2 where "happenedBefore n cv cp = Some r1" "happenedBefore n cp cv = Some r2"
    using happenedBefore_total c(3,4) by blast
  with c es show ?case by auto
qed

lemma remote_edge_returns:
  assumes "length (call_vector_clock cp) = n" and "length (call_vector_clock cv) = n"
  shows "\<exists>es. remote_edge uc n p cp v cv = Some es \<and>
     (\<forall>e \<in> set es. efrom e \<in> {p, v} \<and> eto e \<in> {p, v} \<and>
        (etype e = ''ao'' \<longrightarrow> resolution uc cv cp = res_T))"
proof -
  obtain r1 r2 r3 where "happenedBefore n cv cp = Some r1" "happenedBefore n cp cv = Some r2"
    "concurrent n cv cp = Some r3"
    using happenedBefore_total [OF assms(2,1)] happenedBefore_total [OF assms]
      concurrent_total [OF assms(2,1)] by blast
  then show ?thesis by (simp add: remote_edge_def)
qed

lemma remote_edges_returns:
  assumes "clocked heap n p" and "\<forall>v \<in> set vs. clocked heap n v"
  shows "\<exists>es. remote_edges uc n heap p vs = Some es \<and>
     (\<forall>e \<in> set es. efrom e \<in> insert p (set vs) \<and> eto e \<in> insert p (set vs) \<and>
        (etype e = ''ao'' \<longrightarrow> (\<exists>a b. resolution uc a b = res_T)))"
  using assms(2)
proof (induction vs)
  case Nil
  then show ?case by simp
next
  case (Cons v vs)
  then obtain es where es: "remote_edges uc n heap p vs = Some es"
    "\<forall>e \<in> set es. efrom e \<in> insert p (set vs) \<and> eto e \<in> insert p (set vs) \<and>
       (etype e = ''ao'' \<longrightarrow> (\<exists>a b. resolution uc a b = res_T))"
    by auto
  obtain cv cp where c: "heap v = Some cv" "heap p = Some cp"
    "length (call_vector_clock cv) = n" "length (call_vector_clock cp) = n"
    using assms(1) Cons.prems by (auto simp: clocked_def)
  obtain new where new: "remote_edge uc n p cp v cv = Some new"
    "\<forall>e \<in> set new. efrom e \<in> {p, v} \<and> eto e \<in> {p, v} \<and>
       (etype e = ''ao'' \<longrightarrow> resolution uc cv cp = res_T)"
    using remote_edge_returns [OF c(4,3)] by blast
  show ?case using c es new by auto
qed

lemma merge_clock_length:
  "length v = n \<Longrightarrow> length w = n \<Longrightarrow> \<exists>r. merge_clock n v w = Some r \<and> length r = n"
  by (induction n v w rule: merge_clock.induct) auto

lemma deref_returns: "\<forall>p \<in> set ps. heap p \<noteq> None \<Longrightarrow> \<exists>cs. deref heap ps = Some cs"
  by (induction ps) auto

lemma deref_set:
  "deref heap ps = Some cs \<Longrightarrow> set cs = {d. \<exists>q \<in> set ps. heap q = Some d}"
  by (induction ps arbitrary: cs) (auto simp: Option.bind_eq_Some_conv)

section \<open>Steps\<close>

lemma ecros_inv_clocked: "ecros_inv h \<Longrightarrow> p \<in> set (e_calls h) \<Longrightarrow> clocked (e_heap h) (e_number_of_nodes h) p"
  by (auto simp: ecros_inv_def clocked_def)

lemma ecros_inv_add:
  assumes inv: "ecros_inv h" and p: "fresh p h"
    and c: "length (call_vector_clock c) = e_number_of_nodes h" "\<not> stable c"
    and vc: "length vc = e_number_of_nodes h"
    and es: "\<forall>e \<in> set es. efrom e \<in> insert p (set (e_calls h)) \<and> eto e \<in> insert p (set (e_calls h))"
  shows "ecros_inv (h\<lparr>e_vc := vc, e_heap := (e_heap h)(p \<mapsto> c), e_calls := p # e_calls h,
     e_edges := es\<rparr>)"
proof -
  have "p \<notin> set (e_calls h)" using inv p by (auto simp: ecros_inv_def fresh_def)
  then show ?thesis using inv p c vc es by (auto simp: ecros_inv_def fresh_def)
qed

lemma ecros_inv_edges:
  assumes "ecros_inv h" and "ends_within es (e_edges h)"
  shows "ecros_inv (h\<lparr>e_edges := es\<rparr>)"
  using assms(1) ends_within_calls [OF assms(2), of "set (e_calls h)"]
  by (simp add: ecros_inv_def)

lemma exeLocal_returns:
  assumes inv: "ecros_inv h" and p: "fresh p h" and it: "traversal iter"
    and me: "0 \<le> e_node_id h" "e_node_id h < int (e_number_of_nodes h)" and c: "\<not> stable c"
  shows "\<exists>h' c'. exeLocal uc iter p c h = Some (h', c') \<and> ecros_inv h' \<and>
     e_number_of_nodes h' = e_number_of_nodes h \<and> e_node_id h' = e_node_id h \<and>
     (if shouldSkip uc c (e_obj h) then h' = h \<and> c' = c
      else set (e_calls h') = insert p (set (e_calls h)) \<and> e_heap h' p = Some c' \<and>
           e_obj h' = applyCall uc c' (e_obj h) \<and>
           (\<exists>es. e_edges h' = e_edges h @ es \<and> (\<forall>e \<in> set es. etype e = ''hb'')))"
proof (cases "shouldSkip uc c (e_obj h)")
  case True
  then show ?thesis using inv by (simp add: exeLocal_def)
next
  case False
  let ?n = "e_number_of_nodes h"
  let ?vc = "(e_vc h)[nat (e_node_id h) := e_vc h ! nat (e_node_id h) + 1]"
  have vc: "vincr (e_vc h) (e_node_id h) = Some ?vc" "length ?vc = ?n"
    using inv me by (auto simp: vincr_Some_iff ecros_inv_def)
  let ?c = "c\<lparr>call_vector_clock := ?vc, node_id := e_node_id h\<rparr>"
  let ?heap = "(e_heap h)(p \<mapsto> ?c)"
  have ck: "clocked ?heap ?n p" using vc(2) by (simp add: clocked_def)
  have cks: "\<forall>v \<in> set (iter (p # e_calls h)). clocked ?heap ?n v"
    using ck ecros_inv_clocked [OF inv] it by (auto simp: clocked_def)
  from local_edges_returns [OF ck cks, of uc] obtain es where
    es: "local_edges uc ?n ?heap p (iter (p # e_calls h)) = Some es"
    "\<forall>e \<in> set es. efrom e \<in> insert p (set (e_calls h)) \<and> eto e \<in> insert p (set (e_calls h)) \<and>
       etype e = ''hb''"
    using it by auto
  have "ecros_inv (h\<lparr>e_vc := ?vc, e_heap := ?heap, e_calls := p # e_calls h,
      e_edges := e_edges h @ es\<rparr>)"
    using inv es(2) c vc(2) by (intro ecros_inv_add p inv) (auto simp: ecros_inv_def)
  then have "ecros_inv (h\<lparr>e_vc := ?vc, e_heap := ?heap, e_calls := p # e_calls h,
      e_edges := e_edges h @ es, e_obj := applyCall uc ?c (e_obj h)\<rparr>)"
    by (simp add: ecros_inv_def)
  then show ?thesis
    using False vc(1) es by (auto simp: exeLocal_def Let_def)
qed

text \<open>The clock is indexed one too far: the last node cannot execute any call.\<close>

lemma exeLocal_last_node:
  assumes "ecros_inv h" and "e_node_id h = int (e_number_of_nodes h)"
    and "\<not> shouldSkip uc c (e_obj h)"
  shows "exeLocal uc iter p c h = None"
  using assms by (simp add: exeLocal_def vincr_def vget_def ecros_inv_def)

lemma recompute_returns:
  assumes "ecros_inv h"
  shows "\<exists>cs. deref (e_heap h) (e_topoOrder (fullTopoSort h)) = Some cs \<and>
     recomputeState uc (fullTopoSort h)
       = Some ((fullTopoSort h)\<lparr>e_obj := recomputeObj uc cs (e_obj h)\<rparr>)"
proof -
  have "set (topo_sort (e_calls h) (e_edges h)) \<subseteq> set (e_calls h)"
    using topo_sort_spec(3) [of "e_calls h" "e_edges h"] assms by (auto simp: ecros_inv_def)
  then have "\<forall>p \<in> set (topo_sort (e_calls h) (e_edges h)). e_heap h p \<noteq> None"
    using assms unfolding ecros_inv_def by blast
  from deref_returns [OF this] show ?thesis
    by (auto simp: recomputeState_def fullTopoSort_def)
qed

lemma exeRemote_returns:
  assumes inv: "ecros_inv h" and p: "fresh p h" and it: "traversal iter"
    and c: "length (call_vector_clock c) = e_number_of_nodes h" "\<not> stable c" "ctype c \<noteq> ''Ack''"
  shows "\<exists>h' es cs. exeRemote uc iter p c h = Some h' \<and> ecros_inv h' \<and>
     e_number_of_nodes h' = e_number_of_nodes h \<and> e_node_id h' = e_node_id h \<and>
     e_calls h' = p # e_calls h \<and> e_heap h' = (e_heap h)(p \<mapsto> c) \<and>
     e_topoOrder h' = topo_sort (e_calls h') (e_edges h') \<and>
     deref (e_heap h') (e_topoOrder h') = Some cs \<and>
     e_obj h' = recomputeObj uc cs (e_obj h) \<and>
     e_send_ack_call_list h' = e_send_ack_call_list h @ [e_send_ack_call h'] \<and>
     ends_within (e_edges h') (e_edges h @ es) \<and>
     (\<forall>e \<in> set es. etype e = ''ao'' \<longrightarrow> (\<exists>a b. resolution uc a b = res_T))"
proof -
  let ?n = "e_number_of_nodes h"
  let ?heap = "(e_heap h)(p \<mapsto> c)"
  obtain vc where vc: "merge_clock ?n (e_vc h) (call_vector_clock c) = Some vc" "length vc = ?n"
    using merge_clock_length [of "e_vc h" ?n "call_vector_clock c"] inv c(1)
    by (auto simp: ecros_inv_def)
  have ck: "clocked ?heap ?n p" using c by (simp add: clocked_def)
  have cks: "\<forall>v \<in> set (iter (p # e_calls h)). clocked ?heap ?n v"
    using ck ecros_inv_clocked [OF inv] it by (auto simp: clocked_def)
  from remote_edges_returns [OF ck cks, of uc] obtain es where
    es: "remote_edges uc ?n ?heap p (iter (p # e_calls h)) = Some es"
    "\<forall>e \<in> set es. efrom e \<in> insert p (set (e_calls h)) \<and> eto e \<in> insert p (set (e_calls h))"
    "\<forall>e \<in> set es. etype e = ''ao'' \<longrightarrow> (\<exists>a b. resolution uc a b = res_T)"
    unfolding traversal_set [OF it] by (simp only: set_simps) blast
  let ?h1 = "h\<lparr>e_vc := vc, e_heap := ?heap, e_calls := p # e_calls h, e_edges := e_edges h @ es\<rparr>"
  have inv1: "ecros_inv ?h1"
    using inv es(2) c vc(2) by (intro ecros_inv_add p inv) (auto simp: ecros_inv_def)
  have "\<forall>e \<in> set (e_edges ?h1). eto e \<noteq> 0"
    using inv1 unfolding ecros_inv_def by blast
  moreover have p0: "p \<noteq> 0" using p by (simp add: fresh_def)
  ultimately obtain es' where es': "detectAndResolveCycles p ?h1 = Some (?h1\<lparr>e_edges := es'\<rparr>)"
    "ends_within es' (e_edges ?h1)"
    using detectAndResolveCycles_returns [of ?h1 p] by blast
  let ?h2 = "?h1\<lparr>e_edges := es'\<rparr>"
  have inv2: "ecros_inv ?h2"
    by (rule ecros_inv_edges [OF inv1 es'(2)])
  obtain cs where cs: "deref (e_heap ?h2) (e_topoOrder (fullTopoSort ?h2)) = Some cs"
    "recomputeState uc (fullTopoSort ?h2)
       = Some ((fullTopoSort ?h2)\<lparr>e_obj := recomputeObj uc cs (e_obj ?h2)\<rparr>)"
    using recompute_returns [OF inv2] by blast
  have run: "exeRemote uc iter p c h
      = Some (ecros_queue_ack c ((fullTopoSort ?h2)\<lparr>e_obj := recomputeObj uc cs (e_obj ?h2)\<rparr>))"
    using c(3) vc(1) es(1) es'(1) cs(2) by (simp add: exeRemote_def)
  let ?h3 = "ecros_queue_ack c ((fullTopoSort ?h2)\<lparr>e_obj := recomputeObj uc cs (e_obj ?h2)\<rparr>)"
  have "ecros_inv ?h3" using inv2 by (simp add: ecros_inv_def ecros_queue_ack_def fullTopoSort_def Let_def)
  then show ?thesis
    using run cs(1) es'(2) es(3)
    by (intro exI [of _ ?h3] exI [of _ es] exI [of _ cs])
      (simp add: ecros_queue_ack_def fullTopoSort_def Let_def)
qed

section \<open>Acknowledgements\<close>

lemma find_acked_spec:
  assumes "\<forall>p \<in> set ps. heap p \<noteq> None"
  shows "\<exists>r. find_acked heap ack ps = Some r \<and>
     (case r of
        None \<Rightarrow> \<forall>p \<in> set ps. \<forall>c. heap p = Some c \<longrightarrow>
          \<not> (node_id c = node_id ack \<and> call_id c = call_id ack \<and> \<not> stable c)
      | Some (p, c) \<Rightarrow> p \<in> set ps \<and> heap p = Some c \<and> node_id c = node_id ack \<and>
          call_id c = call_id ack \<and> \<not> stable c)"
  using assms
proof (induction ps)
  case Nil
  then show ?case by simp
next
  case (Cons p ps)
  then obtain c where c: "heap p = Some c" by auto
  show ?case
  proof (cases "node_id c = node_id ack \<and> call_id c = call_id ack \<and> \<not> stable c")
    case True
    then show ?thesis using c by simp
  next
    case False
    then show ?thesis using Cons c by (auto split: option.splits)
  qed
qed

text \<open>The number of acknowledgements that make a call stable.\<close>

definition ecros_required :: "'st ecros \<Rightarrow> call \<Rightarrow> int" where
  "ecros_required h ack =
     (if node_id ack = e_node_id h then int (e_number_of_nodes h) - 1
      else int (e_number_of_nodes h) - 2)"

lemma handleAck_returns:
  assumes inv: "ecros_inv h" and it: "traversal iter"
  shows "\<exists>h'. handleAckAndMaybeStabilize iter ack h = Some h' \<and> ecros_inv h' \<and>
     e_number_of_nodes h' = e_number_of_nodes h \<and> e_node_id h' = e_node_id h \<and>
     e_ackCounts h' = (e_ackCounts h)((node_id ack, call_id ack) :=
       e_ackCounts h (node_id ack, call_id ack) + 1) \<and>
     e_obj h' = e_obj h \<and> set (e_edges h') \<subseteq> set (e_edges h) \<and>
     (if ecros_required h ack \<le> e_ackCounts h (node_id ack, call_id ack) + 1 \<and>
         (\<exists>p \<in> set (e_calls h). \<exists>c. e_heap h p = Some c \<and> node_id c = node_id ack \<and>
            call_id c = call_id ack)
      then (\<exists>p c. p \<in> set (e_calls h) \<and> e_heap h p = Some c \<and> node_id c = node_id ack \<and>
              call_id c = call_id ack \<and> e_calls h' = remove1 p (e_calls h) \<and>
              e_heap h' = (e_heap h)(p := None) \<and>
              e_waittobestable h' = e_waittobestable h + 1)
      else e_calls h' = e_calls h \<and> e_waittobestable h' = e_waittobestable h)"
proof -
  let ?key = "(node_id ack, call_id ack)"
  let ?h1 = "h\<lparr>e_ackCounts := (e_ackCounts h)(?key := e_ackCounts h ?key + 1)\<rparr>"
  have inv1: "ecros_inv ?h1" using inv by (simp add: ecros_inv_def)
  have alloc: "\<forall>p \<in> set (iter (e_calls h)). e_heap h p \<noteq> None"
    using inv it by (fastforce simp: ecros_inv_def)
  show ?thesis
  proof (cases "ecros_required h ack \<le> e_ackCounts h ?key + 1")
    case False
    then have "handleAckAndMaybeStabilize iter ack h = Some ?h1"
      by (auto simp: handleAckAndMaybeStabilize_def Let_def ecros_required_def)
    then show ?thesis using inv1 False by simp
  next
    case enough: True
    from find_acked_spec [OF alloc, of ack] obtain r where
      r: "find_acked (e_heap h) ack (iter (e_calls h)) = Some r"
      "case r of
        None \<Rightarrow> \<forall>p \<in> set (iter (e_calls h)). \<forall>c. e_heap h p = Some c \<longrightarrow>
          \<not> (node_id c = node_id ack \<and> call_id c = call_id ack \<and> \<not> stable c)
      | Some (p, c) \<Rightarrow> p \<in> set (iter (e_calls h)) \<and> e_heap h p = Some c \<and>
          node_id c = node_id ack \<and> call_id c = call_id ack \<and> \<not> stable c" by blast
    show ?thesis
    proof (cases r)
      case None
      have "handleAckAndMaybeStabilize iter ack h = Some ?h1"
        using enough r(1) None
        by (auto simp: handleAckAndMaybeStabilize_def Let_def ecros_required_def)
      moreover have "\<not> (\<exists>p \<in> set (e_calls h). \<exists>c. e_heap h p = Some c \<and>
          node_id c = node_id ack \<and> call_id c = call_id ack)"
        using r(2) None it inv unfolding ecros_inv_def by fastforce
      ultimately show ?thesis using inv1 by simp
    next
      case (Some pc)
      obtain p c where pc: "pc = (p, c)" by (cases pc)
      have p: "p \<in> set (e_calls h)" "e_heap h p = Some c" "node_id c = node_id ack"
        "call_id c = call_id ack" using r(2) Some pc it by auto
      have n: "e_number_of_nodes h \<noteq> 0" and dist: "distinct (e_calls h)"
        and st: "e_stableCalls h = []"
        using inv by (simp_all add: ecros_inv_def)
      obtain h' where run: "handleAckAndMaybeStabilize iter ack h = Some h'"
        and h': "e_calls h' = filter (\<lambda>q. q \<noteq> p) (e_calls h)"
          "e_edges h' = filter (\<lambda>e. efrom e \<noteq> p \<and> eto e \<noteq> p) (e_edges h)"
          "e_heap h' = (e_heap h)(p := None)" "e_stableCalls h' = []"
          "e_waittobestable h' = e_waittobestable h + 1" "e_obj h' = e_obj h"
          "e_number_of_nodes h' = e_number_of_nodes h" "e_node_id h' = e_node_id h"
          "e_vc h' = e_vc h"
          "e_ackCounts h' = (e_ackCounts h)(?key := e_ackCounts h ?key + 1)"
        using enough r(1) Some pc n st
        by (auto simp: handleAckAndMaybeStabilize_def Let_def ecros_required_def
            commitStableCalls_def fun_eq_iff)
      have "ecros_inv h'" using inv h' by (auto simp: ecros_inv_def)
      moreover have "e_calls h' = remove1 p (e_calls h)"
        using h'(1) dist by (simp add: distinct_remove1_removeAll removeAll_filter_not_eq eq_commute)
      ultimately show ?thesis using run h' p enough by auto
    qed
  qed
qed

lemma handleAck_keeps:
  assumes "ecros_inv h" and "traversal iter" and "handleAckAndMaybeStabilize iter ack h = Some h'"
  shows "ecros_inv h'" and "set (e_edges h') \<subseteq> set (e_edges h)"
  using handleAck_returns [OF assms(1,2), of ack] assms(3) by auto

section \<open>Runs\<close>

inductive ecros_reachable :: "'st ecros_uc \<Rightarrow> (nat list \<Rightarrow> nat list) \<Rightarrow> 'st ecros \<Rightarrow> bool"
  for uc iter where
  ecros_start: "0 < n \<Longrightarrow> ecros_reachable uc iter (ecros_setVars me n expected wp (Ecros_new uc))"
| ecros_local: "ecros_reachable uc iter h \<Longrightarrow> fresh p h \<Longrightarrow> \<not> stable c \<Longrightarrow>
     exeLocal uc iter p c h = Some (h', c') \<Longrightarrow> ecros_reachable uc iter h'"
| ecros_remote: "ecros_reachable uc iter h \<Longrightarrow> fresh p h \<Longrightarrow> \<not> stable c \<Longrightarrow>
     length (call_vector_clock c) = e_number_of_nodes h \<Longrightarrow>
     exeRemote uc iter p c h = Some h' \<Longrightarrow> ecros_reachable uc iter h'"

lemma exeLocal_in_range:
  assumes "ecros_inv h" and "exeLocal uc iter p c h = Some (h', c')"
    and "\<not> shouldSkip uc c (e_obj h)"
  shows "0 \<le> e_node_id h \<and> e_node_id h < int (e_number_of_nodes h)"
  using assms
  by (auto simp: exeLocal_def Option.bind_eq_Some_conv vincr_Some_iff ecros_inv_def)

lemma exeLocal_keeps_inv:
  assumes "ecros_inv h" and "fresh p h" and "traversal iter" and "\<not> stable c"
    and "exeLocal uc iter p c h = Some (h', c')"
  shows "ecros_inv h' \<and> (\<exists>es. e_edges h' = e_edges h @ es \<and> (\<forall>e \<in> set es. etype e = ''hb''))"
proof (cases "shouldSkip uc c (e_obj h)")
  case True
  then show ?thesis using assms by (simp add: exeLocal_def)
next
  case False
  then show ?thesis
    using exeLocal_returns [OF assms(1-3) _ _ assms(4), of uc]
      exeLocal_in_range [OF assms(1,5) False] assms(5) by auto
qed

lemma ecros_reachable_inv:
  "ecros_reachable uc iter h \<Longrightarrow> traversal iter \<Longrightarrow> ecros_inv h"
proof (induction rule: ecros_reachable.induct)
  case (ecros_start n me expected wp)
  then show ?case by (simp add: ecros_inv_def ecros_setVars_def Ecros_new_def)
next
  case (ecros_local h p c h' c')
  then show ?case using exeLocal_keeps_inv by blast
next
  case (ecros_remote h p c h')
  show ?case
  proof (cases "ctype c = ''Ack''")
    case True
    then have "handleAckAndMaybeStabilize iter c h = Some h'"
      using ecros_remote by (simp add: exeRemote_def)
    then show ?thesis
      using handleAck_keeps(1) ecros_remote.IH [OF ecros_remote.prems] ecros_remote.prems by blast
  next
    case False
    then show ?thesis
      using exeRemote_returns [OF _ ecros_remote.hyps(2) ecros_remote.prems, of c uc]
        ecros_remote by auto
  qed
qed

text \<open>Without a resolution \<open>'T'\<close> no arbitration edge is ever created.\<close>

lemma ecros_no_arbitration:
  "ecros_reachable uc iter h \<Longrightarrow> traversal iter \<Longrightarrow> (\<And>a b. resolution uc a b \<noteq> res_T) \<Longrightarrow>
     \<forall>e \<in> set (e_edges h). etype e \<noteq> ''ao''"
proof (induction rule: ecros_reachable.induct)
  case (ecros_start n me expected wp)
  then show ?case by (simp add: ecros_setVars_def Ecros_new_def)
next
  case (ecros_local h p c h' c')
  then show ?case
    using exeLocal_keeps_inv [OF ecros_reachable_inv] by fastforce
next
  case (ecros_remote h p c h')
  note inv = ecros_reachable_inv [OF ecros_remote.hyps(1) ecros_remote.prems(1)]
  have old: "\<forall>e \<in> set (e_edges h). etype e \<noteq> ''ao''"
    using ecros_remote.IH ecros_remote.prems by blast
  show ?case
  proof (cases "ctype c = ''Ack''")
    case True
    then have "handleAckAndMaybeStabilize iter c h = Some h'"
      using ecros_remote by (simp add: exeRemote_def)
    then have "set (e_edges h') \<subseteq> set (e_edges h)"
      by (rule handleAck_keeps(2) [OF inv ecros_remote.prems(1)])
    then show ?thesis using old by auto
  next
    case False
    from exeRemote_returns [OF inv ecros_remote.hyps(2) ecros_remote.prems(1), of c uc]
      ecros_remote.hyps False
    obtain es where "ends_within (e_edges h') (e_edges h @ es)"
      "\<forall>e \<in> set es. etype e = ''ao'' \<longrightarrow> (\<exists>a b. resolution uc a b = res_T)" by auto
    then show ?thesis using old ecros_remote.prems(2) unfolding ends_within_def by auto
  qed
qed

end
