(* ===== verification/Ecros_Objects.thy ===== *)
theory Ecros_Objects
  imports Ecros_Node
begin

text \<open>
  The use-case objects of the ECRO baseline, \<^verbatim>\<open>ecros-stack.hpp\<close>, \<^verbatim>\<open>ecros-set.hpp\<close>,
  \<^verbatim>\<open>ecros-project.hpp\<close>, \<^verbatim>\<open>ecros-movie.hpp\<close> and \<^verbatim>\<open>ecros-courseware.hpp\<close>: commutation tables,
  conflict resolution, states and their updates. The stack and the set do not remember the
  calls they apply locally, the other three do; the last part shows what follows.
\<close>

section \<open>Replay\<close>

text \<open>
  \<open>recomputeState\<close>, the same in every object: the calls of the order that are not in
  \<open>applied\<close> are applied and entered.
\<close>

fun replay ::
  "('st \<Rightarrow> (int \<times> int) set) \<Rightarrow> ((int \<times> int) \<Rightarrow> 'st \<Rightarrow> 'st) \<Rightarrow> (call \<Rightarrow> 'st \<Rightarrow> 'st) \<Rightarrow> call list \<Rightarrow> 'st \<Rightarrow> 'st"
where
  "replay get add eff [] s = s"
| "replay get add eff (c # cs) s =
     (let uid = (call_id c, node_id c) in
      if uid \<in> get s then replay get add eff cs s
      else replay get add eff cs (add uid (eff c s)))"

section \<open>The stack object\<close>

record EStackState =
  estack_elements :: "int list"
  estack_applied :: "(int \<times> int) set"

text \<open>The object after its constructor and its \<open>setVars\<close>, which enters 0 to 49.\<close>

definition EStackState_init :: EStackState where
  "EStackState_init = \<lparr>estack_elements = map int [0..<50], estack_applied = {}\<rparr>"

definition estack_seqCommutative :: "call \<Rightarrow> call \<Rightarrow> bool" where
  "estack_seqCommutative a b \<longleftrightarrow>
      ctype a = ''Pop'' \<and> ctype b = ''Pop''"

definition estack_resolution :: "call \<Rightarrow> call \<Rightarrow> int" where
  "estack_resolution a b =
     res_top"

text \<open>The effect of a call on the tables, as in \<open>applyCall\<close>.\<close>

definition estack_effect :: "call \<Rightarrow> EStackState \<Rightarrow> EStackState" where
  "estack_effect c s =
     (if ctype c = ''Push''
      then s\<lparr>estack_elements := estack_elements s @ [value1 c]\<rparr>
      else if ctype c = ''Pop'' \<and> estack_elements s \<noteq> []
      then s\<lparr>estack_elements := butlast (estack_elements s)\<rparr>
      else s)"

definition estack_applyCall :: "call \<Rightarrow> EStackState \<Rightarrow> EStackState" where
  "estack_applyCall c s = estack_effect c s"

definition estack_recomputeState :: "call list \<Rightarrow> EStackState \<Rightarrow> EStackState" where
  "estack_recomputeState =
     replay estack_applied (\<lambda>uid s. s\<lparr>estack_applied := insert uid (estack_applied s)\<rparr>)
       estack_effect"

definition estack_shouldSkip :: "call \<Rightarrow> EStackState \<Rightarrow> bool" where
  "estack_shouldSkip c s =
     (if ctype c = ''Pop'' then estack_elements s = [] else False)"

definition estack_uc :: "EStackState ecros_uc" where
  "estack_uc = \<lparr>ecros_initial = EStackState_init, seqCommutative = estack_seqCommutative,
     commutative = estack_seqCommutative, resolution = estack_resolution, idcmp = idcmp_calls,
     shouldSkip = estack_shouldSkip, applyCall = estack_applyCall,
     recomputeObj = estack_recomputeState\<rparr>"

section \<open>The set object\<close>

record ESetState =
  eset_elements :: "int set"
  eset_applied :: "(int \<times> int) set"

text \<open>The object after its constructor and its \<open>setVars\<close>, which enters 0 to 49.\<close>

definition ESetState_init :: ESetState where
  "ESetState_init = \<lparr>eset_elements = set (map int [0..<50]), eset_applied = {}\<rparr>"

definition eset_seqCommutative :: "call \<Rightarrow> call \<Rightarrow> bool" where
  "eset_seqCommutative a b \<longleftrightarrow>
      (ctype a = ''Add'' \<and> ctype b = ''Add'') \<or> (ctype a = ''Remove'' \<and> ctype b = ''Remove'')"

definition eset_resolution :: "call \<Rightarrow> call \<Rightarrow> int" where
  "eset_resolution a b =
     res_top"

text \<open>The effect of a call on the tables, as in \<open>applyCall\<close>.\<close>

definition eset_effect :: "call \<Rightarrow> ESetState \<Rightarrow> ESetState" where
  "eset_effect c s =
     (if ctype c = ''Add''
      then s\<lparr>eset_elements := insert (value1 c) (eset_elements s)\<rparr>
      else if ctype c = ''Remove'' \<and> eset_elements s \<noteq> {}
      then s\<lparr>eset_elements := eset_elements s - {value1 c}\<rparr>
      else s)"

definition eset_applyCall :: "call \<Rightarrow> ESetState \<Rightarrow> ESetState" where
  "eset_applyCall c s = eset_effect c s"

definition eset_recomputeState :: "call list \<Rightarrow> ESetState \<Rightarrow> ESetState" where
  "eset_recomputeState =
     replay eset_applied (\<lambda>uid s. s\<lparr>eset_applied := insert uid (eset_applied s)\<rparr>)
       eset_effect"

definition eset_shouldSkip :: "call \<Rightarrow> ESetState \<Rightarrow> bool" where
  "eset_shouldSkip c s =
     (if ctype c = ''Remove'' then eset_elements s = {} else False)"

definition eset_uc :: "ESetState ecros_uc" where
  "eset_uc = \<lparr>ecros_initial = ESetState_init, seqCommutative = eset_seqCommutative,
     commutative = eset_seqCommutative, resolution = eset_resolution, idcmp = idcmp_calls,
     shouldSkip = eset_shouldSkip, applyCall = eset_applyCall,
     recomputeObj = eset_recomputeState\<rparr>"

section \<open>The project object\<close>

record EProjectState =
  eemployee_ids :: "int set"
  eproject_ids :: "int set"
  eworks :: "(int \<times> int) set"
  eproject_applied :: "(int \<times> int) set"

text \<open>The object after its constructor and its \<open>setVars\<close>, which enters 0 to 49.\<close>

definition EProjectState_init :: EProjectState where
  "EProjectState_init = \<lparr>eemployee_ids = set (map int [0..<50]),
     eproject_ids = set (map int [0..<50]), eworks = {}, eproject_applied = {}\<rparr>"

definition eproject_seqCommutative :: "call \<Rightarrow> call \<Rightarrow> bool" where
  "eproject_seqCommutative a b \<longleftrightarrow>
      (ctype a = ''AddEmployee'' \<and>
        ctype b \<in> {''AaddEmployee'', ''AddProject'', ''DeleteProject'', ''WorksOn''}) \<or>
      (ctype a = ''AddProject'' \<and>
        ctype b \<in> {''AddProject'', ''AddEmployee'', ''DeleteEmployee'', ''WorksOn''}) \<or>
      (ctype a = ''DeleteEmployee'' \<and>
        ctype b \<in> {''DeleteEmployee'', ''DeleteProject'', ''AddProject''}) \<or>
      (ctype a = ''DeleteProject'' \<and>
        ctype b \<in> {''DeleteProject'', ''DeleteEmployee'', ''AddEmployee''}) \<or>
      (ctype a = ''WorksOn'' \<and> ctype b \<in> {''WorksOn'', ''AddEmployee'', ''AddProject''})"

definition eproject_resolution :: "call \<Rightarrow> call \<Rightarrow> int" where
  "eproject_resolution a b =
     (if ctype a \<in> {''DeleteEmployee'', ''DeleteProject''} \<and> ctype b = ''WorksOn'' then res_before
      else if ctype a = ''WorksOn'' \<and> ctype b \<in> {''DeleteEmployee'', ''DeleteProject''} then res_after
      else res_top)"

text \<open>The effect of a call on the tables, as in \<open>applyCall\<close>.\<close>

definition eproject_effect :: "call \<Rightarrow> EProjectState \<Rightarrow> EProjectState" where
  "eproject_effect c s =
     (if ctype c = ''AddProject''
      then s\<lparr>eproject_ids := insert (value1 c) (eproject_ids s)\<rparr>
      else if ctype c = ''DeleteProject'' \<and> eproject_ids s \<noteq> {}
      then s\<lparr>eproject_ids := eproject_ids s - {value1 c}\<rparr>
      else if ctype c = ''WorksOn''
      then s\<lparr>eworks := insert (value1 c, value2 c) (eworks s)\<rparr>
      else if ctype c = ''AddEmployee''
      then s\<lparr>eemployee_ids := insert (value1 c) (eemployee_ids s)\<rparr>
      else if ctype c = ''DeleteEmployee'' \<and> eemployee_ids s \<noteq> {}
      then s\<lparr>eemployee_ids := eemployee_ids s - {value1 c}\<rparr>
      else s)"

definition eproject_applyCall :: "call \<Rightarrow> EProjectState \<Rightarrow> EProjectState" where
  "eproject_applyCall c s =
     (let uid = (call_id c, node_id c) in
      if uid \<in> eproject_applied s then s
      else (eproject_effect c s)\<lparr>eproject_applied := insert uid (eproject_applied s)\<rparr>)"

definition eproject_recomputeState :: "call list \<Rightarrow> EProjectState \<Rightarrow> EProjectState" where
  "eproject_recomputeState =
     replay eproject_applied (\<lambda>uid s. s\<lparr>eproject_applied := insert uid (eproject_applied s)\<rparr>)
       eproject_effect"

definition eproject_shouldSkip :: "call \<Rightarrow> EProjectState \<Rightarrow> bool" where
  "eproject_shouldSkip c s =
     (if ctype c = ''DeleteProject'' then eproject_ids s = {} else eemployee_ids s = {})"

definition eproject_uc :: "EProjectState ecros_uc" where
  "eproject_uc = \<lparr>ecros_initial = EProjectState_init, seqCommutative = eproject_seqCommutative,
     commutative = eproject_seqCommutative, resolution = eproject_resolution, idcmp = idcmp_calls,
     shouldSkip = eproject_shouldSkip, applyCall = eproject_applyCall,
     recomputeObj = eproject_recomputeState\<rparr>"

section \<open>The movie object\<close>

record EMovieState =
  emovie_ids :: "int set"
  ecustomer_ids :: "int set"
  emovie_applied :: "(int \<times> int) set"

text \<open>The object after its constructor and its \<open>setVars\<close>, which enters 0 to 49.\<close>

definition EMovieState_init :: EMovieState where
  "EMovieState_init = \<lparr>emovie_ids = set (map int [0..<50]),
     ecustomer_ids = set (map int [0..<50]), emovie_applied = {}\<rparr>"

definition emovie_seqCommutative :: "call \<Rightarrow> call \<Rightarrow> bool" where
  "emovie_seqCommutative a b \<longleftrightarrow>
      (ctype a = ''AddMovie'' \<and>
        ctype b \<in> {''AddMovie'', ''AddCustomer'', ''DeleteCustomer''}) \<or>
      (ctype a = ''AddCustomer'' \<and>
        ctype b \<in> {''AddMovie'', ''AddCustomer'', ''DeleteMovie''}) \<or>
      (ctype a = ''DeleteMovie'' \<and>
        ctype b \<in> {''AddCustomer'', ''DeleteMovie'', ''DeleteCustomer''}) \<or>
      (ctype a = ''DeleteCustomer'' \<and>
        ctype b \<in> {''AddMovie'', ''DeleteMovie'', ''DeleteCustomer''})"

definition emovie_resolution :: "call \<Rightarrow> call \<Rightarrow> int" where
  "emovie_resolution a b =
     res_top"

text \<open>The effect of a call on the tables, as in \<open>applyCall\<close>.\<close>

definition emovie_effect :: "call \<Rightarrow> EMovieState \<Rightarrow> EMovieState" where
  "emovie_effect c s =
     (if ctype c = ''AddMovie''
      then s\<lparr>emovie_ids := insert (value1 c) (emovie_ids s)\<rparr>
      else if ctype c = ''DeleteMovie'' \<and> emovie_ids s \<noteq> {}
      then s\<lparr>emovie_ids := emovie_ids s - {value1 c}\<rparr>
      else if ctype c = ''AddCustomer''
      then s\<lparr>ecustomer_ids := insert (value1 c) (ecustomer_ids s)\<rparr>
      else if ctype c = ''DeleteCustomer'' \<and> emovie_ids s \<noteq> {}
      then s\<lparr>ecustomer_ids := ecustomer_ids s - {value1 c}\<rparr>
      else s)"

text \<open>The effect as in \<open>recomputeState\<close>.\<close>

definition emovie_replay_effect :: "call \<Rightarrow> EMovieState \<Rightarrow> EMovieState" where
  "emovie_replay_effect c s =
     (if ctype c = ''AddMovie''
      then s\<lparr>emovie_ids := insert (value1 c) (emovie_ids s)\<rparr>
      else if ctype c = ''DeleteMovie'' \<and> emovie_ids s \<noteq> {}
      then s\<lparr>emovie_ids := emovie_ids s - {value1 c}\<rparr>
      else if ctype c = ''AddCustomer''
      then s\<lparr>ecustomer_ids := insert (value1 c) (ecustomer_ids s)\<rparr>
      else if ctype c = ''DeleteCustomer'' \<and> ecustomer_ids s \<noteq> {}
      then s\<lparr>ecustomer_ids := ecustomer_ids s - {value1 c}\<rparr>
      else s)"

definition emovie_applyCall :: "call \<Rightarrow> EMovieState \<Rightarrow> EMovieState" where
  "emovie_applyCall c s =
     (let uid = (call_id c, node_id c) in
      if uid \<in> emovie_applied s then s
      else (emovie_effect c s)\<lparr>emovie_applied := insert uid (emovie_applied s)\<rparr>)"

definition emovie_recomputeState :: "call list \<Rightarrow> EMovieState \<Rightarrow> EMovieState" where
  "emovie_recomputeState =
     replay emovie_applied (\<lambda>uid s. s\<lparr>emovie_applied := insert uid (emovie_applied s)\<rparr>)
       emovie_replay_effect"

definition emovie_shouldSkip :: "call \<Rightarrow> EMovieState \<Rightarrow> bool" where
  "emovie_shouldSkip c s =
     (if ctype c = ''DeleteCustomer'' then ecustomer_ids s = {} else emovie_ids s = {})"

definition emovie_uc :: "EMovieState ecros_uc" where
  "emovie_uc = \<lparr>ecros_initial = EMovieState_init, seqCommutative = emovie_seqCommutative,
     commutative = emovie_seqCommutative, resolution = emovie_resolution, idcmp = idcmp_calls,
     shouldSkip = emovie_shouldSkip, applyCall = emovie_applyCall,
     recomputeObj = emovie_recomputeState\<rparr>"

section \<open>The courseware object\<close>

record ECoursewareState =
  estudent_ids :: "int set"
  ecourse_ids :: "int set"
  eenroll :: "(int \<times> int) set"
  ecourse_applied :: "(int \<times> int) set"

text \<open>The object after its constructor and its \<open>setVars\<close>, which enters 0 to 49.\<close>

definition ECoursewareState_init :: ECoursewareState where
  "ECoursewareState_init = \<lparr>estudent_ids = set (map int [0..<50]),
     ecourse_ids = set (map int [0..<50]), eenroll = {}, ecourse_applied = {}\<rparr>"

definition ecourse_seqCommutative :: "call \<Rightarrow> call \<Rightarrow> bool" where
  "ecourse_seqCommutative a b \<longleftrightarrow>
      (ctype a = ''AddCourse'' \<and>
        ctype b \<in> {''AddCourse'', ''AddStudent'', ''DeleteStudent'', ''Enroll''}) \<or>
      (ctype a = ''AddStudent'' \<and>
        ctype b \<in> {''AddCourse'', ''AddStudent'', ''DeleteCourse'', ''Enroll''}) \<or>
      (ctype a = ''DeleteCourse'' \<and>
        ctype b \<in> {''AddStudent'', ''DeleteCourse'', ''DeleteStudent'', ''Enroll''}) \<or>
      (ctype a = ''Enroll'' \<and>
        ctype b \<in> {''AddCourse'', ''AddStudent'', ''DeleteCourse'', ''DeleteStudent'', ''Enroll''})"

definition ecourse_resolution :: "call \<Rightarrow> call \<Rightarrow> int" where
  "ecourse_resolution a b =
     (if ctype a \<in> {''DeleteCourse'', ''DeleteStudent''} \<and> ctype b = ''Enroll'' then res_before
      else if ctype a = ''Enroll'' \<and> ctype b \<in> {''DeleteCourse'', ''DeleteStudent''} then res_after
      else res_top)"

text \<open>The effect of a call on the tables, as in \<open>applyCall\<close>.\<close>

definition ecourse_effect :: "call \<Rightarrow> ECoursewareState \<Rightarrow> ECoursewareState" where
  "ecourse_effect c s =
     (if ctype c = ''AddCourse''
      then s\<lparr>ecourse_ids := insert (value1 c) (ecourse_ids s)\<rparr>
      else if ctype c = ''DeleteCourse'' \<and> ecourse_ids s \<noteq> {}
      then s\<lparr>ecourse_ids := ecourse_ids s - {value1 c}\<rparr>
      else if ctype c = ''Enroll''
      then s\<lparr>eenroll := insert (value1 c, value2 c) (eenroll s)\<rparr>
      else if ctype c = ''AddStudent''
      then s\<lparr>estudent_ids := insert (value1 c) (estudent_ids s)\<rparr>
      else if ctype c = ''DeleteStudent'' \<and> estudent_ids s \<noteq> {}
      then s\<lparr>estudent_ids := estudent_ids s - {value1 c}\<rparr>
      else s)"

definition ecourse_applyCall :: "call \<Rightarrow> ECoursewareState \<Rightarrow> ECoursewareState" where
  "ecourse_applyCall c s =
     (let uid = (call_id c, node_id c) in
      if uid \<in> ecourse_applied s then s
      else (ecourse_effect c s)\<lparr>ecourse_applied := insert uid (ecourse_applied s)\<rparr>)"

definition ecourse_recomputeState :: "call list \<Rightarrow> ECoursewareState \<Rightarrow> ECoursewareState" where
  "ecourse_recomputeState =
     replay ecourse_applied (\<lambda>uid s. s\<lparr>ecourse_applied := insert uid (ecourse_applied s)\<rparr>)
       ecourse_effect"

definition ecourse_shouldSkip :: "call \<Rightarrow> ECoursewareState \<Rightarrow> bool" where
  "ecourse_shouldSkip c s =
     (if ctype c = ''DeleteCourse'' then ecourse_ids s = {} else estudent_ids s = {})"

definition ecourse_uc :: "ECoursewareState ecros_uc" where
  "ecourse_uc = \<lparr>ecros_initial = ECoursewareState_init, seqCommutative = ecourse_seqCommutative,
     commutative = ecourse_seqCommutative, resolution = ecourse_resolution, idcmp = idcmp_calls,
     shouldSkip = ecourse_shouldSkip, applyCall = ecourse_applyCall,
     recomputeObj = ecourse_recomputeState\<rparr>"

lemmas ecros_uc_defs = estack_uc_def eset_uc_def eproject_uc_def emovie_uc_def ecourse_uc_def

section \<open>Arbitration\<close>

text \<open>No object ever answers \<open>'T'\<close>: the literal for top does not fit a \<open>char\<close>.\<close>

lemma no_resolution_T:
  "resolution estack_uc a b \<noteq> res_T" "resolution eset_uc a b \<noteq> res_T"
  "resolution eproject_uc a b \<noteq> res_T" "resolution emovie_uc a b \<noteq> res_T"
  "resolution ecourse_uc a b \<noteq> res_T"
  by (simp_all add: ecros_uc_defs estack_resolution_def eset_resolution_def eproject_resolution_def
      emovie_resolution_def ecourse_resolution_def res_T_def res_top_def res_before_def res_after_def)

section \<open>Replay applies a call once\<close>

text \<open>
  Of two calls of a list, one is required to go first or the table declares them
  sequentially commutative.
\<close>

definition seq_or_before ::
  "(call \<Rightarrow> call \<Rightarrow> bool) \<Rightarrow> (call \<Rightarrow> call \<Rightarrow> bool) \<Rightarrow> call list \<Rightarrow> bool" where
  "seq_or_before seq before cs \<longleftrightarrow>
     (\<forall>c \<in> set cs. \<forall>d \<in> set cs. c \<noteq> d \<longrightarrow> before c d \<or> before d c \<or> seq c d)"

text \<open>
  The contract of an object the handler replays calls on: entering a call in \<open>applied\<close> and
  the effects are independent, and calls the table declares sequentially commutative
  commute. It gives what a replay does: every call of the order is applied afterwards, none
  twice, a second replay changes nothing, and the order of the commuting calls is irrelevant.
\<close>

locale replayed_object =
  fixes get :: "'st \<Rightarrow> (int \<times> int) set"
    and add :: "int \<times> int \<Rightarrow> 'st \<Rightarrow> 'st"
    and eff :: "call \<Rightarrow> 'st \<Rightarrow> 'st"
    and seq :: "call \<Rightarrow> call \<Rightarrow> bool"
  assumes get_add: "get (add uid s) = insert uid (get s)"
    and get_eff: "get (eff c s) = get s"
    and add_eff: "add uid (eff c s) = eff c (add uid s)"
    and add_add: "add uid (add uid' s) = add uid' (add uid s)"
    and seq_commute: "seq a b \<Longrightarrow> eff a (eff b s) = eff b (eff a s)"
begin

lemma replay_applied:
  "get (replay get add eff cs s) = get s \<union> (\<lambda>c. (call_id c, node_id c)) ` set cs"
  by (induction cs arbitrary: s) (auto simp: Let_def get_add get_eff insert_absorb)

lemma replay_done:
  "\<forall>c \<in> set cs. (call_id c, node_id c) \<in> get s \<Longrightarrow> replay get add eff cs s = s"
  by (induction cs) (auto simp: Let_def)

lemma replay_twice: "replay get add eff cs (replay get add eff cs s) = replay get add eff cs s"
  by (rule replay_done) (simp add: replay_applied)

text \<open>The replay of calls with different numbers is the fold of the effects of the new ones.\<close>

lemma replay_fold:
  assumes "distinct (map (\<lambda>c. (call_id c, node_id c)) cs)"
  shows "replay get add eff cs s
     = fold (\<lambda>c s. add (call_id c, node_id c) (eff c s))
         (filter (\<lambda>c. (call_id c, node_id c) \<notin> get s) cs) s"
  using assms
proof (induction cs arbitrary: s)
  case Nil
  then show ?case by simp
next
  case (Cons c cs)
  let ?uid = "\<lambda>c. (call_id c, node_id c)"
  have other: "filter (\<lambda>d. ?uid d \<notin> insert (?uid c) (get s)) cs = filter (\<lambda>d. ?uid d \<notin> get s) cs"
    using Cons.prems by (intro filter_cong refl) (force simp: image_iff)
  show ?case
    using Cons.IH [of s] Cons.IH [of "add (?uid c) (eff c s)"] Cons.prems other
    by (simp add: Let_def get_add get_eff)
qed

lemma replay_orders_agree:
  assumes "distinct (map (\<lambda>c. (call_id c, node_id c)) cs)" and "mset cs = mset ds"
    and "sorted_wrt (\<lambda>x y. \<not> before y x) cs" and "sorted_wrt (\<lambda>x y. \<not> before y x) ds"
    and "seq_or_before seq before cs"
  shows "replay get add eff cs s = replay get add eff ds s"
proof -
  let ?uid = "\<lambda>c. (call_id c, node_id c)"
  have d: "distinct (map ?uid ds)"
    using assms(1,2) by (metis mset_eq_imp_distinct_iff mset_map)
  show ?thesis
    unfolding replay_fold [OF assms(1)] replay_fold [OF d]
  proof (rule fold_ordered_permutations)
    show "mset (filter (\<lambda>c. ?uid c \<notin> get s) cs) = mset (filter (\<lambda>c. ?uid c \<notin> get s) ds)"
      using assms(2) by (metis mset_filter)
    show "sorted_wrt (\<lambda>x y. \<not> before y x) (filter (\<lambda>c. ?uid c \<notin> get s) cs)"
      "sorted_wrt (\<lambda>x y. \<not> before y x) (filter (\<lambda>c. ?uid c \<notin> get s) ds)"
      using assms(3,4) by (simp_all add: sorted_wrt_filter)
    fix c d t
    assume "c \<in> set (filter (\<lambda>c. ?uid c \<notin> get s) cs)" "d \<in> set (filter (\<lambda>c. ?uid c \<notin> get s) cs)"
      "c \<noteq> d" "\<not> before c d" "\<not> before d c"
    then have "seq c d" using assms(5) by (auto simp: seq_or_before_def)
    then show "add (?uid c) (eff c (add (?uid d) (eff d t)))
        = add (?uid d) (eff d (add (?uid c) (eff c t)))"
      by (metis add_add add_eff seq_commute)
  qed
qed

end

text \<open>
  The guards of the deletions are redundant, so every effect is an update of each table on
  its own.
\<close>

lemma eset_effect_eq:
  "eset_effect c s = s\<lparr>eset_elements :=
     (if ctype c = ''Add'' then insert (value1 c) (eset_elements s)
      else if ctype c = ''Remove'' then eset_elements s - {value1 c} else eset_elements s)\<rparr>"
  by (simp add: eset_effect_def)

lemma eproject_effect_eq:
  "eproject_effect c s = s\<lparr>
     eemployee_ids :=
       (if ctype c = ''AddEmployee'' then insert (value1 c) (eemployee_ids s)
        else if ctype c = ''DeleteEmployee'' then eemployee_ids s - {value1 c}
        else eemployee_ids s),
     eproject_ids :=
       (if ctype c = ''AddProject'' then insert (value1 c) (eproject_ids s)
        else if ctype c = ''DeleteProject'' then eproject_ids s - {value1 c}
        else eproject_ids s),
     eworks := (if ctype c = ''WorksOn'' then insert (value1 c, value2 c) (eworks s)
        else eworks s)\<rparr>"
  by (simp add: eproject_effect_def)

lemma emovie_replay_effect_eq:
  "emovie_replay_effect c s = s\<lparr>
     emovie_ids :=
       (if ctype c = ''AddMovie'' then insert (value1 c) (emovie_ids s)
        else if ctype c = ''DeleteMovie'' then emovie_ids s - {value1 c} else emovie_ids s),
     ecustomer_ids :=
       (if ctype c = ''AddCustomer'' then insert (value1 c) (ecustomer_ids s)
        else if ctype c = ''DeleteCustomer'' then ecustomer_ids s - {value1 c}
        else ecustomer_ids s)\<rparr>"
  by (simp add: emovie_replay_effect_def)

lemma ecourse_effect_eq:
  "ecourse_effect c s = s\<lparr>
     estudent_ids :=
       (if ctype c = ''AddStudent'' then insert (value1 c) (estudent_ids s)
        else if ctype c = ''DeleteStudent'' then estudent_ids s - {value1 c}
        else estudent_ids s),
     ecourse_ids :=
       (if ctype c = ''AddCourse'' then insert (value1 c) (ecourse_ids s)
        else if ctype c = ''DeleteCourse'' then ecourse_ids s - {value1 c}
        else ecourse_ids s),
     eenroll := (if ctype c = ''Enroll'' then insert (value1 c, value2 c) (eenroll s)
        else eenroll s)\<rparr>"
  by (simp add: ecourse_effect_def)

lemma eset_seq_commute:
  "eset_seqCommutative a b \<Longrightarrow> eset_effect a (eset_effect b s) = eset_effect b (eset_effect a s)"
  unfolding eset_seqCommutative_def
  by (elim disjE conjE) (simp_all add: eset_effect_eq insert_commute remove_remove_commute)

lemma eproject_seq_commute:
  "eproject_seqCommutative a b \<Longrightarrow>
     eproject_effect a (eproject_effect b s) = eproject_effect b (eproject_effect a s)"
  unfolding eproject_seqCommutative_def
  by (elim disjE conjE insertE emptyE)
    (simp_all add: eproject_effect_eq insert_commute [of "value1 a"] remove_remove_commute insert_commute [of "(value1 a, value2 a)"])

lemma emovie_seq_commute:
  "emovie_seqCommutative a b \<Longrightarrow>
     emovie_replay_effect a (emovie_replay_effect b s)
       = emovie_replay_effect b (emovie_replay_effect a s)"
  unfolding emovie_seqCommutative_def
  by (elim disjE conjE insertE emptyE)
    (simp_all add: emovie_replay_effect_eq insert_commute [of "value1 a"] remove_remove_commute)

lemma ecourse_seq_commute:
  "ecourse_seqCommutative a b \<Longrightarrow>
     ecourse_effect a (ecourse_effect b s) = ecourse_effect b (ecourse_effect a s)"
  unfolding ecourse_seqCommutative_def
  by (elim disjE conjE insertE emptyE)
    (simp_all add: ecourse_effect_eq insert_commute [of "value1 a"] remove_remove_commute insert_commute [of "(value1 a, value2 a)"])

interpretation estack: replayed_object estack_applied
    "\<lambda>uid s. s\<lparr>estack_applied := insert uid (estack_applied s)\<rparr>" estack_effect estack_seqCommutative
  by unfold_locales (simp_all add: estack_effect_def estack_seqCommutative_def insert_commute)

interpretation eset: replayed_object eset_applied
    "\<lambda>uid s. s\<lparr>eset_applied := insert uid (eset_applied s)\<rparr>" eset_effect eset_seqCommutative
proof unfold_locales
  show "eset_seqCommutative a b \<Longrightarrow>
      eset_effect a (eset_effect b s) = eset_effect b (eset_effect a s)" for a b s
    by (rule eset_seq_commute)
qed (simp_all add: eset_effect_eq insert_commute)

interpretation eproject: replayed_object eproject_applied
    "\<lambda>uid s. s\<lparr>eproject_applied := insert uid (eproject_applied s)\<rparr>" eproject_effect
    eproject_seqCommutative
proof unfold_locales
  show "eproject_seqCommutative a b \<Longrightarrow>
      eproject_effect a (eproject_effect b s) = eproject_effect b (eproject_effect a s)" for a b s
    by (rule eproject_seq_commute)
qed (simp_all add: eproject_effect_eq insert_commute)

interpretation emovie: replayed_object emovie_applied
    "\<lambda>uid s. s\<lparr>emovie_applied := insert uid (emovie_applied s)\<rparr>" emovie_replay_effect
    emovie_seqCommutative
proof unfold_locales
  show "emovie_seqCommutative a b \<Longrightarrow>
      emovie_replay_effect a (emovie_replay_effect b s)
        = emovie_replay_effect b (emovie_replay_effect a s)" for a b s
    by (rule emovie_seq_commute)
qed (simp_all add: emovie_replay_effect_eq insert_commute)

interpretation ecourse: replayed_object ecourse_applied
    "\<lambda>uid s. s\<lparr>ecourse_applied := insert uid (ecourse_applied s)\<rparr>" ecourse_effect
    ecourse_seqCommutative
proof unfold_locales
  show "ecourse_seqCommutative a b \<Longrightarrow>
      ecourse_effect a (ecourse_effect b s) = ecourse_effect b (ecourse_effect a s)" for a b s
    by (rule ecourse_seq_commute)
qed (simp_all add: ecourse_effect_eq insert_commute)

text \<open>A local call is applied when it is invoked, and the next replays skip it.\<close>

lemma eproject_local_once:
  "eproject_recomputeState [c] (eproject_applyCall c s) = eproject_applyCall c s"
  unfolding eproject_recomputeState_def
  by (rule eproject.replay_done) (simp add: eproject_applyCall_def Let_def)

lemma emovie_local_once:
  "emovie_recomputeState [c] (emovie_applyCall c s) = emovie_applyCall c s"
  unfolding emovie_recomputeState_def
  by (rule emovie.replay_done) (simp add: emovie_applyCall_def Let_def)

lemma ecourse_local_once:
  "ecourse_recomputeState [c] (ecourse_applyCall c s) = ecourse_applyCall c s"
  unfolding ecourse_recomputeState_def
  by (rule ecourse.replay_done) (simp add: ecourse_applyCall_def Let_def)

text \<open>The stack and the set do not enter local calls: a replay applies them a second time.\<close>

lemma estack_local_twice:
  assumes "ctype c = ''Push''" and "(call_id c, node_id c) \<notin> estack_applied s"
  shows "estack_elements (estack_recomputeState [c] (estack_applyCall c s))
     = estack_elements s @ [value1 c, value1 c]"
  using assms
  by (simp add: estack_recomputeState_def estack_applyCall_def estack_effect_def Let_def)

end
