(* ===== verification/Ecros_Bench.thy ===== *)
theory Ecros_Bench
  imports Ecros_Objects Call_Codec Set_Object Stack_Object Movie_Object Project_Object
    Courseware_Object
begin

text \<open>
  What the files of the baseline repeat word for word from the Hamsou side: the wire format of
  a call in \<^verbatim>\<open>protocol-ecros.cpp\<close>, and the method names, the check of a received call and
  the workload reader of every \<^verbatim>\<open>ecros-*.hpp\<close>. The dispatch of a received message, which
  the baseline makes without that check, is added.
\<close>

section \<open>Wire format\<close>

definition ecros_serializeCalls :: "call \<Rightarrow> bytes \<Rightarrow> (bytes \<times> nat) option" where
  "ecros_serializeCalls c buffer = serialize_call c buffer"

definition ecros_deserializeCalls :: "'st ecros \<Rightarrow> bytes \<Rightarrow> call option" where
  "ecros_deserializeCalls h buffer = deserialize_call (e_number_of_nodes h) buffer"

definition ecros_internalDownstreamExecute ::
  "'st ecros_uc \<Rightarrow> (nat list \<Rightarrow> nat list) \<Rightarrow> nat \<Rightarrow> call \<Rightarrow> 'st ecros \<Rightarrow> 'st ecros option" where
  "ecros_internalDownstreamExecute uc iter p c h = exeRemote uc iter p c h"

definition ecros_localHandler ::
  "'st ecros_uc \<Rightarrow> (nat list \<Rightarrow> nat list) \<Rightarrow> nat \<Rightarrow> call \<Rightarrow> 'st ecros \<Rightarrow>
     ('st ecros \<times> call) option" where
  "ecros_localHandler uc iter p c h = exeLocal uc iter p c h"

text \<open>The branch of \<open>ServerConnection::receive\<close> for a message that is no control word.\<close>

definition ecros_receive_call ::
  "'st ecros_uc \<Rightarrow> (nat list \<Rightarrow> nat list) \<Rightarrow> nat \<Rightarrow> bytes \<Rightarrow> 'st ecros \<Rightarrow> 'st ecros option" where
  "ecros_receive_call uc iter p buffer h = do {
     c \<leftarrow> ecros_deserializeCalls h buffer;
     ecros_internalDownstreamExecute uc iter p c h }"

text \<open>A serialised call is executed as the call it was, with a clock of the group's size.\<close>

lemma ecros_receive_serialized:
  assumes "wire_ok c" and "e_number_of_nodes h \<le> length (call_vector_clock c)"
    and "ecros_serializeCalls c buffer = Some (buffer', n)"
  shows "ecros_receive_call uc iter p buffer' h
     = exeRemote uc iter p
         (c\<lparr>call_vector_clock := take (e_number_of_nodes h) (call_vector_clock c),
            applied := False\<rparr>) h"
proof -
  have "buffer' = le_bytes 8 (int (length (call_body c))) @ call_body c
      @ drop (8 + length (call_body c)) buffer"
    using assms(3) by (auto simp: ecros_serializeCalls_def serialize_call_def Let_def split: if_splits)
  then show ?thesis
    using deserialize_body [OF assms(1,2), of "le_bytes 8 (int (length (call_body c)))"]
    by (simp add: ecros_receive_call_def ecros_deserializeCalls_def
        ecros_internalDownstreamExecute_def del: le_bytes.simps)
qed

section \<open>The set file\<close>

definition eset_toString :: "int \<Rightarrow> string" where
  "eset_toString n = setToString n"

definition eset_checkValidcall :: "call \<Rightarrow> bool option" where
  "eset_checkValidcall c = Set_checkValidcall c"

definition eset_readBenchFile ::
  "string option \<Rightarrow> int \<Rightarrow> int \<Rightarrow> call \<Rightarrow> call list \<Rightarrow> bench_error + (int \<times> call list)" where
  "eset_readBenchFile = read_bench eset_toString Set_operands"

section \<open>The stack file\<close>

definition estack_toString :: "int \<Rightarrow> string" where
  "estack_toString n = stackToString n"

definition estack_checkValidcall :: "call \<Rightarrow> bool option" where
  "estack_checkValidcall c = Stack_checkValidcall c"

definition estack_readBenchFile ::
  "string option \<Rightarrow> int \<Rightarrow> int \<Rightarrow> call \<Rightarrow> call list \<Rightarrow> bench_error + (int \<times> call list)" where
  "estack_readBenchFile = read_bench estack_toString Stack_operands"

section \<open>The movie file\<close>

definition emovie_toString :: "int \<Rightarrow> string" where
  "emovie_toString n = movieToString n"

definition emovie_checkValidcall :: "call \<Rightarrow> bool option" where
  "emovie_checkValidcall c = Movie_checkValidcall c"

definition emovie_readBenchFile ::
  "string option \<Rightarrow> int \<Rightarrow> int \<Rightarrow> call \<Rightarrow> call list \<Rightarrow> bench_error + (int \<times> call list)" where
  "emovie_readBenchFile = read_bench emovie_toString Movie_operands"

section \<open>The project file\<close>

definition eproject_toString :: "int \<Rightarrow> string" where
  "eproject_toString n = projectToString n"

definition eproject_checkValidcall :: "call \<Rightarrow> bool option" where
  "eproject_checkValidcall c = Project_checkValidcall c"

definition eproject_readBenchFile ::
  "string option \<Rightarrow> int \<Rightarrow> int \<Rightarrow> call \<Rightarrow> call list \<Rightarrow> bench_error + (int \<times> call list)" where
  "eproject_readBenchFile = read_bench eproject_toString Project_operands"

section \<open>The courseware file\<close>

definition ecourse_toString :: "int \<Rightarrow> string" where
  "ecourse_toString n = coursewareToString n"

definition ecourse_checkValidcall :: "call \<Rightarrow> bool option" where
  "ecourse_checkValidcall c = Courseware_checkValidcall c"

definition ecourse_readBenchFile ::
  "string option \<Rightarrow> int \<Rightarrow> int \<Rightarrow> call \<Rightarrow> call list \<Rightarrow> bench_error + (int \<times> call list)" where
  "ecourse_readBenchFile = read_bench ecourse_toString Courseware_operands"

end
