(* ===== verification/Ecros_Main.thy ===== *)
theory Ecros_Main
  imports Ecros_Bench Ecros_Node
begin

text \<open>
  The main loop compiled with \<open>ECROS\<close>: it broadcasts the next acknowledgement, and every
  update of the workload right after the handler has executed it, or skipped it.
\<close>

section \<open>The loop\<close>

text \<open>The loop's variables; \<open>em_payload\<close> is the storage of \<open>payload_buffer\<close>.\<close>

record 'st ecros_main =
  em_hdl :: "'st ecros"
  em_calls :: "call list"
  em_it :: nat
  em_ack_index :: nat
  em_sent :: nat
  em_payload :: bytes
  em_payload_size :: nat
  em_outbox :: "bytes list"

definition ecros_main_start :: "'st ecros \<Rightarrow> call list \<Rightarrow> 'st ecros_main" where
  "ecros_main_start h cs = \<lparr>em_hdl = h, em_calls = cs, em_it = 0, em_ack_index = 0, em_sent = 0,
     em_payload = replicate 256 0, em_payload_size = 256, em_outbox = []\<rparr>"

definition ecros_send :: "call \<Rightarrow> 'st ecros_main \<Rightarrow> 'st ecros_main option" where
  "ecros_send c m = do {
     (buffer, sz) \<leftarrow> ecros_serializeCalls c (em_payload m);
     (if sz \<le> length buffer
      then Some (m\<lparr>
        em_payload := take (em_payload_size m) buffer @ replicate (sz - em_payload_size m) 0
                        @ drop (max sz (em_payload_size m)) buffer,
        em_payload_size := sz,
        em_outbox := em_outbox m @ [take sz buffer]\<rparr>)
      else None) }"

definition ecros_send_ack :: "'st ecros_main \<Rightarrow> 'st ecros_main option" where
  "ecros_send_ack m =
     (if em_ack_index m < length (e_send_ack_call_list (em_hdl m))
      then do {
        m1 \<leftarrow> ecros_send (e_send_ack_call_list (em_hdl m) ! em_ack_index m) m;
        Some (m1\<lparr>em_ack_index := em_ack_index m1 + 1\<rparr>) }
      else Some m)"

definition ecros_finish :: "'st ecros_main \<Rightarrow> 'st ecros_main" where
  "ecros_finish m =
     (if e_last_call_stable (em_hdl m)
      then m\<lparr>em_hdl := (em_hdl m)\<lparr>e_last_call_stable := False\<rparr>\<rparr> else m)"

text \<open>\<open>p\<close> is the address \<open>new\<close> returns if the handler executes a call in this round.\<close>

definition ecros_iteration ::
  "'st ecros_uc \<Rightarrow> (nat list \<Rightarrow> nat list) \<Rightarrow> nat \<Rightarrow> bool \<Rightarrow> 'st ecros_main \<Rightarrow>
     'st ecros_main option" where
  "ecros_iteration uc iter p due m0 = do {
     m \<leftarrow> ecros_send_ack m0;
     (if em_it m < length (em_calls m)
      then if \<not> due then Some m
      else let req = em_calls m ! em_it m in
        if ctype req \<noteq> ''Read''
        then do {
          (h', c') \<leftarrow> ecros_localHandler uc iter p req (em_hdl m);
          m2 \<leftarrow> ecros_send c' (m\<lparr>em_hdl := h', em_calls := (em_calls m)[em_it m := c']\<rparr>);
          Some (ecros_finish (m2\<lparr>em_sent := em_sent m2 + 1, em_it := em_it m2 + 1\<rparr>)) }
        else Some (ecros_finish (m\<lparr>em_it := em_it m + 1\<rparr>))
      else Some (ecros_finish m)) }"

section \<open>A round stays in the buffer\<close>

definition ecros_fits :: "call \<Rightarrow> bool" where
  "ecros_fits c \<longleftrightarrow> length (ctype c) + 4 * length (call_vector_clock c) \<le> 199"

lemma ecros_send_returns:
  assumes "ecros_fits c" and "256 \<le> length (em_payload m)"
  shows "\<exists>m' r. ecros_send c m = Some m' \<and> length r = 16 \<and> 256 \<le> length (em_payload m') \<and>
     em_outbox m' = em_outbox m @ [le_bytes 8 (int (length (call_body c))) @ call_body c @ r] \<and>
     em_hdl m' = em_hdl m \<and> em_calls m' = em_calls m \<and> em_it m' = em_it m \<and>
     em_ack_index m' = em_ack_index m"
proof -
  let ?len = "length (call_body c)"
  have len: "?len + 24 \<le> length (em_payload m)"
    using assms by (simp add: ecros_fits_def length_call_body)
  let ?buf = "le_bytes 8 (int ?len) @ call_body c @ drop (8 + ?len) (em_payload m)"
  have ser: "ecros_serializeCalls c (em_payload m) = Some (?buf, ?len + 24)"
    using serialize_call_eq [of c "em_payload m"] len by (simp add: ecros_serializeCalls_def)
  have lb: "length ?buf = length (em_payload m)" using len by simp
  have take: "take (?len + 24) ?buf
      = le_bytes 8 (int ?len) @ call_body c @ take 16 (drop (8 + ?len) (em_payload m))"
    by (simp del: le_bytes.simps)
  show ?thesis
    using len lb assms(2)
    by (intro exI [of _ "the (ecros_send c m)"] exI [of _ "take 16 (drop (8 + ?len) (em_payload m))"])
      (simp add: ecros_send_def ser take del: le_bytes.simps)
qed

definition ecros_main_inv :: "'st ecros_main \<Rightarrow> bool" where
  "ecros_main_inv m \<longleftrightarrow> ecros_inv (em_hdl m) \<and> 256 \<le> length (em_payload m) \<and>
     0 \<le> e_node_id (em_hdl m) \<and> e_node_id (em_hdl m) < int (e_number_of_nodes (em_hdl m)) \<and>
     e_number_of_nodes (em_hdl m) \<le> 40 \<and>
     (\<forall>a \<in> set (e_send_ack_call_list (em_hdl m)). ecros_fits a) \<and>
     (\<forall>c \<in> set (em_calls m). ecros_fits c \<and> length (ctype c) \<le> 39 \<and> \<not> stable c)"

lemma ecros_finish_inv [simp]: "ecros_main_inv (ecros_finish m) = ecros_main_inv m"
  by (simp add: ecros_finish_def ecros_main_inv_def ecros_inv_def)

lemma ecros_finish_frame [simp]:
  "em_outbox (ecros_finish m) = em_outbox m" "em_it (ecros_finish m) = em_it m"
  "e_calls (em_hdl (ecros_finish m)) = e_calls (em_hdl m)"
  by (simp_all add: ecros_finish_def)

lemma ecros_send_ack_returns:
  assumes "ecros_main_inv m"
  shows "\<exists>m' ws. ecros_send_ack m = Some m' \<and> ecros_main_inv m' \<and>
     em_outbox m' = em_outbox m @ ws \<and> em_hdl m' = em_hdl m \<and> em_calls m' = em_calls m \<and>
     em_it m' = em_it m"
proof (cases "em_ack_index m < length (e_send_ack_call_list (em_hdl m))")
  case True
  let ?a = "e_send_ack_call_list (em_hdl m) ! em_ack_index m"
  have "ecros_fits ?a" "256 \<le> length (em_payload m)"
    using True assms by (simp_all add: ecros_main_inv_def)
  from ecros_send_returns [OF this] obtain m' r where
    "ecros_send ?a m = Some m'" "256 \<le> length (em_payload m')"
    "em_outbox m' = em_outbox m @ [le_bytes 8 (int (length (call_body ?a))) @ call_body ?a @ r]"
    "em_hdl m' = em_hdl m" "em_calls m' = em_calls m" "em_it m' = em_it m" by blast
  then show ?thesis
    using True assms by (auto simp: ecros_send_ack_def ecros_main_inv_def)
next
  case False
  then show ?thesis using assms by (auto simp: ecros_send_ack_def)
qed

lemma exeLocal_call:
  assumes "ecros_inv h" and "exeLocal uc iter p req h = Some (h', c)"
  shows "c = req \<or> c = req\<lparr>call_vector_clock := e_vc h', node_id := e_node_id h\<rparr> \<and>
    length (e_vc h') = e_number_of_nodes h"
  using assms
  by (auto simp: exeLocal_def Option.bind_eq_Some_conv Let_def vincr_Some_iff ecros_inv_def
      split: if_splits)

text \<open>
  The update of a round is broadcast in any case; a call the handler skipped goes out as it
  stands in the workload, with the clock of its constructor.
\<close>

lemma ecros_iteration_update:
  assumes inv: "ecros_main_inv m" and it: "em_it m < length (em_calls m)"
    and req: "req = em_calls m ! em_it m" "ctype req \<noteq> ''Read''"
    and p: "fresh p (em_hdl m)" and iter: "traversal iter"
  shows "\<exists>m' c r ws. ecros_iteration uc iter p True m = Some m' \<and> ecros_main_inv m' \<and>
     em_it m' = em_it m + 1 \<and>
     em_outbox m' = em_outbox m @ ws @
       [le_bytes 8 (int (length (call_body c))) @ call_body c @ r] \<and>
     (if shouldSkip uc req (e_obj (em_hdl m))
      then c = req \<and> e_calls (em_hdl m') = e_calls (em_hdl m)
      else set (e_calls (em_hdl m')) = insert p (set (e_calls (em_hdl m))) \<and>
           e_heap (em_hdl m') p = Some c)"
proof -
  from ecros_send_ack_returns [OF inv] obtain m1 ws where
    m1: "ecros_send_ack m = Some m1" "ecros_main_inv m1" "em_outbox m1 = em_outbox m @ ws"
      "em_hdl m1 = em_hdl m" "em_calls m1 = em_calls m" "em_it m1 = em_it m" by blast
  let ?h = "em_hdl m"
  have reqs: "ecros_fits req" "length (ctype req) \<le> 39" "\<not> stable req"
    using inv it req(1) by (simp_all add: ecros_main_inv_def)
  have h: "ecros_inv ?h" "0 \<le> e_node_id ?h" "e_node_id ?h < int (e_number_of_nodes ?h)"
    "e_number_of_nodes ?h \<le> 40"
    using inv by (simp_all add: ecros_main_inv_def)
  obtain h' c where
    exe: "exeLocal uc iter p req ?h = Some (h', c)" "ecros_inv h'"
      "e_number_of_nodes h' = e_number_of_nodes ?h" "e_node_id h' = e_node_id ?h"
      "if shouldSkip uc req (e_obj ?h) then h' = ?h \<and> c = req
       else set (e_calls h') = insert p (set (e_calls ?h)) \<and> e_heap h' p = Some c"
  proof -
    from exeLocal_returns [OF h(1) p iter h(2,3) reqs(3), of uc] obtain h' c where
      r: "exeLocal uc iter p req ?h = Some (h', c)" "ecros_inv h'"
      "e_number_of_nodes h' = e_number_of_nodes ?h" "e_node_id h' = e_node_id ?h"
      and e: "if shouldSkip uc req (e_obj ?h) then h' = ?h \<and> c = req
       else set (e_calls h') = insert p (set (e_calls ?h)) \<and> e_heap h' p = Some c \<and>
           e_obj h' = applyCall uc c (e_obj ?h) \<and>
           (\<exists>es. e_edges h' = e_edges ?h @ es \<and> (\<forall>e \<in> set es. etype e = ''hb''))" by blast
    from e have "if shouldSkip uc req (e_obj ?h) then h' = ?h \<and> c = req
       else set (e_calls h') = insert p (set (e_calls ?h)) \<and> e_heap h' p = Some c"
      by (simp split: if_splits)
    then show ?thesis by (rule that [OF r])
  qed
  have acks: "e_send_ack_call_list h' = e_send_ack_call_list ?h"
    using exe(1) by (auto simp: exeLocal_def Option.bind_eq_Some_conv Let_def split: if_splits)
  have c: "ecros_fits c" "length (ctype c) \<le> 39" "\<not> stable c"
  proof -
    have "c = req \<or> c = req\<lparr>call_vector_clock := e_vc h', node_id := e_node_id ?h\<rparr> \<and>
        length (e_vc h') = e_number_of_nodes ?h"
      by (rule exeLocal_call [OF h(1) exe(1)])
    then show "ecros_fits c" "length (ctype c) \<le> 39" "\<not> stable c"
      using reqs h(4) by (auto simp: ecros_fits_def)
  qed
  let ?m2 = "m1\<lparr>em_hdl := h', em_calls := (em_calls m1)[em_it m1 := c]\<rparr>"
  have "256 \<le> length (em_payload ?m2)" using m1(2) by (simp add: ecros_main_inv_def)
  from ecros_send_returns [OF c(1) this] obtain m3 r where
    m3: "ecros_send c ?m2 = Some m3" "256 \<le> length (em_payload m3)"
      "em_outbox m3 = em_outbox ?m2 @ [le_bytes 8 (int (length (call_body c))) @ call_body c @ r]"
      "em_hdl m3 = h'" "em_calls m3 = (em_calls m1)[em_it m1 := c]" "em_it m3 = em_it m1" by auto
  have inv3: "ecros_main_inv m3"
    using inv m3 exe(2,3,4) acks c m1(5)
    by (auto simp: ecros_main_inv_def dest!: subsetD [OF set_update_subset_insert])
  let ?m' = "ecros_finish (m3\<lparr>em_sent := em_sent m3 + 1, em_it := em_it m3 + 1\<rparr>)"
  have "ecros_iteration uc iter p True m = Some ?m'"
    using m1 m3(1) it req exe(1) by (simp add: ecros_iteration_def ecros_localHandler_def Let_def)
  moreover have "ecros_main_inv ?m'"
    unfolding ecros_finish_inv using inv3 by (simp add: ecros_main_inv_def)
  moreover have "e_heap (em_hdl ?m') = e_heap h'" by (simp add: ecros_finish_def m3(4))
  ultimately show ?thesis
    using m1(3,6) m3 exe(5)
    by (intro exI [of _ ?m'] exI [of _ c] exI [of _ r] exI [of _ ws]) (auto split: if_splits)
qed

end
