(* ===== verification/Ecros_Examples.thy ===== *)
theory Ecros_Examples
  imports Ecros_Objects Ecros_Main
begin

text \<open>
  Concrete runs of ECRO nodes: the witnesses of the properties of the baseline, two project
  replicas that disagree on the same calls, and a delivered call that is never applied.
\<close>

section \<open>Running a node\<close>

definition ecros_call :: "string \<Rightarrow> int \<Rightarrow> int \<Rightarrow> int \<Rightarrow> int \<Rightarrow> int list \<Rightarrow> call" where
  "ecros_call t v1 v2 node k clock =
     (Call_new t v1 v2 0 0 node k False False)\<lparr>call_vector_clock := clock\<rparr>"

definition ecros_start_node :: "'st ecros_uc \<Rightarrow> int \<Rightarrow> 'st ecros" where
  "ecros_start_node uc me = ecros_setVars me 3 3 100 (Ecros_new uc)"

definition run_local :: "'st ecros_uc \<Rightarrow> nat \<Rightarrow> call \<Rightarrow> 'st ecros \<Rightarrow> 'st ecros" where
  "run_local uc p c h = fst (the (exeLocal uc (\<lambda>xs. xs) p c h))"

definition run_remote :: "'st ecros_uc \<Rightarrow> nat \<Rightarrow> call \<Rightarrow> 'st ecros \<Rightarrow> 'st ecros" where
  "run_remote uc p c h = the (exeRemote uc (\<lambda>xs. xs) p c h)"

lemma ecros_start_reachable: "ecros_reachable uc iter (ecros_start_node uc me)"
  unfolding ecros_start_node_def by (rule ecros_start) simp

lemma run_local_reachable:
  assumes "ecros_reachable uc (\<lambda>xs. xs) h" and "fresh p h" and "\<not> stable c"
    and "exeLocal uc (\<lambda>xs. xs) p c h \<noteq> None"
  shows "ecros_reachable uc (\<lambda>xs. xs) (run_local uc p c h)"
proof -
  obtain h' c' where "exeLocal uc (\<lambda>xs. xs) p c h = Some (h', c')" using assms(4) by auto
  with ecros_local [OF assms(1-3) this] show ?thesis by (simp add: run_local_def)
qed

lemma run_remote_reachable:
  assumes "ecros_reachable uc (\<lambda>xs. xs) h" and "fresh p h" and "\<not> stable c"
    and "length (call_vector_clock c) = e_number_of_nodes h" and "ctype c \<noteq> ''Ack''"
  shows "ecros_reachable uc (\<lambda>xs. xs) (run_remote uc p c h)"
    and "exeRemote uc (\<lambda>xs. xs) p c h = Some (run_remote uc p c h)"
proof -
  obtain h' where h': "exeRemote uc (\<lambda>xs. xs) p c h = Some h'"
    using exeRemote_returns [OF ecros_reachable_inv [OF assms(1) traversal_id] assms(2)
        traversal_id assms(4,3,5), of uc] by blast
  with ecros_remote [OF assms(1-4) this]
  show "ecros_reachable uc (\<lambda>xs. xs) (run_remote uc p c h)"
    "exeRemote uc (\<lambda>xs. xs) p c h = Some (run_remote uc p c h)"
    by (simp_all add: run_remote_def)
qed

section \<open>Two project replicas\<close>

text \<open>Node 1 deletes employee 7 while node 2 adds it; each then hears of the other's call.\<close>

definition del7 :: call where "del7 = ecros_call ''DeleteEmployee'' 7 0 1 1 [0, 1, 0]"
definition add7 :: call where "add7 = ecros_call ''AddEmployee'' 7 0 2 1 [0, 0, 1]"

definition replica_a :: "EProjectState ecros" where
  "replica_a = run_remote eproject_uc 2 add7
     (run_local eproject_uc 1 (del7\<lparr>call_vector_clock := []\<rparr>) (ecros_start_node eproject_uc 1))"

definition replica_b :: "EProjectState ecros" where
  "replica_b = run_remote eproject_uc 1 del7
     (run_local eproject_uc 2 (add7\<lparr>call_vector_clock := []\<rparr>) (ecros_start_node eproject_uc 2))"

lemma replica_a_reachable: "ecros_reachable eproject_uc (\<lambda>xs. xs) replica_a"
  unfolding replica_a_def
  by (intro run_remote_reachable(1) run_local_reachable ecros_start_reachable) code_simp+

lemma replica_b_reachable: "ecros_reachable eproject_uc (\<lambda>xs. xs) replica_b"
  unfolding replica_b_def
  by (intro run_remote_reachable(1) run_local_reachable ecros_start_reachable) code_simp+

lemma replicas_same_calls:
  "deref (e_heap replica_a) [1, 2] = Some [del7, add7]"
  "deref (e_heap replica_b) [1, 2] = Some [del7, add7]"
  "e_calls replica_a = [2, 1]" "e_calls replica_b = [1, 2]"
  by code_simp+

lemma replicas_disagree:
  "7 \<in> eemployee_ids (e_obj replica_a)" "7 \<notin> eemployee_ids (e_obj replica_b)"
  by code_simp+

section \<open>A cycle that is never broken\<close>

text \<open>
  Nodes 1 and 2 each record an assignment and then delete an employee; node 0 of the clocks
  is unused. Each deletion goes before the other node's assignment.
\<close>

definition cyc_w1 :: call where "cyc_w1 = ecros_call ''WorksOn'' 3 4 1 1 [0, 1, 0]"
definition cyc_d1 :: call where "cyc_d1 = ecros_call ''DeleteEmployee'' 8 0 1 2 [0, 2, 0]"
definition cyc_w2 :: call where "cyc_w2 = ecros_call ''WorksOn'' 5 6 2 1 [0, 0, 1]"
definition cyc_d2 :: call where "cyc_d2 = ecros_call ''DeleteEmployee'' 9 0 2 2 [0, 0, 2]"

definition cyc_node :: "EProjectState ecros" where
  "cyc_node = run_remote eproject_uc 4 cyc_d2 (run_remote eproject_uc 3 cyc_w2
     (run_remote eproject_uc 2 cyc_d1 (run_remote eproject_uc 1 cyc_w1
       (ecros_start_node eproject_uc 3))))"

lemma cyc_node_reachable: "ecros_reachable eproject_uc (\<lambda>xs. xs) cyc_node"
  unfolding cyc_node_def
  by (intro run_remote_reachable(1) ecros_start_reachable) code_simp+

lemma cyc_node_state:
  "e_heap cyc_node 4 = Some cyc_d2" "4 \<in> set (e_calls cyc_node)"
  "e_topoOrder cyc_node = []" "9 \<in> eemployee_ids (e_obj cyc_node)"
  "(2, 2) \<notin> eproject_applied (e_obj cyc_node)"
  by code_simp+

text \<open>The last of the four deliveries, and the cycle it closes.\<close>

definition cyc_before :: "EProjectState ecros" where
  "cyc_before = run_remote eproject_uc 3 cyc_w2 (run_remote eproject_uc 2 cyc_d1
     (run_remote eproject_uc 1 cyc_w1 (ecros_start_node eproject_uc 3)))"

lemma cyc_before_reachable: "ecros_reachable eproject_uc (\<lambda>xs. xs) cyc_before"
  unfolding cyc_before_def by (intro run_remote_reachable(1) ecros_start_reachable) code_simp+

lemma cyc_before_step: "exeRemote eproject_uc (\<lambda>xs. xs) 4 cyc_d2 cyc_before = Some cyc_node"
  unfolding cyc_node_def cyc_before_def [symmetric]
  by (rule run_remote_reachable(2) [OF cyc_before_reachable]) code_simp+

lemma cyc_edges: "edge_rel (e_edges cyc_node) = {(4, 1), (1, 2), (2, 3), (3, 4)}"
  unfolding edge_rel_def by code_simp

lemma cyc_behind: "behind_cycle (e_edges cyc_node) 4"
proof -
  let ?r = "edge_rel (e_edges cyc_node)"
  have "(4, 1) \<in> ?r" "(1, 2) \<in> ?r" "(2, 3) \<in> ?r" "(3, 4) \<in> ?r" by (simp_all add: cyc_edges)
  then have "(4, 4) \<in> ?r\<^sup>+" by (meson trancl.simps)
  then show ?thesis by (auto simp: behind_cycle_def)
qed

section \<open>A call that is skipped\<close>

text \<open>Node 1 has popped every element when the next pop of its workload comes up.\<close>

definition empty_stack_main :: "EStackState ecros_main" where
  "empty_stack_main = ecros_main_start
     ((ecros_start_node estack_uc 1)\<lparr>e_obj := EStackState_init\<lparr>estack_elements := []\<rparr>\<rparr>)
     [ecros_call ''Pop'' 0 0 1 1 (replicate 31 0)]"

lemma empty_stack_main_fresh: "fresh 1 (em_hdl empty_stack_main)"
  by (simp add: empty_stack_main_def fresh_def ecros_main_start_def ecros_start_node_def
      ecros_setVars_def Ecros_new_def)

lemma empty_stack_main_inv: "ecros_main_inv empty_stack_main"
proof -
  have "ecros_inv (ecros_start_node estack_uc 1)"
    by (rule ecros_reachable_inv [OF ecros_start_reachable traversal_id])
  then have "ecros_inv (em_hdl empty_stack_main)"
    by (simp add: empty_stack_main_def ecros_main_start_def ecros_inv_def)
  then show ?thesis
    by (simp add: ecros_main_inv_def empty_stack_main_def ecros_main_start_def ecros_start_node_def
        ecros_setVars_def Ecros_new_def ecros_fits_def ecros_call_def Call_new_def)
qed

end
