(* ===== verification/Course_Generator.thy ===== *)
theory Course_Generator
  imports Bench_File "HOL-Library.Signed_Division"
begin

text \<open>
  The generator of workloads for the courseware database,
  \<^verbatim>\<open>wellcoordination/benchmark/complex-courseware-benchmark.cpp\<close>: it draws the update calls of
  every node, pads with reads, puts a header and four seeds in front, shuffles the rest, and
  in a last pass rewrites every call so that the objects it names exist. Its text is what the
  reader of the class parses.
\<close>

section \<open>Chance\<close>

text \<open>
  The sources of randomness and of unspecified order: the \<open>k\<close>-th draw from
  \<open>uniform_int_distribution(1, 1000)\<close>, the \<open>k\<close>-th index below a bound, the order in which an
  \<open>unordered_set\<close> is traversed, \<open>std::random_shuffle\<close>. \<open>stale\<close> is what reading an element
  of the map gives after its erasure, undefined (\<open>None\<close>) in C++.
\<close>

record gen_env =
  rand_1000 :: "nat \<Rightarrow> int"
  rand_index :: "nat \<Rightarrow> nat \<Rightarrow> nat"
  traverse :: "string list \<Rightarrow> string list"
  random_shuffle :: "nat \<Rightarrow> string list \<Rightarrow> string list"
  stale :: "nat \<Rightarrow> string option"

definition gen_env_ok :: "gen_env \<Rightarrow> bool" where
  "gen_env_ok env \<longleftrightarrow> (\<forall>k. 1 \<le> rand_1000 env k \<and> rand_1000 env k \<le> 1000) \<and>
     (\<forall>k n. 0 < n \<longrightarrow> rand_index env k n < n) \<and>
     (\<forall>xs. mset (traverse env xs) = mset xs) \<and>
     (\<forall>k xs. mset (random_shuffle env k xs) = mset xs)"

section \<open>What the fix-up pass knows of a node\<close>

text \<open>
  Identifiers are decimal texts; an \<open>unordered_set\<close> is a list without repetitions, read only
  through \<open>traverse\<close>. \<open>g_draws\<close> counts the draws made so far.
\<close>

record gen_node =
  g_departments :: "string list"
  g_free_departments :: "string list"
  g_students :: "string list"
  g_instructors :: "string list"
  g_courses :: "string list"
  g_enroll_pairs :: "string list"
  g_teach_pairs :: "string list"
  g_course_names :: "string list"
  g_course_id_to_name :: "string \<rightharpoonup> string"
  g_draws :: nat

definition set_insert :: "string \<Rightarrow> string list \<Rightarrow> string list" where
  "set_insert x xs = (if x \<in> set xs then xs else xs @ [x])"

definition set_erase :: "string \<Rightarrow> string list \<Rightarrow> string list" where
  "set_erase x xs = filter (\<lambda>y. y \<noteq> x) xs"

definition seed_dept :: "int \<Rightarrow> string" where "seed_dept i = to_string (1000 * i + 1)"
definition seed_student :: "int \<Rightarrow> string" where "seed_student i = to_string (2000 * i + 1)"
definition seed_instructor :: "int \<Rightarrow> string" where "seed_instructor i = to_string (3000 * i + 1)"
definition seed_course :: "int \<Rightarrow> string" where "seed_course i = to_string (4000 * i + 1)"

definition gen_node_start :: "int \<Rightarrow> nat \<Rightarrow> gen_node" where
  "gen_node_start i k = \<lparr>
     g_departments = [seed_dept i],
     g_free_departments = set_erase (seed_dept i) (set_insert (seed_dept i) []),
     g_students = [seed_student i], g_instructors = [seed_instructor i],
     g_courses = [seed_course i], g_enroll_pairs = [], g_teach_pairs = [],
     g_course_names = [seed_course i],
     g_course_id_to_name = [seed_course i \<mapsto> seed_course i], g_draws = k\<rparr>"

definition getRandomElement ::
  "gen_env \<Rightarrow> string list \<Rightarrow> gen_node \<Rightarrow> (string \<times> gen_node) option" where
  "getRandomElement env xs st =
     (let elements = traverse env xs; j = rand_index env (g_draws st) (length elements) in
      if j < length elements
      then Some (elements ! j, st\<lparr>g_draws := g_draws st + 1\<rparr>) else None)"

text \<open>The lambda \<open>pickFreshId\<close>: draws until the identifier is unused; it need not end.\<close>

partial_function (option) pickFreshId ::
  "gen_env \<Rightarrow> string list \<Rightarrow> int \<Rightarrow> nat \<Rightarrow> (string \<times> nat) option" where
  "pickFreshId env used base k =
     (let x = to_string (base + rand_1000 env k) in
      if x \<in> set used then pickFreshId env used base (k + 1) else Some (x, k + 1))"

section \<open>Pairs of identifiers\<close>

text \<open>\<open>p.find('-')\<close>, and the texts around the first dash.\<close>

definition pair_split :: "string \<Rightarrow> (string \<times> string) option" where
  "pair_split p =
     (case dropWhile (\<lambda>c. of_char c \<noteq> (45::nat)) p of
        [] \<Rightarrow> None
      | _ # right \<Rightarrow> Some (takeWhile (\<lambda>c. of_char c \<noteq> (45::nat)) p, right))"

definition make_pair :: "string \<Rightarrow> string \<Rightarrow> string" where
  "make_pair a b = a @ char_of (45::nat) # b"

definition erasePairsWithSuffix :: "string list \<Rightarrow> string \<Rightarrow> string list" where
  "erasePairsWithSuffix pairs suf = filter (\<lambda>p. case pair_split p of
     Some (left, right) \<Rightarrow> right \<noteq> suf | None \<Rightarrow> True) pairs"

definition erasePairsWithPrefix :: "string list \<Rightarrow> string \<Rightarrow> string list" where
  "erasePairsWithPrefix pairs pre = filter (\<lambda>p. case pair_split p of
     Some (left, right) \<Rightarrow> left \<noteq> pre | None \<Rightarrow> True) pairs"

fun replacePairsPrefix :: "string list \<Rightarrow> string \<Rightarrow> string \<Rightarrow> string list" where
  "replacePairsPrefix [] oldp newp = []"
| "replacePairsPrefix (p # ps) oldp newp =
     (case pair_split p of
        None \<Rightarrow> replacePairsPrefix ps oldp newp
      | Some (left, right) \<Rightarrow>
          set_insert (if left = oldp then make_pair newp right else p)
            (replacePairsPrefix ps oldp newp))"

fun replacePairsSuffix :: "string list \<Rightarrow> string \<Rightarrow> string \<Rightarrow> string list" where
  "replacePairsSuffix [] olds news = []"
| "replacePairsSuffix (p # ps) olds news =
     (case pair_split p of
        None \<Rightarrow> replacePairsSuffix ps olds news
      | Some (left, right) \<Rightarrow>
          set_insert (if right = olds then make_pair left news else p)
            (replacePairsSuffix ps olds news))"

section \<open>Words of a line\<close>

text \<open>\<open>iss >> s\<close> for an empty string \<open>s\<close>.\<close>

definition extract_word :: "sstream \<Rightarrow> sstream \<times> string" where
  "extract_word iss =
     (if \<not> good iss then (iss\<lparr>failbit := True\<rparr>, [])
      else let s = dropWhile is_space (sbuf iss) in
        if s = [] then (\<lparr>sbuf = [], eofbit = True, failbit = True\<rparr>, [])
        else let r = dropWhile (\<lambda>c. \<not> is_space c) s in
          (\<lparr>sbuf = r, eofbit = (r = []), failbit = False\<rparr>, takeWhile (\<lambda>c. \<not> is_space c) s))"

text \<open>\<open>iss >> a >> b >> ...\<close>: the next \<open>k\<close> words.\<close>

fun extract_words :: "nat \<Rightarrow> sstream \<Rightarrow> string list" where
  "extract_words 0 iss = []"
| "extract_words (Suc k) iss = (let (iss', w) = extract_word iss in w # extract_words k iss')"

section \<open>Drawing the calls of a node\<close>

text \<open>
  One call of the kind \<open>ty\<close> for node \<open>i\<close> (counted from 1), with the number of draws made
  before and after.
\<close>

definition gen_call :: "gen_env \<Rightarrow> int \<Rightarrow> nat \<Rightarrow> nat \<Rightarrow> string \<times> nat" where
  "gen_call env i ty k =
     (let r = rand_1000 env; blank = '' '' in
      if ty = 0 then
        (''0 '' @ to_string (2000 * i + 1 + r k) @ blank @ to_string (r (k + 1)) @ blank
           @ to_string (r (k + 2)), k + 3)
      else if ty = 1 then (''1 '' @ to_string (2000 * i + 1 + r k), k + 1)
      else if ty = 2 then (''2 0-0'', k)
      else if ty = 3 then
        (''3 '' @ to_string (2000 * i + 1 + r k) @ blank @ to_string (r (k + 1)) @ blank
           @ to_string (r (k + 2)), k + 3)
      else if ty = 4 then
        (''4 '' @ to_string (3000 * i + 1 + r k) @ blank @ to_string (r (k + 1)) @ blank
           @ to_string (r (k + 2)) @ blank @ seed_dept i, k + 3)
      else if ty = 5 then (''5 '' @ to_string (3000 * i + 1 + r k), k + 1)
      else if ty = 6 then (''6 0-0'', k)
      else if ty = 7 then
        (''7 '' @ to_string (3000 * i + 1 + r k) @ blank @ to_string (r (k + 1)) @ blank
           @ to_string (r (k + 2)) @ blank @ seed_dept i, k + 3)
      else if ty = 8 then
        (let c_id = to_string (4000 * i + 1 + r k) in
         (''8 '' @ c_id @ blank @ c_id @ blank @ to_string (r (k + 1) mod 8 + 1) @ blank
            @ seed_dept i, k + 2))
      else if ty = 9 then (''9 '' @ to_string (4000 * i + 1 + r k), k + 1)
      else if ty = 10 then (''10 0-0'', k)
      else if ty = 11 then
        (''11 '' @ to_string (4000 * i + 1 + r k) @ blank @ to_string (900000 + r (k + 1)), k + 2)
      else if ty = 12 then
        (''12 '' @ to_string (4000 * i + 1 + r k) @ blank @ to_string (r (k + 1) mod 8 + 1) @ blank
           @ seed_dept i, k + 2)
      else if ty = 13 then (''13 '' @ to_string (1000 * i + 1 + r k), k + 1)
      else if ty = 14 then (''14 0'', k)
      else if ty = 15 then (''15 0-0'', k)
      else if ty = 16 then (''16 0-0'', k)
      else if ty = 17 then (''17 0-0'', k)
      else if ty = 18 then (''18 0-0'', k)
      else ([], k))"

text \<open>The counted loop for one kind, \<open>m\<close> rounds left, and the loop over the kinds.\<close>

fun gen_calls :: "gen_env \<Rightarrow> int \<Rightarrow> nat \<Rightarrow> nat \<Rightarrow> nat \<Rightarrow> string list \<times> nat" where
  "gen_calls env i ty 0 k = ([], k)"
| "gen_calls env i ty (Suc m) k =
     (let (l, k1) = gen_call env i ty k; (ls, k2) = gen_calls env i ty m k1 in (l # ls, k2))"

definition first_count :: "nat \<Rightarrow> int" where
  "first_count ty = (if ty = 13 \<or> ty = 0 \<or> ty = 4 \<or> ty = 8 then 1 else 0)"

fun gen_kinds :: "gen_env \<Rightarrow> int \<Rightarrow> int \<Rightarrow> nat list \<Rightarrow> nat \<Rightarrow> string list \<times> nat" where
  "gen_kinds env i per_method [] k = ([], k)"
| "gen_kinds env i per_method (ty # tys) k =
     (let (ls, k1) = gen_calls env i ty (nat (per_method - first_count ty)) k;
          (rest, k2) = gen_kinds env i per_method tys k1
      in (ls @ rest, k2))"

text \<open>The nodes \<open>i\<close>, \<open>i + 1\<close>, ..., and the running \<open>real_num_calls\<close>.\<close>

fun gen_all :: "gen_env \<Rightarrow> int \<Rightarrow> int \<Rightarrow> nat \<Rightarrow> int \<Rightarrow> nat \<Rightarrow> string list list \<times> int \<times> nat" where
  "gen_all env per_method i 0 real k = ([], real, k)"
| "gen_all env per_method i (Suc m) real k =
     (let (ls, k1) = gen_kinds env i per_method [0..<19] k;
          (rest, real', k2) = gen_all env per_method (i + 1) m (real + 4 + int (length ls)) k1
      in (ls # rest, real', k2))"

section \<open>Reads, header and seeds\<close>

text \<open>
  The loop that evens out the first node; \<open>calls[1]\<close> needs a second node. It ends when the
  reads run out.
\<close>

partial_function (option) even_out ::
  "string list list \<Rightarrow> int \<Rightarrow> nat \<Rightarrow> (string list list \<times> int) option" where
  "even_out calls read_calls ix =
     (if length calls < 2 then None
      else if length (calls ! 1) < length (calls ! 0) \<and> read_calls \<noteq> 0
      then (let j = ix mod (length calls - 1) + 1 in
            even_out (calls[j := calls ! j @ [''19'']]) (read_calls - 1) (ix + 1))
      else Some (calls, read_calls))"

definition add_reads :: "string list list \<Rightarrow> int \<Rightarrow> string list list" where
  "add_reads calls read_calls =
     (if read_calls \<noteq> 0
      then map (\<lambda>ls. ls @ replicate (nat (read_calls sdiv int (length calls))) ''19'') calls
      else calls)"

definition seed_lines :: "int \<Rightarrow> int \<Rightarrow> string list" where
  "seed_lines real i =
     [''#'' @ to_string real,
      ''13 '' @ seed_dept i,
      ''0 '' @ seed_student i @ '' '' @ seed_student i @ '' '' @ seed_student i,
      ''4 '' @ seed_instructor i @ '' '' @ seed_instructor i @ '' '' @ seed_instructor i @ '' ''
         @ seed_dept i,
      ''8 '' @ seed_course i @ '' '' @ seed_course i @ '' 1 '' @ seed_dept i]"

section \<open>The fix-up of one call\<close>

text \<open>
  Each branch of the pass: the words of the line after the number, the line that replaces it,
  the node afterwards. \<open>None\<close> is undefined behaviour or a draw that never ends.
\<close>

definition fix_AddDepartment :: "string \<Rightarrow> sstream \<Rightarrow> gen_node \<Rightarrow> (string \<times> gen_node) option" where
  "fix_AddDepartment l iss st =
     (let dept = hd (extract_words 1 iss) in
      Some (l, if dept \<noteq> []
               then st\<lparr>g_departments := set_insert dept (g_departments st),
                       g_free_departments := set_insert dept (g_free_departments st)\<rparr>
               else st))"

definition fix_AddStudent :: "string \<Rightarrow> sstream \<Rightarrow> gen_node \<Rightarrow> (string \<times> gen_node) option" where
  "fix_AddStudent l iss st =
     (let s_id = hd (extract_words 1 iss) in
      Some (l, if s_id \<noteq> [] then st\<lparr>g_students := set_insert s_id (g_students st)\<rparr> else st))"

text \<open>\<open>getRandomElement\<close>, and once more when it hit the seed.\<close>

definition pick_not_seed ::
  "gen_env \<Rightarrow> string \<Rightarrow> string list \<Rightarrow> gen_node \<Rightarrow> (string \<times> gen_node) option" where
  "pick_not_seed env seed xs st = do {
     (x, st1) \<leftarrow> getRandomElement env xs st;
     (if x = seed \<and> 1 < length xs then getRandomElement env xs st1 else Some (x, st1)) }"

definition fix_DeleteStudent :: "gen_env \<Rightarrow> int \<Rightarrow> gen_node \<Rightarrow> (string \<times> gen_node) option" where
  "fix_DeleteStudent env i st =
     (if 1 < length (g_students st)
      then do {
        (s_id, st1) \<leftarrow> pick_not_seed env (seed_student i) (g_students st) st;
        Some (''1 '' @ s_id, st1\<lparr>g_students := set_erase s_id (g_students st),
          g_enroll_pairs := erasePairsWithSuffix (g_enroll_pairs st) s_id\<rparr>) }
      else Some (''1 9999999'', st))"

text \<open>An existing identifier and a fresh one, for the renaming calls.\<close>

definition pick_old_new ::
  "gen_env \<Rightarrow> string list \<Rightarrow> int \<Rightarrow> gen_node \<Rightarrow> (string \<times> string \<times> gen_node) option" where
  "pick_old_new env xs base st = do {
     (old_id, st1) \<leftarrow> getRandomElement env xs st;
     (new_id, k) \<leftarrow> pickFreshId env xs base (g_draws st1);
     Some (old_id, new_id, st1\<lparr>g_draws := k\<rparr>) }"

definition fix_UpdateStudentID ::
  "gen_env \<Rightarrow> string \<Rightarrow> gen_node \<Rightarrow> (string \<times> gen_node) option" where
  "fix_UpdateStudentID env l st =
     (if g_students st \<noteq> []
      then do {
        (old_id, new_id, st1) \<leftarrow> pick_old_new env (g_students st) 7000000 st;
        Some (''2 '' @ make_pair old_id new_id, st1\<lparr>
          g_students := set_insert new_id (set_erase old_id (g_students st)),
          g_enroll_pairs := replacePairsSuffix (g_enroll_pairs st) old_id new_id\<rparr>) }
      else Some (l, st))"

definition fix_UpdateStudentOther ::
  "gen_env \<Rightarrow> string \<Rightarrow> sstream \<Rightarrow> gen_node \<Rightarrow> (string \<times> gen_node) option" where
  "fix_UpdateStudentOther env l iss st =
     (let ws = extract_words 3 iss in
      if g_students st \<noteq> []
      then do {
        (sid, st1) \<leftarrow> getRandomElement env (g_students st) st;
        Some (''3 '' @ sid @ '' '' @ ws ! 1 @ '' '' @ ws ! 2, st1) }
      else Some (l, st))"

text \<open>An existing department, which is then no longer free.\<close>

definition pick_department ::
  "gen_env \<Rightarrow> string \<Rightarrow> gen_node \<Rightarrow> (string \<times> gen_node) option" where
  "pick_department env dept st =
     (if g_departments st \<noteq> []
      then do {
        (d, st1) \<leftarrow> getRandomElement env (g_departments st) st;
        Some (d, st1\<lparr>g_free_departments := set_erase d (g_free_departments st)\<rparr>) }
      else Some (dept, st))"

definition fix_AddInstructor ::
  "gen_env \<Rightarrow> string \<Rightarrow> sstream \<Rightarrow> gen_node \<Rightarrow> (string \<times> gen_node) option" where
  "fix_AddInstructor env l iss st =
     (let ws = extract_words 4 iss; iid = ws ! 0 in do {
      (d, st1) \<leftarrow> pick_department env (ws ! 3) st;
      let l' = (if g_departments st \<noteq> []
                then ''4 '' @ iid @ '' '' @ ws ! 1 @ '' '' @ ws ! 2 @ '' '' @ d else l);
      Some (l', if iid \<noteq> [] then st1\<lparr>g_instructors := set_insert iid (g_instructors st)\<rparr>
                else st1) })"

definition fix_DeleteInstructor :: "gen_env \<Rightarrow> int \<Rightarrow> gen_node \<Rightarrow> (string \<times> gen_node) option" where
  "fix_DeleteInstructor env i st =
     (if 1 < length (g_instructors st)
      then do {
        (iid, st1) \<leftarrow> pick_not_seed env (seed_instructor i) (g_instructors st) st;
        Some (''5 '' @ iid, st1\<lparr>g_instructors := set_erase iid (g_instructors st),
          g_teach_pairs := erasePairsWithSuffix (g_teach_pairs st) iid\<rparr>) }
      else Some (''5 9999999'', st))"

definition fix_UpdateInstructorID ::
  "gen_env \<Rightarrow> string \<Rightarrow> gen_node \<Rightarrow> (string \<times> gen_node) option" where
  "fix_UpdateInstructorID env l st =
     (if g_instructors st \<noteq> []
      then do {
        (old_id, new_id, st1) \<leftarrow> pick_old_new env (g_instructors st) 8000000 st;
        Some (''6 '' @ make_pair old_id new_id, st1\<lparr>
          g_instructors := set_insert new_id (set_erase old_id (g_instructors st)),
          g_teach_pairs := replacePairsSuffix (g_teach_pairs st) old_id new_id\<rparr>) }
      else Some (l, st))"

definition pick_if_any ::
  "gen_env \<Rightarrow> string list \<Rightarrow> string \<Rightarrow> gen_node \<Rightarrow> (string \<times> gen_node) option" where
  "pick_if_any env xs d st = (if xs \<noteq> [] then getRandomElement env xs st else Some (d, st))"

definition fix_UpdateInstructorOther ::
  "gen_env \<Rightarrow> sstream \<Rightarrow> gen_node \<Rightarrow> (string \<times> gen_node) option" where
  "fix_UpdateInstructorOther env iss st =
     (let ws = extract_words 4 iss in do {
      (iid, st1) \<leftarrow> pick_if_any env (g_instructors st) (ws ! 0) st;
      (dept, st2) \<leftarrow> pick_department env (ws ! 3) st1;
      Some (''7 '' @ iid @ '' '' @ ws ! 1 @ '' '' @ ws ! 2 @ '' '' @ dept, st2) })"

definition fix_AddCourse ::
  "gen_env \<Rightarrow> string \<Rightarrow> sstream \<Rightarrow> gen_node \<Rightarrow> (string \<times> gen_node) option" where
  "fix_AddCourse env l iss st =
     (let ws = extract_words 4 iss; cid = ws ! 0 in do {
      (d, st1) \<leftarrow> pick_department env (ws ! 3) st;
      let (cname, l') = (if g_departments st \<noteq> []
        then (cid, ''8 '' @ cid @ '' '' @ cid @ '' '' @ ws ! 2 @ '' '' @ d) else (ws ! 1, l));
      Some (l', if cid \<noteq> [] then st1\<lparr>g_courses := set_insert cid (g_courses st),
                  g_course_names := set_insert cname (g_course_names st),
                  g_course_id_to_name := (g_course_id_to_name st)(cid \<mapsto> cname)\<rparr>
                else st1) })"

definition fix_DeleteCourse :: "gen_env \<Rightarrow> int \<Rightarrow> gen_node \<Rightarrow> (string \<times> gen_node) option" where
  "fix_DeleteCourse env i st =
     (if 1 < length (g_courses st)
      then do {
        (cid, st1) \<leftarrow> pick_not_seed env (seed_course i) (g_courses st) st;
        let st2 = st1\<lparr>g_courses := set_erase cid (g_courses st),
          g_enroll_pairs := erasePairsWithPrefix (g_enroll_pairs st) cid,
          g_teach_pairs := erasePairsWithPrefix (g_teach_pairs st) cid\<rparr>;
        Some (''9 '' @ cid,
          case g_course_id_to_name st cid of
            None \<Rightarrow> st2
          | Some name \<Rightarrow> st2\<lparr>g_course_names := set_erase name (g_course_names st),
              g_course_id_to_name := (g_course_id_to_name st)(cid := None)\<rparr>) }
      else Some (''9 9999999'', st))"

text \<open>
  The renaming of a course erases the map's element and then reads its name through the same
  iterator.
\<close>

definition fix_UpdateCourseID ::
  "gen_env \<Rightarrow> string \<Rightarrow> gen_node \<Rightarrow> (string \<times> gen_node) option" where
  "fix_UpdateCourseID env l st =
     (if g_courses st \<noteq> []
      then do {
        (old_id, new_id, st1) \<leftarrow> pick_old_new env (g_courses st) 9000000 st;
        let st2 = st1\<lparr>g_courses := set_insert new_id (set_erase old_id (g_courses st)),
          g_enroll_pairs := replacePairsPrefix (g_enroll_pairs st) old_id new_id,
          g_teach_pairs := replacePairsPrefix (g_teach_pairs st) old_id new_id\<rparr>;
        st3 \<leftarrow> (case g_course_id_to_name st old_id of
            None \<Rightarrow> Some st2
          | Some name \<Rightarrow> do {
              name' \<leftarrow> stale env (g_draws st2);
              Some (st2\<lparr>g_course_id_to_name :=
                (g_course_id_to_name st)(old_id := None, new_id := Some name')\<rparr>) });
        Some (''10 '' @ make_pair old_id new_id, st3) }
      else Some (l, st))"

definition fix_UpdateCourseName ::
  "gen_env \<Rightarrow> sstream \<Rightarrow> gen_node \<Rightarrow> (string \<times> gen_node) option" where
  "fix_UpdateCourseName env iss st =
     (let ws = extract_words 2 iss in do {
      (cid, st1) \<leftarrow> pick_if_any env (g_courses st) (ws ! 0) st;
      (newname, k) \<leftarrow> pickFreshId env (g_course_names st) 6000000 (g_draws st1);
      let names = (case g_course_id_to_name st cid of
          None \<Rightarrow> g_course_names st | Some name \<Rightarrow> set_erase name (g_course_names st));
      Some (''11 '' @ cid @ '' '' @ newname, st1\<lparr>g_draws := k,
        g_course_names := set_insert newname names,
        g_course_id_to_name := (g_course_id_to_name st)(cid \<mapsto> newname)\<rparr>) })"

definition fix_UpdateCourseOther ::
  "gen_env \<Rightarrow> sstream \<Rightarrow> gen_node \<Rightarrow> (string \<times> gen_node) option" where
  "fix_UpdateCourseOther env iss st =
     (let ws = extract_words 3 iss in do {
      (cid, st1) \<leftarrow> pick_if_any env (g_courses st) (ws ! 0) st;
      (dept, st2) \<leftarrow> pick_department env (ws ! 2) st1;
      Some (''12 '' @ cid @ '' '' @ ws ! 1 @ '' '' @ dept, st2) })"

definition fix_DeleteDepartment :: "gen_env \<Rightarrow> gen_node \<Rightarrow> (string \<times> gen_node) option" where
  "fix_DeleteDepartment env st =
     (if g_free_departments st \<noteq> []
      then do {
        (d, st1) \<leftarrow> getRandomElement env (g_free_departments st) st;
        Some (''14 '' @ d, st1\<lparr>g_free_departments := set_erase d (g_free_departments st),
          g_departments := set_erase d (g_departments st)\<rparr>) }
      else Some (''14 9999999'', st))"

definition fix_Enroll :: "gen_env \<Rightarrow> string \<Rightarrow> gen_node \<Rightarrow> (string \<times> gen_node) option" where
  "fix_Enroll env l st =
     (if g_courses st \<noteq> [] \<and> g_students st \<noteq> []
      then do {
        (cid, st1) \<leftarrow> getRandomElement env (g_courses st) st;
        (sid, st2) \<leftarrow> getRandomElement env (g_students st) st1;
        let p = make_pair cid sid;
        Some (''15 '' @ p, st2\<lparr>g_enroll_pairs := set_insert p (g_enroll_pairs st)\<rparr>) }
      else Some (l, st))"

definition fix_WithdrawEnrollment :: "gen_env \<Rightarrow> gen_node \<Rightarrow> (string \<times> gen_node) option" where
  "fix_WithdrawEnrollment env st =
     (if g_enroll_pairs st \<noteq> []
      then do {
        (p, st1) \<leftarrow> getRandomElement env (g_enroll_pairs st) st;
        Some (''16 '' @ p, st1\<lparr>g_enroll_pairs := set_erase p (g_enroll_pairs st)\<rparr>) }
      else Some (''16 0-0'', st))"

definition fix_Teach :: "gen_env \<Rightarrow> string \<Rightarrow> gen_node \<Rightarrow> (string \<times> gen_node) option" where
  "fix_Teach env l st =
     (if g_courses st \<noteq> [] \<and> g_instructors st \<noteq> []
      then do {
        (cid, st1) \<leftarrow> getRandomElement env (g_courses st) st;
        (iid, st2) \<leftarrow> getRandomElement env (g_instructors st) st1;
        let p = make_pair cid iid;
        Some (''17 '' @ p, st2\<lparr>g_teach_pairs := set_insert p (g_teach_pairs st)\<rparr>) }
      else Some (l, st))"

definition fix_WithdrawTeaching :: "gen_env \<Rightarrow> gen_node \<Rightarrow> (string \<times> gen_node) option" where
  "fix_WithdrawTeaching env st =
     (if g_teach_pairs st \<noteq> []
      then do {
        (p, st1) \<leftarrow> getRandomElement env (g_teach_pairs st) st;
        Some (''18 '' @ p, st1\<lparr>g_teach_pairs := set_erase p (g_teach_pairs st)\<rparr>) }
      else Some (''18 0-0'', st))"

definition fix_line :: "gen_env \<Rightarrow> int \<Rightarrow> string \<Rightarrow> gen_node \<Rightarrow> (string \<times> gen_node) option" where
  "fix_line env i l st =
     (if l = ''19'' then Some (l, st)
      else let (iss, op) = extract_into (istringstream l) (- 1) in
        if op = 13 then fix_AddDepartment l iss st
        else if op = 0 then fix_AddStudent l iss st
        else if op = 1 then fix_DeleteStudent env i st
        else if op = 2 then fix_UpdateStudentID env l st
        else if op = 3 then fix_UpdateStudentOther env l iss st
        else if op = 4 then fix_AddInstructor env l iss st
        else if op = 5 then fix_DeleteInstructor env i st
        else if op = 6 then fix_UpdateInstructorID env l st
        else if op = 7 then fix_UpdateInstructorOther env iss st
        else if op = 8 then fix_AddCourse env l iss st
        else if op = 9 then fix_DeleteCourse env i st
        else if op = 10 then fix_UpdateCourseID env l st
        else if op = 11 then fix_UpdateCourseName env iss st
        else if op = 12 then fix_UpdateCourseOther env iss st
        else if op = 14 then fix_DeleteDepartment env st
        else if op = 15 then fix_Enroll env l st
        else if op = 16 then fix_WithdrawEnrollment env st
        else if op = 17 then fix_Teach env l st
        else if op = 18 then fix_WithdrawTeaching env st
        else Some (l, st))"

fun fix_lines :: "gen_env \<Rightarrow> int \<Rightarrow> string list \<Rightarrow> gen_node \<Rightarrow> (string list \<times> gen_node) option" where
  "fix_lines env i [] st = Some ([], st)"
| "fix_lines env i (l # ls) st = do {
     (l', st1) \<leftarrow> fix_line env i l st;
     (ls', st2) \<leftarrow> fix_lines env i ls st1;
     Some (l' # ls', st2) }"

section \<open>The program\<close>

text \<open>The shuffles of all nodes, then the passes of all nodes.\<close>

fun shuffle_all :: "gen_env \<Rightarrow> string list list \<Rightarrow> nat \<Rightarrow> string list list \<times> nat" where
  "shuffle_all env [] k = ([], k)"
| "shuffle_all env (ls # rest) k =
     (let (rest', k') = shuffle_all env rest (k + 1) in (random_shuffle env k ls # rest', k'))"

fun fix_all ::
  "gen_env \<Rightarrow> int \<Rightarrow> int \<Rightarrow> string list list \<Rightarrow> nat \<Rightarrow> string list list option" where
  "fix_all env real i [] k = Some []"
| "fix_all env real i (ls # rest) k = do {
     (ls', st) \<leftarrow> fix_lines env i ls (gen_node_start i k);
     rest' \<leftarrow> fix_all env real (i + 1) rest (g_draws st);
     Some ((seed_lines real i @ ls') # rest') }"

text \<open>
  The files of all nodes as lists of lines. The two numbers that come out of floating-point
  arithmetic, the reads and the calls per kind, are arguments.
\<close>

definition generate :: "gen_env \<Rightarrow> nat \<Rightarrow> int \<Rightarrow> int \<Rightarrow> string list list option" where
  "generate env nr_procs queries per_method =
     (let (calls, real, k) = gen_all env per_method 1 nr_procs 0 0 in do {
      (calls1, read_calls) \<leftarrow> even_out calls queries 0;
      let (calls2, k2) = shuffle_all env (add_reads calls1 read_calls) k;
      fix_all env real 1 calls2 k2 })"

text \<open>\<open>outfile << c << std::endl\<close> for every line.\<close>

definition file_text :: "string list \<Rightarrow> string" where
  "file_text ls = concat (map (\<lambda>l. l @ [char_of (10::nat)]) ls)"

end
