(* ===== verification/Course_Workload.thy ===== *)
theory Course_Workload
  imports Course_Generator Byte_Workloads
begin

text \<open>
  What the courseware generator writes: every line keeps the shape of its kind through the
  fix-up pass, so the reader of the class accepts the files, the header counts their updates,
  and the calls are workloads the processes can run.
\<close>

section \<open>Identifiers and lines\<close>

definition ident :: "string \<Rightarrow> bool" where
  "ident s \<longleftrightarrow> (\<exists>v. 0 \<le> v \<and> int32 v \<and> s = to_string v)"

definition idents :: "string list \<Rightarrow> bool" where
  "idents xs \<longleftrightarrow> (\<forall>x \<in> set xs. ident x)"

lemma identI: "0 \<le> v \<Longrightarrow> v < 2 ^ 31 \<Longrightarrow> ident (to_string v)"
  by (auto simp: ident_def int32_def)

lemma to_string_inject: "int32 a \<Longrightarrow> int32 b \<Longrightarrow> to_string a = to_string b \<longleftrightarrow> a = b"
  by (metis stoi_to_string sum.inject(2))

lemma ident_chars:
  assumes "ident s"
  shows "s \<noteq> []" "list_all (\<lambda>c. \<not> is_space c) s" "list_all (\<lambda>c. of_char c \<noteq> (45::nat)) s"
    "list_all (\<lambda>c. of_char c \<noteq> (10::nat)) s"
proof -
  obtain v where v: "0 \<le> v" "s = to_string v" using assms by (auto simp: ident_def)
  show "s \<noteq> []" using to_string_hd [of v] v by auto
  have d: "list_all is_digit s" using v nat_decimal_digits by (simp add: to_string_def)
  show "list_all (\<lambda>c. \<not> is_space c) s" "list_all (\<lambda>c. of_char c \<noteq> (45::nat)) s"
    "list_all (\<lambda>c. of_char c \<noteq> (10::nat)) s"
    using d by (auto simp: list_all_iff is_digit_def is_space_def Let_def)
qed

text \<open>The words after the number of a line.\<close>

definition line_words :: "string list \<Rightarrow> string" where
  "line_words ws = concat (map (\<lambda>w. '' '' @ w) ws)"

definition pair_op :: "int \<Rightarrow> bool" where
  "pair_op op \<longleftrightarrow> op \<in> {2, 6, 10, 15, 16, 17, 18}"

definition line_arity :: "int \<Rightarrow> nat" where
  "line_arity op = (if op \<in> {0, 3, 12} then 3 else if op \<in> {4, 7, 8} then 4 else if op = 11 then 2
     else if op = 19 then 0 else 1)"

text \<open>A line of the kind \<open>op\<close>.\<close>

definition line_of :: "int \<Rightarrow> string \<Rightarrow> bool" where
  "line_of op l \<longleftrightarrow> 0 \<le> op \<and> op \<le> 19 \<and>
     (if pair_op op
      then \<exists>a b. ident a \<and> ident b \<and> l = to_string op @ '' '' @ make_pair a b
      else \<exists>ws. length ws = line_arity op \<and> idents ws \<and> l = to_string op @ line_words ws)"

lemma op_texts:
  "to_string 0 = ''0''" "to_string 1 = ''1''" "to_string 2 = ''2''" "to_string 3 = ''3''"
  "to_string 4 = ''4''" "to_string 5 = ''5''" "to_string 6 = ''6''" "to_string 7 = ''7''"
  "to_string 8 = ''8''" "to_string 9 = ''9''" "to_string 10 = ''10''" "to_string 11 = ''11''"
  "to_string 12 = ''12''" "to_string 13 = ''13''" "to_string 14 = ''14''" "to_string 15 = ''15''"
  "to_string 16 = ''16''" "to_string 17 = ''17''" "to_string 18 = ''18''" "to_string 19 = ''19''"
  "to_string 9999999 = ''9999999''"
  by (simp_all add: to_string_def nat_decimal.simps char_of_def bit_0)

lemma ends_number_words: "ends_number (line_words ws)"
  by (cases ws) (simp_all add: line_words_def ends_number_def is_digit_def)

lemma extract_line_op:
  assumes "0 \<le> op" "op \<le> 19" "ends_number r"
  shows "extract_int (istringstream (to_string op @ r))
    = (\<lparr>sbuf = r, eofbit = (r = []), failbit = False\<rparr>, Some op)"
  using extract_to_string [of op r "[]"] assms by (simp add: istringstream_def int32_def)

lemma extract_word_ident:
  assumes "ident w" and "r = [] \<or> is_space (hd r)"
  shows "extract_word \<lparr>sbuf = '' '' @ w @ r, eofbit = False, failbit = False\<rparr>
    = (\<lparr>sbuf = r, eofbit = (r = []), failbit = False\<rparr>, w)"
proof -
  obtain c cs where w: "w = c # cs" "\<not> is_space c"
    using ident_chars(1,2) [OF assms(1)] by (cases w) auto
  have "takeWhile (\<lambda>c. \<not> is_space c) (w @ r) = w \<and> dropWhile (\<lambda>c. \<not> is_space c) (w @ r) = r"
    using ident_chars(2) [OF assms(1)] assms(2)
    by (intro takeWhile_run) (auto split: list.split)
  moreover have "is_space CHR '' ''" by (simp add: is_space_def)
  ultimately show ?thesis
    using w by (simp add: extract_word_def good_def Let_def)
qed

lemma extract_words_idents:
  assumes "idents ws" and "k \<le> length ws"
  shows "extract_words k \<lparr>sbuf = line_words ws, eofbit = (line_words ws = []), failbit = False\<rparr> = take k ws"
  using assms
proof (induction k arbitrary: ws)
  case 0
  then show ?case by simp
next
  case (Suc k)
  then obtain w vs where ws: "ws = w # vs" by (cases ws) auto
  have "line_words vs = [] \<or> is_space (hd (line_words vs))"
    by (cases vs) (simp_all add: line_words_def is_space_def)
  then have "extract_word \<lparr>sbuf = '' '' @ w @ line_words vs, eofbit = False, failbit = False\<rparr>
      = (\<lparr>sbuf = line_words vs, eofbit = (line_words vs = []), failbit = False\<rparr>, w)"
    using Suc.prems ws by (intro extract_word_ident) (simp_all add: idents_def)
  then show ?case
    using Suc ws by (simp add: line_words_def idents_def)
qed

lemma pair_split_make:
  "ident a \<Longrightarrow> pair_split (make_pair a b) = Some (a, b)"
  using takeWhile_run [OF ident_chars(3), of a "char_of (45::nat) # b"]
  by (simp add: pair_split_def make_pair_def of_char_of)

lemma line_ofI:
  "0 \<le> op \<Longrightarrow> op \<le> 19 \<Longrightarrow> \<not> pair_op op \<Longrightarrow> length ws = line_arity op \<Longrightarrow> idents ws \<Longrightarrow>
     l = to_string op @ line_words ws \<Longrightarrow> line_of op l"
  by (auto simp: line_of_def)

lemma line_of_pair: "pair_op op \<Longrightarrow> ident a \<Longrightarrow> ident b \<Longrightarrow>
     l = to_string op @ '' '' @ make_pair a b \<Longrightarrow> line_of op l"
  by (auto simp: line_of_def pair_op_def)

lemmas line_eval = pair_op_def line_arity_def idents_def line_words_def op_texts

named_theorems line_intros \<open>the lines the generator writes\<close>

lemma line_words_1 [line_intros]:
  assumes "ident a"
  shows "line_of 1 (''1 '' @ a)" "line_of 5 (''5 '' @ a)" "line_of 9 (''9 '' @ a)"
    "line_of 13 (''13 '' @ a)" "line_of 14 (''14 '' @ a)"
  using assms by (auto intro!: line_ofI [where ws = "[a]"] simp: line_eval)

lemma line_words_2 [line_intros]:
  assumes "ident a" "ident b"
  shows "line_of 11 (''11 '' @ a @ '' '' @ b)"
  using assms by (auto intro!: line_ofI [where ws = "[a, b]"] simp: line_eval)

lemma line_words_3 [line_intros]:
  assumes "ident a" "ident b" "ident c"
  shows "line_of 0 (''0 '' @ a @ '' '' @ b @ '' '' @ c)" "line_of 3 (''3 '' @ a @ '' '' @ b @ '' '' @ c)"
    "line_of 12 (''12 '' @ a @ '' '' @ b @ '' '' @ c)"
  using assms by (auto intro!: line_ofI [where ws = "[a, b, c]"] simp: line_eval)

lemma line_words_4 [line_intros]:
  assumes "ident a" "ident b" "ident c" "ident d"
  shows "line_of 4 (''4 '' @ a @ '' '' @ b @ '' '' @ c @ '' '' @ d)"
    "line_of 7 (''7 '' @ a @ '' '' @ b @ '' '' @ c @ '' '' @ d)"
    "line_of 8 (''8 '' @ a @ '' '' @ b @ '' '' @ c @ '' '' @ d)"
  using assms by (auto intro!: line_ofI [where ws = "[a, b, c, d]"] simp: line_eval)

lemma line_words_pair [line_intros]:
  assumes "ident a" "ident b"
  shows "line_of 2 (''2 '' @ make_pair a b)" "line_of 6 (''6 '' @ make_pair a b)"
    "line_of 10 (''10 '' @ make_pair a b)" "line_of 15 (''15 '' @ make_pair a b)"
    "line_of 16 (''16 '' @ make_pair a b)" "line_of 17 (''17 '' @ make_pair a b)"
    "line_of 18 (''18 '' @ make_pair a b)"
  using assms by (auto intro!: line_of_pair [where a = a and b = b] simp: line_eval)

lemma ident_numbers: "ident ''0''" "ident ''1''" "ident ''9999999''"
  using identI [of 0] identI [of 1] identI [of 9999999] by (simp_all add: op_texts)

lemma dash_pair: "''0-0'' = make_pair ''0'' ''0''"
  by (simp add: make_pair_def char_of_def bit_0)

lemma line_words_0 [line_intros]:
  "line_of 2 ''2 0-0''" "line_of 6 ''6 0-0''" "line_of 10 ''10 0-0''" "line_of 15 ''15 0-0''"
  "line_of 16 ''16 0-0''" "line_of 17 ''17 0-0''" "line_of 18 ''18 0-0''"
  "line_of 1 ''1 9999999''" "line_of 5 ''5 9999999''" "line_of 9 ''9 9999999''"
  "line_of 14 ''14 9999999''" "line_of 14 ''14 0''" "line_of 19 ''19''"
  using line_words_pair [OF ident_numbers(1,1)] line_words_1 [OF ident_numbers(3)]
    line_words_1(5) [OF ident_numbers(1)] line_ofI [of 19 "[]" "''19''"]
  by (simp_all add: line_eval flip: dash_pair)

section \<open>The drawn lines\<close>

lemma gen_call_line:
  assumes env: "gen_env_ok env" and i: "1 \<le> i" "i \<le> 31" and ty: "ty < 19"
  shows "line_of (int ty) (fst (gen_call env i ty k))"
proof -
  have r: "1 \<le> rand_1000 env j" "rand_1000 env j \<le> 1000" for j
    using env by (simp_all add: gen_env_ok_def)
  have m: "0 \<le> rand_1000 env j mod 8" "rand_1000 env j mod 8 < 8" for j by simp_all
  have base: "ident (to_string (c * i + 1 + rand_1000 env j))" if "0 \<le> c" "c \<le> 4000" for c j
  proof -
    have "0 \<le> c * i" using that i by simp
    moreover have "c * i \<le> 4000 * 31" using that i by (intro mult_mono) simp_all
    ultimately show ?thesis using r [of j] by (intro identI) simp_all
  qed
  have id: "ident (to_string (rand_1000 env j))" "ident (to_string (rand_1000 env j mod 8 + 1))"
    "ident (to_string (900000 + rand_1000 env j))" for j
    using r [of j] m [of j] by (auto intro!: identI)
  have dept: "ident (seed_dept i)" using i by (simp add: seed_dept_def identI)
  note lines = line_intros [simplified append_Cons append_Nil] base [of 1000] base [of 2000] base [of 3000]
    base [of 4000] id dept
  have "ty \<in> set [0..<19]" using ty by simp
  moreover have "[0..<19] = [0, 1, 2, 3, 4, 5, 6, 7, 8, 9, 10, 11, 12, 13, 14, 15, 16, 17, 18 :: nat]"
    by (simp add: upt_rec)
  ultimately consider "ty = 0" | "ty = 1" | "ty = 2" | "ty = 3" | "ty = 4" | "ty = 5" | "ty = 6"
    | "ty = 7" | "ty = 8" | "ty = 9" | "ty = 10" | "ty = 11" | "ty = 12" | "ty = 13" | "ty = 14"
    | "ty = 15" | "ty = 16" | "ty = 17" | "ty = 18"
    by (simp only: set_simps insert_iff empty_iff) blast
  then show ?thesis
    by cases (simp_all add: gen_call_def Let_def lines)
qed

section \<open>What the pass knows stays well formed\<close>

definition pairs_ok :: "string list \<Rightarrow> bool" where
  "pairs_ok ps \<longleftrightarrow> (\<forall>p \<in> set ps. \<exists>a b. ident a \<and> ident b \<and> p = make_pair a b)"

definition gen_ok :: "gen_node \<Rightarrow> bool" where
  "gen_ok st \<longleftrightarrow> idents (g_departments st) \<and> idents (g_free_departments st) \<and>
     idents (g_students st) \<and> idents (g_instructors st) \<and> idents (g_courses st) \<and>
     pairs_ok (g_enroll_pairs st) \<and> pairs_ok (g_teach_pairs st)"

lemma set_set_insert [simp]: "set (set_insert x xs) = insert x (set xs)"
  by (auto simp: set_insert_def)

lemma set_set_erase [simp]: "set (set_erase x xs) = set xs - {x}"
  by (auto simp: set_erase_def)

lemma idents_insert [simp]: "idents (set_insert x xs) \<longleftrightarrow> ident x \<and> idents xs"
  by (simp add: idents_def)

lemma idents_erase [simp]: "idents xs \<Longrightarrow> idents (set_erase x xs)"
  by (simp add: idents_def)

lemma identsD: "idents xs \<Longrightarrow> x \<in> set xs \<Longrightarrow> ident x"
  by (simp add: idents_def)

lemma pairs_insert: "pairs_ok ps \<Longrightarrow> ident a \<Longrightarrow> ident b \<Longrightarrow> pairs_ok (set_insert (make_pair a b) ps)"
  by (auto simp: pairs_ok_def)

lemma pairs_erase [simp]: "pairs_ok ps \<Longrightarrow> pairs_ok (set_erase p ps)"
  by (simp add: pairs_ok_def)

lemma pairs_erase_suffix [simp]: "pairs_ok ps \<Longrightarrow> pairs_ok (erasePairsWithSuffix ps s)"
  by (simp add: pairs_ok_def erasePairsWithSuffix_def)

lemma pairs_erase_prefix [simp]: "pairs_ok ps \<Longrightarrow> pairs_ok (erasePairsWithPrefix ps s)"
  by (simp add: pairs_ok_def erasePairsWithPrefix_def)

lemma pairs_ok_Cons:
  "pairs_ok (p # ps) \<longleftrightarrow> (\<exists>a b. ident a \<and> ident b \<and> p = make_pair a b) \<and> pairs_ok ps"
  by (simp add: pairs_ok_def)

lemma pairs_replace_prefix: "pairs_ok ps \<Longrightarrow> ident n \<Longrightarrow> pairs_ok (replacePairsPrefix ps x n)"
  by (induction ps) (auto simp: pairs_ok_Cons pair_split_make pairs_insert)

lemma pairs_replace_suffix: "pairs_ok ps \<Longrightarrow> ident n \<Longrightarrow> pairs_ok (replacePairsSuffix ps x n)"
  by (induction ps) (auto simp: pairs_ok_Cons pair_split_make pairs_insert)

section \<open>Drawing an element\<close>

lemma getRandomElement_Some:
  assumes "gen_env_ok env" and "getRandomElement env xs st = Some (x, st')"
  shows "x \<in> set xs" "st' = st\<lparr>g_draws := g_draws st + 1\<rparr>"
proof -
  have "set (traverse env xs) = set xs"
    using assms(1) unfolding gen_env_ok_def by (metis mset_eq_setD)
  then show "x \<in> set xs" using assms(2) nth_mem
    by (force simp: getRandomElement_def Let_def split: if_splits)
  show "st' = st\<lparr>g_draws := g_draws st + 1\<rparr>"
    using assms(2) by (auto simp: getRandomElement_def Let_def split: if_splits)
qed

lemma getRandomElement_both:
  "gen_env_ok env \<Longrightarrow> getRandomElement env xs st = Some (x, st') \<Longrightarrow>
     x \<in> set xs \<and> st' = st\<lparr>g_draws := g_draws st + 1\<rparr>"
  using getRandomElement_Some by blast

lemma getRandomElement_returns:
  assumes "gen_env_ok env" and "xs \<noteq> []"
  shows "\<exists>x. getRandomElement env xs st = Some (x, st\<lparr>g_draws := g_draws st + 1\<rparr>)"
proof -
  have "length (traverse env xs) = length xs"
    using assms(1) unfolding gen_env_ok_def by (metis mset_eq_length)
  then have "0 < length (traverse env xs)" using assms(2) by simp
  then show ?thesis using assms(1) by (simp add: getRandomElement_def Let_def gen_env_ok_def)
qed

text \<open>A fresh identifier is found exactly if one is left, for fair draws.\<close>

definition fair :: "gen_env \<Rightarrow> bool" where
  "fair env \<longleftrightarrow> (\<forall>k v. 1 \<le> v \<longrightarrow> v \<le> 1000 \<longrightarrow> (\<exists>j \<ge> k. rand_1000 env j = v))"

lemma pickFreshId_found:
  assumes "pickFreshId env used base k = Some y"
  shows "fst y \<notin> set used \<and> (\<exists>j. fst y = to_string (base + rand_1000 env j))"
  by (rule pickFreshId.raw_induct [of "\<lambda>env used base k y.
        fst y \<notin> set used \<and> (\<exists>j. fst y = to_string (base + rand_1000 env j))", OF _ assms])
    (auto simp: Let_def split: if_splits)

lemma pickFreshId_reaches:
  "k \<le> j \<Longrightarrow> to_string (base + rand_1000 env j) \<notin> set used \<Longrightarrow> pickFreshId env used base k \<noteq> None"
proof (induction rule: inc_induct)
  case base
  then show ?case by (subst pickFreshId.simps) (simp add: Let_def)
next
  case (step k)
  then show ?case by (subst pickFreshId.simps) (simp add: Let_def)
qed

lemma pickFreshId_iff:
  assumes "gen_env_ok env" and "fair env"
  shows "pickFreshId env used base k \<noteq> None \<longleftrightarrow>
     (\<exists>v. 1 \<le> v \<and> v \<le> 1000 \<and> to_string (base + v) \<notin> set used)"
proof
  assume "pickFreshId env used base k \<noteq> None"
  then obtain y where y: "pickFreshId env used base k = Some y" by blast
  from pickFreshId_found [OF this] assms(1)
  show "\<exists>v. 1 \<le> v \<and> v \<le> 1000 \<and> to_string (base + v) \<notin> set used"
    by (auto simp: gen_env_ok_def)
next
  assume "\<exists>v. 1 \<le> v \<and> v \<le> 1000 \<and> to_string (base + v) \<notin> set used"
  then obtain v j where "to_string (base + v) \<notin> set used" "k \<le> j" "rand_1000 env j = v"
    using assms(2) unfolding fair_def by blast
  then show "pickFreshId env used base k \<noteq> None" using pickFreshId_reaches [of k j] by simp
qed

lemma pickFreshId_ident:
  assumes "gen_env_ok env" and "0 \<le> base" "base \<le> 9000000" and "pickFreshId env used base k = Some (x, k')"
  shows "ident x"
proof -
  obtain j where j: "x = to_string (base + rand_1000 env j)"
    using pickFreshId_found [OF assms(4)] by auto
  have "1 \<le> rand_1000 env j" "rand_1000 env j \<le> 1000" using assms(1) by (simp_all add: gen_env_ok_def)
  then show ?thesis unfolding j using assms(2,3) by (intro identI) simp_all
qed

lemma pick_not_seed_Some:
  assumes env: "gen_env_ok env" and "pick_not_seed env seed xs st = Some (x, st')"
  shows "x \<in> set xs \<and> (\<exists>k. st' = st\<lparr>g_draws := k\<rparr>)"
proof -
  obtain y st1 where y: "getRandomElement env xs st = Some (y, st1)"
    "(if y = seed \<and> 1 < length xs then getRandomElement env xs st1 else Some (y, st1)) = Some (x, st')"
    using assms(2) by (auto simp: pick_not_seed_def Option.bind_eq_Some_conv)
  show ?thesis
  proof (cases "y = seed \<and> 1 < length xs")
    case True
    then have "getRandomElement env xs st1 = Some (x, st')" using y(2) by simp
    from getRandomElement_Some [OF env this] getRandomElement_Some [OF env y(1)] show ?thesis by auto
  next
    case False
    then have "x = y" "st' = st1" using y(2) by (simp_all split: if_splits)
    then show ?thesis using getRandomElement_Some [OF env y(1)] by auto
  qed
qed

lemma pick_old_new_Some:
  assumes env: "gen_env_ok env" and base: "0 \<le> base" "base \<le> 9000000"
    and "pick_old_new env xs base st = Some (x, y, st')"
  shows "x \<in> set xs \<and> ident y \<and> (\<exists>k. st' = st\<lparr>g_draws := k\<rparr>)"
proof -
  obtain st1 k where r: "getRandomElement env xs st = Some (x, st1)"
    "pickFreshId env xs base (g_draws st1) = Some (y, k)" "st' = st1\<lparr>g_draws := k\<rparr>"
    using assms(4) by (auto simp: pick_old_new_def Option.bind_eq_Some_conv)
  from getRandomElement_Some [OF env r(1)] pickFreshId_ident [OF env base r(2)] r(3)
  show ?thesis by auto
qed

lemma pick_department_Some:
  assumes "gen_env_ok env" and "pick_department env d st = Some (x, st')"
    and "gen_ok st" and "ident d"
  shows "ident x \<and> gen_ok st' \<and> (\<exists>k fs. st' = st\<lparr>g_draws := k, g_free_departments := fs\<rparr>)"
proof (cases "g_departments st = []")
  case True
  then have "x = d" "st' = st" using assms(2) by (simp_all add: pick_department_def)
  moreover have "st = st\<lparr>g_draws := g_draws st, g_free_departments := g_free_departments st\<rparr>" by simp
  ultimately show ?thesis using assms(3,4) by metis
next
  case False
  then obtain st1 where st1: "getRandomElement env (g_departments st) st = Some (x, st1)"
    "st' = st1\<lparr>g_free_departments := set_erase x (g_free_departments st)\<rparr>"
    using assms(2) by (auto simp: pick_department_def Option.bind_eq_Some_conv)
  from getRandomElement_Some [OF assms(1) st1(1)] assms(3) st1(2) show ?thesis
    by (auto simp: gen_ok_def dest: identsD)
qed

lemma pick_if_any_Some:
  assumes "gen_env_ok env" and "pick_if_any env xs d st = Some (x, st')"
    and "idents xs" and "ident d"
  shows "ident x \<and> (\<exists>k. st' = st\<lparr>g_draws := k\<rparr>)"
proof (cases "xs = []")
  case True
  then show ?thesis using assms(2,4) by (auto simp: pick_if_any_def intro: exI [of _ "g_draws st"])
next
  case False
  then have "getRandomElement env xs st = Some (x, st')" using assms(2) by (simp add: pick_if_any_def)
  from getRandomElement_Some [OF assms(1) this] assms(3) show ?thesis by (auto dest: identsD)
qed

section \<open>The pass keeps the shape of a line\<close>

lemma line_of_read:
  assumes "line_of op l"
  shows "\<exists>iss. extract_into (istringstream l) (- 1) = (iss, op) \<and>
    (\<not> pair_op op \<longrightarrow> (\<exists>ws. length ws = line_arity op \<and> idents ws \<and> l = to_string op @ line_words ws \<and>
       (\<forall>k \<le> length ws. extract_words k iss = take k ws)))"
proof (cases "pair_op op")
  case True
  then obtain r where l: "l = to_string op @ r" "ends_number r" "0 \<le> op" "op \<le> 19"
    using assms by (auto simp: line_of_def ends_number_def is_digit_def)
  from extract_line_op [OF l(3,4,2)] show ?thesis
    using True by (simp add: extract_into_def l(1))
next
  case False
  then obtain ws where ws: "length ws = line_arity op" "idents ws" "l = to_string op @ line_words ws"
    "0 \<le> op" "op \<le> 19"
    using assms by (auto simp: line_of_def)
  have "extract_into (istringstream l) (- 1) =
      (\<lparr>sbuf = line_words ws, eofbit = (line_words ws = []), failbit = False\<rparr>, op)"
    using extract_line_op [OF ws(4,5) ends_number_words] by (simp add: extract_into_def ws(3))
  then show ?thesis using ws extract_words_idents [OF ws(2)] by blast
qed

lemma line_of_replace:
  assumes "line_of op l" and "\<not> pair_op op" and "length ws = line_arity op" and "idents ws"
  shows "line_of op (to_string op @ line_words ws)"
  using assms by (auto simp: line_of_def)

text \<open>A branch leaves the line alone or writes another one of the same kind.\<close>

definition keeps :: "int \<Rightarrow> string \<Rightarrow> string \<Rightarrow> gen_node \<Rightarrow> bool" where
  "keeps op l l' st' \<longleftrightarrow> (l' = l \<or> line_of op l') \<and> gen_ok st'"

lemma keepsI: "line_of op l' \<Longrightarrow> gen_ok st' \<Longrightarrow> keeps op l l' st'"
  by (simp add: keeps_def)

lemma keeps_same: "gen_ok st \<Longrightarrow> keeps op l l st"
  by (simp add: keeps_def)

lemma gen_ok_draws [simp]: "gen_ok (st\<lparr>g_draws := k\<rparr>) = gen_ok st"
  by (simp add: gen_ok_def)

lemmas line_simps = line_intros [simplified append_Cons append_Nil]

lemma fix_add_ok:
  assumes "extract_words 1 iss = [w]" and "ident w" and "gen_ok st"
  shows "fix_AddDepartment l iss st = Some (l', st') \<Longrightarrow> keeps 13 l l' st'"
    "fix_AddStudent l iss st = Some (l', st') \<Longrightarrow> keeps 0 l l' st'"
  using assms by (auto simp: fix_AddDepartment_def fix_AddStudent_def keeps_def gen_ok_def split: if_splits)

lemma fix_delete_ok:
  assumes env: "gen_env_ok env" and st: "gen_ok st"
  shows "fix_DeleteStudent env i st = Some (l', st') \<Longrightarrow> keeps 1 l l' st'"
    "fix_DeleteInstructor env i st = Some (l', st') \<Longrightarrow> keeps 5 l l' st'"
    "fix_DeleteCourse env i st = Some (l', st') \<Longrightarrow> keeps 9 l l' st'"
    "fix_DeleteDepartment env st = Some (l', st') \<Longrightarrow> keeps 14 l l' st'"
  using st
  by (auto simp: fix_DeleteStudent_def fix_DeleteInstructor_def fix_DeleteCourse_def
      fix_DeleteDepartment_def Let_def Option.bind_eq_Some_conv gen_ok_def line_simps
      intro!: keepsI dest!: pick_not_seed_Some [OF env] getRandomElement_both [OF env]
      dest: identsD split: if_splits option.split)

lemma rename_line:
  assumes "gen_env_ok env" and "idents xs" and "pick_old_new env xs base st = Some (x, y, st')"
    and "0 \<le> base" "base \<le> 9000000"
  shows "ident x \<and> ident y \<and> (\<exists>k. st' = st\<lparr>g_draws := k\<rparr>)"
  using pick_old_new_Some [OF assms(1,4,5,3)] identsD [OF assms(2)] by auto

lemma fix_UpdateStudentID_ok:
  assumes env: "gen_env_ok env" and st: "gen_ok st" and fx: "fix_UpdateStudentID env l st = Some (l', st')"
  shows "keeps 2 l l' st'"
proof (cases "g_students st = []")
  case True
  then show ?thesis using fx st by (simp add: fix_UpdateStudentID_def keeps_same)
next
  case False
  then obtain x y st1 where p: "pick_old_new env (g_students st) 7000000 st = Some (x, y, st1)"
    "l' = ''2 '' @ make_pair x y" "st' = st1\<lparr>
          g_students := set_insert y (set_erase x (g_students st)),
          g_enroll_pairs := replacePairsSuffix (g_enroll_pairs st) x y\<rparr>"
    using fx by (auto simp: fix_UpdateStudentID_def Option.bind_eq_Some_conv)
  from rename_line [OF env _ p(1)] st have "ident x" "ident y" "\<exists>k. st1 = st\<lparr>g_draws := k\<rparr>"
    by (auto simp: gen_ok_def)
  then show ?thesis
    using st p(2,3) by (auto simp: gen_ok_def line_simps pairs_replace_suffix intro!: keepsI)
qed

lemma fix_UpdateInstructorID_ok:
  assumes env: "gen_env_ok env" and st: "gen_ok st" and fx: "fix_UpdateInstructorID env l st = Some (l', st')"
  shows "keeps 6 l l' st'"
proof (cases "g_instructors st = []")
  case True
  then show ?thesis using fx st by (simp add: fix_UpdateInstructorID_def keeps_same)
next
  case False
  then obtain x y st1 where p: "pick_old_new env (g_instructors st) 8000000 st = Some (x, y, st1)"
    "l' = ''6 '' @ make_pair x y" "st' = st1\<lparr>
          g_instructors := set_insert y (set_erase x (g_instructors st)),
          g_teach_pairs := replacePairsSuffix (g_teach_pairs st) x y\<rparr>"
    using fx by (auto simp: fix_UpdateInstructorID_def Option.bind_eq_Some_conv)
  from rename_line [OF env _ p(1)] st have "ident x" "ident y" "\<exists>k. st1 = st\<lparr>g_draws := k\<rparr>"
    by (auto simp: gen_ok_def)
  then show ?thesis
    using st p(2,3) by (auto simp: gen_ok_def line_simps pairs_replace_suffix intro!: keepsI)
qed

lemma fix_UpdateCourseID_ok:
  assumes env: "gen_env_ok env" and st: "gen_ok st" and fx: "fix_UpdateCourseID env l st = Some (l', st')"
  shows "keeps 10 l l' st'"
proof (cases "g_courses st = []")
  case True
  then show ?thesis using fx st by (simp add: fix_UpdateCourseID_def keeps_same)
next
  case False
  then obtain x y st1 m where p: "pick_old_new env (g_courses st) 9000000 st = Some (x, y, st1)"
    "l' = ''10 '' @ make_pair x y" "st' = st1\<lparr>
          g_courses := set_insert y (set_erase x (g_courses st)),
          g_enroll_pairs := replacePairsPrefix (g_enroll_pairs st) x y,
          g_teach_pairs := replacePairsPrefix (g_teach_pairs st) x y\<rparr> \<or>
       st' = st1\<lparr>
          g_courses := set_insert y (set_erase x (g_courses st)),
          g_enroll_pairs := replacePairsPrefix (g_enroll_pairs st) x y,
          g_teach_pairs := replacePairsPrefix (g_teach_pairs st) x y,
          g_course_id_to_name := m\<rparr>"
    using fx by (auto simp: fix_UpdateCourseID_def Option.bind_eq_Some_conv Let_def split: option.splits)
  from rename_line [OF env _ p(1)] st have "ident x" "ident y" "\<exists>k. st1 = st\<lparr>g_draws := k\<rparr>"
    by (auto simp: gen_ok_def)
  then show ?thesis
    using st p(2,3) by (auto simp: gen_ok_def line_simps pairs_replace_prefix intro!: keepsI)
qed

lemma pair_line:
  assumes "pairs_ok ps" and "p \<in> set ps"
  shows "line_of 16 (CHR ''1'' # CHR ''6'' # CHR '' '' # p)"
    "line_of 18 (CHR ''1'' # CHR ''8'' # CHR '' '' # p)"
  using assms by (auto simp: pairs_ok_def line_simps)

lemma fix_link_ok:
  assumes env: "gen_env_ok env" and st: "gen_ok st"
  shows "fix_Enroll env l st = Some (l', st') \<Longrightarrow> keeps 15 l l' st'"
    "fix_WithdrawEnrollment env st = Some (l', st') \<Longrightarrow> keeps 16 l l' st'"
    "fix_Teach env l st = Some (l', st') \<Longrightarrow> keeps 17 l l' st'"
    "fix_WithdrawTeaching env st = Some (l', st') \<Longrightarrow> keeps 18 l l' st'"
  using st
  by (auto simp: fix_Enroll_def fix_WithdrawEnrollment_def fix_Teach_def fix_WithdrawTeaching_def
      Let_def Option.bind_eq_Some_conv gen_ok_def keeps_same pair_line
      intro!: keepsI line_simps pairs_insert dest!: getRandomElement_both [OF env]
      intro: identsD split: if_splits)

text \<open>The branches that read the words of the line.\<close>

lemma list_of_length:
  "length ws = 2 \<Longrightarrow> \<exists>a b. ws = [a, b]" "length ws = 3 \<Longrightarrow> \<exists>a b c. ws = [a, b, c]"
  "length ws = 4 \<Longrightarrow> \<exists>a b c d. ws = [a, b, c, d]"
  by (auto simp: numeral_eq_Suc length_Suc_conv)

lemma fix_UpdateStudentOther_ok:
  assumes env: "gen_env_ok env" and st: "gen_ok st"
    and ws: "extract_words 3 iss = [a, b, c]" "ident a" "ident b" "ident c"
    and fx: "fix_UpdateStudentOther env l iss st = Some (l', st')"
  shows "keeps 3 l l' st'"
  using fx st ws
  by (auto simp: fix_UpdateStudentOther_def Let_def Option.bind_eq_Some_conv keeps_same gen_ok_def
      intro!: keepsI line_simps dest!: getRandomElement_both [OF env] intro: identsD split: if_splits)

lemma fix_AddInstructor_ok:
  assumes env: "gen_env_ok env" and st: "gen_ok st"
    and ws: "extract_words 4 iss = [a, b, c, d]" "ident a" "ident b" "ident c" "ident d"
    and fx: "fix_AddInstructor env l iss st = Some (l', st')"
  shows "keeps 4 l l' st'"
proof -
  obtain x st1 where p: "pick_department env d st = Some (x, st1)"
    "l' = (if g_departments st \<noteq> [] then ''4 '' @ a @ '' '' @ b @ '' '' @ c @ '' '' @ x else l)"
    "st' = (if a \<noteq> [] then st1\<lparr>g_instructors := set_insert a (g_instructors st)\<rparr> else st1)"
    using fx ws(1) by (auto simp: fix_AddInstructor_def Let_def Option.bind_eq_Some_conv)
  from pick_department_Some [OF env p(1) st ws(5)] p(2,3) ws st show ?thesis
    by (auto simp: keeps_def gen_ok_def line_simps)
qed

lemma fix_UpdateInstructorOther_ok:
  assumes env: "gen_env_ok env" and st: "gen_ok st"
    and ws: "extract_words 4 iss = [a, b, c, d]" "ident a" "ident b" "ident c" "ident d"
    and fx: "fix_UpdateInstructorOther env iss st = Some (l', st')"
  shows "keeps 7 l l' st'"
proof -
  obtain x y st1 where p: "pick_if_any env (g_instructors st) a st = Some (x, st1)"
    "pick_department env d st1 = Some (y, st')"
    "l' = ''7 '' @ x @ '' '' @ b @ '' '' @ c @ '' '' @ y"
    using fx ws(1) by (auto simp: fix_UpdateInstructorOther_def Let_def Option.bind_eq_Some_conv)
  have x: "ident x" "gen_ok st1"
    using pick_if_any_Some [OF env p(1) _ ws(2)] st by (auto simp: gen_ok_def)
  from pick_department_Some [OF env p(2) x(2) ws(5)] x p(3) ws show ?thesis
    by (auto simp: line_simps intro!: keepsI)
qed

lemma fix_AddCourse_ok:
  assumes env: "gen_env_ok env" and st: "gen_ok st"
    and ws: "extract_words 4 iss = [a, b, c, d]" "ident a" "ident b" "ident c" "ident d"
    and fx: "fix_AddCourse env l iss st = Some (l', st')"
  shows "keeps 8 l l' st'"
proof -
  obtain x st1 y m where p: "pick_department env d st = Some (x, st1)"
    "l' = l \<or> l' = ''8 '' @ a @ '' '' @ a @ '' '' @ c @ '' '' @ x"
    "st' = st1 \<or> st' = st1\<lparr>g_courses := set_insert a (g_courses st), g_course_names := y,
       g_course_id_to_name := m\<rparr>"
    using fx ws(1)
    by (auto simp: fix_AddCourse_def Let_def Option.bind_eq_Some_conv split: if_splits)
  from pick_department_Some [OF env p(1) st ws(5)] p(2,3) ws st show ?thesis
    by (auto simp: keeps_def gen_ok_def line_simps)
qed

lemma fix_UpdateCourseName_ok:
  assumes env: "gen_env_ok env" and st: "gen_ok st"
    and ws: "extract_words 2 iss = [a, b]" "ident a" "ident b"
    and fx: "fix_UpdateCourseName env iss st = Some (l', st')"
  shows "keeps 11 l l' st'"
proof -
  obtain x y st1 k ns m where p: "pick_if_any env (g_courses st) a st = Some (x, st1)"
    "pickFreshId env (g_course_names st) 6000000 (g_draws st1) = Some (y, k)"
    "l' = ''11 '' @ x @ '' '' @ y"
    "st' = st1\<lparr>g_draws := k, g_course_names := ns, g_course_id_to_name := m\<rparr>"
    using fx ws(1) by (auto simp: fix_UpdateCourseName_def Let_def Option.bind_eq_Some_conv)
  have "ident x" "gen_ok st1"
    using pick_if_any_Some [OF env p(1) _ ws(2)] st by (auto simp: gen_ok_def)
  moreover have "ident y" using pickFreshId_ident [OF env _ _ p(2)] by simp
  ultimately show ?thesis using p(3,4) by (auto simp: line_simps gen_ok_def intro!: keepsI)
qed

lemma fix_UpdateCourseOther_ok:
  assumes env: "gen_env_ok env" and st: "gen_ok st"
    and ws: "extract_words 3 iss = [a, b, c]" "ident a" "ident b" "ident c"
    and fx: "fix_UpdateCourseOther env iss st = Some (l', st')"
  shows "keeps 12 l l' st'"
proof -
  obtain x y st1 where p: "pick_if_any env (g_courses st) a st = Some (x, st1)"
    "pick_department env c st1 = Some (y, st')"
    "l' = ''12 '' @ x @ '' '' @ b @ '' '' @ y"
    using fx ws(1) by (auto simp: fix_UpdateCourseOther_def Let_def Option.bind_eq_Some_conv)
  have x: "ident x" "gen_ok st1"
    using pick_if_any_Some [OF env p(1) _ ws(2)] st by (auto simp: gen_ok_def)
  from pick_department_Some [OF env p(2) x(2) ws(4)] x p(3) ws show ?thesis
    by (auto simp: line_simps intro!: keepsI)
qed

lemma op_cases:
  fixes op :: int
  assumes "0 \<le> op" and "op \<le> 19"
  obtains "op = 0" | "op = 1" | "op = 2" | "op = 3" | "op = 4" | "op = 5" | "op = 6" | "op = 7"
    | "op = 8" | "op = 9" | "op = 10" | "op = 11" | "op = 12" | "op = 13" | "op = 14" | "op = 15"
    | "op = 16" | "op = 17" | "op = 18" | "op = 19"
proof -
  have "op \<in> set [0..19]" using assms by simp
  also have "[0..19] = [0, 1, 2, 3, 4, 5, 6, 7, 8, 9, 10, 11, 12, 13, 14, 15, 16, 17, 18, 19 :: int]"
    by code_simp
  finally show ?thesis
    using that by (simp only: set_simps insert_iff empty_iff) blast
qed

lemma line_read_words:
  assumes "line_of op l"
  obtains iss where "extract_into (istringstream l) (- 1) = (iss, op)"
    "op \<in> {1, 5, 9, 13, 14} \<Longrightarrow> \<exists>a. extract_words 1 iss = [a] \<and> ident a"
    "op = 11 \<Longrightarrow> \<exists>a b. extract_words 2 iss = [a, b] \<and> ident a \<and> ident b"
    "op \<in> {0, 3, 12} \<Longrightarrow> \<exists>a b c. extract_words 1 iss = [a] \<and> extract_words 3 iss = [a, b, c] \<and>
       ident a \<and> ident b \<and> ident c"
    "op \<in> {4, 7, 8} \<Longrightarrow> \<exists>a b c d. extract_words 4 iss = [a, b, c, d] \<and>
       ident a \<and> ident b \<and> ident c \<and> ident d"
proof -
  obtain iss where iss: "extract_into (istringstream l) (- 1) = (iss, op)"
    "\<not> pair_op op \<longrightarrow> (\<exists>ws. length ws = line_arity op \<and> idents ws \<and> l = to_string op @ line_words ws \<and>
       (\<forall>k \<le> length ws. extract_words k iss = take k ws))"
    using line_of_read [OF assms] by blast
  show ?thesis
  proof (rule that [OF iss(1)])
    show "\<exists>a. extract_words 1 iss = [a] \<and> ident a" if op: "op \<in> {1, 5, 9, 13, 14}"
    proof -
      obtain ws where "length ws = 1" "idents ws" "extract_words 1 iss = take 1 ws"
        using iss(2) op by (auto simp: pair_op_def line_arity_def simp del: extract_words.simps)
      then show ?thesis by (cases ws) (auto simp: idents_def)
    qed
    show "\<exists>a b. extract_words 2 iss = [a, b] \<and> ident a \<and> ident b" if op: "op = 11"
    proof -
      obtain ws where "length ws = 2" "idents ws" "extract_words 2 iss = take 2 ws"
        using iss(2) op by (auto simp: pair_op_def line_arity_def simp del: extract_words.simps)
      then show ?thesis using list_of_length(1) [of ws] by (auto simp: idents_def)
    qed
    show "\<exists>a b c. extract_words 1 iss = [a] \<and> extract_words 3 iss = [a, b, c] \<and>
       ident a \<and> ident b \<and> ident c" if op: "op \<in> {0, 3, 12}"
    proof -
      obtain ws where "length ws = 3" "idents ws" "extract_words 1 iss = take 1 ws"
        "extract_words 3 iss = take 3 ws"
        using iss(2) op by (auto simp: pair_op_def line_arity_def simp del: extract_words.simps)
      then show ?thesis using list_of_length(2) [of ws] by (auto simp: idents_def)
    qed
    show "\<exists>a b c d. extract_words 4 iss = [a, b, c, d] \<and>
       ident a \<and> ident b \<and> ident c \<and> ident d" if op: "op \<in> {4, 7, 8}"
    proof -
      obtain ws where "length ws = 4" "idents ws" "extract_words 4 iss = take 4 ws"
        using iss(2) op by (auto simp: pair_op_def line_arity_def simp del: extract_words.simps)
      then show ?thesis using list_of_length(3) [of ws] by (auto simp: idents_def)
    qed
  qed
qed

lemma fix_line_ok:
  assumes env: "gen_env_ok env" and l: "line_of op l" and st: "gen_ok st"
    and fx: "fix_line env i l st = Some (l', st')"
  shows "line_of op l' \<and> gen_ok st'"
proof (cases "l = ''19''")
  case True
  then show ?thesis using fx l st by (simp add: fix_line_def)
next
  case False
  obtain iss where iss: "extract_into (istringstream l) (- 1) = (iss, op)"
    "op \<in> {1, 5, 9, 13, 14} \<Longrightarrow> \<exists>a. extract_words 1 iss = [a] \<and> ident a"
    "op = 11 \<Longrightarrow> \<exists>a b. extract_words 2 iss = [a, b] \<and> ident a \<and> ident b"
    "op \<in> {0, 3, 12} \<Longrightarrow> \<exists>a b c. extract_words 1 iss = [a] \<and> extract_words 3 iss = [a, b, c] \<and>
       ident a \<and> ident b \<and> ident c"
    "op \<in> {4, 7, 8} \<Longrightarrow> \<exists>a b c d. extract_words 4 iss = [a, b, c, d] \<and>
       ident a \<and> ident b \<and> ident c \<and> ident d"
    using line_read_words [OF l] by metis
  note unfold = fix_line_def False iss(1) Let_def
  have range: "0 \<le> op" "op \<le> 19" using l by (simp_all add: line_of_def)
  have "keeps op l l' st'"
  proof (rule op_cases [OF range])
    assume op: "op = 0"
    obtain a where "extract_words 1 iss = [a]" "ident a" using iss(4) op by blast
    then show ?thesis using fx op fix_add_ok(2) [OF _ _ st] by (simp add: unfold)
  next
    assume op: "op = 1"
    then show ?thesis using fx fix_delete_ok(1) [OF env st] by (simp add: unfold)
  next
    assume op: "op = 2"
    then show ?thesis using fx fix_UpdateStudentID_ok [OF env st] by (simp add: unfold)
  next
    assume op: "op = 3"
    obtain a b c where "extract_words 3 iss = [a, b, c]" "ident a" "ident b" "ident c"
      using iss(4) op by blast
    then show ?thesis using fx op fix_UpdateStudentOther_ok [OF env st] by (simp add: unfold)
  next
    assume op: "op = 4"
    obtain a b c d where "extract_words 4 iss = [a, b, c, d]" "ident a" "ident b" "ident c" "ident d"
      using iss(5) op by blast
    then show ?thesis using fx op fix_AddInstructor_ok [OF env st] by (simp add: unfold)
  next
    assume op: "op = 5"
    then show ?thesis using fx fix_delete_ok(2) [OF env st] by (simp add: unfold)
  next
    assume op: "op = 6"
    then show ?thesis using fx fix_UpdateInstructorID_ok [OF env st] by (simp add: unfold)
  next
    assume op: "op = 7"
    obtain a b c d where "extract_words 4 iss = [a, b, c, d]" "ident a" "ident b" "ident c" "ident d"
      using iss(5) op by blast
    then show ?thesis using fx op fix_UpdateInstructorOther_ok [OF env st] by (simp add: unfold)
  next
    assume op: "op = 8"
    obtain a b c d where "extract_words 4 iss = [a, b, c, d]" "ident a" "ident b" "ident c" "ident d"
      using iss(5) op by blast
    then show ?thesis using fx op fix_AddCourse_ok [OF env st] by (simp add: unfold)
  next
    assume op: "op = 9"
    then show ?thesis using fx fix_delete_ok(3) [OF env st] by (simp add: unfold)
  next
    assume op: "op = 10"
    then show ?thesis using fx fix_UpdateCourseID_ok [OF env st] by (simp add: unfold)
  next
    assume op: "op = 11"
    obtain a b where "extract_words 2 iss = [a, b]" "ident a" "ident b" using iss(3) op by blast
    then show ?thesis using fx op fix_UpdateCourseName_ok [OF env st] by (simp add: unfold)
  next
    assume op: "op = 12"
    obtain a b c where "extract_words 3 iss = [a, b, c]" "ident a" "ident b" "ident c"
      using iss(4) op by blast
    then show ?thesis using fx op fix_UpdateCourseOther_ok [OF env st] by (simp add: unfold)
  next
    assume op: "op = 13"
    obtain a where "extract_words 1 iss = [a]" "ident a" using iss(2) op by blast
    then show ?thesis using fx op fix_add_ok(1) [OF _ _ st] by (simp add: unfold)
  next
    assume op: "op = 14"
    then show ?thesis using fx fix_delete_ok(4) [OF env st] by (simp add: unfold)
  next
    assume op: "op = 15"
    then show ?thesis using fx fix_link_ok(1) [OF env st] by (simp add: unfold)
  next
    assume op: "op = 16"
    then show ?thesis using fx fix_link_ok(2) [OF env st] by (simp add: unfold)
  next
    assume op: "op = 17"
    then show ?thesis using fx fix_link_ok(3) [OF env st] by (simp add: unfold)
  next
    assume op: "op = 18"
    then show ?thesis using fx fix_link_ok(4) [OF env st] by (simp add: unfold)
  next
    assume op: "op = 19"
    then show ?thesis using fx st by (simp add: unfold keeps_same)
  qed
  then show ?thesis using l by (auto simp: keeps_def)
qed

lemma fix_lines_ok:
  assumes env: "gen_env_ok env"
  shows "list_all2 line_of ops ls \<Longrightarrow> gen_ok st \<Longrightarrow> fix_lines env i ls st = Some (ls', st') \<Longrightarrow>
     list_all2 line_of ops ls' \<and> gen_ok st'"
proof (induction ops ls arbitrary: st ls' rule: list_all2_induct)
  case Nil
  then show ?case by simp
next
  case (Cons op ops l ls)
  from Cons.prems(2) obtain l1 st1 ls1 where r: "fix_line env i l st = Some (l1, st1)"
    "fix_lines env i ls st1 = Some (ls1, st')" "ls' = l1 # ls1"
    by (auto simp: Option.bind_eq_Some_conv)
  from fix_line_ok [OF env Cons.hyps(1) Cons.prems(1) r(1)] Cons.IH [OF _ r(2)] r(3)
  show ?case by simp
qed

end
