(* ===== verification/Course_Files.thy ===== *)
theory Course_Files
  imports Course_Workload
begin

text \<open>
  The files of the courseware generator from end to end: the kinds of their lines, the number
  in their headers, and that the reader of the class accepts them.
\<close>

section \<open>The kinds of the lines\<close>

text \<open>\<open>kss\<close> holds the kinds of the lines of every node.\<close>

definition shaped :: "int list list \<Rightarrow> string list list \<Rightarrow> bool" where
  "shaped kss calls \<longleftrightarrow> list_all2 (list_all2 line_of) kss calls"

definition updates_among :: "int list \<Rightarrow> nat" where
  "updates_among ks = length (filter (\<lambda>k. k \<noteq> 19) ks)"

definition updates_total :: "int list list \<Rightarrow> int" where
  "updates_total kss = (\<Sum>ks \<leftarrow> kss. int (updates_among ks))"

lemma updates_among_simps [simp]:
  "updates_among [] = 0" "updates_among (k # ks) = (if k = 19 then 0 else 1) + updates_among ks"
  "updates_among (ks @ js) = updates_among ks + updates_among js"
  by (simp_all add: updates_among_def)

lemma updates_total_simps [simp]:
  "updates_total [] = 0" "updates_total (ks # kss) = int (updates_among ks) + updates_total kss"
  by (simp_all add: updates_total_def)

lemma updates_among_reads: "updates_among (replicate m 19) = 0"
  by (simp add: updates_among_def)

lemma updates_among_all: "19 \<notin> set ks \<Longrightarrow> updates_among ks = length ks"
  by (induction ks) auto

lemma updates_among_mset: "mset js = mset ks \<Longrightarrow> updates_among js = updates_among ks"
  unfolding updates_among_def by (metis mset_filter size_mset)

section \<open>The drawn calls\<close>

lemma gen_calls_shape:
  assumes "gen_env_ok env" and "1 \<le> i" "i \<le> 31" and "ty < 19"
  shows "list_all2 line_of (replicate m (int ty)) (fst (gen_calls env i ty m k))"
proof (induction m arbitrary: k)
  case 0
  then show ?case by simp
next
  case (Suc m)
  from Suc [of "snd (gen_call env i ty k)"] gen_call_line [OF assms, of k] show ?case
    by (simp add: case_prod_beta Let_def)
qed

lemma gen_kinds_shape:
  assumes env: "gen_env_ok env" and i: "1 \<le> i" "i \<le> 31"
  shows "\<forall>ty \<in> set tys. ty < 19 \<Longrightarrow>
    \<exists>ks. 19 \<notin> set ks \<and> list_all2 line_of ks (fst (gen_kinds env i pm tys k))"
proof (induction tys arbitrary: k)
  case Nil
  then show ?case by simp
next
  case (Cons ty tys)
  let ?m = "nat (pm - first_count ty)"
  have ty: "ty < 19" using Cons.prems by simp
  let ?k1 = "snd (gen_calls env i ty ?m k)"
  have "\<exists>ks. 19 \<notin> set ks \<and> list_all2 line_of ks (fst (gen_kinds env i pm tys ?k1))"
    using Cons.prems by (intro Cons.IH) simp
  then obtain ks where ks: "19 \<notin> set ks" "list_all2 line_of ks (fst (gen_kinds env i pm tys ?k1))"
    by blast
  have "list_all2 line_of (replicate ?m (int ty) @ ks)
      (fst (gen_calls env i ty ?m k) @ fst (gen_kinds env i pm tys ?k1))"
    by (rule list_all2_appendI [OF gen_calls_shape [OF env i ty] ks(2)])
  then show ?case
    using ks(1) ty by (intro exI [of _ "replicate ?m (int ty) @ ks"]) (simp add: case_prod_beta Let_def)
qed

lemma gen_all_shape:
  assumes env: "gen_env_ok env"
  shows "1 \<le> i \<Longrightarrow> i + int m \<le> 32 \<Longrightarrow> gen_all env pm i m real k = (calls, real', k') \<Longrightarrow>
    \<exists>kss. shaped kss calls \<and> length kss = m \<and> real' = real + 4 * int m + updates_total kss"
proof (induction m arbitrary: i real k calls)
  case 0
  then show ?case by (simp add: shaped_def)
next
  case (Suc m)
  obtain ls k1 where ls: "gen_kinds env i pm [0..<19] k = (ls, k1)" by fastforce
  obtain rest where rest: "gen_all env pm (i + 1) m (real + 4 + int (length ls)) k1 = (rest, real', k')"
    "calls = ls # rest"
    using Suc.prems(3) ls by (auto simp: Let_def split: prod.splits)
  have "\<exists>ks. 19 \<notin> set ks \<and> list_all2 line_of ks (fst (gen_kinds env i pm [0..<19] k))"
    using Suc.prems by (intro gen_kinds_shape [OF env]) auto
  then obtain ks where ks: "19 \<notin> set ks" "list_all2 line_of ks ls" by (auto simp: ls)
  from Suc.IH [OF _ _ rest(1)] Suc.prems obtain kss where
    "shaped kss rest" "length kss = m" "real' = real + 4 + int (length ls) + 4 * int m + updates_total kss"
    by auto
  then show ?case
    using ks rest(2) list_all2_lengthD [OF ks(2)]
    by (intro exI [of _ "ks # kss"]) (simp add: shaped_def updates_among_all)
qed

section \<open>Reads and shuffles\<close>

lemma shaped_add_read:
  assumes "shaped kss calls" and "j < length calls"
  shows "shaped (kss[j := kss ! j @ [19]]) (calls[j := calls ! j @ [''19'']])"
    "updates_total (kss[j := kss ! j @ [19]]) = updates_total kss"
proof -
  have len: "length kss = length calls" using assms(1) by (auto simp: shaped_def dest: list_all2_lengthD)
  have "list_all2 line_of (kss ! j @ [19]) (calls ! j @ [''19''])"
    using assms len
    by (intro list_all2_appendI) (simp_all add: shaped_def list_all2_nthD2 line_words_0)
  then show "shaped (kss[j := kss ! j @ [19]]) (calls[j := calls ! j @ [''19'']])"
    using assms(1) unfolding shaped_def by (rule list_all2_update_cong [rotated])
  have "map (\<lambda>ks. int (updates_among ks)) (kss[j := kss ! j @ [19]]) = map (\<lambda>ks. int (updates_among ks)) kss"
    using len assms(2) by (simp add: map_update list_update_same_conv)
  then show "updates_total (kss[j := kss ! j @ [19]]) = updates_total kss"
    unfolding updates_total_def by (rule arg_cong)
qed

lemma even_out_shape:
  assumes "even_out calls read_calls ix = Some p" and "shaped kss calls"
  shows "\<exists>kss'. shaped kss' (fst p) \<and> length kss' = length kss \<and> updates_total kss' = updates_total kss"
proof -
  have "\<forall>kss. shaped kss calls \<longrightarrow> (\<exists>kss'. shaped kss' (fst p) \<and> length kss' = length kss \<and>
      updates_total kss' = updates_total kss)"
  proof (rule even_out.raw_induct [of "\<lambda>calls read_calls ix p. \<forall>kss. shaped kss calls \<longrightarrow>
      (\<exists>kss'. shaped kss' (fst p) \<and> length kss' = length kss \<and>
        updates_total kss' = updates_total kss)", OF _ assms(1)])
    fix f :: "string list list \<Rightarrow> int \<Rightarrow> nat \<Rightarrow> (string list list \<times> int) option"
      and calls read_calls ix p
    assume IH: "\<And>calls read_calls ix p. f calls read_calls ix = Some p \<Longrightarrow>
        \<forall>kss. shaped kss calls \<longrightarrow> (\<exists>kss'. shaped kss' (fst p) \<and> length kss' = length kss \<and>
          updates_total kss' = updates_total kss)"
      and body: "(if length calls < 2 then None
        else if length (calls ! 1) < length (calls ! 0) \<and> read_calls \<noteq> 0
        then (let j = ix mod (length calls - 1) + 1 in
              f (calls[j := calls ! j @ [''19'']]) (read_calls - 1) (ix + 1))
        else Some (calls, read_calls)) = Some p"
    show "\<forall>kss. shaped kss calls \<longrightarrow> (\<exists>kss'. shaped kss' (fst p) \<and> length kss' = length kss \<and>
        updates_total kss' = updates_total kss)"
    proof (intro allI impI)
      fix kss
      assume kss: "shaped kss calls"
      let ?j = "ix mod (length calls - 1) + 1"
      show "\<exists>kss'. shaped kss' (fst p) \<and> length kss' = length kss \<and>
          updates_total kss' = updates_total kss"
      proof (cases "length (calls ! 1) < length (calls ! 0) \<and> read_calls \<noteq> 0")
        case False
        then show ?thesis using body kss by (auto split: if_splits)
      next
        case True
        then have step: "f (calls[?j := calls ! ?j @ [''19'']]) (read_calls - 1) (ix + 1) = Some p"
          and two: "2 \<le> length calls"
          using body by (auto simp: Let_def split: if_splits)
        have "ix mod (length calls - 1) < length calls - 1" using two by simp
        then have j: "?j < length calls" by linarith
        from IH [OF step] shaped_add_read [OF kss j] show ?thesis by fastforce
      qed
    qed
  qed
  then show ?thesis using assms(2) by blast
qed

lemma add_reads_shape:
  assumes "shaped kss calls"
  shows "\<exists>kss'. shaped kss' (add_reads calls rc) \<and> length kss' = length kss \<and>
    updates_total kss' = updates_total kss"
proof (cases "rc = 0")
  case True
  then show ?thesis using assms by (auto simp: add_reads_def)
next
  case False
  let ?m = "nat (rc sdiv int (length calls))"
  have reads: "list_all2 line_of (replicate ?m 19) (replicate ?m ''19'')"
    by (simp add: list_all2_conv_all_nth line_words_0)
  have "shaped (map (\<lambda>ks. ks @ replicate ?m 19) kss) (map (\<lambda>ls. ls @ replicate ?m ''19'') calls)"
    using assms reads unfolding shaped_def
    by (auto simp: list_all2_map1 list_all2_map2 elim!: list_all2_mono intro: list_all2_appendI)
  moreover have "updates_total (map (\<lambda>ks. ks @ replicate ?m 19) kss) = updates_total kss"
    by (simp add: updates_total_def comp_def updates_among_reads)
  ultimately show ?thesis
    using False by (intro exI [of _ "map (\<lambda>ks. ks @ replicate ?m 19) kss"]) (simp add: add_reads_def)
qed

lemma shuffle_all_shape:
  assumes env: "gen_env_ok env"
  shows "shaped kss calls \<Longrightarrow> \<exists>kss'. shaped kss' (fst (shuffle_all env calls k)) \<and>
    length kss' = length kss \<and> updates_total kss' = updates_total kss"
proof (induction calls arbitrary: kss k)
  case Nil
  then show ?case by (auto simp: shaped_def)
next
  case (Cons ls calls)
  then obtain ks kss1 where k: "kss = ks # kss1" "list_all2 line_of ks ls" "shaped kss1 calls"
    by (auto simp: shaped_def list_all2_Cons2)
  have "mset (random_shuffle env k ls) = mset ls" using env by (simp add: gen_env_ok_def)
  moreover have "list_all2 (\<lambda>l op. line_of op l) ls ks"
    using k(2) by (simp add: list_all2_conv_all_nth)
  ultimately obtain js where "list_all2 (\<lambda>l op. line_of op l) (random_shuffle env k ls) js"
    and mset: "mset js = mset ks"
    using list_all2_reorder_left_invariance by blast
  then have js: "list_all2 line_of js (random_shuffle env k ls)" "mset js = mset ks"
    by (simp_all add: list_all2_conv_all_nth)
  from Cons.IH [OF k(3), of "k + 1"] obtain kss2 where
    "shaped kss2 (fst (shuffle_all env calls (k + 1)))" "length kss2 = length kss1"
    "updates_total kss2 = updates_total kss1" by blast
  then show ?case
    using k(1) js updates_among_mset [OF js(2)]
    by (intro exI [of _ "js # kss2"]) (simp add: shaped_def case_prod_beta)
qed

section \<open>The files\<close>

text \<open>A header with \<open>real\<close>, then lines of the given kinds.\<close>

definition file_shape :: "int \<Rightarrow> int list \<Rightarrow> string list \<Rightarrow> bool" where
  "file_shape real ks f \<longleftrightarrow> (\<exists>ls. f = (''#'' @ to_string real) # ls \<and> list_all2 line_of ks ls)"

lemma seeds_ident:
  assumes "1 \<le> i" "i \<le> 31"
  shows "ident (seed_dept i)" "ident (seed_student i)" "ident (seed_instructor i)" "ident (seed_course i)"
  using assms
  by (auto simp: seed_dept_def seed_student_def seed_instructor_def seed_course_def intro!: identI)

lemma gen_node_start_ok: "1 \<le> i \<Longrightarrow> i \<le> 31 \<Longrightarrow> gen_ok (gen_node_start i k)"
  by (simp add: gen_ok_def gen_node_start_def idents_def pairs_ok_def seeds_ident set_erase_def
      set_insert_def)

lemma seed_lines_shape:
  assumes "1 \<le> i" "i \<le> 31"
  shows "\<exists>ls. seed_lines real i = (''#'' @ to_string real) # ls \<and> list_all2 line_of [13, 0, 4, 8] ls"
proof -
  have "line_of 8 (''8 '' @ seed_course i @ '' '' @ seed_course i @ '' '' @ ''1'' @ '' '' @ seed_dept i)"
    by (intro line_words_4 seeds_ident ident_numbers assms)
  then show ?thesis
    by (simp add: seed_lines_def line_simps seeds_ident [OF assms])
qed

lemma fix_all_shape:
  assumes env: "gen_env_ok env"
  shows "shaped kss calls \<Longrightarrow> 1 \<le> i \<Longrightarrow> i + int (length calls) \<le> 32 \<Longrightarrow>
    fix_all env real i calls k = Some files \<Longrightarrow>
    list_all2 (file_shape real) (map (\<lambda>ks. [13, 0, 4, 8] @ ks) kss) files"
proof (induction calls arbitrary: kss i k files)
  case Nil
  then show ?case by (simp add: shaped_def)
next
  case (Cons ls calls)
  then obtain ks kss1 where k: "kss = ks # kss1" "list_all2 line_of ks ls" "shaped kss1 calls"
    by (auto simp: shaped_def list_all2_Cons2)
  have i: "1 \<le> i" "i \<le> 31" using Cons.prems(2,3) by simp_all
  obtain ls' st rest where r: "fix_lines env i ls (gen_node_start i k) = Some (ls', st)"
    "fix_all env real (i + 1) calls (g_draws st) = Some rest"
    "files = (seed_lines real i @ ls') # rest"
    using Cons.prems(4) by (auto simp: Option.bind_eq_Some_conv)
  have ls': "list_all2 line_of ks ls'"
    using fix_lines_ok [OF env k(2) gen_node_start_ok [OF i] r(1)] by blast
  obtain ss where ss: "seed_lines real i = (''#'' @ to_string real) # ss" "list_all2 line_of [13, 0, 4, 8] ss"
    using seed_lines_shape [OF i] by blast
  have "list_all2 (file_shape real) (map (\<lambda>ks. [13, 0, 4, 8] @ ks) kss1) rest"
    using Cons.prems by (intro Cons.IH [OF k(3) _ _ r(2)]) simp_all
  moreover have "file_shape real ([13, 0, 4, 8] @ ks) (seed_lines real i @ ls')"
    unfolding file_shape_def ss(1)
    using list_all2_appendI [OF ss(2) ls'] by (intro exI [of _ "ss @ ls'"]) simp
  ultimately show ?case by (simp add: k(1) r(3))
qed

text \<open>The generated files: one for each node, each announcing the updates of all of them.\<close>

lemma generate_shape:
  assumes env: "gen_env_ok env" and n: "n \<le> 31" and gen: "generate env n queries pm = Some files"
  shows "\<exists>kss. length kss = n \<and> list_all2 (file_shape (updates_total kss)) kss files"
proof -
  obtain calls real k where c: "gen_all env pm 1 n 0 0 = (calls, real, k)" by (metis prod_cases3)
  from gen_all_shape [OF env _ _ c] n obtain kss where
    kss: "shaped kss calls" "length kss = n" "real = 4 * int n + updates_total kss" by auto
  obtain calls1 rc calls2 k2 where e: "even_out calls queries 0 = Some (calls1, rc)"
    "shuffle_all env (add_reads calls1 rc) k = (calls2, k2)" "fix_all env real 1 calls2 k2 = Some files"
    using gen
    by (cases "shuffle_all env (add_reads (fst (the (even_out calls queries 0)))
          (snd (the (even_out calls queries 0)))) k")
      (auto simp: generate_def c Let_def Option.bind_eq_Some_conv)
  from even_out_shape [OF e(1) kss(1)] obtain kss1 where
    1: "shaped kss1 calls1" "length kss1 = n" "updates_total kss1 = updates_total kss" using kss(2) by auto
  from add_reads_shape [OF 1(1), of rc] obtain kss2 where
    2: "shaped kss2 (add_reads calls1 rc)" "length kss2 = n" "updates_total kss2 = updates_total kss"
    using 1 by auto
  from shuffle_all_shape [OF env 2(1), of k] obtain kss3 where
    3: "shaped kss3 calls2" "length kss3 = n" "updates_total kss3 = updates_total kss"
    using 2 e(2) by auto
  have len: "length calls2 = n" using 3 by (auto simp: shaped_def dest: list_all2_lengthD)
  let ?kss = "map (\<lambda>ks. [13, 0, 4, 8] @ ks) kss3"
  have "list_all2 (file_shape real) ?kss files"
    using len n by (intro fix_all_shape [OF env 3(1) _ _ e(3)]) simp_all
  moreover have "updates_total (map (\<lambda>ks. [13, 0, 4, 8] @ ks) js)
      = 4 * int (length js) + updates_total js" for js
    by (induction js) simp_all
  ultimately show ?thesis using kss(3) 3 by (intro exI [of _ ?kss]) simp
qed

section \<open>Reading a file\<close>

lemma op_names:
  "map cc_coursewareToString [0..19] =
    [''AddStudentForce'', ''DeleteStudentCascade'', ''UpdateStudentIDCascade'', ''UpdateStudentOther'',
     ''AddInstructorForce'', ''DeleteInstructorCascade'', ''UpdateInstructorIDCascade'',
     ''UpdateInstructorOther'', ''AddCourseForce'', ''DeleteCourseCascade'', ''UpdateCourseIDCascade'',
     ''UpdateCourseNameForce'', ''UpdateCourseOther'', ''AddDepartment'', ''DeleteDepartmentNoAction'',
     ''Enroll'', ''WithdrawEnrollment'', ''Teach'', ''WithdrawTeaching'', ''Read'']"
  by code_simp

lemma op_range_list: "[0..19] = [0, 1, 2, 3, 4, 5, 6, 7, 8, 9, 10, 11, 12, 13, 14, 15, 16, 17, 18, 19 :: int]"
  by code_simp

lemmas op_name = op_names [unfolded op_range_list, simplified]

lemma op_name_kind:
  assumes "0 \<le> op" "op \<le> 19"
  shows "cc_coursewareToString op \<noteq> ''Invalid''" "cc_coursewareToString op = ''Read'' \<longleftrightarrow> op = 19"
    "pair_op op \<longleftrightarrow> cc_coursewareToString op \<in> {''Enroll'', ''Teach'', ''WithdrawEnrollment'',
      ''WithdrawTeaching'', ''UpdateStudentIDCascade'', ''UpdateInstructorIDCascade'', ''UpdateCourseIDCascade''}"
  by (rule op_cases [OF assms]; simp add: op_name pair_op_def)+

lemma line_operands:
  assumes l: "line_of op l"
  obtains iss where "extract_int (istringstream l) = (iss, Some op)"
    "\<And>c. ctype c = cc_coursewareToString op \<Longrightarrow> \<exists>c2. Complex_operands iss c = Inr c2"
proof (cases "pair_op op")
  case True
  then obtain a b where ab: "ident a" "ident b" "l = to_string op @ '' '' @ make_pair a b" "0 \<le> op" "op \<le> 19"
    using l by (auto simp: line_of_def)
  obtain p q where pq: "0 \<le> p" "int32 p" "a = to_string p" "int32 q" "b = to_string q"
    using ab(1,2) by (auto simp: ident_def)
  let ?r = "char_of (32::nat) # to_string p @ char_of (45::nat) # to_string q"
  let ?iss = "\<lparr>sbuf = ?r, eofbit = False, failbit = False\<rparr>"
  have r: "l = to_string op @ ?r" by (simp add: ab(3) pq make_pair_def char_of_def bit_0)
  have "extract_int (istringstream l) = (?iss, Some op)"
    using extract_line_op [OF ab(4,5), of ?r] by (simp add: r)
  moreover have "\<exists>c2. Complex_operands ?iss c = Inr c2" if c: "ctype c = cc_coursewareToString op" for c
    using True read_pair_text [OF pq(2,1,4), of c]
    unfolding op_name_kind(3) [OF ab(4,5)] c [symmetric] by (simp add: Complex_operands_def)
  ultimately show ?thesis by (rule that)
next
  case False
  then obtain ws where ws: "l = to_string op @ line_words ws" "0 \<le> op" "op \<le> 19"
    using l by (auto simp: line_of_def)
  let ?iss = "\<lparr>sbuf = line_words ws, eofbit = (line_words ws = []), failbit = False\<rparr>"
  have "extract_int (istringstream l) = (?iss, Some op)"
    using extract_line_op [OF ws(2,3) ends_number_words] by (simp add: ws(1))
  moreover have "\<exists>c2. Complex_operands ?iss c = Inr c2" if c: "ctype c = cc_coursewareToString op" for c
    using False unfolding op_name_kind(3) [OF ws(2,3)] c [symmetric]
    by (auto simp: Complex_operands_def)
  ultimately show ?thesis by (rule that)
qed

lemma read_lines:
  "list_all2 line_of ks ls \<Longrightarrow>
    \<exists>ds. Complex_bench_loop node ls k c cs = Inr (cs @ ds) \<and> map ctype ds = map cc_coursewareToString ks"
proof (induction ks ls arbitrary: k c cs rule: list_all2_induct)
  case Nil
  then show ?case by simp
next
  case (Cons op ks l ls)
  obtain iss where iss: "extract_int (istringstream l) = (iss, Some op)"
    "\<And>c. ctype c = cc_coursewareToString op \<Longrightarrow> \<exists>c2. Complex_operands iss c = Inr c2"
    using line_operands [OF Cons.hyps(1)] by blast
  let ?c1 = "c\<lparr>ctype := cc_coursewareToString op, value1 := 0, value2 := 0, value3 := 0, value4 := 0\<rparr>"
  show ?case
  proof (cases "cc_coursewareToString op = ''Read''")
    case True
    let ?c3 = "?c1\<lparr>node_id := node, stable := False\<rparr>"
    from Cons.IH [of k ?c3 "cs @ [?c3]"] obtain ds where
      "Complex_bench_loop node ls k ?c3 (cs @ [?c3]) = Inr ((cs @ [?c3]) @ ds)"
      "map ctype ds = map cc_coursewareToString ks" by blast
    then show ?thesis using iss(1) True by (intro exI [of _ "?c3 # ds"]) (simp add: Let_def)
  next
    case False
    obtain c2 where c2: "Complex_operands iss (?c1\<lparr>call_id := k + 1\<rparr>) = Inr c2"
      using iss(2) [of "?c1\<lparr>call_id := k + 1\<rparr>"] by auto
    let ?c3 = "c2\<lparr>node_id := node, stable := False\<rparr>"
    have "ctype c2 = cc_coursewareToString op"
      using Complex_operands_only [OF c2] by (simp add: operands_only_def)
    moreover from Cons.IH [of "k + 1" ?c3 "cs @ [?c3]"] obtain ds where
      "Complex_bench_loop node ls (k + 1) ?c3 (cs @ [?c3]) = Inr ((cs @ [?c3]) @ ds)"
      "map ctype ds = map cc_coursewareToString ks" by blast
    ultimately show ?thesis
      using iss(1) False c2 by (intro exI [of _ "?c3 # ds"]) (simp add: Let_def)
  qed
qed

lemma no_newline_words: "idents ws \<Longrightarrow> list_all (\<lambda>c. of_char c \<noteq> (10::nat)) (line_words ws)"
  by (induction ws) (auto simp: line_words_def idents_def intro: ident_chars(4))

lemma no_newline_line:
  assumes "line_of op l"
  shows "list_all (\<lambda>c. of_char c \<noteq> (10::nat)) l"
proof (cases "pair_op op")
  case True
  then obtain a b where "ident a" "ident b" "l = to_string op @ '' '' @ make_pair a b"
    using assms by (auto simp: line_of_def)
  then show ?thesis using ident_chars(4) no_newline_to_string by (simp add: make_pair_def of_char_of)
next
  case False
  then show ?thesis using assms no_newline_to_string no_newline_words by (auto simp: line_of_def)
qed

lemma file_text_lines:
  assumes "file_shape real ks f"
  shows "file_lines (file_text f) = f"
proof -
  obtain ls where f: "f = (''#'' @ to_string real) # ls" "list_all2 line_of ks ls"
    using assms by (auto simp: file_shape_def)
  have "\<forall>l \<in> set ls. list_all (\<lambda>c. of_char c \<noteq> (10::nat)) l"
    using f(2) no_newline_line by (metis in_set_conv_nth list_all2_conv_all_nth)
  then show ?thesis
    using no_newline_to_string [of real] unfolding f(1) file_text_def
    by (intro file_lines_concat) simp
qed

lemma file_read:
  assumes shape: "file_shape real ks f" and "int32 real"
  shows "\<exists>cs. Complex_readBenchFile (Some (file_text f)) expected i c [] = Inr (real, cs) \<and>
    map ctype cs = map cc_coursewareToString ks"
proof -
  obtain ls where f: "f = (''#'' @ to_string real) # ls" "list_all2 line_of ks ls"
    using shape by (auto simp: file_shape_def)
  from read_lines [OF f(2), of i 0 c "[]"] show ?thesis
    using file_text_lines [OF shape] stoi_to_string [OF assms(2)]
    by (auto simp: Complex_readBenchFile_def f(1))
qed

section \<open>Processes set up from generated files\<close>

lemma kinds_read:
  assumes "list_all2 line_of ks ls" and "map ctype cs = map cc_coursewareToString ks"
  shows "\<forall>c \<in> set cs. ctype c \<noteq> ''Invalid''" "length (updates cs) = updates_among ks"
proof -
  have "\<forall>k \<in> set ks. 0 \<le> k \<and> k \<le> 19"
    using assms(1) by (induction rule: list_all2_induct) (auto simp: line_of_def)
  then have "(\<forall>c \<in> set cs. ctype c \<noteq> ''Invalid'') \<and> length (updates cs) = updates_among ks"
    using assms(2)
  proof (induction ks arbitrary: cs)
    case Nil
    then show ?case by (simp add: updates_def)
  next
    case (Cons k ks)
    then obtain d ds where ds: "cs = d # ds" "ctype d = cc_coursewareToString k"
      "map ctype ds = map cc_coursewareToString ks" by (auto simp: map_eq_Cons_conv)
    have "0 \<le> k" "k \<le> 19" using Cons.prems(1) by simp_all
    from op_name_kind(1,2) [OF this] Cons.IH [OF _ ds(3)] Cons.prems(1) ds(1,2) show ?case
      by (simp add: updates_def)
  qed
  then show "\<forall>c \<in> set cs. ctype c \<noteq> ''Invalid''" "length (updates cs) = updates_among ks" by blast+
qed

lemma updates_among_le: "updates_among ks \<le> length ks"
  by (simp add: updates_among_def)

lemma updates_total_range:
  assumes "length kss \<le> 31" and "\<forall>ks \<in> set kss. length ks \<le> 350000"
  shows "int32 (updates_total kss)"
proof -
  have "0 \<le> updates_total kss \<and> updates_total kss \<le> 350000 * int (length kss)"
    using assms(2)
  proof (induction kss)
    case Nil
    then show ?case by simp
  next
    case (Cons ks kss)
    then show ?case using updates_among_le [of ks] by simp
  qed
  then show ?thesis using assms(1) by (simp add: int32_def)
qed

lemma generated_setup:
  assumes shape: "list_all2 (file_shape (updates_total kss)) kss files" and n: "length kss = n" "n \<le> 31"
    and len: "\<forall>f \<in> set files. length f \<le> 350000" and i: "is_node n i"
  shows "\<exists>m. main_setup Complex_uc Complex_readBenchFile i n wp (Some (file_text (files ! nat (i - 1)))) = Inr m \<and>
    (\<forall>c \<in> set (bench_calls_var m). ctype c \<noteq> ''Invalid'') \<and>
    length (file_lines (file_text (files ! nat (i - 1)))) \<le> 350000 \<and>
    expected_calls (hdl m) = updates_total kss \<and>
    length (updates (bench_calls_var m)) = updates_among (kss ! nat (i - 1))"
proof -
  let ?f = "files ! nat (i - 1)" and ?ks = "kss ! nat (i - 1)"
  have files: "length files = n" using shape n(1) by (auto dest: list_all2_lengthD)
  have ix: "nat (i - 1) < n" using i by (auto simp: is_node_def)
  have f: "file_shape (updates_total kss) ?ks ?f" using shape ix n(1) by (simp add: list_all2_nthD)
  have short: "length ks \<le> 350000" if ks: "ks \<in> set kss" for ks
  proof -
    obtain j where j: "j < n" "ks = kss ! j" using ks unfolding in_set_conv_nth n(1) by blast
    then have "file_shape (updates_total kss) ks (files ! j)" using shape n(1) by (simp add: list_all2_nthD)
    then have "length ks \<le> length (files ! j)" by (auto simp: file_shape_def dest: list_all2_lengthD)
    also have "\<dots> \<le> 350000" using len j(1) files by simp
    finally show ?thesis .
  qed
  have "int32 (updates_total kss)" using updates_total_range short n by simp
  from file_read [OF f this] obtain cs where
    cs: "Complex_readBenchFile (Some (file_text ?f)) 0 i Call_default [] = Inr (updates_total kss, cs)"
    "map ctype cs = map cc_coursewareToString ?ks" by blast
  obtain ls where "list_all2 line_of ?ks ls" using f by (auto simp: file_shape_def)
  from kinds_read [OF this cs(2)] show ?thesis
    using cs(1) file_text_lines [OF f] len ix files
    by (simp add: main_setup_def main_start_def setVars_def)
qed

lemma updates_total_nth: "updates_total kss = (\<Sum>k < length kss. int (updates_among (kss ! k)))"
  by (simp add: updates_total_def sum_list_sum_nth atLeast0LessThan)

text \<open>
  The processes set up from generated files: each expects exactly the updates of all the
  files, and the group they form is one whose runs are defined.
\<close>

lemma generated_processes:
  assumes env: "gen_env_ok env" and n: "n \<le> 31" and gen: "generate env n queries pm = Some files"
    and len: "\<forall>f \<in> set files. length f \<le> 350000"
  shows "\<exists>ms. (\<forall>i. is_node n i \<longrightarrow>
      main_setup Complex_uc Complex_readBenchFile i n wp (Some (file_text (files ! nat (i - 1)))) = Inr (ms i) \<and>
      expected_calls (hdl (ms i)) = (\<Sum>k < n. int (length (updates (bench_calls_var (ms (int k + 1))))))) \<and>
    byte_reachable Complex_uc Complex_checkValidcall n (byte_start n ms)"
proof -
  obtain kss where kss: "length kss = n" "list_all2 (file_shape (updates_total kss)) kss files"
    using generate_shape [OF env n gen] by blast
  have "\<exists>m. is_node n i \<longrightarrow>
      main_setup Complex_uc Complex_readBenchFile i n wp (Some (file_text (files ! nat (i - 1)))) = Inr m \<and>
      (\<forall>c \<in> set (bench_calls_var m). ctype c \<noteq> ''Invalid'') \<and>
      length (file_lines (file_text (files ! nat (i - 1)))) \<le> 350000 \<and>
      expected_calls (hdl m) = updates_total kss \<and>
      length (updates (bench_calls_var m)) = updates_among (kss ! nat (i - 1))" for i
    using generated_setup [OF kss(2,1) n len, of i wp] by blast
  then obtain ms where ms: "\<And>i. is_node n i \<Longrightarrow>
      main_setup Complex_uc Complex_readBenchFile i n wp (Some (file_text (files ! nat (i - 1)))) = Inr (ms i) \<and>
      (\<forall>c \<in> set (bench_calls_var (ms i)). ctype c \<noteq> ''Invalid'') \<and>
      length (file_lines (file_text (files ! nat (i - 1)))) \<le> 350000 \<and>
      expected_calls (hdl (ms i)) = updates_total kss \<and>
      length (updates (bench_calls_var (ms i))) = updates_among (kss ! nat (i - 1))"
    by metis
  have "updates_total kss = (\<Sum>k < n. int (length (updates (bench_calls_var (ms (int k + 1))))))"
    unfolding updates_total_nth kss(1)
    by (rule sum.cong [OF refl]) (use ms in \<open>simp add: is_node_def\<close>)
  moreover have "byte_reachable Complex_uc Complex_checkValidcall n (byte_start n ms)"
    by (rule byte_reachable_files [OF n, where input = "\<lambda>i. file_text (files ! nat (i - 1))"])
      (use ms in blast)
  ultimately show ?thesis using ms by (intro exI [of _ ms]) simp
qed

end
