(* ===== verification/Course_Returns.thy ===== *)
theory Course_Returns
  imports Course_Files
begin

text \<open>
  When the courseware generator ends: its two unbounded loops, the search for an unused
  identifier and the levelling of the files, return for fair draws as long as the files stay
  below a thousand calls; and the renaming of a course always reads an erased element.
\<close>

section \<open>An unused identifier is left\<close>

lemma fresh_left:
  assumes "length used < 1000" and "0 \<le> base" "base \<le> 9000000"
  shows "\<exists>v. 1 \<le> v \<and> v \<le> 1000 \<and> to_string (base + v) \<notin> set used"
proof (rule ccontr)
  assume "\<not> ?thesis"
  then have "(\<lambda>v. to_string (base + v)) ` {1..1000} \<subseteq> set used" by auto
  then have "card ((\<lambda>v. to_string (base + v)) ` {1..1000}) \<le> card (set used)" by (simp add: card_mono)
  also have "\<dots> \<le> length used" by (rule card_length)
  finally have "card ((\<lambda>v. to_string (base + v)) ` {1..1000}) < 1000" using assms(1) by simp
  moreover have "inj_on (\<lambda>v. to_string (base + v)) {1..1000}"
    using assms(2,3) by (auto simp: inj_on_def to_string_inject int32_def)
  then have "card ((\<lambda>v. to_string (base + v)) ` {1..1000}) = 1000" by (simp add: card_image)
  ultimately show False by simp
qed

definition sound_draws :: "gen_env \<Rightarrow> bool" where
  "sound_draws env \<longleftrightarrow> gen_env_ok env \<and> fair env \<and> (\<forall>k. stale env k \<noteq> None)"

lemma sound_drawsD:
  "sound_draws env \<Longrightarrow> gen_env_ok env" "sound_draws env \<Longrightarrow> fair env"
  "sound_draws env \<Longrightarrow> \<exists>s. stale env k = Some s"
  by (auto simp: sound_draws_def)

lemma pickFreshId_returns:
  assumes "sound_draws env" and "length used < 1000" and "0 \<le> base" "base \<le> 9000000"
  shows "\<exists>x k'. pickFreshId env used base k = Some (x, k')"
  using pickFreshId_iff [OF sound_drawsD(1) [OF assms(1)] sound_drawsD(2) [OF assms(1)], of used base k]
    fresh_left [OF assms(2-4)]
  by auto

section \<open>Every call is fixed up\<close>

text \<open>The sets an identifier is searched in have at most \<open>m\<close> elements.\<close>

definition at_most :: "nat \<Rightarrow> gen_node \<Rightarrow> bool" where
  "at_most m st \<longleftrightarrow> length (g_students st) \<le> m \<and> length (g_instructors st) \<le> m \<and>
     length (g_courses st) \<le> m \<and> length (g_course_names st) \<le> m"

lemma length_set_insert: "length (set_insert x xs) \<le> Suc (length xs)"
  by (simp add: set_insert_def)

lemma length_set_erase: "length (set_erase x xs) \<le> length xs"
  by (simp add: set_erase_def)

lemma length_replace: "length (set_insert y (set_erase x xs)) \<le> Suc (length xs)"
  using length_set_insert [of y "set_erase x xs"] length_set_erase [of x xs] by linarith

lemma at_most_draws [simp]: "at_most m (st\<lparr>g_draws := k\<rparr>) = at_most m st"
  by (simp add: at_most_def)

lemma at_most_Suc: "at_most m st \<Longrightarrow> at_most (Suc m) st"
  by (simp add: at_most_def)

definition returns :: "nat \<Rightarrow> (string \<times> gen_node) option \<Rightarrow> bool" where
  "returns m r \<longleftrightarrow> (\<exists>l st. r = Some (l, st) \<and> at_most m st)"

lemma returnsI: "at_most m st \<Longrightarrow> returns m (Some (l, st))"
  by (simp add: returns_def)

lemma draw:
  assumes "gen_env_ok env" and "xs \<noteq> []"
  obtains x where "getRandomElement env xs st = Some (x, st\<lparr>g_draws := g_draws st + 1\<rparr>)"
  using getRandomElement_returns [OF assms] by blast

lemma pick_not_seed_returns:
  assumes "gen_env_ok env" and "1 < length xs"
  shows "\<exists>x k. pick_not_seed env seed xs st = Some (x, st\<lparr>g_draws := k\<rparr>)"
proof -
  have xs: "xs \<noteq> []" using assms(2) by auto
  obtain x where x: "getRandomElement env xs st = Some (x, st\<lparr>g_draws := g_draws st + 1\<rparr>)"
    using draw [OF assms(1) xs] by blast
  obtain y where "getRandomElement env xs (st\<lparr>g_draws := g_draws st + 1\<rparr>)
      = Some (y, st\<lparr>g_draws := g_draws st + 1, g_draws := g_draws st + 1 + 1\<rparr>)"
    using draw [OF assms(1) xs, of "st\<lparr>g_draws := g_draws st + 1\<rparr>"] by auto
  then show ?thesis using x assms(2) by (cases "x = seed") (auto simp: pick_not_seed_def)
qed

lemma pick_old_new_returns:
  assumes "sound_draws env" and "xs \<noteq> []" "length xs < 1000" and "0 \<le> base" "base \<le> 9000000"
  shows "\<exists>x y k. pick_old_new env xs base st = Some (x, y, st\<lparr>g_draws := k\<rparr>)"
proof -
  obtain x where "getRandomElement env xs st = Some (x, st\<lparr>g_draws := g_draws st + 1\<rparr>)"
    using draw [OF sound_drawsD(1) [OF assms(1)] assms(2)] by blast
  moreover obtain y k where "pickFreshId env xs base (g_draws (st\<lparr>g_draws := g_draws st + 1\<rparr>)) = Some (y, k)"
    using pickFreshId_returns [OF assms(1,3-5)] by blast
  ultimately show ?thesis by (auto simp: pick_old_new_def)
qed

lemma pick_department_returns:
  assumes "gen_env_ok env"
  shows "\<exists>x k fs. pick_department env d st = Some (x, st\<lparr>g_draws := k, g_free_departments := fs\<rparr>)"
proof (cases "g_departments st = []")
  case True
  have "st = st\<lparr>g_draws := g_draws st, g_free_departments := g_free_departments st\<rparr>" by simp
  then show ?thesis using True unfolding pick_department_def by metis
next
  case False
  obtain x where "getRandomElement env (g_departments st) st = Some (x, st\<lparr>g_draws := g_draws st + 1\<rparr>)"
    using draw [OF assms False] by blast
  then show ?thesis using False by (auto simp: pick_department_def)
qed

lemma pick_if_any_returns:
  assumes "gen_env_ok env"
  shows "\<exists>x k. pick_if_any env xs d st = Some (x, st\<lparr>g_draws := k\<rparr>)"
proof (cases "xs = []")
  case True
  have "st = st\<lparr>g_draws := g_draws st\<rparr>" by simp
  then show ?thesis using True unfolding pick_if_any_def by metis
next
  case False
  then show ?thesis using getRandomElement_returns [OF assms False, of st] by (auto simp: pick_if_any_def)
qed

lemma at_most_fields [simp]:
  "at_most m (st\<lparr>g_departments := a\<rparr>) = at_most m st"
  "at_most m (st\<lparr>g_free_departments := a\<rparr>) = at_most m st"
  "at_most m (st\<lparr>g_enroll_pairs := a\<rparr>) = at_most m st"
  "at_most m (st\<lparr>g_teach_pairs := a\<rparr>) = at_most m st"
  "at_most m (st\<lparr>g_course_id_to_name := n\<rparr>) = at_most m st"
  by (simp_all add: at_most_def)

lemma at_most_sets:
  assumes "at_most m st"
  shows "length xs \<le> Suc m \<Longrightarrow> at_most (Suc m) (st\<lparr>g_students := xs\<rparr>)"
    "length xs \<le> Suc m \<Longrightarrow> at_most (Suc m) (st\<lparr>g_instructors := xs\<rparr>)"
    "length xs \<le> Suc m \<Longrightarrow> at_most (Suc m) (st\<lparr>g_courses := xs\<rparr>)"
    "length xs \<le> Suc m \<Longrightarrow> at_most (Suc m) (st\<lparr>g_course_names := xs\<rparr>)"
    "length xs \<le> Suc m \<Longrightarrow> length ys \<le> Suc m \<Longrightarrow>
      at_most (Suc m) (st\<lparr>g_courses := xs, g_course_names := ys\<rparr>)"
  using assms by (simp_all add: at_most_def)

lemma set_lengths:
  "length xs \<le> m \<Longrightarrow> length (set_insert x xs) \<le> Suc m"
  "length xs \<le> m \<Longrightarrow> length (set_erase x xs) \<le> Suc m"
  "length xs \<le> m \<Longrightarrow> length (set_insert y (set_erase x xs)) \<le> Suc m"
  using length_set_insert [of x xs] length_set_erase [of x xs] length_replace [of y x xs] by linarith+

lemma at_mostD:
  "at_most m st \<Longrightarrow> length (g_students st) \<le> m" "at_most m st \<Longrightarrow> length (g_instructors st) \<le> m"
  "at_most m st \<Longrightarrow> length (g_courses st) \<le> m" "at_most m st \<Longrightarrow> length (g_course_names st) \<le> m"
  by (simp_all add: at_most_def)

lemma add_returns:
  assumes "at_most m st"
  shows "returns (Suc m) (fix_AddDepartment l iss st)" "returns (Suc m) (fix_AddStudent l iss st)"
  using at_most_Suc [OF assms] at_most_sets(1) [OF assms set_lengths(1) [OF at_mostD(1) [OF assms]]]
  by (auto simp: fix_AddDepartment_def fix_AddStudent_def Let_def intro!: returnsI)

lemma delete_returns:
  assumes env: "gen_env_ok env" and st: "at_most m st"
  shows "returns (Suc m) (fix_DeleteStudent env i st)" "returns (Suc m) (fix_DeleteInstructor env i st)"
proof -
  note le = set_lengths(2) [OF at_mostD(1) [OF st]] set_lengths(2) [OF at_mostD(2) [OF st]]
  show "returns (Suc m) (fix_DeleteStudent env i st)"
  proof (cases "1 < length (g_students st)")
    case True
    from pick_not_seed_returns [OF env True, of "seed_student i" st] obtain x k where
      "pick_not_seed env (seed_student i) (g_students st) st = Some (x, st\<lparr>g_draws := k\<rparr>)" by blast
    then show ?thesis
      using True st le(1) [of x] by (auto simp: fix_DeleteStudent_def intro!: returnsI at_most_sets)
  next
    case False
    then show ?thesis using at_most_Suc [OF st] by (simp add: fix_DeleteStudent_def returnsI)
  qed
  show "returns (Suc m) (fix_DeleteInstructor env i st)"
  proof (cases "1 < length (g_instructors st)")
    case True
    from pick_not_seed_returns [OF env True, of "seed_instructor i" st] obtain x k where
      "pick_not_seed env (seed_instructor i) (g_instructors st) st = Some (x, st\<lparr>g_draws := k\<rparr>)" by blast
    then show ?thesis
      using True st le(2) [of x] by (auto simp: fix_DeleteInstructor_def intro!: returnsI at_most_sets)
  next
    case False
    then show ?thesis using at_most_Suc [OF st] by (simp add: fix_DeleteInstructor_def returnsI)
  qed
qed

lemma fix_DeleteCourse_returns:
  assumes env: "gen_env_ok env" and st: "at_most m st"
  shows "returns (Suc m) (fix_DeleteCourse env i st)"
proof (cases "1 < length (g_courses st)")
  case True
  from pick_not_seed_returns [OF env True, of "seed_course i" st] obtain x k where
    "pick_not_seed env (seed_course i) (g_courses st) st = Some (x, st\<lparr>g_draws := k\<rparr>)" by blast
  then show ?thesis
    using True st set_lengths(2) [OF at_mostD(3) [OF st], of x] set_lengths(2) [OF at_mostD(4) [OF st]]
    by (auto simp: fix_DeleteCourse_def Let_def at_most_def intro!: returnsI split: option.split)
next
  case False
  then show ?thesis using at_most_Suc [OF st] by (simp add: fix_DeleteCourse_def returnsI)
qed

lemma fix_DeleteDepartment_returns:
  assumes env: "gen_env_ok env" and st: "at_most m st"
  shows "returns (Suc m) (fix_DeleteDepartment env st)"
proof (cases "g_free_departments st = []")
  case True
  then show ?thesis using at_most_Suc [OF st] by (simp add: fix_DeleteDepartment_def returnsI)
next
  case False
  obtain x where "getRandomElement env (g_free_departments st) st = Some (x, st\<lparr>g_draws := g_draws st + 1\<rparr>)"
    using draw [OF env False] by blast
  then show ?thesis
    using False at_most_Suc [OF st] by (auto simp: fix_DeleteDepartment_def intro!: returnsI)
qed

lemma rename_returns:
  assumes sound: "sound_draws env" and st: "at_most m st" "m < 1000"
  shows "returns (Suc m) (fix_UpdateStudentID env l st)" "returns (Suc m) (fix_UpdateInstructorID env l st)"
    "returns (Suc m) (fix_UpdateCourseID env l st)"
proof -
  have le: "length (g_students st) < 1000" "length (g_instructors st) < 1000" "length (g_courses st) < 1000"
    using st by (simp_all add: at_most_def)
  show "returns (Suc m) (fix_UpdateStudentID env l st)"
  proof (cases "g_students st = []")
    case True
    then show ?thesis using at_most_Suc [OF st(1)] by (simp add: fix_UpdateStudentID_def returnsI)
  next
    case False
    obtain x y k where "pick_old_new env (g_students st) 7000000 st = Some (x, y, st\<lparr>g_draws := k\<rparr>)"
      using pick_old_new_returns [OF sound False le(1), of 7000000 st] by auto
    then show ?thesis
      using False st set_lengths(3) [OF at_mostD(1) [OF st(1)], of y x]
      by (auto simp: fix_UpdateStudentID_def intro!: returnsI at_most_sets)
  qed
  show "returns (Suc m) (fix_UpdateInstructorID env l st)"
  proof (cases "g_instructors st = []")
    case True
    then show ?thesis using at_most_Suc [OF st(1)] by (simp add: fix_UpdateInstructorID_def returnsI)
  next
    case False
    obtain x y k where "pick_old_new env (g_instructors st) 8000000 st = Some (x, y, st\<lparr>g_draws := k\<rparr>)"
      using pick_old_new_returns [OF sound False le(2), of 8000000 st] by auto
    then show ?thesis
      using False st set_lengths(3) [OF at_mostD(2) [OF st(1)], of y x]
      by (auto simp: fix_UpdateInstructorID_def intro!: returnsI at_most_sets)
  qed
  show "returns (Suc m) (fix_UpdateCourseID env l st)"
  proof (cases "g_courses st = []")
    case True
    then show ?thesis using at_most_Suc [OF st(1)] by (simp add: fix_UpdateCourseID_def returnsI)
  next
    case False
    obtain x y k where p: "pick_old_new env (g_courses st) 9000000 st = Some (x, y, st\<lparr>g_draws := k\<rparr>)"
      using pick_old_new_returns [OF sound False le(3), of 9000000 st] by auto
    obtain s where "stale env k = Some s" using sound_drawsD(3) [OF sound] by blast
    then show ?thesis
      using False p st set_lengths(3) [OF at_mostD(3) [OF st(1)], of y x]
      by (auto simp: fix_UpdateCourseID_def Let_def intro!: returnsI at_most_sets split: option.split)
  qed
qed

lemma link_returns:
  assumes env: "gen_env_ok env" and st: "at_most m st"
  shows "returns (Suc m) (fix_Enroll env l st)" "returns (Suc m) (fix_Teach env l st)"
    "returns (Suc m) (fix_WithdrawEnrollment env st)" "returns (Suc m) (fix_WithdrawTeaching env st)"
proof -
  note draws = getRandomElement_returns [OF env]
  have st': "at_most (Suc m) st" by (rule at_most_Suc [OF st])
  show "returns (Suc m) (fix_Enroll env l st)"
  proof (cases "g_courses st \<noteq> [] \<and> g_students st \<noteq> []")
    case True
    obtain x where "getRandomElement env (g_courses st) st = Some (x, st\<lparr>g_draws := g_draws st + 1\<rparr>)"
      using draws True by blast
    moreover obtain y where "getRandomElement env (g_students st) (st\<lparr>g_draws := g_draws st + 1\<rparr>)
        = Some (y, st\<lparr>g_draws := g_draws st + 1, g_draws := g_draws st + 1 + 1\<rparr>)"
      using draws [of "g_students st" "st\<lparr>g_draws := g_draws st + 1\<rparr>"] True by auto
    ultimately show ?thesis using True st' by (auto simp: fix_Enroll_def Let_def intro!: returnsI)
  next
    case False
    then show ?thesis using st' by (auto simp: fix_Enroll_def intro!: returnsI)
  qed
  show "returns (Suc m) (fix_Teach env l st)"
  proof (cases "g_courses st \<noteq> [] \<and> g_instructors st \<noteq> []")
    case True
    obtain x where "getRandomElement env (g_courses st) st = Some (x, st\<lparr>g_draws := g_draws st + 1\<rparr>)"
      using draws True by blast
    moreover obtain y where "getRandomElement env (g_instructors st) (st\<lparr>g_draws := g_draws st + 1\<rparr>)
        = Some (y, st\<lparr>g_draws := g_draws st + 1, g_draws := g_draws st + 1 + 1\<rparr>)"
      using draws [of "g_instructors st" "st\<lparr>g_draws := g_draws st + 1\<rparr>"] True by auto
    ultimately show ?thesis using True st' by (auto simp: fix_Teach_def Let_def intro!: returnsI)
  next
    case False
    then show ?thesis using st' by (auto simp: fix_Teach_def intro!: returnsI)
  qed
  show "returns (Suc m) (fix_WithdrawEnrollment env st)"
    using draws [of "g_enroll_pairs st" st] st'
    by (cases "g_enroll_pairs st = []") (auto simp: fix_WithdrawEnrollment_def intro!: returnsI)
  show "returns (Suc m) (fix_WithdrawTeaching env st)"
    using draws [of "g_teach_pairs st" st] st'
    by (cases "g_teach_pairs st = []") (auto simp: fix_WithdrawTeaching_def intro!: returnsI)
qed

lemma fix_UpdateStudentOther_returns:
  assumes env: "gen_env_ok env" and st: "at_most m st"
  shows "returns (Suc m) (fix_UpdateStudentOther env l iss st)"
  using getRandomElement_returns [OF env, of "g_students st" st] at_most_Suc [OF st]
  by (cases "g_students st = []") (auto simp: fix_UpdateStudentOther_def Let_def intro!: returnsI)

lemma fix_AddInstructor_returns:
  assumes env: "gen_env_ok env" and st: "at_most m st"
  shows "returns (Suc m) (fix_AddInstructor env l iss st)"
proof -
  let ?ws = "extract_words 4 iss"
  obtain x k fs where p: "pick_department env (?ws ! 3) st
      = Some (x, st\<lparr>g_draws := k, g_free_departments := fs\<rparr>)"
    using pick_department_returns [OF env] by blast
  have "length (set_insert (?ws ! 0) (g_instructors st)) \<le> Suc m"
    by (rule set_lengths(1) [OF at_mostD(2) [OF st]])
  then show ?thesis
    using p st at_most_Suc [OF st]
    by (simp add: fix_AddInstructor_def Let_def returns_def at_most_sets del: extract_words.simps)
qed

lemma fix_UpdateInstructorOther_returns:
  assumes env: "gen_env_ok env" and st: "at_most m st"
  shows "returns (Suc m) (fix_UpdateInstructorOther env iss st)"
proof -
  let ?ws = "extract_words 4 iss"
  obtain x k where p: "pick_if_any env (g_instructors st) (?ws ! 0) st = Some (x, st\<lparr>g_draws := k\<rparr>)"
    using pick_if_any_returns [OF env] by blast
  obtain y k' fs where q: "pick_department env (?ws ! 3) (st\<lparr>g_draws := k\<rparr>)
      = Some (y, st\<lparr>g_draws := k, g_draws := k', g_free_departments := fs\<rparr>)"
    using pick_department_returns [OF env] by blast
  show ?thesis
    using p q at_most_Suc [OF st]
    by (simp add: fix_UpdateInstructorOther_def Let_def returns_def del: extract_words.simps)
qed

lemma fix_AddCourse_returns:
  assumes env: "gen_env_ok env" and st: "at_most m st"
  shows "returns (Suc m) (fix_AddCourse env l iss st)"
proof -
  let ?ws = "extract_words 4 iss"
  obtain x k fs where p: "pick_department env (?ws ! 3) st
      = Some (x, st\<lparr>g_draws := k, g_free_departments := fs\<rparr>)"
    using pick_department_returns [OF env] by blast
  have "length (set_insert (?ws ! 0) (g_courses st)) \<le> Suc m"
    "length (set_insert (?ws ! 0) (g_course_names st)) \<le> Suc m"
    "length (set_insert (?ws ! 1) (g_course_names st)) \<le> Suc m"
    using set_lengths(1) [OF at_mostD(3) [OF st]] set_lengths(1) [OF at_mostD(4) [OF st]] by blast+
  then show ?thesis
    using p st at_most_Suc [OF st]
    by (simp add: fix_AddCourse_def Let_def returns_def at_most_def del: extract_words.simps)
qed

lemma fix_UpdateCourseName_returns:
  assumes sound: "sound_draws env" and st: "at_most m st" "m < 1000"
  shows "returns (Suc m) (fix_UpdateCourseName env iss st)"
proof -
  let ?ws = "extract_words 2 iss"
  note env = sound_drawsD(1) [OF sound]
  obtain x k where p: "pick_if_any env (g_courses st) (?ws ! 0) st = Some (x, st\<lparr>g_draws := k\<rparr>)"
    using pick_if_any_returns [OF env] by blast
  have "length (g_course_names st) < 1000" using st by (simp add: at_most_def)
  then obtain y k' where q: "pickFreshId env (g_course_names st) 6000000 k = Some (y, k')"
    using pickFreshId_returns [OF sound, of "g_course_names st" 6000000 k] by auto
  have "length (set_insert y (g_course_names st)) \<le> Suc m"
    "length (set_insert y (set_erase z (g_course_names st))) \<le> Suc m" for z
    using set_lengths(1,3) [OF at_mostD(4) [OF st(1)]] by blast+
  then show ?thesis
    using p q st
    by (simp add: fix_UpdateCourseName_def Let_def returns_def at_most_def del: extract_words.simps
        split: option.split)
qed

lemma fix_UpdateCourseOther_returns:
  assumes env: "gen_env_ok env" and st: "at_most m st"
  shows "returns (Suc m) (fix_UpdateCourseOther env iss st)"
proof -
  let ?ws = "extract_words 3 iss"
  obtain x k where p: "pick_if_any env (g_courses st) (?ws ! 0) st = Some (x, st\<lparr>g_draws := k\<rparr>)"
    using pick_if_any_returns [OF env] by blast
  obtain y k' fs where q: "pick_department env (?ws ! 2) (st\<lparr>g_draws := k\<rparr>)
      = Some (y, st\<lparr>g_draws := k, g_draws := k', g_free_departments := fs\<rparr>)"
    using pick_department_returns [OF env] by blast
  show ?thesis
    using p q at_most_Suc [OF st]
    by (simp add: fix_UpdateCourseOther_def Let_def returns_def del: extract_words.simps)
qed

lemma fix_line_returns:
  assumes sound: "sound_draws env" and st: "at_most m st" "m < 1000"
  shows "returns (Suc m) (fix_line env i l st)"
proof -
  note env = sound_drawsD(1) [OF sound]
  note same = returnsI [OF at_most_Suc [OF st(1)]]
  obtain iss op where "extract_into (istringstream l) (- 1) = (iss, op)" by fastforce
  then show ?thesis
    by (simp add: fix_line_def same add_returns [OF st(1)] delete_returns [OF env st(1)]
        fix_DeleteCourse_returns [OF env st(1)] fix_DeleteDepartment_returns [OF env st(1)]
        rename_returns [OF sound st] link_returns [OF env st(1)]
        fix_UpdateStudentOther_returns [OF env st(1)] fix_AddInstructor_returns [OF env st(1)]
        fix_UpdateInstructorOther_returns [OF env st(1)] fix_AddCourse_returns [OF env st(1)]
        fix_UpdateCourseName_returns [OF sound st] fix_UpdateCourseOther_returns [OF env st(1)])
qed

lemma fix_lines_returns:
  assumes sound: "sound_draws env"
  shows "at_most m st \<Longrightarrow> m + length ls \<le> 1000 \<Longrightarrow> \<exists>ls' st'. fix_lines env i ls st = Some (ls', st')"
proof (induction ls arbitrary: m st)
  case Nil
  then show ?case by simp
next
  case (Cons l ls)
  then obtain l' st1 where r: "fix_line env i l st = Some (l', st1)" "at_most (Suc m) st1"
    using fix_line_returns [OF sound, of m st i l] by (auto simp: returns_def)
  have "Suc m + length ls \<le> 1000" using Cons.prems(2) by simp
  from Cons.IH [OF r(2) this] r(1) show ?case by auto
qed

section \<open>The program ends\<close>

lemma fix_all_returns:
  assumes sound: "sound_draws env"
  shows "\<forall>ls \<in> set calls. length ls < 1000 \<Longrightarrow> \<exists>files. fix_all env real i calls k = Some files"
proof (induction calls arbitrary: i k)
  case Nil
  then show ?case by simp
next
  case (Cons ls calls)
  have "at_most 1 (gen_node_start i k)" by (simp add: at_most_def gen_node_start_def)
  moreover have "1 + length ls \<le> 1000" using Cons.prems by simp
  ultimately obtain ls' st where "fix_lines env i ls (gen_node_start i k) = Some (ls', st)"
    using fix_lines_returns [OF sound] by blast
  moreover obtain rest where "fix_all env real (i + 1) calls (g_draws st) = Some rest"
    using Cons.IH Cons.prems by fastforce
  ultimately show ?case by simp
qed

text \<open>The files have the length of the lists they are made from.\<close>

lemma fix_lines_length:
  "fix_lines env i ls st = Some (ls', st') \<Longrightarrow> length ls' = length ls"
  by (induction ls arbitrary: st ls' st') (auto split: Option.bind_splits)

lemma length_seed_lines [simp]: "length (seed_lines real i) = 5"
  by (simp add: seed_lines_def)

lemma fix_all_lengths:
  "fix_all env real i calls k = Some files \<Longrightarrow> map length files = map (\<lambda>ls. 5 + length ls) calls"
proof (induction calls arbitrary: i k files)
  case Nil
  then show ?case by simp
next
  case (Cons ls calls)
  then obtain ls' st rest where f: "fix_lines env i ls (gen_node_start i k) = Some (ls', st)"
    "fix_all env real (i + 1) calls (g_draws st) = Some rest" "files = (seed_lines real i @ ls') # rest"
    by (auto split: Option.bind_splits)
  show ?case using Cons.IH [OF f(2)] fix_lines_length [OF f(1)] f(3) by simp
qed

lemma gen_calls_length [simp]: "length (fst (gen_calls env i ty m k)) = m"
  by (induction m arbitrary: k) (auto simp: case_prod_beta Let_def)

lemma gen_kinds_length:
  "length (fst (gen_kinds env i pm tys k)) = (\<Sum>ty \<leftarrow> tys. nat (pm - first_count ty))"
  by (induction tys arbitrary: k) (auto simp: case_prod_beta Let_def)

lemma gen_kinds_all_length:
  assumes "1 \<le> pm"
  shows "length (fst (gen_kinds env i pm [0..<19] k)) = nat (19 * pm - 4)"
proof -
  have kinds: "[0..<19] = [0, 1, 2, 3, 4, 5, 6, 7, 8, 9, 10, 11, 12, 13, 14, 15, 16, 17, 18::nat]"
    by (simp add: upt_rec)
  show ?thesis unfolding gen_kinds_length kinds using assms
    by (simp add: first_count_def nat_add_distrib [symmetric])
qed

lemma gen_all_lengths:
  assumes "1 \<le> pm"
  shows "map length (fst (gen_all env pm i m real k)) = replicate m (nat (19 * pm - 4))"
  by (induction m arbitrary: i real k)
    (auto simp: case_prod_beta Let_def gen_kinds_all_length [OF assms] simp del: upt_Suc)

text \<open>All nodes draw the same number of calls, so the levelling loop never appends a read.\<close>

lemma even_out_level:
  assumes "map length calls = replicate n m" and "2 \<le> n"
  shows "even_out calls rc ix = Some (calls, rc)"
proof -
  have len: "length calls = n" using assms(1) by (metis length_map length_replicate)
  have "length (calls ! j) = m" if "j < n" for j
    using assms(1) that len by (metis nth_map nth_replicate)
  then show ?thesis using assms(2) len by (subst even_out.simps) auto
qed

lemma add_reads_lengths:
  assumes "map length calls = replicate n m" and "0 \<le> rc"
  shows "map length (add_reads calls rc) = replicate n (m + nat (rc div int n))"
proof -
  have len: "length calls = n" using assms(1) by (metis length_map length_replicate)
  have "rc sdiv int n = rc div int n" using assms(2) by (simp add: signed_divide_int_def sgn_if)
  moreover have "map length (map (\<lambda>ls. ls @ replicate r ''19'') calls) = map ((+) r) (map length calls)" for r
    by simp
  ultimately show ?thesis using assms(1) len by (auto simp: add_reads_def add.commute)
qed

lemma shuffle_all_lengths:
  assumes "gen_env_ok env"
  shows "map length (fst (shuffle_all env calls k)) = map length calls"
proof -
  have "length (random_shuffle env k xs) = length xs" for k xs
    using assms by (metis gen_env_ok_def size_mset)
  then show ?thesis
    by (induction calls arbitrary: k) (auto simp: case_prod_beta Let_def)
qed

lemma generate_returns:
  assumes sound: "sound_draws env" and n: "2 \<le> n" and pm: "1 \<le> pm" and q: "0 \<le> queries"
    and small: "19 * pm + queries div int n < 1004"
  shows "\<exists>files. generate env n queries pm = Some files \<and>
    map length files = replicate n (nat (19 * pm + 1 + queries div int n))"
proof -
  let ?m = "nat (19 * pm - 4) + nat (queries div int n)"
  obtain calls real k where c: "gen_all env pm 1 n 0 0 = (calls, real, k)" by (metis prod_cases3)
  obtain calls2 k2 where c2: "shuffle_all env (add_reads calls queries) k = (calls2, k2)" by fastforce
  have "map length calls = replicate n (nat (19 * pm - 4))"
    using gen_all_lengths [OF pm, of env 1 n 0 0] c by simp
  note level = even_out_level [OF this n] and reads = add_reads_lengths [OF this q]
  have len2: "map length calls2 = replicate n ?m"
    using shuffle_all_lengths [OF sound_drawsD(1) [OF sound], of "add_reads calls queries" k] reads c2
    by simp
  have pos: "0 \<le> queries div int n" using q n by (simp add: pos_imp_zdiv_nonneg_iff)
  have "length ls = ?m" if "ls \<in> set calls2" for ls
    using that len2 by (metis in_set_replicate image_eqI list.set_map)
  then have "\<forall>ls \<in> set calls2. length ls < 1000" using small pm pos by auto
  then obtain files where f: "fix_all env real 1 calls2 k2 = Some files"
    using fix_all_returns [OF sound] by blast
  have five: "5 + (nat (19 * pm - 4) + nat d) = nat (19 * pm + 1 + d)" if "0 \<le> d" for d
    using pm that by arith
  have "map length files = map ((+) 5) (map length calls2)"
    using fix_all_lengths [OF f] by simp
  also have "\<dots> = replicate n (nat (19 * pm + 1 + queries div int n))"
    using five [of "queries div int n"] pos by (simp only: len2 map_replicate)
  finally show ?thesis using f level by (simp add: generate_def c c2)
qed

section \<open>Sound draws exist\<close>

text \<open>Draws that go through 1 to 1000 in turn; sets in order of insertion; nothing is shuffled.\<close>

definition demo_draws :: gen_env where
  "demo_draws = \<lparr>rand_1000 = (\<lambda>k. int (k mod 1000) + 1), rand_index = (\<lambda>k n. k mod n),
     traverse = (\<lambda>xs. xs), random_shuffle = (\<lambda>k xs. xs), stale = (\<lambda>k. Some ''0'')\<rparr>"

lemma demo_draws_sound: "sound_draws demo_draws"
proof -
  have "\<exists>j \<ge> k. rand_1000 demo_draws j = v" if "1 \<le> v" "v \<le> 1000" for k and v :: int
  proof (intro exI conjI)
    show "k \<le> 1000 * k + nat (v - 1)" by simp
    have "(1000 * k + nat (v - 1)) mod 1000 = nat (v - 1)" using that by simp
    then show "rand_1000 demo_draws (1000 * k + nat (v - 1)) = v"
      using that by (simp add: demo_draws_def)
  qed
  then have "fair demo_draws" by (simp add: fair_def)
  moreover have "int (k mod 1000) \<le> 999" for k :: nat
    using mod_less_divisor [of 1000 k] by linarith
  then have "gen_env_ok demo_draws" by (simp add: gen_env_ok_def demo_draws_def)
  ultimately show ?thesis by (simp add: sound_draws_def demo_draws_def)
qed

end
