(* ===== verification/Crdt_Objects.thy ===== *)
theory Crdt_Objects
  imports Call_Codec
begin

text \<open>
  The replicated data types of the message-passing baseline
  (\<^verbatim>\<open>wellcoordination/benchmark/crdt-counter.hpp\<close>, \<^verbatim>\<open>crdt-gset.hpp\<close>, \<^verbatim>\<open>crdt-reg.hpp\<close>): a
  counter, a grow-only set and a register, each with a part for the node's own updates and a
  part for those it has received, and the wire format the three classes share.
\<close>

section \<open>Objects\<close>

text \<open>A class: the state object and the counter \<open>waittobestable\<close>.\<close>

record 'st crdt_object =
  object_state :: 'st
  updates_done :: int

text \<open>
  What the handler calls; \<open>updateLocal\<close> takes the call by reference. A sum of type \<open>int\<close> that
  leaves its range is undefined: the update is \<open>None\<close>.
\<close>

record 'st crdt_class =
  class_initial :: 'st
  class_updateLocal :: "call \<Rightarrow> 'st crdt_object \<Rightarrow> ('st crdt_object \<times> call) option"
  class_updateRemote :: "call \<Rightarrow> 'st crdt_object \<Rightarrow> 'st crdt_object option"

text \<open>\<open>x += y\<close> on values of type \<open>int\<close>.\<close>

definition int_add :: "int \<Rightarrow> int \<Rightarrow> int option" where
  "int_add x y = (if int32 (x + y) then Some (x + y) else None)"

definition crdt_object_new :: "'st crdt_class \<Rightarrow> 'st crdt_object" where
  "crdt_object_new cls = \<lparr>object_state = class_initial cls, updates_done = 0\<rparr>"

text \<open>\<open>static_cast\<close> to the enumeration \<open>Update, Read\<close> and the switch, the same in all three.\<close>

definition crdtToString :: "int \<Rightarrow> string" where
  "crdtToString n = (if n = 0 then ''Update'' else if n = 1 then ''Read'' else ''Invalid'')"

text \<open>No \<open>return\<close>: the result is undefined on every call.\<close>

definition crdt_checkValidcall :: "call \<Rightarrow> bool option" where
  "crdt_checkValidcall c = (if ctype c = ''Update'' then None else None)"

definition crdt_operands :: "sstream \<Rightarrow> call \<Rightarrow> bench_error + call" where
  "crdt_operands iss c = (if ctype c = ''Update'' then read_single iss c else Inr c)"

definition crdt_readBenchFile ::
  "string option \<Rightarrow> int \<Rightarrow> int \<Rightarrow> call \<Rightarrow> call list \<Rightarrow> bench_error + (int \<times> call list)" where
  "crdt_readBenchFile = read_bench crdtToString crdt_operands"

section \<open>The counter\<close>

record CounterState =
  localcounter :: int
  remotecounter :: int

definition CounterState_init :: CounterState where
  "CounterState_init = \<lparr>localcounter = 0, remotecounter = 0\<rparr>"

definition Counter_updateLocal ::
  "call \<Rightarrow> CounterState crdt_object \<Rightarrow> (CounterState crdt_object \<times> call) option" where
  "Counter_updateLocal c ob =
     (if ctype c = ''Update''
      then do {
        x \<leftarrow> int_add (localcounter (object_state ob)) (value1 c);
        Some (ob\<lparr>object_state := (object_state ob)\<lparr>localcounter := x\<rparr>,
                updates_done := updates_done ob + 1\<rparr>, c) }
      else Some (ob, c))"

definition Counter_updateRemote ::
  "call \<Rightarrow> CounterState crdt_object \<Rightarrow> CounterState crdt_object option" where
  "Counter_updateRemote c ob =
     (if ctype c = ''Update''
      then do {
        x \<leftarrow> int_add (remotecounter (object_state ob)) (value1 c);
        Some (ob\<lparr>object_state := (object_state ob)\<lparr>remotecounter := x\<rparr>,
                updates_done := updates_done ob + 1\<rparr>) }
      else Some ob)"

definition Counter_class :: "CounterState crdt_class" where
  "Counter_class = \<lparr>class_initial = CounterState_init, class_updateLocal = Counter_updateLocal,
     class_updateRemote = Counter_updateRemote\<rparr>"

section \<open>The grow-only set\<close>

record GsetState =
  localelements :: "int set"
  remoteelements :: "int set"

definition GsetState_init :: GsetState where
  "GsetState_init = \<lparr>localelements = {}, remoteelements = {}\<rparr>"

definition Gset_updateLocal ::
  "call \<Rightarrow> GsetState crdt_object \<Rightarrow> (GsetState crdt_object \<times> call) option" where
  "Gset_updateLocal c ob =
     (if ctype c = ''Update''
      then Some (ob\<lparr>object_state := (object_state ob)\<lparr>localelements :=
                      insert (value1 c) (localelements (object_state ob))\<rparr>,
                    updates_done := updates_done ob + 1\<rparr>, c)
      else Some (ob, c))"

definition Gset_updateRemote :: "call \<Rightarrow> GsetState crdt_object \<Rightarrow> GsetState crdt_object option" where
  "Gset_updateRemote c ob =
     (if ctype c = ''Update''
      then Some (ob\<lparr>object_state := (object_state ob)\<lparr>remoteelements :=
                      insert (value1 c) (remoteelements (object_state ob))\<rparr>,
                    updates_done := updates_done ob + 1\<rparr>)
      else Some ob)"

definition Gset_class :: "GsetState crdt_class" where
  "Gset_class = \<lparr>class_initial = GsetState_init, class_updateLocal = Gset_updateLocal,
     class_updateRemote = Gset_updateRemote\<rparr>"

section \<open>The register\<close>

record RegState =
  local_value :: int
  local_timestamp :: int
  reg_value :: int
  reg_timestamp :: int

definition RegState_init :: RegState where
  "RegState_init = \<lparr>local_value = 0, local_timestamp = 0, reg_value = 0, reg_timestamp = 0\<rparr>"

text \<open>
  An update only sets the local pair and stamps the call; a read merges the local pair into
  the register when its timestamp is newer.
\<close>

definition Reg_updateLocal ::
  "call \<Rightarrow> RegState crdt_object \<Rightarrow> (RegState crdt_object \<times> call) option" where
  "Reg_updateLocal c ob =
     (let s = object_state ob in
      if ctype c = ''Update''
      then do {
        t \<leftarrow> int_add (local_timestamp s) 1;
        Some (ob\<lparr>object_state := s\<lparr>local_timestamp := t, local_value := value1 c\<rparr>,
                updates_done := updates_done ob + 1\<rparr>,
              c\<lparr>value2 := t\<rparr>) }
      else if ctype c = ''Read''
      then Some (if reg_timestamp s < local_timestamp s
                 then ob\<lparr>object_state := s\<lparr>reg_value := local_value s,
                                          reg_timestamp := local_timestamp s\<rparr>\<rparr>
                 else ob, c)
      else Some (ob, c))"

definition Reg_updateRemote :: "call \<Rightarrow> RegState crdt_object \<Rightarrow> RegState crdt_object option" where
  "Reg_updateRemote c ob =
     (let s = object_state ob in
      if ctype c = ''Update''
      then Some (if reg_timestamp s < value2 c
                 then ob\<lparr>object_state := s\<lparr>reg_timestamp := value2 c, reg_value := value1 c\<rparr>,
                         updates_done := updates_done ob + 1\<rparr>
                 else ob\<lparr>updates_done := updates_done ob + 1\<rparr>)
      else Some ob)"

definition Reg_class :: "RegState crdt_class" where
  "Reg_class = \<lparr>class_initial = RegState_init, class_updateLocal = Reg_updateLocal,
     class_updateRemote = Reg_updateRemote\<rparr>"

section \<open>The wire format of the classes\<close>

text \<open>Two operands instead of four.\<close>

definition crdt_body :: "call \<Rightarrow> bytes" where
  "crdt_body c =
     le_bytes 8 (int (length (ctype c)))
     @ map char_byte (ctype c)
     @ le_bytes 4 (value1 c) @ le_bytes 4 (value2 c)
     @ le_bytes 4 (node_id c)
     @ le_bytes 4 (call_id c)
     @ bool_byte (stable c)
     @ concat (map (le_bytes 4) (call_vector_clock c))"

definition crdt_serialize :: "call \<Rightarrow> bytes \<Rightarrow> (bytes \<times> nat) option" where
  "crdt_serialize c buffer =
     (let body = crdt_body c; len = length body in
      if 8 + len \<le> length buffer
      then Some (le_bytes 8 (int len) @ body @ drop (8 + len) buffer, len + 8 + 2 * 8)
      else None)"

text \<open>
  The clock is read as eight entries. The constructor is called with six arguments, so the
  node number lands in the third operand, the call number in the fourth, and the flag in the
  node number.
\<close>

definition crdt_deserialize :: "bytes \<Rightarrow> call option" where
  "crdt_deserialize buffer = do {
     (_, s0) \<leftarrow> read_bytes 8 buffer;
     (type_len, s1) \<leftarrow> read_u64 s0;
     (t, s2) \<leftarrow> read_bytes type_len s1;
     (v1, s3) \<leftarrow> read_int s2;
     (v2, s4) \<leftarrow> read_int s3;
     (n_id, s5) \<leftarrow> read_int s4;
     (c_id, s6) \<leftarrow> read_int s5;
     (st, s7) \<leftarrow> read_bool s6;
     (vc, _) \<leftarrow> read_clock 8 s7;
     Some ((Call_new (map byte_char t) v1 v2 n_id c_id (if st then 1 else 0) 0 False False)
             \<lparr>call_vector_clock := vc\<rparr>) }"

text \<open>What arrives of a call.\<close>

definition crdt_received :: "call \<Rightarrow> call" where
  "crdt_received c = c\<lparr>value3 := node_id c, value4 := call_id c,
     node_id := (if stable c then 1 else 0), call_id := 0, stable := False,
     call_vector_clock := take 8 (call_vector_clock c), applied := False\<rparr>"

lemma crdt_deserialize_body:
  assumes "wire_ok c" and "8 \<le> length (call_vector_clock c)" and "length hd8 = 8"
  shows "crdt_deserialize (hd8 @ crdt_body c @ r) = Some (crdt_received c)"
  using assms
  by (simp add: crdt_deserialize_def crdt_body_def wire_ok_def codec_simps Call_new_def comp_def
      crdt_received_def del: le_bytes.simps)

lemma length_crdt_body:
  "length (crdt_body c) = 25 + length (ctype c) + 4 * length (call_vector_clock c)"
  by (simp add: crdt_body_def bool_byte_def length_concat comp_def sum_list_triv)

lemma crdt_serialize_eq:
  assumes "8 + length (crdt_body c) \<le> length buffer"
  shows "crdt_serialize c buffer
     = Some (le_bytes 8 (int (length (crdt_body c))) @ crdt_body c
               @ drop (8 + length (crdt_body c)) buffer, length (crdt_body c) + 24)"
  using assms by (simp add: crdt_serialize_def Let_def)

end
