(* ===== verification/Crdt_Node.thy ===== *)
theory Crdt_Node
  imports Crdt_Objects
begin

text \<open>
  The message-passing CRDT baseline: the handler of \<^verbatim>\<open>protocol0-crdt-message-passing.cpp\<close>, the
  \<open>CRDT_MESSAGE_PASSING\<close> branches of the main loop and of \<open>ServerConnection::receive\<close>, and what
  the messages of a main loop say.
\<close>

section \<open>The handler\<close>

record 'st crdt_handler =
  crdt_obj :: "'st crdt_object"
  crdt_node_id :: int
  crdt_nodes :: nat

definition crdt_setVars :: "int \<Rightarrow> nat \<Rightarrow> 'st crdt_handler \<Rightarrow> 'st crdt_handler" where
  "crdt_setVars i num_nodes h = h\<lparr>crdt_node_id := i, crdt_nodes := num_nodes\<rparr>"

definition crdt_localHandler ::
  "'st crdt_class \<Rightarrow> call \<Rightarrow> 'st crdt_handler \<Rightarrow> ('st crdt_handler \<times> call) option" where
  "crdt_localHandler cls c h =
     map_option (\<lambda>(ob, c'). (h\<lparr>crdt_obj := ob\<rparr>, c')) (class_updateLocal cls c (crdt_obj h))"

definition crdt_internalDownstreamExecute ::
  "'st crdt_class \<Rightarrow> call \<Rightarrow> 'st crdt_handler \<Rightarrow> 'st crdt_handler option" where
  "crdt_internalDownstreamExecute cls c h =
     map_option (\<lambda>ob. h\<lparr>crdt_obj := ob\<rparr>) (class_updateRemote cls c (crdt_obj h))"

section \<open>The main loop and the receiver\<close>

text \<open>
  The variables of the loop: the workload, the position, the number of calls sent, and the
  payload buffer (its storage and the vector's current size).
\<close>

record 'st crdt_main =
  crdt_hdl :: "'st crdt_handler"
  crdt_calls :: "call list"
  crdt_it :: nat
  crdt_sent :: nat
  crdt_payload :: bytes
  crdt_payload_size :: nat

definition crdt_main_start :: "'st crdt_class \<Rightarrow> int \<Rightarrow> nat \<Rightarrow> call list \<Rightarrow> 'st crdt_main" where
  "crdt_main_start cls i n cs =
     \<lparr>crdt_hdl = crdt_setVars i n
        \<lparr>crdt_obj = crdt_object_new cls, crdt_node_id = 0, crdt_nodes = 0\<rparr>,
      crdt_calls = cs, crdt_it = 0, crdt_sent = 0, crdt_payload = replicate 256 0,
      crdt_payload_size = 256\<rparr>"

text \<open>Serialise, copy the message out, resize the buffer to it.\<close>

definition crdt_send :: "call \<Rightarrow> 'st crdt_main \<Rightarrow> ('st crdt_main \<times> bytes) option" where
  "crdt_send c m = do {
     (buffer, sz) \<leftarrow> crdt_serialize c (crdt_payload m);
     (if sz \<le> length buffer
      then Some (m\<lparr>
        crdt_payload := take (crdt_payload_size m) buffer
                          @ replicate (sz - crdt_payload_size m) 0
                          @ drop (max sz (crdt_payload_size m)) buffer,
        crdt_payload_size := sz\<rparr>, take sz buffer)
      else None) }"

text \<open>
  One iteration, with the messages it broadcasts. An update is sent before the handler sees
  it.
\<close>

definition crdt_iteration ::
  "'st crdt_class \<Rightarrow> 'st crdt_main \<Rightarrow> ('st crdt_main \<times> bytes list) option" where
  "crdt_iteration cls m =
     (if crdt_it m < length (crdt_calls m)
      then let req = crdt_calls m ! crdt_it m in
        if ctype req \<noteq> ''Read''
        then do {
          (m1, msg) \<leftarrow> crdt_send req m;
          (h', req') \<leftarrow> crdt_localHandler cls req (crdt_hdl m1);
          Some (m1\<lparr>crdt_hdl := h', crdt_calls := (crdt_calls m1)[crdt_it m1 := req'],
                   crdt_sent := crdt_sent m1 + 1, crdt_it := crdt_it m1 + 1\<rparr>, [msg]) }
        else do {
          (h', req') \<leftarrow> crdt_localHandler cls req (crdt_hdl m);
          Some (m\<lparr>crdt_hdl := h', crdt_calls := (crdt_calls m)[crdt_it m := req'],
                  crdt_it := crdt_it m + 1\<rparr>, []) }
      else Some (m, []))"

text \<open>A call message; \<open>valid\<close> is the compiled \<open>checkValidcall\<close>.\<close>

definition crdt_receive :: "'st crdt_class \<Rightarrow> (call \<Rightarrow> bool option) \<Rightarrow> bytes \<Rightarrow>
     'st crdt_handler \<Rightarrow> 'st crdt_handler option" where
  "crdt_receive cls valid content h = do {
     c \<leftarrow> crdt_deserialize content;
     v \<leftarrow> valid c;
     (if v then crdt_internalDownstreamExecute cls c h else Some h) }"

text \<open>\<open>k\<close> iterations of the loop, and all their messages.\<close>

fun crdt_loop :: "'st crdt_class \<Rightarrow> nat \<Rightarrow> 'st crdt_main \<Rightarrow> ('st crdt_main \<times> bytes list) option" where
  "crdt_loop cls 0 m = Some (m, [])"
| "crdt_loop cls (Suc k) m = do {
     (m1, msgs) \<leftarrow> crdt_iteration cls m;
     (m2, rest) \<leftarrow> crdt_loop cls k m1;
     Some (m2, msgs @ rest) }"

section \<open>Messages\<close>

text \<open>The calls of a workload file: they fit the buffer, and their operands fit \<open>int\<close>.\<close>

definition crdt_call_ok :: "call \<Rightarrow> bool" where
  "crdt_call_ok c \<longleftrightarrow> wire_ok c \<and> length (ctype c) \<le> 39 \<and>
     8 \<le> length (call_vector_clock c) \<and> length (call_vector_clock c) \<le> 40"

definition crdt_message :: "call \<Rightarrow> bytes \<Rightarrow> bool" where
  "crdt_message c m \<longleftrightarrow> crdt_deserialize m = Some (crdt_received c)"

lemma crdt_send_ok:
  assumes "crdt_call_ok c" and "256 \<le> length (crdt_payload m)"
  shows "\<exists>m' msg. crdt_send c m = Some (m', msg) \<and> crdt_message c msg \<and>
    256 \<le> length (crdt_payload m') \<and> crdt_hdl m' = crdt_hdl m \<and> crdt_calls m' = crdt_calls m \<and>
    crdt_it m' = crdt_it m"
proof -
  let ?len = "length (crdt_body c)"
  have len: "?len + 24 \<le> length (crdt_payload m)"
    using assms by (simp add: crdt_call_ok_def length_crdt_body)
  let ?buf = "le_bytes 8 (int ?len) @ crdt_body c @ drop (8 + ?len) (crdt_payload m)"
  have ser: "crdt_serialize c (crdt_payload m) = Some (?buf, ?len + 24)"
    using crdt_serialize_eq [of c "crdt_payload m"] len by simp
  have lb: "length ?buf = length (crdt_payload m)" using len by simp
  have take: "take (?len + 24) ?buf
      = le_bytes 8 (int ?len) @ crdt_body c @ take 16 (drop (8 + ?len) (crdt_payload m))"
    by (simp del: le_bytes.simps)
  have "crdt_message c (take (?len + 24) ?buf)"
    unfolding crdt_message_def take
    using assms(1) by (intro crdt_deserialize_body) (simp_all add: crdt_call_ok_def)
  then show ?thesis
    using len lb assms(2) by (simp add: crdt_send_def ser del: le_bytes.simps)
qed

section \<open>The register\<close>

text \<open>What a node's own calls do to its register.\<close>

definition reg_own :: "call \<Rightarrow> RegState \<Rightarrow> RegState" where
  "reg_own c s =
     (if ctype c = ''Update''
      then s\<lparr>local_timestamp := local_timestamp s + 1, local_value := value1 c\<rparr>
      else if ctype c = ''Read'' \<and> reg_timestamp s < local_timestamp s
      then s\<lparr>reg_value := local_value s, reg_timestamp := local_timestamp s\<rparr>
      else s)"

lemma reg_own_times:
  "local_timestamp (reg_own c s) \<le> local_timestamp s + 1"
  "local_timestamp s \<le> local_timestamp (reg_own c s)"
  by (simp_all add: reg_own_def)

lemma reg_local_state:
  assumes "0 \<le> local_timestamp (object_state ob)" and "local_timestamp (object_state ob) + 1 < 2 ^ 31"
  shows "\<exists>ob' c'. Reg_updateLocal c ob = Some (ob', c') \<and> object_state ob' = reg_own c (object_state ob)"
  using assms by (auto simp: Reg_updateLocal_def reg_own_def int_add_def int32_def Let_def)

lemma reg_remote_ignored:
  assumes "value2 c = 0" and "0 \<le> reg_timestamp (object_state (crdt_obj h))"
  shows "\<exists>h'. crdt_internalDownstreamExecute Reg_class c h = Some h' \<and>
    object_state (crdt_obj h') = object_state (crdt_obj h)"
  using assms by (simp add: crdt_internalDownstreamExecute_def Reg_class_def Reg_updateRemote_def Let_def)

text \<open>
  The workload reader sets \<open>value2\<close> to 0 and the loop serialises a call before the handler
  stamps it, so the message of a call carries timestamp 0. One iteration with the rest \<open>c # w\<close>
  of the workload before it:
\<close>

lemma reg_iteration:
  assumes rest: "drop (crdt_it m) (crdt_calls m) = c # w" and pay: "256 \<le> length (crdt_payload m)"
    and ok: "crdt_call_ok c"
    and t: "0 \<le> local_timestamp (object_state (crdt_obj (crdt_hdl m)))"
      "local_timestamp (object_state (crdt_obj (crdt_hdl m))) + 1 < 2 ^ 31"
  shows "\<exists>m' msgs. crdt_iteration Reg_class m = Some (m', msgs) \<and>
    drop (crdt_it m') (crdt_calls m') = w \<and> 256 \<le> length (crdt_payload m') \<and>
    object_state (crdt_obj (crdt_hdl m')) = reg_own c (object_state (crdt_obj (crdt_hdl m))) \<and>
    map crdt_deserialize msgs = (if ctype c = ''Read'' then [] else [Some (crdt_received c)])"
proof -
  have lt: "crdt_it m < length (crdt_calls m)"
    using rest by (metis drop_all leI list.distinct(1))
  have c: "crdt_calls m ! crdt_it m = c" "drop (Suc (crdt_it m)) (crdt_calls m) = w"
    using rest lt by (simp_all add: Cons_nth_drop_Suc [symmetric])
  obtain ob' c' where up: "Reg_updateLocal c (crdt_obj (crdt_hdl m)) = Some (ob', c')"
    "object_state ob' = reg_own c (object_state (crdt_obj (crdt_hdl m)))"
    using reg_local_state [OF t] by blast
  have loc: "crdt_localHandler Reg_class c (crdt_hdl m) = Some ((crdt_hdl m)\<lparr>crdt_obj := ob'\<rparr>, c')"
    by (simp add: crdt_localHandler_def Reg_class_def up(1))
  show ?thesis
  proof (cases "ctype c = ''Read''")
    case True
    then show ?thesis using lt c loc up(2) pay by (simp add: crdt_iteration_def)
  next
    case False
    from crdt_send_ok [OF ok pay] obtain m1 msg where
      m1: "crdt_send c m = Some (m1, msg)" "crdt_message c msg" "256 \<le> length (crdt_payload m1)"
        "crdt_hdl m1 = crdt_hdl m" "crdt_calls m1 = crdt_calls m" "crdt_it m1 = crdt_it m" by blast
    then show ?thesis using lt c loc up(2) False by (simp add: crdt_iteration_def crdt_message_def)
  qed
qed

lemma reg_loop:
  assumes "drop (crdt_it m) (crdt_calls m) = w" and "256 \<le> length (crdt_payload m)"
    and "\<forall>c \<in> set w. crdt_call_ok c"
    and "0 \<le> local_timestamp (object_state (crdt_obj (crdt_hdl m)))"
    and "local_timestamp (object_state (crdt_obj (crdt_hdl m))) + int (length w) < 2 ^ 31"
  shows "\<exists>m' msgs. crdt_loop Reg_class (length w) m = Some (m', msgs) \<and>
    object_state (crdt_obj (crdt_hdl m')) = fold reg_own w (object_state (crdt_obj (crdt_hdl m))) \<and>
    map crdt_deserialize msgs = map (\<lambda>c. Some (crdt_received c)) (filter (\<lambda>c. ctype c \<noteq> ''Read'') w)"
  using assms
proof (induction w arbitrary: m)
  case Nil
  then show ?case by simp
next
  case (Cons c w)
  have "\<exists>m' msgs. crdt_iteration Reg_class m = Some (m', msgs) \<and>
      drop (crdt_it m') (crdt_calls m') = w \<and> 256 \<le> length (crdt_payload m') \<and>
      object_state (crdt_obj (crdt_hdl m')) = reg_own c (object_state (crdt_obj (crdt_hdl m))) \<and>
      map crdt_deserialize msgs = (if ctype c = ''Read'' then [] else [Some (crdt_received c)])"
    using Cons.prems by (intro reg_iteration) auto
  then obtain m' msgs where m': "crdt_iteration Reg_class m = Some (m', msgs)"
    "drop (crdt_it m') (crdt_calls m') = w" "256 \<le> length (crdt_payload m')"
    "object_state (crdt_obj (crdt_hdl m')) = reg_own c (object_state (crdt_obj (crdt_hdl m)))"
    "map crdt_deserialize msgs = (if ctype c = ''Read'' then [] else [Some (crdt_received c)])" by blast
  have t: "0 \<le> local_timestamp (object_state (crdt_obj (crdt_hdl m')))"
    "local_timestamp (object_state (crdt_obj (crdt_hdl m'))) + int (length w) < 2 ^ 31"
    using Cons.prems(4,5) reg_own_times [where c = c and s = "object_state (crdt_obj (crdt_hdl m))"] m'(4) by simp_all
  have "\<forall>c \<in> set w. crdt_call_ok c" using Cons.prems(3) by simp
  from Cons.IH [OF m'(2,3) this t] m' show ?case by auto
qed

end
