(* ===== verification/Op_Crdt.thy ===== *)
theory Op_Crdt
  imports Hamsou_Invariant Crdt_Objects
begin

text \<open>
  The Hamsou handler compiled with \<open>CRDT\<close>, and the three operation-based types it is meant
  for (\<^verbatim>\<open>wellcoordination/benchmark/op-crdt-counter.hpp\<close>, \<^verbatim>\<open>op-crdt-gset.hpp\<close>,
  \<^verbatim>\<open>op-crdt-reg.hpp\<close>). In this mode a call is executed and counted as stable at once, in
  arrival order. The lemmas say what a node's state is after any sequence of calls.
\<close>

section \<open>The types\<close>

text \<open>
  The methods the handler calls. \<open>updateStableState\<close> may read the current state (the
  register's does). Nothing is ordered (\<open>fastisreachable...\<close> return \<open>false\<close>), and no call is
  refused.
\<close>

record 'st op_crdt =
  op_initial :: 'st
  op_updateCurrentState :: "call \<Rightarrow> 'st \<Rightarrow> 'st"
  op_updateStableState :: "call \<Rightarrow> 'st \<Rightarrow> 'st \<Rightarrow> 'st"

definition op_permissible :: "call \<Rightarrow> bool" where
  "op_permissible c = True"

definition op_reach :: "call \<Rightarrow> call \<Rightarrow> bool" where
  "op_reach input1 input2 = False"

definition op_checkValidcall :: "call \<Rightarrow> bool option" where
  "op_checkValidcall c = (if ctype c = ''Update'' then None else None)"

record OpCounterState =
  op_counter :: int

definition Opcounter_updateCurrentState :: "call \<Rightarrow> OpCounterState \<Rightarrow> OpCounterState" where
  "Opcounter_updateCurrentState c s =
     (if ctype c = ''Update'' then s\<lparr>op_counter := op_counter s + 1\<rparr> else s)"

definition Opcounter_updateStableState ::
  "call \<Rightarrow> OpCounterState \<Rightarrow> OpCounterState \<Rightarrow> OpCounterState" where
  "Opcounter_updateStableState c current s =
     (if ctype c = ''Update'' then s\<lparr>op_counter := op_counter s + 1\<rparr> else s)"

definition Opcounter :: "OpCounterState op_crdt" where
  "Opcounter = \<lparr>op_initial = \<lparr>op_counter = 0\<rparr>,
     op_updateCurrentState = Opcounter_updateCurrentState,
     op_updateStableState = Opcounter_updateStableState\<rparr>"

record OpGsetState =
  op_elements :: "int set"

definition Opgset_updateCurrentState :: "call \<Rightarrow> OpGsetState \<Rightarrow> OpGsetState" where
  "Opgset_updateCurrentState c s =
     (if ctype c = ''Update'' then s\<lparr>op_elements := insert (value1 c) (op_elements s)\<rparr> else s)"

definition Opgset_updateStableState :: "call \<Rightarrow> OpGsetState \<Rightarrow> OpGsetState \<Rightarrow> OpGsetState" where
  "Opgset_updateStableState c current s =
     (if ctype c = ''Update'' then s\<lparr>op_elements := insert (value1 c) (op_elements s)\<rparr> else s)"

definition Opgset :: "OpGsetState op_crdt" where
  "Opgset = \<lparr>op_initial = \<lparr>op_elements = {}\<rparr>,
     op_updateCurrentState = Opgset_updateCurrentState,
     op_updateStableState = Opgset_updateStableState\<rparr>"

record OpRegState =
  op_value :: int
  op_timestamp :: int

definition Opreg_updateCurrentState :: "call \<Rightarrow> OpRegState \<Rightarrow> OpRegState" where
  "Opreg_updateCurrentState c s =
     (if ctype c = ''Update''
      then (if op_timestamp s < value2 c
            then s\<lparr>op_timestamp := value2 c, op_value := value1 c\<rparr> else s)
      else s)"

definition Opreg_updateStableState :: "call \<Rightarrow> OpRegState \<Rightarrow> OpRegState \<Rightarrow> OpRegState" where
  "Opreg_updateStableState c current s =
     (if ctype c = ''Update''
      then s\<lparr>op_timestamp := op_timestamp current, op_value := op_value current\<rparr> else s)"

definition Opreg :: "OpRegState op_crdt" where
  "Opreg = \<lparr>op_initial = \<lparr>op_value = 0, op_timestamp = 0\<rparr>,
     op_updateCurrentState = Opreg_updateCurrentState,
     op_updateStableState = Opreg_updateStableState\<rparr>"

section \<open>Workloads\<close>

definition Opcounter_readBenchFile ::
  "string option \<Rightarrow> int \<Rightarrow> int \<Rightarrow> call \<Rightarrow> call list \<Rightarrow> bench_error + (int \<times> call list)" where
  "Opcounter_readBenchFile = read_bench crdtToString crdt_operands"

definition Opgset_readBenchFile ::
  "string option \<Rightarrow> int \<Rightarrow> int \<Rightarrow> call \<Rightarrow> call list \<Rightarrow> bench_error + (int \<times> call list)" where
  "Opgset_readBenchFile = read_bench crdtToString crdt_operands"

text \<open>
  The register's reader advances the timestamp of the current state for every update it
  reads and stamps the call with it; \<open>ts\<close> is that timestamp.
\<close>

fun opreg_loop :: "int \<Rightarrow> string list \<Rightarrow> int \<Rightarrow> int \<Rightarrow> call \<Rightarrow> call list \<Rightarrow>
     bench_error + (int \<times> call list)" where
  "opreg_loop node [] counter ts c cs = Inr (ts, cs)"
| "opreg_loop node (line # lines) counter ts c cs =
     (case extract_int (istringstream line) of
        (iss, None) \<Rightarrow> Inl Uninitialised_read
      | (iss, Some tmp_op) \<Rightarrow>
          (let c1 = c\<lparr>ctype := crdtToString tmp_op\<rparr> in
           if ctype c1 \<noteq> ''Read''
           then (let c2 = c1\<lparr>call_id := counter + 1\<rparr> in
             if ctype c2 = ''Update''
             then (let c3 = c2\<lparr>value1 := snd (extract_into iss (value1 c2)), value2 := ts + 1,
                               node_id := node, stable := False\<rparr>
                   in opreg_loop node lines (counter + 1) (ts + 1) c3 (cs @ [c3]))
             else (let c3 = c2\<lparr>node_id := node, stable := False\<rparr>
                   in opreg_loop node lines (counter + 1) ts c3 (cs @ [c3])))
           else (let c3 = c1\<lparr>node_id := node, stable := False\<rparr>
                 in opreg_loop node lines counter ts c3 (cs @ [c3]))))"

definition Opreg_readBenchFile ::
  "string option \<Rightarrow> int \<Rightarrow> int \<Rightarrow> call \<Rightarrow> call list \<Rightarrow> OpRegState \<Rightarrow>
     bench_error + (int \<times> OpRegState \<times> call list)" where
  "Opreg_readBenchFile infile expected node c cs s =
     (case infile of
        None \<Rightarrow> Inr (expected, s, cs)
      | Some content \<Rightarrow>
          (case file_lines content of
             [] \<Rightarrow> Inr (expected, s, cs)
           | line # lines \<Rightarrow>
               (if line = [] then Inl Out_of_range
                else case stoi (tl line) of
                    Inl e \<Rightarrow> Inl e
                  | Inr k \<Rightarrow>
                      (case opreg_loop node lines 0 (op_timestamp s) c cs of
                         Inl e \<Rightarrow> Inl e
                       | Inr (ts, cs') \<Rightarrow> Inr (k, s\<lparr>op_timestamp := ts\<rparr>, cs')))))"

section \<open>The handler in this mode\<close>

text \<open>
  \<open>localHandler\<close>: no conflict scan, and the call counts as stable at once. The stable state
  is not updated.
\<close>

definition crdt_mode_local ::
  "'st op_crdt \<Rightarrow> call \<Rightarrow> 'st handler \<Rightarrow> ('st handler \<times> call \<times> bool \<times> bool \<times> nat) option" where
  "crdt_mode_local ob c h =
     (if op_permissible c
      then do {
        vc \<leftarrow> vincr (vector_clock h) (hnode_id h - 1);
        let h1 = h\<lparr>vector_clock := vc\<rparr>;
        Some (case copy_clock (number_of_nodes h) vc c of
           (c1, False) \<Rightarrow> (h1, c1, True, True, stable_index h)
         | (c1, True) \<Rightarrow>
             (h1\<lparr>executionList := executionList h @ [c1],
                 current_state := op_updateCurrentState ob c1 (current_state h),
                 current_index := current_index h + 1,
                 stable_index := stable_index h + 1,
                 waittobestable := waittobestable h + 1\<rparr>,
              c1, True, True, stable_index h)) }
      else Some (h, c, False, False, stable_index h))"

text \<open>\<open>remoteHandler\<close>, and \<open>internalDownstreamExecute\<close>, which only calls it.\<close>

definition crdt_mode_remote :: "'st op_crdt \<Rightarrow> call \<Rightarrow> 'st handler \<Rightarrow> ('st handler \<times> bool) option" where
  "crdt_mode_remote ob c h =
     (if stable_index h \<le> length (executionList h)
      then do {
        vc \<leftarrow> vincr (vector_clock h) (node_id c - 1);
        Some (h\<lparr>executionList := take (stable_index h) (executionList h) @ c
                                   # drop (stable_index h) (executionList h),
                current_index := current_index h + 1,
                stable_index := stable_index h + 1,
                current_state := op_updateCurrentState ob c (current_state h),
                vector_clock := vc,
                waittobestable := waittobestable h + 1\<rparr>, True) }
      else None)"

definition crdt_mode_execute :: "'st op_crdt \<Rightarrow> call \<Rightarrow> 'st handler \<Rightarrow> 'st handler option" where
  "crdt_mode_execute ob c h = map_option fst (crdt_mode_remote ob c h)"

section \<open>The state of a node\<close>

text \<open>
  \<open>s0\<close> is the state after reading the workload. Everything executed counts as stable, the
  current state has executed the list in its order, the stable state is still the initial one.
\<close>

definition crdt_mode_inv :: "'st op_crdt \<Rightarrow> 'st \<Rightarrow> 'st handler \<Rightarrow> bool" where
  "crdt_mode_inv ob s0 h \<longleftrightarrow> shape_inv h \<and>
     stable_index h = length (executionList h) \<and> current_index h = length (executionList h) \<and>
     waittobestable h = int (length (executionList h)) \<and>
     current_state h = fold (op_updateCurrentState ob) (executionList h) s0 \<and>
     stable_state h = op_initial ob"

datatype crdt_mode_event =
    Crdt_invoke call
  | Crdt_deliver call

fun crdt_mode_step :: "'st op_crdt \<Rightarrow> crdt_mode_event \<Rightarrow> 'st handler \<Rightarrow> 'st handler option" where
  "crdt_mode_step ob (Crdt_invoke c) h = map_option fst (crdt_mode_local ob c h)"
| "crdt_mode_step ob (Crdt_deliver c) h = crdt_mode_execute ob c h"

fun event_call :: "crdt_mode_event \<Rightarrow> call" where
  "event_call (Crdt_invoke c) = c"
| "event_call (Crdt_deliver c) = c"

fun crdt_mode_run :: "'st op_crdt \<Rightarrow> crdt_mode_event list \<Rightarrow> 'st handler \<Rightarrow> 'st handler option" where
  "crdt_mode_run ob [] h = Some h"
| "crdt_mode_run ob (e # es) h = do { h' \<leftarrow> crdt_mode_step ob e h; crdt_mode_run ob es h' }"

definition crdt_mode_start :: "'st op_crdt \<Rightarrow> 'st \<Rightarrow> int \<Rightarrow> nat \<Rightarrow> 'st handler" where
  "crdt_mode_start ob s0 i n = (setVars i n 0 0 0 (Handler_new
     \<lparr>initial_state = op_initial ob, locallyPermissibility = (\<lambda>_ _. op_permissible),
      fastisreachablelocal = op_reach, fastisreachableremote = op_reach,
      updateCurrentState = op_updateCurrentState ob,
      updateStableState = (\<lambda>c s. s)\<rparr>))\<lparr>current_state := s0\<rparr>"

lemma crdt_mode_start_inv:
  "1 \<le> i \<Longrightarrow> i \<le> int n \<Longrightarrow> crdt_mode_inv ob s0 (crdt_mode_start ob s0 i n)"
  by (simp add: crdt_mode_inv_def crdt_mode_start_def shape_inv_def setVars_def Handler_new_def
      vresize_def)

text \<open>A call is appended as it is, except that the issuer stamps its clock.\<close>

lemma crdt_mode_step_inv:
  assumes inv: "crdt_mode_inv ob s0 h"
    and ok: "1 \<le> node_id (event_call e)" "node_id (event_call e) \<le> int (number_of_nodes h)"
  shows "\<exists>h' v. crdt_mode_step ob e h = Some h' \<and> crdt_mode_inv ob s0 h' \<and>
    number_of_nodes h' = number_of_nodes h \<and> executionList h' = executionList h @
      [case e of Crdt_invoke c \<Rightarrow> c\<lparr>call_vector_clock := v\<rparr> | Crdt_deliver c \<Rightarrow> c]"
proof -
  have shape: "shape_inv h" using inv by (simp add: crdt_mode_inv_def)
  show ?thesis
  proof (cases e)
    case (Crdt_invoke c)
    let ?vc = "(vector_clock h)[nat (hnode_id h - 1) := vector_clock h ! nat (hnode_id h - 1) + 1]"
    have "vincr (vector_clock h) (hnode_id h - 1) = Some ?vc"
      using vincr_in_range [OF shape] shape by (simp add: shape_inv_def)
    moreover have "copy_clock (number_of_nodes h) ?vc c = (c\<lparr>call_vector_clock := ?vc\<rparr>, True)"
      using shape by (intro copy_clock_eq) (simp_all add: shape_inv_def)
    ultimately show ?thesis
      using inv by (intro exI [of _ _] exI [of _ ?vc])
        (auto simp: Crdt_invoke crdt_mode_local_def op_permissible_def crdt_mode_inv_def
          shape_inv_def)
  next
    case (Crdt_deliver c)
    then have "vincr (vector_clock h) (node_id c - 1)
        = Some ((vector_clock h)[nat (node_id c - 1) := vector_clock h ! nat (node_id c - 1) + 1])"
      using vincr_in_range [OF shape] ok by simp
    then show ?thesis
      using inv by (simp add: Crdt_deliver crdt_mode_execute_def crdt_mode_remote_def
          crdt_mode_inv_def shape_inv_def)
  qed
qed

section \<open>What a type provides\<close>

text \<open>Execution does not read the clock, and updates commute.\<close>

locale op_crdt_type =
  fixes ob :: "'st op_crdt"
  assumes clock_free:
    "op_updateCurrentState ob (c\<lparr>call_vector_clock := v\<rparr>) = op_updateCurrentState ob c"
begin

lemma run_state:
  assumes "crdt_mode_inv ob s0 h"
    and "\<forall>e \<in> set es. 1 \<le> node_id (event_call e) \<and> node_id (event_call e) \<le> int (number_of_nodes h)"
  shows "\<exists>h'. crdt_mode_run ob es h = Some h' \<and> crdt_mode_inv ob s0 h' \<and>
    length (executionList h') = length (executionList h) + length es \<and>
    current_state h' = fold (op_updateCurrentState ob) (map event_call es) (current_state h)"
  using assms
proof (induction es arbitrary: h)
  case Nil
  then show ?case by simp
next
  case (Cons e es)
  from crdt_mode_step_inv [OF Cons.prems(1), of e] Cons.prems(2) obtain h1 v where
    h1: "crdt_mode_step ob e h = Some h1" "crdt_mode_inv ob s0 h1"
      "number_of_nodes h1 = number_of_nodes h" "executionList h1 = executionList h @
        [case e of Crdt_invoke c \<Rightarrow> c\<lparr>call_vector_clock := v\<rparr> | Crdt_deliver c \<Rightarrow> c]"
    by auto
  have "current_state h1 = op_updateCurrentState ob (event_call e) (current_state h)"
    using h1(2,4) Cons.prems(1) clock_free
    by (cases e) (simp_all add: crdt_mode_inv_def)
  with Cons.IH [OF h1(2)] Cons.prems(2) h1 show ?case by auto
qed

end

locale commuting_op_crdt = op_crdt_type +
  assumes commute: "op_updateCurrentState ob c \<circ> op_updateCurrentState ob d
      = op_updateCurrentState ob d \<circ> op_updateCurrentState ob c"
begin

lemma fold_any_order:
  assumes "mset (map (call_vector_clock_update (\<lambda>_. [])) cs)
      = mset (map (call_vector_clock_update (\<lambda>_. [])) ds)"
  shows "fold (op_updateCurrentState ob) cs s = fold (op_updateCurrentState ob) ds s"
proof -
  let ?strip = "call_vector_clock_update (\<lambda>_. [])"
  have strip: "fold (op_updateCurrentState ob) xs s = fold (op_updateCurrentState ob) (map ?strip xs) s"
    for xs
  proof (induction xs arbitrary: s)
    case Nil
    then show ?case by simp
  next
    case (Cons x xs)
    have "op_updateCurrentState ob (?strip x) = op_updateCurrentState ob x" by (rule clock_free)
    then show ?case using Cons by simp
  qed
  have "fold (op_updateCurrentState ob) (map ?strip cs)
      = fold (op_updateCurrentState ob) (map ?strip ds)"
    by (rule fold_multiset_equiv [OF commute assms])
  then show ?thesis using strip [of cs] strip [of ds] by simp
qed

end

interpretation opcounter: commuting_op_crdt Opcounter
  by unfold_locales (auto simp: Opcounter_def Opcounter_updateCurrentState_def fun_eq_iff)

interpretation opgset: commuting_op_crdt Opgset
  by unfold_locales
    (auto simp: Opgset_def Opgset_updateCurrentState_def fun_eq_iff insert_commute)

interpretation opreg: op_crdt_type Opreg
  by unfold_locales (auto simp: Opreg_def Opreg_updateCurrentState_def fun_eq_iff)

section \<open>The register's timestamps\<close>

lemma opreg_loop_times:
  assumes "opreg_loop node lines k ts c cs = Inr (ts', cs')"
  shows "\<exists>new. cs' = cs @ new \<and>
    ts' = ts + int (length (filter (\<lambda>c. ctype c = ''Update'') new)) \<and>
    (\<forall>d \<in> set new. ctype d = ''Update'' \<longrightarrow> value2 d \<le> ts')"
  using assms
proof (induction node lines k ts c cs rule: opreg_loop.induct)
  case (1 node counter ts c cs)
  then show ?case by simp
next
  case (2 node line lines counter ts c cs)
  obtain iss op where ex: "extract_int (istringstream line) = (iss, Some op)"
    using "2.prems" by (auto split: prod.splits option.splits)
  let ?c1 = "c\<lparr>ctype := crdtToString op\<rparr>"
  let ?c2 = "?c1\<lparr>call_id := counter + 1\<rparr>"
  let ?up = "?c2\<lparr>value1 := snd (extract_into iss (value1 ?c2)), value2 := ts + 1,
    node_id := node, stable := False\<rparr>"
  consider (read) "crdtToString op = ''Read''" | (update) "crdtToString op = ''Update''"
    | (other) "crdtToString op \<noteq> ''Read''" "crdtToString op \<noteq> ''Update''" by blast
  then show ?case
  proof cases
    case read
    with "2.prems" ex have "opreg_loop node lines counter ts
        (?c1\<lparr>node_id := node, stable := False\<rparr>) (cs @ [?c1\<lparr>node_id := node, stable := False\<rparr>])
        = Inr (ts', cs')" by (simp add: Let_def)
    from "2.IH"(3) [OF ex [symmetric] refl refl] read this show ?thesis by fastforce
  next
    case update
    with "2.prems" ex have loop: "opreg_loop node lines (counter + 1) (ts + 1) ?up (cs @ [?up])
        = Inr (ts', cs')" by (simp add: Let_def)
    from "2.IH"(1) [OF ex [symmetric] refl refl] update this obtain new where
      new: "cs' = (cs @ [?up]) @ new"
        "ts' = ts + 1 + int (length (filter (\<lambda>c. ctype c = ''Update'') new))"
        "\<forall>d \<in> set new. ctype d = ''Update'' \<longrightarrow> value2 d \<le> ts'" by fastforce
    then show ?thesis using update by (intro exI [of _ "?up # new"]) auto
  next
    case other
    with "2.prems" ex have "opreg_loop node lines (counter + 1) ts
        (?c2\<lparr>node_id := node, stable := False\<rparr>) (cs @ [?c2\<lparr>node_id := node, stable := False\<rparr>])
        = Inr (ts', cs')" by (simp add: Let_def)
    from "2.IH"(2) [OF ex [symmetric] refl refl] other this show ?thesis by fastforce
  qed
qed

lemma opreg_old_ignored:
  "ctype c \<noteq> ''Update'' \<or> value2 c \<le> op_timestamp s \<Longrightarrow> Opreg_updateCurrentState c s = s"
  by (auto simp: Opreg_updateCurrentState_def)

lemma opreg_fold_ignored:
  "\<forall>c \<in> set cs. ctype c \<noteq> ''Update'' \<or> value2 c \<le> op_timestamp s \<Longrightarrow>
     fold (op_updateCurrentState Opreg) cs s = s"
  by (induction cs) (simp_all add: Opreg_def opreg_old_ignored)

lemma Opreg_readBenchFile_times:
  assumes "Opreg_readBenchFile infile expected node c [] s = Inr (k, s', cs)"
  shows "op_value s' = op_value s \<and>
    op_timestamp s' = op_timestamp s + int (length (filter (\<lambda>c. ctype c = ''Update'') cs)) \<and>
    (\<forall>d \<in> set cs. ctype d = ''Update'' \<longrightarrow> value2 d \<le> op_timestamp s')"
  using assms opreg_loop_times [of node _ 0 "op_timestamp s" c "[]"]
  by (force simp: Opreg_readBenchFile_def split: option.splits list.splits if_splits sum.splits)

end
