(* ===== verification/Crdt_Examples.thy ===== *)
theory Crdt_Examples
  imports Crdt_Node Op_Crdt
begin

text \<open>
  A small workload of a CRDT node, and a workload file of the operation-based register.
\<close>

definition crdt_demo_call :: "string \<Rightarrow> int \<Rightarrow> int \<Rightarrow> call" where
  "crdt_demo_call t v node = Call_new t v 0 0 0 node 1 False False"

definition crdt_demo_work :: "call list" where
  "crdt_demo_work = [crdt_demo_call ''Update'' 5 1, crdt_demo_call ''Read'' 5 1,
     crdt_demo_call ''Update'' 7 1]"

lemma crdt_demo_ok: "\<forall>c \<in> set crdt_demo_work. crdt_call_ok c \<and> value2 c = 0"
  by (auto simp: crdt_demo_work_def crdt_demo_call_def crdt_call_ok_def Call_new_def wire_ok_def
      int32_def)

definition op_reg_file :: string where
  "op_reg_file = bench_text 2 [Op_single 0 5]"

end
