(* ===== verification/Sql_Solver.thy ===== *)
theory Sql_Solver
  imports Prelude Complex_Main
begin

text \<open>
  What the SQL analysis of \<^verbatim>\<open>HamsazinC/cvc5_SQLAnalysis-main\<close> uses of the SMT solver it is
  linked with. The solver is not part of the repository, so it is an argument of every
  definition (\<open>Solver &slv\<close> in the source): a record of the interface functions the code calls.
  The locale states the documented sorts and meanings of the terms they build; a call the
  solver rejects with an exception is \<open>None\<close>.
\<close>

section \<open>Errors\<close>

text \<open>
  \<open>Runtime_error\<close> is thrown by the repository's code, \<open>Api_exception\<close> by the solver;
  \<open>Number_out_of_range\<close> by a conversion of the standard library; \<open>Bad_access\<close> is an index past the end
  of a vector, undefined in C++.
\<close>

datatype sql_error = Runtime_error string | Api_exception | Number_out_of_range | Bad_access

definition ebind :: "'e + 'a \<Rightarrow> ('a \<Rightarrow> 'e + 'b) \<Rightarrow> 'e + 'b" where
  "ebind m f = (case m of Inl e \<Rightarrow> Inl e | Inr x \<Rightarrow> f x)"

lemma ebind_simps [simp]: "ebind (Inl e) f = Inl e" "ebind (Inr x) f = f x"
  by (simp_all add: ebind_def)

lemma ebind_Inr_iff: "ebind m f = Inr y \<longleftrightarrow> (\<exists>x. m = Inr x \<and> f x = Inr y)"
  by (cases m) simp_all

lemma ebind_Inl_iff: "ebind m f = Inl e \<longleftrightarrow> m = Inl e \<or> (\<exists>x. m = Inr x \<and> f x = Inl e)"
  by (cases m) auto

definition api :: "'a option \<Rightarrow> sql_error + 'a" where
  "api r = (case r of None \<Rightarrow> Inl Api_exception | Some x \<Rightarrow> Inr x)"

lemma api_simps [simp]:
  "api None = Inl Api_exception" "api (Some x) = Inr x" "api r = Inr y \<longleftrightarrow> r = Some y"
  by (simp_all add: api_def split: option.splits)

text \<open>\<open>v[i]\<close> on a vector.\<close>

definition at_index :: "'a list \<Rightarrow> nat \<Rightarrow> sql_error + 'a" where
  "at_index xs i = (if i < length xs then Inr (xs ! i) else Inl Bad_access)"

lemma at_index_Inr [simp]: "at_index xs i = Inr x \<longleftrightarrow> i < length xs \<and> x = xs ! i"
  by (auto simp: at_index_def)

text \<open>The loop that calls a failing function for each element and collects the results.\<close>

fun emap :: "('a \<Rightarrow> 'e + 'b) \<Rightarrow> 'a list \<Rightarrow> 'e + 'b list" where
  "emap f [] = Inr []"
| "emap f (x # xs) = ebind (f x) (\<lambda>y. ebind (emap f xs) (\<lambda>ys. Inr (y # ys)))"

lemma emap_Inr_iff: "emap f xs = Inr ys \<longleftrightarrow> list_all2 (\<lambda>x y. f x = Inr y) xs ys"
proof (induction xs arbitrary: ys)
  case Nil
  then show ?case by auto
next
  case (Cons x xs)
  then show ?case by (auto simp: ebind_Inr_iff list_all2_Cons1)
qed

section \<open>The interface of the solver\<close>

text \<open>The kinds of terms the analysis builds.\<close>

datatype kind =
    SET_SINGLETON | SET_UNION | SET_MINUS | SET_FILTER | SET_MAP | SET_SUBSET
  | RELATION_PRODUCT | TABLE_PRODUCT | VARIABLE_LIST | LAMBDA
  | EQUAL | DISTINCT | LT | LEQ | GT | GEQ | AND_kind | NOT_kind | IMPLIES
  | APPLY_CONSTRUCTOR | APPLY_SELECTOR

text \<open>
  \<open>getDatatype\<close> stands for \<open>getDatatype()[0]\<close>: the term of the constructor, and name, sort and
  term of each selector. \<open>mkConst\<close> makes a new constant each time it is called, which its
  first argument tells apart. \<open>mkAggregate\<close> is \<open>mkOp(TABLE_AGGREGATE, indices)\<close> applied to the
  folding function, the initial value and the table.
\<close>

record ('s, 't) solver =
  getIntegerSort :: 's
  getStringSort :: 's
  getRealSort :: 's
  nullSort :: 's
  mkTupleSort :: "'s list \<Rightarrow> 's"
  mkSetSort :: "'s \<Rightarrow> 's"
  mkBagSort :: "'s \<Rightarrow> 's"
  mkFunctionSort :: "'s list \<Rightarrow> 's \<Rightarrow> 's"
  getSetElementSort :: "'s \<Rightarrow> 's option"
  getBagElementSort :: "'s \<Rightarrow> 's option"
  getTupleSorts :: "'s \<Rightarrow> 's list option"
  getDatatype :: "'s \<Rightarrow> ('t \<times> (string \<times> 's \<times> 't) list) option"
  nullTerm :: 't
  getSort :: "'t \<Rightarrow> 's"
  mkInteger :: "int \<Rightarrow> 't"
  mkString :: "string \<Rightarrow> 't"
  mkReal :: "int \<Rightarrow> int \<Rightarrow> 't"
  mkVar :: "'s \<Rightarrow> string \<Rightarrow> 't"
  mkConst :: "nat \<Rightarrow> 's \<Rightarrow> string \<Rightarrow> 't"
  mkEmptySet :: "'s \<Rightarrow> 't option"
  mkTuple :: "'t list \<Rightarrow> 't"
  mkTerm :: "kind \<Rightarrow> 't list \<Rightarrow> 't option"
  mkAggregate :: "nat list \<Rightarrow> 't list \<Rightarrow> 't option"

text \<open>The values of the columns of a row.\<close>

datatype cell = Cell_int int | Cell_str string | Cell_real rat

type_synonym row = "cell list"

text \<open>The meaning of the comparison kinds on two cells of the same sort.\<close>

fun compare_cells :: "kind \<Rightarrow> cell \<Rightarrow> cell \<Rightarrow> bool" where
  "compare_cells EQUAL a b = (a = b)"
| "compare_cells DISTINCT a b = (a \<noteq> b)"
| "compare_cells LT (Cell_int a) (Cell_int b) = (a < b)"
| "compare_cells LEQ (Cell_int a) (Cell_int b) = (a \<le> b)"
| "compare_cells GT (Cell_int a) (Cell_int b) = (a > b)"
| "compare_cells GEQ (Cell_int a) (Cell_int b) = (a \<ge> b)"
| "compare_cells LT (Cell_real a) (Cell_real b) = (a < b)"
| "compare_cells LEQ (Cell_real a) (Cell_real b) = (a \<le> b)"
| "compare_cells GT (Cell_real a) (Cell_real b) = (a > b)"
| "compare_cells GEQ (Cell_real a) (Cell_real b) = (a \<ge> b)"
| "compare_cells k a b = False"

text \<open>
  The contract: \<open>cell_of\<close>, \<open>row_of\<close>, \<open>rows_of\<close> and \<open>holds\<close> give the value of a term of scalar,
  tuple, table and boolean sort (\<open>formula\<close>) under an interpretation of the free constants;
  \<open>bound\<close> gives a row to a variable. The equations are those of the solver's documentation for each kind; a
  term of a wrong sort is rejected.
\<close>

definition table_sort :: "('s, 't, 'm) solver_scheme \<Rightarrow> 's list \<Rightarrow> 's" where
  "table_sort slv ss = mkSetSort slv (mkTupleSort slv ss)"

definition scalar_sort :: "('s, 't, 'm) solver_scheme \<Rightarrow> 's \<Rightarrow> bool" where
  "scalar_sort slv s \<longleftrightarrow> s \<in> {getIntegerSort slv, getStringSort slv, getRealSort slv}"

locale cvc5 =
  fixes slv :: "('s, 't) solver"
    and cell_of :: "'e \<Rightarrow> 't \<Rightarrow> cell"
    and row_of :: "'e \<Rightarrow> 't \<Rightarrow> row"
    and rows_of :: "'e \<Rightarrow> 't \<Rightarrow> row set"
    and holds :: "'e \<Rightarrow> 't \<Rightarrow> bool"
    and formula :: "'t \<Rightarrow> bool"
    and bound :: "'e \<Rightarrow> 't \<Rightarrow> row \<Rightarrow> 'e"
  assumes int_string: "getIntegerSort slv \<noteq> getStringSort slv"
    and element: "getSetElementSort slv (mkSetSort slv s) = Some s"
    and tuple_sorts: "getTupleSorts slv (mkTupleSort slv ss) = Some ss"
    and tuple_datatype: "\<exists>c sels. getDatatype slv (mkTupleSort slv ss) = Some (c, sels) \<and>
      map (fst \<circ> snd) sels = ss"
    and integer: "getSort slv (mkInteger slv i) = getIntegerSort slv"
      "cell_of e (mkInteger slv i) = Cell_int i"
    and strings: "getSort slv (mkString slv str) = getStringSort slv"
      "cell_of e (mkString slv str) = Cell_str str"
    and real: "getSort slv (mkReal slv i m) = getRealSort slv"
      "cell_of e (mkReal slv i m) = Cell_real (of_int i / of_int m)"
    and variable: "getSort slv (mkVar slv s n) = s"
    and assigned: "length r = length ss \<Longrightarrow>
      row_of (bound e (mkVar slv (mkTupleSort slv ss) n) r) (mkVar slv (mkTupleSort slv ss) n) = r"
    and table_rows: "getSort slv t = table_sort slv ss \<Longrightarrow> r \<in> rows_of e t \<Longrightarrow> length r = length ss"
    and tuple: "getSort slv (mkTuple slv ts) = mkTupleSort slv (map (getSort slv) ts)"
      "row_of e (mkTuple slv ts) = map (cell_of e) ts"
    and constructor_defined: "getDatatype slv (mkTupleSort slv ss) = Some (c, sels) \<Longrightarrow>
      mkTerm slv APPLY_CONSTRUCTOR (c # ts) \<noteq> None \<longleftrightarrow> map (getSort slv) ts = ss"
    and constructed: "getDatatype slv (mkTupleSort slv ss) = Some (c, sels) \<Longrightarrow>
      mkTerm slv APPLY_CONSTRUCTOR (c # ts) = Some t \<Longrightarrow>
      getSort slv t = mkTupleSort slv ss \<and> row_of e t = map (cell_of e) ts"
    and selected: "getDatatype slv (mkTupleSort slv ss) = Some (c, sels) \<Longrightarrow>
      getSort slv w = mkTupleSort slv ss \<Longrightarrow> j < length ss \<Longrightarrow>
      \<exists>t. mkTerm slv APPLY_SELECTOR [snd (snd (sels ! j)), w] = Some t \<and>
        getSort slv t = ss ! j \<and> (\<forall>e. cell_of e t = row_of e w ! j)"
    and singleton: "getSort slv w = mkTupleSort slv ss \<Longrightarrow>
      \<exists>t. mkTerm slv SET_SINGLETON [w] = Some t \<and> getSort slv t = table_sort slv ss \<and>
        (\<forall>e. rows_of e t = {row_of e w})"
    and union: "getSort slv a = table_sort slv ss \<Longrightarrow> getSort slv b = table_sort slv ss \<Longrightarrow>
      \<exists>t. mkTerm slv SET_UNION [a, b] = Some t \<and> getSort slv t = table_sort slv ss \<and>
        (\<forall>e. rows_of e t = rows_of e a \<union> rows_of e b)"
    and union_sorts: "mkTerm slv SET_UNION [a, b] = Some t \<Longrightarrow>
      getSort slv b = getSort slv a \<and> getSort slv t = getSort slv a"
    and minus: "getSort slv a = table_sort slv ss \<Longrightarrow> getSort slv b = table_sort slv ss \<Longrightarrow>
      \<exists>t. mkTerm slv SET_MINUS [a, b] = Some t \<and> getSort slv t = table_sort slv ss \<and>
        (\<forall>e. rows_of e t = rows_of e a - rows_of e b)"
    and subset_term: "getSort slv a = table_sort slv ss \<Longrightarrow> getSort slv b = table_sort slv ss \<Longrightarrow>
      \<exists>t. mkTerm slv SET_SUBSET [a, b] = Some t \<and> formula t \<and> (\<forall>e. holds e t \<longleftrightarrow> rows_of e a \<subseteq> rows_of e b)"
    and product: "getSort slv a = table_sort slv ss \<Longrightarrow> getSort slv b = table_sort slv ss' \<Longrightarrow>
      \<exists>t. mkTerm slv RELATION_PRODUCT [a, b] = Some t \<and> getSort slv t = table_sort slv (ss @ ss') \<and>
        (\<forall>e. rows_of e t = {x @ y | x y. x \<in> rows_of e a \<and> y \<in> rows_of e b})"
    and variable_list: "\<exists>vl. mkTerm slv VARIABLE_LIST [mkVar slv s n] = Some vl"
    and lambda: "mkTerm slv VARIABLE_LIST [mkVar slv s n] = Some vl \<Longrightarrow>
      \<exists>f. mkTerm slv LAMBDA [vl, b] = Some f"
    and filter_term: "mkTerm slv VARIABLE_LIST [mkVar slv (mkTupleSort slv ss) n] = Some vl \<Longrightarrow>
      mkTerm slv k [u, w] = Some p \<Longrightarrow> k \<in> {EQUAL, DISTINCT, LT, LEQ, GT, GEQ} \<Longrightarrow>
      mkTerm slv LAMBDA [vl, p] = Some f \<Longrightarrow> getSort slv a = table_sort slv ss \<Longrightarrow>
      \<exists>t. mkTerm slv SET_FILTER [f, a] = Some t \<and> getSort slv t = table_sort slv ss \<and>
        (\<forall>e. rows_of e t
           = {r \<in> rows_of e a. holds (bound e (mkVar slv (mkTupleSort slv ss) n) r) p})"
    and map_term: "mkTerm slv VARIABLE_LIST [mkVar slv (mkTupleSort slv ss) n] = Some vl \<Longrightarrow>
      mkTerm slv LAMBDA [vl, b] = Some f \<Longrightarrow> getSort slv b = mkTupleSort slv ss' \<Longrightarrow>
      getSort slv a = table_sort slv ss \<Longrightarrow>
      \<exists>t. mkTerm slv SET_MAP [f, a] = Some t \<and> getSort slv t = table_sort slv ss' \<and>
        (\<forall>e. rows_of e t
           = (\<lambda>r. row_of (bound e (mkVar slv (mkTupleSort slv ss) n) r) b) ` rows_of e a)"
    and comparison_defined: "scalar_sort slv (getSort slv a) \<Longrightarrow> scalar_sort slv (getSort slv b) \<Longrightarrow>
      k \<in> {EQUAL, DISTINCT} \<Longrightarrow> mkTerm slv k [a, b] \<noteq> None \<longleftrightarrow> getSort slv a = getSort slv b"
    and order_defined: "getSort slv a = getIntegerSort slv \<Longrightarrow> getSort slv b = getIntegerSort slv \<Longrightarrow>
      k \<in> {LT, LEQ, GT, GEQ} \<Longrightarrow> mkTerm slv k [a, b] \<noteq> None"
    and comparison: "scalar_sort slv (getSort slv a) \<Longrightarrow> scalar_sort slv (getSort slv b) \<Longrightarrow>
      k \<in> {EQUAL, DISTINCT, LT, LEQ, GT, GEQ} \<Longrightarrow> mkTerm slv k [a, b] = Some p \<Longrightarrow>
      getSort slv a = getSort slv b \<and> formula p \<and> (holds e p \<longleftrightarrow> compare_cells k (cell_of e a) (cell_of e b))"
    and equal_tables: "getSort slv a = table_sort slv ss \<Longrightarrow> getSort slv b = table_sort slv ss \<Longrightarrow>
      \<exists>p. mkTerm slv EQUAL [a, b] = Some p \<and> formula p \<and> (\<forall>e. holds e p \<longleftrightarrow> rows_of e a = rows_of e b)"
    and null_equal: "mkTerm slv EQUAL [t, nullTerm slv] = None"
    and conj: "formula a \<Longrightarrow> formula b \<Longrightarrow>
      \<exists>p. mkTerm slv AND_kind [a, b] = Some p \<and> formula p \<and> (\<forall>e. holds e p \<longleftrightarrow> holds e a \<and> holds e b)"
    and neg: "formula a \<Longrightarrow>
      \<exists>p. mkTerm slv NOT_kind [a] = Some p \<and> formula p \<and> (\<forall>e. holds e p \<longleftrightarrow> \<not> holds e a)"
    and imp: "formula a \<Longrightarrow> formula b \<Longrightarrow>
      \<exists>p. mkTerm slv IMPLIES [a, b] = Some p \<and> formula p \<and>
        (\<forall>e. holds e p \<longleftrightarrow> (holds e a \<longrightarrow> holds e b))"
begin

text \<open>The selector of a column, and the variable of a lambda seen through it.\<close>

lemma constructor_total:
  assumes "getDatatype slv (mkTupleSort slv ss) = Some (c, sels)" and "map (getSort slv) ts = ss"
  shows "\<exists>t. mkTerm slv APPLY_CONSTRUCTOR (c # ts) = Some t \<and>
    getSort slv t = mkTupleSort slv ss \<and> (\<forall>e. row_of e t = map (cell_of e) ts)"
  using constructor_defined [OF assms(1)] constructed [OF assms(1)] assms(2) by blast

lemma assigned_row:
  "getSort slv a = table_sort slv ss \<Longrightarrow> r \<in> rows_of e a \<Longrightarrow>
   row_of (bound e (mkVar slv (mkTupleSort slv ss) n) r) (mkVar slv (mkTupleSort slv ss) n) = r"
  by (rule assigned) (rule table_rows)

lemma datatype_length: "getDatatype slv (mkTupleSort slv ss) = Some (c, sels) \<Longrightarrow> length sels = length ss"
  using tuple_datatype [of ss] by (auto dest: arg_cong [of _ _ length])

lemma set_filter:
  assumes "mkTerm slv k [u, w] = Some p" and "k \<in> {EQUAL, DISTINCT, LT, LEQ, GT, GEQ}"
    and "getSort slv a = table_sort slv ss"
  shows "\<exists>vl f t. mkTerm slv VARIABLE_LIST [mkVar slv (mkTupleSort slv ss) n] = Some vl \<and>
    mkTerm slv LAMBDA [vl, p] = Some f \<and> mkTerm slv SET_FILTER [f, a] = Some t \<and>
    getSort slv t = table_sort slv ss \<and>
    (\<forall>e. rows_of e t = {r \<in> rows_of e a. holds (bound e (mkVar slv (mkTupleSort slv ss) n) r) p})"
  using variable_list lambda filter_term [OF _ assms(1,2) _ assms(3)] by meson

lemma set_map:
  assumes "getSort slv b = mkTupleSort slv ss'" and "getSort slv a = table_sort slv ss"
  shows "\<exists>vl f t. mkTerm slv VARIABLE_LIST [mkVar slv (mkTupleSort slv ss) n] = Some vl \<and>
    mkTerm slv LAMBDA [vl, b] = Some f \<and> mkTerm slv SET_MAP [f, a] = Some t \<and>
    getSort slv t = table_sort slv ss' \<and>
    (\<forall>e. rows_of e t = (\<lambda>r. row_of (bound e (mkVar slv (mkTupleSort slv ss) n) r) b) ` rows_of e a)"
  using variable_list lambda map_term [OF _ _ assms] by meson

end

end
