(* ===== verification/Sql_Table.thy ===== *)
theory Sql_Table
  imports Sql_Solver
begin

text \<open>
  \<^verbatim>\<open>src/TableInfo.cpp\<close> and \<^verbatim>\<open>src/Table.cpp\<close> of the SQL analysis: the columns and foreign keys
  the analysis knows, and the class \<open>Table\<close>, which keeps the sort of a table and the names of
  its columns and builds the terms for rows and fields. The solver a \<open>Table\<close> points to is the
  argument \<open>slv\<close>.
\<close>

section \<open>Table information\<close>

definition getColumnInfo :: "('s, 't) solver \<Rightarrow> string \<Rightarrow> (string \<times> 's) list" where
  "getColumnInfo slv name =
     (let i = getIntegerSort slv; s = getStringSort slv in
      if name = ''customer''
      then [(''c_id'', i), (''c_tax_id'', s), (''c_st_id'', s), (''c_l_name'', s), (''c_f_name'', s),
            (''c_m_name'', s), (''c_gndr'', s), (''c_tier'', i), (''c_dob'', s), (''c_ad_id'', i),
            (''c_ctry_1'', s), (''c_area_1'', s), (''c_local_1'', s), (''c_ext_1'', s),
            (''c_ctry_2'', s), (''c_area_2'', s), (''c_local_2'', s), (''c_ext_2'', s),
            (''c_ctry_3'', s), (''c_area_3'', s), (''c_local_3'', s), (''c_ext_3'', s),
            (''c_email_1'', s), (''c_email_2'', s)]
      else if name = ''address''
      then [(''ad_id'', i), (''ad_line1'', s), (''ad_line2'', s), (''ad_zc_code'', s), (''ad_ctry'', s)]
      else if name = ''broker''
      then [(''b_id'', i), (''b_st_id'', s), (''b_name'', s), (''b_num_trades'', i),
            (''b_comm_total'', getRealSort slv)]
      else if name = ''zip-code''
      then [(''zc_code'', s), (''zc_town'', s), (''zc_div'', s)]
      else if name = ''company''
      then [(''co_id'', i), (''co_st_id'', s), (''co_name'', s), (''co_in_id'', s), (''co_sp_rate'', s),
            (''co_ceo'', s), (''co_ad_id'', i), (''co_desc'', s), (''co_open_date'', s)]
      else [])"

text \<open>The foreign keys: the two tables, and their two columns.\<close>

definition getReferentialIntegrityInfo :: "string \<Rightarrow> (string list \<times> string list) list" where
  "getReferentialIntegrityInfo name =
     (if name = ''customer''
      then [([''customer'', ''status-type''], [''c_st_id'', ''st_id'']),
            ([''customer'', ''address''], [''c_ad_id'', ''ad_id''])]
      else if name = ''address''
      then [([''address'', ''zip-code''], [''ad_zc_code'', ''zc_code''])]
      else if name = ''broker''
      then [([''broker'', ''status-type''], [''b_st_id'', ''st_id''])]
      else if name = ''zip-code'' then []
      else if name = ''company''
      then [([''company'', ''status-type''], [''co_st_id'', ''st_id'']),
            ([''company'', ''industry''], [''co_in_id'', ''in_id'']),
            ([''company'', ''address''], [''co_ad_id'', ''ad_id''])]
      else [])"

section \<open>Tables\<close>

record 's sql_table =
  tableSort :: 's
  tableName :: string
  columnNames :: "(string \<times> 's) list"

text \<open>\<open>Table()\<close>, \<open>Table(slv, name)\<close>, the projected table, and the table of given parts.\<close>

definition Table_default :: "('s, 't) solver \<Rightarrow> 's sql_table" where
  "Table_default slv = \<lparr>tableSort = nullSort slv, tableName = [], columnNames = []\<rparr>"

definition Table_named :: "('s, 't) solver \<Rightarrow> string \<Rightarrow> 's sql_table" where
  "Table_named slv name =
     (let columnInfo = getColumnInfo slv name
      in \<lparr>tableSort = mkSetSort slv (mkTupleSort slv (map snd columnInfo)), tableName = name,
          columnNames = columnInfo\<rparr>)"

definition Table_projected :: "('s, 't) solver \<Rightarrow> 's sql_table \<Rightarrow> string list \<Rightarrow> 's sql_table" where
  "Table_projected slv originalTable desiredColumns =
     (let desired = filter (\<lambda>c. fst c \<in> set desiredColumns) (columnNames originalTable)
      in \<lparr>tableSort = mkSetSort slv (mkTupleSort slv (map snd desired)),
          tableName = tableName originalTable @ ''_projected'', columnNames = desired\<rparr>)"

definition Table_of :: "string \<Rightarrow> 's \<Rightarrow> (string \<times> 's) list \<Rightarrow> 's sql_table" where
  "Table_of name s cols = \<lparr>tableSort = s, tableName = name, columnNames = cols\<rparr>"

definition getTableColumnNames :: "'s sql_table \<Rightarrow> string list" where
  "getTableColumnNames T = map fst (columnNames T)"

fun column_index :: "string \<Rightarrow> (string \<times> 's) list \<Rightarrow> nat option" where
  "column_index name [] = None"
| "column_index name (c # cs) =
     (if fst c = name then Some 0 else map_option Suc (column_index name cs))"

definition getColumnIndexByName :: "'s sql_table \<Rightarrow> string \<Rightarrow> sql_error + nat" where
  "getColumnIndexByName T name =
     (case column_index name (columnNames T) of
        Some i \<Rightarrow> Inr i
      | None \<Rightarrow> Inl (Runtime_error ''Column name not found in table''))"

definition getIndicesOfColumns :: "'s sql_table \<Rightarrow> string list \<Rightarrow> nat list" where
  "getIndicesOfColumns T desired = sort (List.map_filter (\<lambda>d. column_index d (columnNames T)) desired)"

section \<open>Rows\<close>

text \<open>
  A value of \<open>RowData\<close>. Of a \<open>double\<close> the code uses only \<open>static_cast<int64_t>(value * 100)\<close>,
  which stands for it here.
\<close>

datatype row_value = Row_int int | Row_hundredths int | Row_str string

fun value_term :: "('s, 't) solver \<Rightarrow> row_value \<Rightarrow> 't" where
  "value_term slv (Row_int i) = mkInteger slv i"
| "value_term slv (Row_str s) = mkString slv s"
| "value_term slv (Row_hundredths n) = mkReal slv n 100"

definition createRow :: "('s, 't) solver \<Rightarrow> 's sql_table \<Rightarrow> row_value list \<Rightarrow> sql_error + 't" where
  "createRow slv T rowData =
     ebind (api (getSetElementSort slv (tableSort T))) (\<lambda>rowSort.
     ebind (api (getDatatype slv rowSort)) (\<lambda>(makeTableTerm, _).
     api (mkTerm slv APPLY_CONSTRUCTOR (makeTableTerm # map (value_term slv) rowData))))"

definition createBag :: "('s, 't) solver \<Rightarrow> nat \<Rightarrow> 's sql_table \<Rightarrow> 't" where
  "createBag slv new T = mkConst slv new (tableSort T) (tableName T)"

definition createEmptyBag :: "('s, 't) solver \<Rightarrow> 's sql_table \<Rightarrow> sql_error + 't" where
  "createEmptyBag slv T = api (mkEmptySet slv (tableSort T))"

definition default_values :: "('s, 't) solver \<Rightarrow> (string \<times> 's) list \<Rightarrow> row_value list" where
  "default_values slv cols = List.map_filter (\<lambda>c.
     if snd c = getIntegerSort slv then Some (Row_int 0)
     else if snd c = getStringSort slv then Some (Row_str []) else None) cols"

definition createDefaultBag :: "('s, 't) solver \<Rightarrow> 's sql_table \<Rightarrow> sql_error + 't" where
  "createDefaultBag slv T = createRow slv T (default_values slv (columnNames T))"

section \<open>Fields\<close>

definition accessFieldByIndex :: "('s, 't) solver \<Rightarrow> 't \<Rightarrow> nat \<Rightarrow> sql_error + 't" where
  "accessFieldByIndex slv w columnIndex =
     ebind (api (getTupleSorts slv (getSort slv w))) (\<lambda>sorts.
     ebind (at_index sorts columnIndex) (\<lambda>_.
     ebind (api (getDatatype slv (getSort slv w))) (\<lambda>(_, ctor).
       if length ctor \<le> columnIndex then Inl (Runtime_error ''Index out of range for tuple'')
       else api (mkTerm slv APPLY_SELECTOR [snd (snd (ctor ! columnIndex)), w]))))"

text \<open>
  When the sort of the row is no datatype the exception is caught and the null constructor is
  indexed, which the solver rejects.
\<close>

definition accessField :: "('s, 't) solver \<Rightarrow> 's sql_table \<Rightarrow> 't \<Rightarrow> string \<Rightarrow> sql_error + 't" where
  "accessField slv T w fieldName =
     (case getDatatype slv (getSort slv w) of
        None \<Rightarrow> ebind (getColumnIndexByName T fieldName) (\<lambda>_. Inl Api_exception)
      | Some (_, ctor) \<Rightarrow>
          ebind (getColumnIndexByName T fieldName) (\<lambda>i.
            if i < length ctor then api (mkTerm slv APPLY_SELECTOR [snd (snd (ctor ! i)), w])
            else Inl Api_exception))"

section \<open>Correctness\<close>

text \<open>A table whose sort is that of its columns.\<close>

definition table_wf :: "('s, 't) solver \<Rightarrow> 's sql_table \<Rightarrow> bool" where
  "table_wf slv T \<longleftrightarrow> tableSort T = table_sort slv (map snd (columnNames T))"

lemma table_wf_named [simp]: "table_wf slv (Table_named slv name)"
  by (simp add: table_wf_def Table_named_def table_sort_def Let_def)

lemma table_wf_projected [simp]: "table_wf slv (Table_projected slv T cols)"
  by (simp add: table_wf_def Table_projected_def table_sort_def Let_def)

lemma column_index_Some:
  "column_index name cs = Some i \<Longrightarrow> i < length cs \<and> fst (cs ! i) = name"
  by (induction cs arbitrary: i) (auto split: if_splits)

lemma column_index_None: "column_index name cs = None \<longleftrightarrow> name \<notin> fst ` set cs"
  by (induction cs) auto

lemma column_index_nth:
  "distinct (map fst cs) \<Longrightarrow> i < length cs \<Longrightarrow> column_index (fst (cs ! i)) cs = Some i"
proof (induction cs arbitrary: i)
  case Nil
  then show ?case by simp
next
  case (Cons c cs)
  show ?case
  proof (cases i)
    case 0
    then show ?thesis by simp
  next
    case (Suc j)
    then have "fst (cs ! j) \<in> fst ` set cs" using Cons.prems(2) by simp
    moreover have "fst c \<notin> fst ` set cs" using Cons.prems(1) by simp
    ultimately have "fst c \<noteq> fst (cs ! j)" by metis
    then show ?thesis using Cons Suc by simp
  qed
qed

fun value_sort :: "('s, 't) solver \<Rightarrow> row_value \<Rightarrow> 's" where
  "value_sort slv (Row_int i) = getIntegerSort slv"
| "value_sort slv (Row_str s) = getStringSort slv"
| "value_sort slv (Row_hundredths n) = getRealSort slv"

fun value_cell :: "row_value \<Rightarrow> cell" where
  "value_cell (Row_int i) = Cell_int i"
| "value_cell (Row_str s) = Cell_str s"
| "value_cell (Row_hundredths n) = Cell_real (of_int n / 100)"

context cvc5
begin

lemma value_term_sort [simp]: "getSort slv (value_term slv v) = value_sort slv v"
  by (cases v) (simp_all add: integer strings real)

lemma value_term_cell [simp]: "cell_of e (value_term slv v) = value_cell v"
  by (cases v) (simp_all add: integer strings real)

text \<open>A row is built exactly when its values have the sorts of the columns.\<close>

lemma createRow_returns:
  assumes "table_wf slv T" and "map (value_sort slv) vs = map snd (columnNames T)"
  shows "\<exists>t. createRow slv T vs = Inr t \<and> getSort slv t = mkTupleSort slv (map snd (columnNames T)) \<and>
    (\<forall>e. row_of e t = map value_cell vs)"
proof -
  let ?ss = "map snd (columnNames T)"
  obtain c sels where d: "getDatatype slv (mkTupleSort slv ?ss) = Some (c, sels)"
    using tuple_datatype by blast
  have "map (getSort slv) (map (value_term slv) vs) = ?ss" using assms(2) by (simp add: comp_def)
  from constructor_total [OF d this] show ?thesis
    using assms(1) d by (auto simp: createRow_def table_wf_def table_sort_def element comp_def)
qed

lemma createRow_rejected:
  assumes "table_wf slv T" and "map (value_sort slv) vs \<noteq> map snd (columnNames T)"
  shows "createRow slv T vs = Inl Api_exception"
proof -
  let ?ss = "map snd (columnNames T)"
  obtain c sels where d: "getDatatype slv (mkTupleSort slv ?ss) = Some (c, sels)"
    using tuple_datatype by blast
  have "map (getSort slv) (map (value_term slv) vs) \<noteq> ?ss" using assms(2) by (simp add: comp_def)
  then have "mkTerm slv APPLY_CONSTRUCTOR (c # map (value_term slv) vs) = None"
    using constructor_defined [OF d, of "map (value_term slv) vs"] by blast
  then show ?thesis
    using assms(1) d by (simp add: createRow_def table_wf_def table_sort_def element)
qed

lemma accessFieldByIndex_returns:
  assumes "getSort slv w = mkTupleSort slv ss" and "i < length ss"
  shows "\<exists>t. accessFieldByIndex slv w i = Inr t \<and> getSort slv t = ss ! i \<and>
    (\<forall>e. cell_of e t = row_of e w ! i)"
proof -
  obtain c sels where d: "getDatatype slv (mkTupleSort slv ss) = Some (c, sels)"
    using tuple_datatype by blast
  from selected [OF d assms] show ?thesis
    using assms d datatype_length [OF d]
    by (auto simp: accessFieldByIndex_def tuple_sorts at_index_def)
qed

lemma accessField_returns:
  assumes "getSort slv w = mkTupleSort slv ss" and "column_index name (columnNames T) = Some i"
    and "i < length ss"
  shows "\<exists>t. accessField slv T w name = Inr t \<and> getSort slv t = ss ! i \<and>
    (\<forall>e. cell_of e t = row_of e w ! i)"
proof -
  obtain c sels where d: "getDatatype slv (mkTupleSort slv ss) = Some (c, sels)"
    using tuple_datatype by blast
  from selected [OF d assms(1,3)] show ?thesis
    using assms d datatype_length [OF d] by (auto simp: accessField_def getColumnIndexByName_def)
qed

end

end
