(* ===== verification/Sql_Algebra.thy ===== *)
theory Sql_Algebra
  imports Sql_Table
begin

text \<open>
  \<^verbatim>\<open>src/RelationalAlgebras.cpp\<close>: the operations that build the term of a table after a row is
  inserted or deleted, rows are selected or updated, columns are projected, and two tables are
  joined; and what the terms denote, under the contract of the solver.
\<close>

section \<open>Insertion and deletion\<close>

definition RA_Insert ::
  "('s, 't) solver \<Rightarrow> 's sql_table \<Rightarrow> 't \<Rightarrow> row_value list \<Rightarrow> sql_error + 't" where
  "RA_Insert slv T tableSet newRow =
     ebind (createRow slv T newRow) (\<lambda>newRowSet.
     ebind (api (mkTerm slv SET_SINGLETON [newRowSet])) (\<lambda>bag.
     api (mkTerm slv SET_UNION [tableSet, bag])))"

definition RA_Delete ::
  "('s, 't) solver \<Rightarrow> 's sql_table \<Rightarrow> 't \<Rightarrow> row_value list \<Rightarrow> sql_error + 't" where
  "RA_Delete slv T tableSet rowToDelete =
     ebind (createRow slv T rowToDelete) (\<lambda>newRowSet.
     ebind (api (mkTerm slv SET_SINGLETON [newRowSet])) (\<lambda>bag.
     api (mkTerm slv SET_MINUS [tableSet, bag])))"

section \<open>Selection\<close>

text \<open>\<open>variant<string, int>\<close>, the constant a column is compared with or set to.\<close>

datatype sel_value = Sel_str string | Sel_int int

fun sel_term :: "('s, 't) solver \<Rightarrow> sel_value \<Rightarrow> 't" where
  "sel_term slv (Sel_int i) = mkInteger slv i"
| "sel_term slv (Sel_str s) = mkString slv s"

definition select_kind :: "string \<Rightarrow> kind option" where
  "select_kind selectOperation =
     (if selectOperation = ''eq'' then Some EQUAL
      else if selectOperation = ''lt'' then Some LT
      else if selectOperation = ''lte'' then Some LEQ
      else if selectOperation = ''gt'' then Some GT
      else if selectOperation = ''gte'' then Some GEQ
      else if selectOperation = ''ne'' then Some DISTINCT
      else None)"

definition selectPredicate ::
  "('s, 't) solver \<Rightarrow> 's sql_table \<Rightarrow> 't \<Rightarrow> string \<Rightarrow> sel_value \<Rightarrow> string \<Rightarrow> sql_error + 't" where
  "selectPredicate slv T boundVar columnName v selectOperation =
     ebind (getColumnIndexByName T columnName) (\<lambda>columnIndex.
     ebind (accessFieldByIndex slv boundVar columnIndex) (\<lambda>field.
     (case select_kind selectOperation of
        Some k \<Rightarrow> api (mkTerm slv k [field, sel_term slv v])
      | None \<Rightarrow> Inl (Runtime_error (''No operation for '' @ selectOperation)))))"

definition RA_Select ::
  "('s, 't) solver \<Rightarrow> 's sql_table \<Rightarrow> 't \<Rightarrow> string \<Rightarrow> sel_value \<Rightarrow> string \<Rightarrow> sql_error + 't" where
  "RA_Select slv T tableSet columnName v selectOperation =
     ebind (api (getSetElementSort slv (tableSort T))) (\<lambda>rowSort.
     let boundVar = mkVar slv rowSort ''row'' in
     ebind (api (mkTerm slv VARIABLE_LIST [boundVar])) (\<lambda>varList.
     ebind (selectPredicate slv T boundVar columnName v selectOperation) (\<lambda>predicate.
     ebind (api (mkTerm slv LAMBDA [varList, predicate])) (\<lambda>f.
     api (mkTerm slv SET_FILTER [f, tableSet])))))"

section \<open>Projection\<close>

definition TransformRow ::
  "('s, 't) solver \<Rightarrow> 't \<Rightarrow> 's sql_table \<Rightarrow> 's sql_table \<Rightarrow> string list \<Rightarrow> sql_error + 't" where
  "TransformRow slv originalRow originalTable newTable desiredColumns =
     ebind (api (getSetElementSort slv (tableSort newTable))) (\<lambda>rowSort.
     ebind (api (getDatatype slv rowSort)) (\<lambda>(makeTerm, _).
     ebind (emap (accessField slv originalTable originalRow) desiredColumns) (\<lambda>columnValues.
     api (mkTerm slv APPLY_CONSTRUCTOR (makeTerm # columnValues)))))"

definition RA_Project ::
  "('s, 't) solver \<Rightarrow> 's sql_table \<Rightarrow> 't \<Rightarrow> string list \<Rightarrow> sql_error + 't \<times> 's sql_table" where
  "RA_Project slv originalTable originalSet desiredColumns =
     (let newTable = Table_projected slv originalTable desiredColumns in
      ebind (api (getSetElementSort slv (getSort slv originalSet))) (\<lambda>rowSort.
      let boundVar = mkVar slv rowSort ''row'' in
      ebind (api (mkTerm slv VARIABLE_LIST [boundVar])) (\<lambda>varList.
      ebind (TransformRow slv boundVar originalTable newTable desiredColumns) (\<lambda>transformation.
      ebind (api (mkTerm slv LAMBDA [varList, transformation])) (\<lambda>f.
      ebind (api (mkTerm slv SET_MAP [f, originalSet])) (\<lambda>mapped.
      Inr (mapped, newTable)))))))"

section \<open>Join\<close>

text \<open>The sorts of the columns of a table, read off the sort of its rows.\<close>

definition constructor_sorts :: "('s, 't) solver \<Rightarrow> 's sql_table \<Rightarrow> sql_error + 's list" where
  "constructor_sorts slv T =
     ebind (api (getSetElementSort slv (tableSort T))) (\<lambda>rowSort.
     ebind (api (getDatatype slv rowSort)) (\<lambda>(_, ctor). Inr (map (fst \<circ> snd) ctor)))"

text \<open>The join compares the columns \<open>columnIndexA\<close> and \<open>columnIndexA + columnIndexB\<close> of the product.\<close>

definition RA_Product ::
  "('s, 't) solver \<Rightarrow> 's sql_table \<Rightarrow> 's sql_table \<Rightarrow> 't \<Rightarrow> 't \<Rightarrow> string \<Rightarrow> string \<Rightarrow>
     sql_error + 't \<times> 's sql_table" where
  "RA_Product slv tableA tableB setA setB columTableA columTableB =
     ebind (constructor_sorts slv tableA) (\<lambda>sortsA.
     ebind (constructor_sorts slv tableB) (\<lambda>sortsB.
     let joinedSort = mkSetSort slv (mkTupleSort slv (sortsA @ sortsB));
         joinedTable = Table_of (tableName tableA @ ''_join_'' @ tableName tableB) joinedSort
           (columnNames tableA @ columnNames tableB) in
     ebind (api (mkTerm slv RELATION_PRODUCT [setA, setB])) (\<lambda>prod.
     ebind (api (getSetElementSort slv (getSort slv prod))) (\<lambda>rowSort.
     let boundVar = mkVar slv rowSort ''row'' in
     ebind (api (mkTerm slv VARIABLE_LIST [boundVar])) (\<lambda>varList.
     ebind (getColumnIndexByName tableA columTableA) (\<lambda>columnIndexA.
     ebind (accessFieldByIndex slv boundVar columnIndexA) (\<lambda>joinFieldA.
     ebind (getColumnIndexByName tableB columTableB) (\<lambda>columnIndexB.
     ebind (accessFieldByIndex slv boundVar (columnIndexA + columnIndexB)) (\<lambda>joinFieldB.
     ebind (api (mkTerm slv EQUAL [joinFieldA, joinFieldB])) (\<lambda>eq.
     ebind (api (mkTerm slv LAMBDA [varList, eq])) (\<lambda>f.
     ebind (api (mkTerm slv SET_FILTER [f, prod])) (\<lambda>filtered.
     Inr (filtered, joinedTable)))))))))))))"

text \<open>The older variant on bags asks for the datatype of the table's sort, not of its rows'.\<close>

definition RA_Product2 ::
  "('s, 't) solver \<Rightarrow> 's sql_table \<Rightarrow> 's sql_table \<Rightarrow> 't \<Rightarrow> 't \<Rightarrow> sql_error + 't \<times> 's sql_table" where
  "RA_Product2 slv tableA tableB setA setB =
     ebind (api (mkTerm slv TABLE_PRODUCT [setA, setB])) (\<lambda>prod.
     ebind (api (getDatatype slv (tableSort tableA))) (\<lambda>(_, ctorA).
     ebind (api (getDatatype slv (tableSort tableB))) (\<lambda>(_, ctorB).
     let joinedSort = mkBagSort slv
           (mkTupleSort slv (map (fst \<circ> snd) ctorA @ map (fst \<circ> snd) ctorB)) in
     Inr (prod, Table_of (tableName tableA @ ''_join_'' @ tableName tableB) joinedSort
       (columnNames tableA @ columnNames tableB)))))"

section \<open>Aggregation\<close>

definition RA_Aggregation ::
  "('s, 't) solver \<Rightarrow> nat \<Rightarrow> 't \<Rightarrow> nat \<Rightarrow> sql_error + 't" where
  "RA_Aggregation slv new tableTerm columnIndex =
     ebind (api (getBagElementSort slv (getSort slv tableTerm))) (\<lambda>tupleSort.
     let functionType =
           mkFunctionSort slv [tupleSort, getIntegerSort slv] (getIntegerSort slv);
         sumFunction = mkConst slv new functionType ''integerFunction''
     in api (mkAggregate slv [columnIndex] [sumFunction, mkInteger slv 0, tableTerm]))"

section \<open>Update\<close>

definition RA_Update ::
  "('s, 't) solver \<Rightarrow> 's sql_table \<Rightarrow> 't \<Rightarrow> string \<Rightarrow> sel_value \<Rightarrow> string \<Rightarrow> string \<times> sel_value \<Rightarrow>
     sql_error + 't" where
  "RA_Update slv T tableSet columnName v selectOperation updateValue =
     ebind (RA_Select slv T tableSet columnName v selectOperation) (\<lambda>selectedRows.
     ebind (api (mkTerm slv SET_MINUS [tableSet, selectedRows])) (\<lambda>originalWithoutSelected.
     ebind (api (getSetElementSort slv (tableSort T))) (\<lambda>rowSort.
     let lambdaVar = mkVar slv rowSort ''row'' in
     ebind (api (mkTerm slv VARIABLE_LIST [lambdaVar])) (\<lambda>varList.
     ebind (emap (\<lambda>column. if fst column = fst updateValue then Inr (sel_term slv (snd updateValue))
                         else accessField slv T lambdaVar (fst column)) (columnNames T))
       (\<lambda>tupleArgs.
     let tupleVars = mkTuple slv tupleArgs in
     ebind (api (mkTerm slv LAMBDA [varList, tupleVars])) (\<lambda>f.
     ebind (api (mkTerm slv SET_MAP [f, selectedRows])) (\<lambda>updatedRows.
     api (mkTerm slv SET_UNION [originalWithoutSelected, updatedRows]))))))))"

end
