(* ===== verification/Sql_Queries.thy ===== *)
theory Sql_Queries
  imports Sql_Algebra Bench_File "HOL-Library.List_Lexorder" "HOL-Library.Char_ord"
begin

text \<open>
  \<^verbatim>\<open>header/VisitorNodes.h\<close> and \<^verbatim>\<open>src/SqlQueries.cpp\<close> of the SQL analysis: queries are trees of
  nodes, which a visitor evaluates bottom-up in a context (the term and table of the last
  result, and the state, a map from table names to tables and terms). A \<open>std::map\<close> is an
  association list in the order of its keys.
\<close>

section \<open>Maps\<close>

type_synonym ('s, 't) sql_state = "(string \<times> ('s sql_table \<times> 't)) list"

text \<open>\<open>m[k] = v\<close>\<close>

fun map_put :: "string \<Rightarrow> 'v \<Rightarrow> (string \<times> 'v) list \<Rightarrow> (string \<times> 'v) list" where
  "map_put k v [] = [(k, v)]"
| "map_put k v (e # m) =
     (if k = fst e then (k, v) # m
      else if k < fst e then (k, v) # e # m
      else e # map_put k v m)"

text \<open>Reading \<open>m[k]\<close>, which inserts \<open>pair<Table, Term>()\<close> when the key is missing.\<close>

definition state_at ::
  "('s, 't) solver \<Rightarrow> string \<Rightarrow> ('s, 't) sql_state \<Rightarrow> ('s sql_table \<times> 't) \<times> ('s, 't) sql_state" where
  "state_at slv k m =
     (case map_of m k of
        Some v \<Rightarrow> (v, m)
      | None \<Rightarrow> (let v = (Table_default slv, nullTerm slv) in (v, map_put k v m)))"

section \<open>Context\<close>

record ('s, 't) sql_context =
  resultOperation :: 't
  resultTable :: "'s sql_table"
  myState :: "('s, 't) sql_state"

definition Context_new :: "('s, 't) solver \<Rightarrow> ('s, 't) sql_state \<Rightarrow> ('s, 't) sql_context" where
  "Context_new slv initialState =
     \<lparr>resultOperation = nullTerm slv, resultTable = Table_default slv, myState = initialState\<rparr>"

definition setState :: "string \<Rightarrow> 's sql_table \<times> 't \<Rightarrow> ('s, 't) sql_context \<Rightarrow> ('s, 't) sql_context" where
  "setState name newUpdate c = c\<lparr>myState := map_put name newUpdate (myState c)\<rparr>"

text \<open>The new result and its entry in the state, the end of most visits.\<close>

definition setResult :: "string \<Rightarrow> 's sql_table \<Rightarrow> 't \<Rightarrow> ('s, 't) sql_context \<Rightarrow> ('s, 't) sql_context" where
  "setResult name T t c = setState name (T, t) (c\<lparr>resultOperation := t, resultTable := T\<rparr>)"

section \<open>Nodes\<close>

datatype ('s, 't) sql_node =
    TableNode "'s sql_table" 't string
  | DeleteNode "('s, 't) sql_node" "row_value list" string
  | InsertNode "('s, 't) sql_node" "row_value list" string
  | UpdateNode "('s, 't) sql_node" string sel_value string string "string \<times> sel_value"
  | SelectNode "('s, 't) sql_node" string sel_value string string
  | ProjectNode "('s, 't) sql_node" "string list" string
  | ProductNode "('s, 't) sql_node option" "('s, 't) sql_node option" string string string string
  | AggregateNode "('s, 't) sql_node" nat

section \<open>The visitor\<close>

definition visit_Table ::
  "'s sql_table \<Rightarrow> 't \<Rightarrow> string \<Rightarrow> ('s, 't) sql_context \<Rightarrow> ('s, 't) sql_context" where
  "visit_Table T t name c = setResult name T t c"

definition visit_Insert ::
  "('s, 't) solver \<Rightarrow> row_value list \<Rightarrow> string \<Rightarrow> ('s, 't) sql_context \<Rightarrow>
     sql_error + ('s, 't) sql_context" where
  "visit_Insert slv newRow name c =
     ebind (RA_Insert slv (resultTable c) (resultOperation c) newRow) (\<lambda>result.
     Inr (setResult name (resultTable c) result c))"

definition visit_Delete ::
  "('s, 't) solver \<Rightarrow> row_value list \<Rightarrow> string \<Rightarrow> ('s, 't) sql_context \<Rightarrow>
     sql_error + ('s, 't) sql_context" where
  "visit_Delete slv deleteRow name c =
     ebind (RA_Delete slv (resultTable c) (resultOperation c) deleteRow) (\<lambda>result.
     Inr (setResult name (resultTable c) result c))"

definition visit_Select ::
  "('s, 't) solver \<Rightarrow> string \<Rightarrow> sel_value \<Rightarrow> string \<Rightarrow> string \<Rightarrow> ('s, 't) sql_context \<Rightarrow>
     sql_error + ('s, 't) sql_context" where
  "visit_Select slv columnName v selectOperation name c =
     ebind (RA_Select slv (resultTable c) (resultOperation c) columnName v selectOperation) (\<lambda>result.
     Inr (setResult name (resultTable c) result c))"

definition visit_Update ::
  "('s, 't) solver \<Rightarrow> string \<Rightarrow> sel_value \<Rightarrow> string \<Rightarrow> string \<Rightarrow> string \<times> sel_value \<Rightarrow>
     ('s, 't) sql_context \<Rightarrow> sql_error + ('s, 't) sql_context" where
  "visit_Update slv columnName v selectOperation name newValue c =
     ebind (RA_Update slv (resultTable c) (resultOperation c) columnName v selectOperation newValue)
       (\<lambda>result. Inr (setResult name (resultTable c) result c))"

definition visit_Project ::
  "('s, 't) solver \<Rightarrow> string list \<Rightarrow> string \<Rightarrow> ('s, 't) sql_context \<Rightarrow>
     sql_error + ('s, 't) sql_context" where
  "visit_Project slv desiredColumns name c =
     ebind (RA_Project slv (resultTable c) (resultOperation c) desiredColumns) (\<lambda>(set, newTable).
     Inr (setResult name newTable set c))"

definition visit_Product ::
  "('s, 't) solver \<Rightarrow> string \<Rightarrow> string \<Rightarrow> string \<Rightarrow> string \<Rightarrow>
     ('s, 't) sql_context \<Rightarrow> ('s, 't) sql_context \<Rightarrow> ('s, 't) sql_context \<Rightarrow>
     sql_error + ('s, 't) sql_context" where
  "visit_Product slv nameLeft nameRight joinLeft joinRight leftContext rightContext c =
     (let leftTable = resultTable leftContext; leftTerm = resultOperation leftContext;
          rightTable = resultTable rightContext; rightTerm = resultOperation rightContext in
      ebind (RA_Product slv leftTable rightTable leftTerm rightTerm joinLeft joinRight)
        (\<lambda>(set, newTable).
      let c1 = c\<lparr>resultOperation := set, resultTable := newTable\<rparr>;
          c2 = setState nameLeft (leftTable, leftTerm) c1;
          c3 = setState nameRight (rightTable, rightTerm) c2
      in Inr (setState (nameLeft @ ''_join_'' @ nameRight) (newTable, set) c3)))"

text \<open>The column of the node is not read: the visitor aggregates on column 1.\<close>

definition visit_Aggregate ::
  "('s, 't) solver \<Rightarrow> nat \<Rightarrow> ('s, 't) sql_context \<Rightarrow> sql_error + ('s, 't) sql_context" where
  "visit_Aggregate slv new c =
     ebind (RA_Aggregation slv new (resultOperation c) 1) (\<lambda>result.
     Inr (c\<lparr>resultOperation := result\<rparr>))"

fun accept :: "('s, 't) solver \<Rightarrow> nat \<Rightarrow> ('s, 't) sql_node \<Rightarrow> ('s, 't) sql_context \<Rightarrow>
    sql_error + ('s, 't) sql_context" where
  "accept slv new (TableNode T t name) c = Inr (visit_Table T t name c)"
| "accept slv new (DeleteNode child row name) c =
     ebind (accept slv new child c) (visit_Delete slv row name)"
| "accept slv new (InsertNode child row name) c =
     ebind (accept slv new child c) (visit_Insert slv row name)"
| "accept slv new (UpdateNode child col v oper name newValue) c =
     ebind (accept slv new child c) (visit_Update slv col v oper name newValue)"
| "accept slv new (SelectNode child col v oper name) c =
     ebind (accept slv new child c) (visit_Select slv col v oper name)"
| "accept slv new (ProjectNode child columns name) c =
     ebind (accept slv new child c) (visit_Project slv columns name)"
| "accept slv new (ProductNode leftChild rightChild nameLeft nameRight joinLeft joinRight) c =
     ebind (case leftChild of None \<Rightarrow> Inr (Context_new slv (myState c))
            | Some n \<Rightarrow> accept slv new n (Context_new slv (myState c))) (\<lambda>leftContext.
     ebind (case rightChild of None \<Rightarrow> Inr (Context_new slv (myState c))
            | Some n \<Rightarrow> accept slv new n (Context_new slv (myState c))) (\<lambda>rightContext.
     visit_Product slv nameLeft nameRight joinLeft joinRight leftContext rightContext c))"
| "accept slv new (AggregateNode child columnIndex) c =
     ebind (accept slv new child c) (visit_Aggregate slv new)"

section \<open>Values of a row\<close>

text \<open>\<open>std::stoll\<close>: \<open>None\<close> is \<open>invalid_argument\<close>.\<close>

definition stoll :: "string \<Rightarrow> (sql_error + int) option" where
  "stoll s = (case fst (scan_int (dropWhile is_space s)) of
     None \<Rightarrow> None
   | Some v \<Rightarrow> Some (if - (2 ^ 63) \<le> v \<and> v < 2 ^ 63 then Inr v else Inl Number_out_of_range))"

text \<open>
  \<open>std::stod\<close> where \<open>stoll\<close> found no digits: it accepts a fraction, infinity or not-a-number.
  The parameter \<open>hundredths\<close> is the floating-point part: the \<open>int64_t\<close> of a hundred times the
  value, or \<open>None\<close> for \<open>out_of_range\<close>.
\<close>

definition lower :: "char \<Rightarrow> char" where
  "lower c = (let k = of_char c :: nat in if 65 \<le> k \<and> k \<le> 90 then char_of (k + 32) else c)"

definition stod_accepts :: "string \<Rightarrow> bool" where
  "stod_accepts s =
     (let r = snd (scan_sign (dropWhile is_space s)) in
      (case r of CHR ''.'' # d # _ \<Rightarrow> is_digit d | d # _ \<Rightarrow> is_digit d | [] \<Rightarrow> False) \<or>
      map lower (take 3 r) \<in> {''inf'', ''nan''})"

definition convert_value :: "(string \<Rightarrow> int option) \<Rightarrow> string \<Rightarrow> sql_error + row_value" where
  "convert_value hundredths s =
     (case stoll s of
        Some (Inr v) \<Rightarrow> Inr (Row_int v)
      | Some (Inl e) \<Rightarrow> Inl e
      | None \<Rightarrow>
          if stod_accepts s
          then (case hundredths s of Some n \<Rightarrow> Inr (Row_hundredths n) | None \<Rightarrow> Inl Number_out_of_range)
          else Inr (Row_str s))"

definition convertToRowData :: "(string \<Rightarrow> int option) \<Rightarrow> string list \<Rightarrow> sql_error + row_value list" where
  "convertToRowData hundredths insertData = emap (convert_value hundredths) insertData"

text \<open>\<open>stoi\<close> with the string itself as the fallback, for the constants of an update.\<close>

definition stoi_or_string :: "string \<Rightarrow> sql_error + sel_value" where
  "stoi_or_string s =
     (case stoi s of
        Inr i \<Rightarrow> Inr (Sel_int i)
      | Inl Invalid_argument \<Rightarrow> Inr (Sel_str s)
      | Inl _ \<Rightarrow> Inl Number_out_of_range)"

section \<open>Queries\<close>

type_synonym kwargs = "(string \<times> string list) list"

definition kwarg :: "string \<Rightarrow> kwargs \<Rightarrow> sql_error + string list" where
  "kwarg key kwargs = (case map_of kwargs key of
     Some v \<Rightarrow> Inr v
   | None \<Rightarrow> Inl (Runtime_error (key @ '' not found'')))"

definition Query1 ::
  "('s, 't) solver \<Rightarrow> ('s, 't) sql_state \<Rightarrow> string list \<Rightarrow> kwargs \<Rightarrow> sql_error + ('s, 't) sql_context" where
  "Query1 slv initialState tableNames kwargs =
     ebind (at_index tableNames 0) (\<lambda>tableAName.
     let ((tableA, tableATerm), st) = state_at slv tableAName initialState; c = Context_new slv st in
     ebind (kwarg ''projectColumns'' kwargs) (\<lambda>projectColumns.
     ebind (kwarg ''selectPredicate'' kwargs) (\<lambda>selectConditions.
     ebind (at_index selectConditions 0) (\<lambda>column.
     ebind (at_index selectConditions 2) (\<lambda>v.
     ebind (at_index selectConditions 1) (\<lambda>oper.
     let tableNode = TableNode tableA tableATerm tableAName;
         projectNode = ProjectNode tableNode projectColumns tableAName;
         selectNode = SelectNode projectNode column (Sel_str v) oper tableAName
     in accept slv 0 selectNode c))))))"

definition Query2 ::
  "('s, 't) solver \<Rightarrow> ('s, 't) sql_state \<Rightarrow> string list \<Rightarrow> kwargs \<Rightarrow> sql_error + ('s, 't) sql_context" where
  "Query2 slv initialState tableNames kwargs =
     ebind (at_index tableNames 0) (\<lambda>tableAName.
     let ((tableA, tableATerm), st) = state_at slv tableAName initialState; c = Context_new slv st in
     ebind (kwarg ''projectColumns'' kwargs) (\<lambda>projectColumns.
     ebind (kwarg ''selectPredicate'' kwargs) (\<lambda>selectConditions.
     ebind (at_index selectConditions 0) (\<lambda>column.
     ebind (at_index selectConditions 2) (\<lambda>v.
     ebind (at_index selectConditions 1) (\<lambda>oper.
     let tableNode = TableNode tableA tableATerm tableAName;
         selectNode = SelectNode tableNode column (Sel_str v) oper tableAName;
         projectNode = ProjectNode selectNode projectColumns tableAName
     in accept slv 0 projectNode c))))))"

definition Query_Project ::
  "('s, 't) solver \<Rightarrow> ('s, 't) sql_state \<Rightarrow> string list \<Rightarrow> kwargs \<Rightarrow> sql_error + ('s, 't) sql_context" where
  "Query_Project slv initialState tableNames kwargs =
     ebind (at_index tableNames 0) (\<lambda>tableAName.
     let ((tableA, tableATerm), st) = state_at slv tableAName initialState; c = Context_new slv st in
     ebind (kwarg ''projectColumns'' kwargs) (\<lambda>projectColumns.
     accept slv 0 (ProjectNode (TableNode tableA tableATerm tableAName) projectColumns tableAName) c))"

definition Query_Select ::
  "('s, 't) solver \<Rightarrow> ('s, 't) sql_state \<Rightarrow> string list \<Rightarrow> kwargs \<Rightarrow> sql_error + ('s, 't) sql_context" where
  "Query_Select slv initialState tableNames kwargs =
     ebind (at_index tableNames 0) (\<lambda>tableAName.
     let ((tableA, tableATerm), st) = state_at slv tableAName initialState; c = Context_new slv st in
     ebind (kwarg ''selectPredicate'' kwargs) (\<lambda>selectConditions.
     ebind (at_index selectConditions 0) (\<lambda>column.
     ebind (at_index selectConditions 2) (\<lambda>v.
     ebind (at_index selectConditions 1) (\<lambda>oper.
     accept slv 0 (SelectNode (TableNode tableA tableATerm tableAName) column (Sel_str v) oper
       tableAName) c)))))"

definition Query_Product ::
  "('s, 't) solver \<Rightarrow> ('s, 't) sql_state \<Rightarrow> string list \<Rightarrow> kwargs \<Rightarrow> sql_error + ('s, 't) sql_context" where
  "Query_Product slv initialState tableNames kwargs =
     ebind (at_index tableNames 0) (\<lambda>tableAName.
     ebind (at_index tableNames 1) (\<lambda>tableBName.
     let ((tableA, tableATerm), st1) = state_at slv tableAName initialState;
         ((tableB, tableBTerm), st2) = state_at slv tableBName st1;
         c = Context_new slv st2 in
     ebind (kwarg ''joinColumns'' kwargs) (\<lambda>joinColumns.
     ebind (at_index joinColumns 0) (\<lambda>joinA.
     ebind (at_index joinColumns 1) (\<lambda>joinB.
     accept slv 0 (ProductNode (Some (TableNode tableA tableATerm tableAName))
       (Some (TableNode tableB tableBTerm tableBName)) tableAName tableBName joinA joinB) c)))))"

definition Query_Insert ::
  "('s, 't) solver \<Rightarrow> (string \<Rightarrow> int option) \<Rightarrow> ('s, 't) sql_state \<Rightarrow> string list \<Rightarrow> kwargs \<Rightarrow>
     sql_error + ('s, 't) sql_context" where
  "Query_Insert slv hundredths initialState tableNames kwargs =
     ebind (at_index tableNames 0) (\<lambda>tableAName.
     let ((tableA, tableATerm), st) = state_at slv tableAName initialState; c = Context_new slv st in
     ebind (kwarg ''insertRow'' kwargs) (\<lambda>insertData.
     ebind (convertToRowData hundredths insertData) (\<lambda>newRow.
     accept slv 0 (InsertNode (TableNode tableA tableATerm tableAName) newRow tableAName) c)))"

definition Query_Delete ::
  "('s, 't) solver \<Rightarrow> (string \<Rightarrow> int option) \<Rightarrow> ('s, 't) sql_state \<Rightarrow> string list \<Rightarrow> kwargs \<Rightarrow>
     sql_error + ('s, 't) sql_context" where
  "Query_Delete slv hundredths initialState tableNames kwargs =
     ebind (at_index tableNames 0) (\<lambda>tableAName.
     let ((tableA, tableATerm), st) = state_at slv tableAName initialState; c = Context_new slv st in
     ebind (kwarg ''deleteRow'' kwargs) (\<lambda>deleteData.
     ebind (convertToRowData hundredths deleteData) (\<lambda>deleteRow.
     accept slv 0 (DeleteNode (TableNode tableA tableATerm tableAName) deleteRow tableAName) c)))"

definition Query_Update ::
  "('s, 't) solver \<Rightarrow> ('s, 't) sql_state \<Rightarrow> string list \<Rightarrow> kwargs \<Rightarrow> sql_error + ('s, 't) sql_context" where
  "Query_Update slv initialState tableNames kwargs =
     ebind (at_index tableNames 0) (\<lambda>tableAName.
     let ((tableA, tableATerm), st) = state_at slv tableAName initialState; c = Context_new slv st in
     ebind (kwarg ''selectPredicate'' kwargs) (\<lambda>selectConditions.
     ebind (at_index selectConditions 2) (\<lambda>constant.
     ebind (stoi_or_string constant) (\<lambda>v.
     ebind (kwarg ''updateRow'' kwargs) (\<lambda>updateData.
     ebind (at_index updateData 0) (\<lambda>target.
     ebind (at_index updateData 1) (\<lambda>update.
     ebind (stoi_or_string update) (\<lambda>newValue.
     ebind (at_index selectConditions 0) (\<lambda>column.
     ebind (at_index selectConditions 1) (\<lambda>oper.
     accept slv 0 (UpdateNode (TableNode tableA tableATerm tableAName) column v oper tableAName
       (target, newValue)) c))))))))))"

definition JoinAndUpdate ::
  "('s, 't) solver \<Rightarrow> ('s, 't) sql_state \<Rightarrow> string list \<Rightarrow> kwargs \<Rightarrow> sql_error + ('s, 't) sql_context" where
  "JoinAndUpdate slv initialState tableNames kwargs =
     ebind (at_index tableNames 0) (\<lambda>tableAName.
     ebind (at_index tableNames 1) (\<lambda>tableBName.
     let ((tableA, tableATerm), st1) = state_at slv tableAName initialState;
         ((tableB, tableBTerm), st2) = state_at slv tableBName st1;
         c = Context_new slv st2 in
     ebind (kwarg ''selectPredicate'' kwargs) (\<lambda>selectConditions.
     ebind (at_index selectConditions 2) (\<lambda>constant.
     ebind (stoi_or_string constant) (\<lambda>v.
     ebind (kwarg ''updateRow'' kwargs) (\<lambda>updateData.
     ebind (at_index updateData 0) (\<lambda>target.
     ebind (at_index updateData 1) (\<lambda>update.
     ebind (stoi_or_string update) (\<lambda>newValue.
     ebind (kwarg ''joinColumns'' kwargs) (\<lambda>joinColumns.
     ebind (at_index joinColumns 0) (\<lambda>joinA.
     ebind (at_index joinColumns 1) (\<lambda>joinB.
     ebind (at_index selectConditions 0) (\<lambda>column.
     ebind (at_index selectConditions 1) (\<lambda>oper.
     accept slv 0 (UpdateNode (ProductNode (Some (TableNode tableA tableATerm tableAName))
         (Some (TableNode tableB tableBTerm tableBName)) tableAName tableBName joinA joinB)
       column v oper (tableAName @ ''_join_'' @ tableBName) (target, newValue)) c))))))))))))))"

end
