(* ===== verification/Sql_Semantics.thy ===== *)
theory Sql_Semantics
  imports Sql_Algebra
begin

text \<open>
  What the terms of the relational operations denote: the operation of the same name on sets
  of rows. The join denotes what its column arithmetic says, which is a join only in part.
\<close>

section \<open>Meaning of the arguments\<close>

fun sel_sort :: "('s, 't) solver \<Rightarrow> sel_value \<Rightarrow> 's" where
  "sel_sort slv (Sel_int i) = getIntegerSort slv"
| "sel_sort slv (Sel_str s) = getStringSort slv"

fun sel_cell :: "sel_value \<Rightarrow> cell" where
  "sel_cell (Sel_int i) = Cell_int i"
| "sel_cell (Sel_str s) = Cell_str s"

text \<open>Column \<open>name\<close> is at position \<open>i\<close> and has the sort \<open>s\<close>.\<close>

definition column_at :: "'s sql_table \<Rightarrow> string \<Rightarrow> nat \<Rightarrow> 's \<Rightarrow> bool" where
  "column_at T name i s \<longleftrightarrow> column_index name (columnNames T) = Some i \<and> snd (columnNames T ! i) = s"

text \<open>The comparisons the solver accepts: equality on any constant, order on integers.\<close>

definition comparable :: "kind \<Rightarrow> sel_value \<Rightarrow> bool" where
  "comparable k v \<longleftrightarrow>
     k \<in> {EQUAL, DISTINCT} \<or> (k \<in> {LT, LEQ, GT, GEQ} \<and> (\<exists>i. v = Sel_int i))"

text \<open>The positions of the desired columns.\<close>

definition positions :: "'s sql_table \<Rightarrow> string list \<Rightarrow> nat list" where
  "positions T cols = map (\<lambda>c. the (column_index c (columnNames T))) cols"

lemma select_kind_range: "select_kind op = Some k \<Longrightarrow> k \<in> {EQUAL, DISTINCT, LT, LEQ, GT, GEQ}"
  by (auto simp: select_kind_def split: if_splits)

lemma column_at_less: "column_at T name i s \<Longrightarrow> i < length (columnNames T)"
  by (auto simp: column_at_def dest: column_index_Some)

lemma list_all2_map_right: "list_all2 (\<lambda>x y. f x = y) xs ys \<longleftrightarrow> ys = map f xs"
  by (induction xs arbitrary: ys) (auto simp: list_all2_Cons1)

text \<open>A loop of successful calls.\<close>

lemma emap_returns:
  assumes "\<forall>x \<in> set xs. \<exists>y. f x = Inr y \<and> P x y"
  shows "\<exists>ys. emap f xs = Inr ys \<and> list_all2 P xs ys"
  using assms by (induction xs) (auto simp: list_all2_Cons1)

lemma filtered_pairs:
  "{r \<in> {f x y | x y. x \<in> A \<and> y \<in> B}. P r} = {f x y | x y. x \<in> A \<and> y \<in> B \<and> P (f x y)}"
  by blast

lemma conditional_image:
  "(S - {r \<in> S. P r}) \<union> f ` {r \<in> S. P r} = (\<lambda>r. if P r then f r else r) ` S"
  by force

context cvc5
begin

lemma sel_term_facts [simp]:
  "getSort slv (sel_term slv v) = sel_sort slv v" "cell_of e (sel_term slv v) = sel_cell v"
  "scalar_sort slv (sel_sort slv v)"
  by (cases v; simp add: integer strings scalar_sort_def)+

section \<open>Insertion and deletion\<close>

lemma RA_Insert_returns:
  assumes "table_wf slv T" and "getSort slv S = tableSort T"
    and "map (value_sort slv) vs = map snd (columnNames T)"
  shows "\<exists>t. RA_Insert slv T S vs = Inr t \<and> getSort slv t = tableSort T \<and>
    (\<forall>e. rows_of e t = insert (map value_cell vs) (rows_of e S))"
proof -
  let ?ss = "map snd (columnNames T)"
  from createRow_returns [OF assms(1,3)] obtain w where
    w: "createRow slv T vs = Inr w" "getSort slv w = mkTupleSort slv ?ss"
    "\<And>e. row_of e w = map value_cell vs" by blast
  from singleton [OF w(2)] obtain b where
    b: "mkTerm slv SET_SINGLETON [w] = Some b" "getSort slv b = table_sort slv ?ss"
    "\<And>e. rows_of e b = {row_of e w}" by blast
  from union [of S ?ss b] assms(1,2) b(2) show ?thesis
    using w b by (auto simp: RA_Insert_def table_wf_def)
qed

lemma RA_Delete_returns:
  assumes "table_wf slv T" and "getSort slv S = tableSort T"
    and "map (value_sort slv) vs = map snd (columnNames T)"
  shows "\<exists>t. RA_Delete slv T S vs = Inr t \<and> getSort slv t = tableSort T \<and>
    (\<forall>e. rows_of e t = rows_of e S - {map value_cell vs})"
proof -
  let ?ss = "map snd (columnNames T)"
  from createRow_returns [OF assms(1,3)] obtain w where
    w: "createRow slv T vs = Inr w" "getSort slv w = mkTupleSort slv ?ss"
    "\<And>e. row_of e w = map value_cell vs" by blast
  from singleton [OF w(2)] obtain b where
    b: "mkTerm slv SET_SINGLETON [w] = Some b" "getSort slv b = table_sort slv ?ss"
    "\<And>e. rows_of e b = {row_of e w}" by blast
  from minus [of S ?ss b] assms(1,2) b(2) show ?thesis
    using w b by (auto simp: RA_Delete_def table_wf_def)
qed

lemma RA_row_rejected:
  assumes "table_wf slv T" and "map (value_sort slv) vs \<noteq> map snd (columnNames T)"
  shows "RA_Insert slv T S vs = Inl Api_exception" "RA_Delete slv T S vs = Inl Api_exception"
  using createRow_rejected [OF assms] by (simp_all add: RA_Insert_def RA_Delete_def)

section \<open>Selection\<close>

lemma selectPredicate_returns:
  assumes w: "getSort slv w = mkTupleSort slv (map snd (columnNames T))"
    and col: "column_at T name i (sel_sort slv v)" and k: "select_kind op = Some k" "comparable k v"
  shows "\<exists>u p. selectPredicate slv T w name v op = Inr p \<and> mkTerm slv k [u, sel_term slv v] = Some p \<and>
    (\<forall>e. holds e p \<longleftrightarrow> compare_cells k (row_of e w ! i) (sel_cell v))"
proof -
  have i: "i < length (map snd (columnNames T))" using column_at_less [OF col] by simp
  from accessFieldByIndex_returns [OF w i] obtain u where
    u: "accessFieldByIndex slv w i = Inr u" "getSort slv u = sel_sort slv v"
    "\<And>e. cell_of e u = row_of e w ! i"
    using col i by (auto simp: column_at_def)
  have "mkTerm slv k [u, sel_term slv v] \<noteq> None"
    using k(2) comparison_defined [of u "sel_term slv v" k] order_defined [of u "sel_term slv v" k] u(2)
    by (auto simp: comparable_def)
  then obtain p where p: "mkTerm slv k [u, sel_term slv v] = Some p" by blast
  have "holds e p \<longleftrightarrow> compare_cells k (row_of e w ! i) (sel_cell v)" for e
    using comparison [OF _ _ select_kind_range [OF k(1)] p, of e] u(2,3) by simp
  then show ?thesis
    using u(1) p k(1) col by (auto simp: selectPredicate_def getColumnIndexByName_def column_at_def)
qed

lemma RA_Select_returns:
  assumes wf: "table_wf slv T" and S: "getSort slv S = tableSort T"
    and col: "column_at T name i (sel_sort slv v)" and k: "select_kind op = Some k" "comparable k v"
  shows "\<exists>t. RA_Select slv T S name v op = Inr t \<and> getSort slv t = tableSort T \<and>
    (\<forall>e. rows_of e t = {r \<in> rows_of e S. compare_cells k (r ! i) (sel_cell v)})"
proof -
  let ?ss = "map snd (columnNames T)"
  let ?x = "mkVar slv (mkTupleSort slv ?ss) ''row''"
  have "getSort slv ?x = mkTupleSort slv ?ss" by (rule variable)
  from selectPredicate_returns [OF this col k] obtain u p where
    p: "selectPredicate slv T ?x name v op = Inr p" "mkTerm slv k [u, sel_term slv v] = Some p"
    "\<And>e. holds e p \<longleftrightarrow> compare_cells k (row_of e ?x ! i) (sel_cell v)" by blast
  have S': "getSort slv S = table_sort slv ?ss" using wf S by (simp add: table_wf_def)
  from set_filter [OF p(2) select_kind_range [OF k(1)] this, of "''row''"] obtain vl f t where
    t: "mkTerm slv VARIABLE_LIST [?x] = Some vl" "mkTerm slv LAMBDA [vl, p] = Some f"
    "mkTerm slv SET_FILTER [f, S] = Some t" "getSort slv t = table_sort slv ?ss"
    "\<And>e. rows_of e t = {r \<in> rows_of e S. holds (bound e ?x r) p}" by blast
  have "rows_of e t = {r \<in> rows_of e S. compare_cells k (r ! i) (sel_cell v)}" for e
    unfolding t(5) p(3) using assigned_row [OF S'] by (intro Collect_cong conj_cong) simp_all
  then show ?thesis
    using wf p(1) t(1-4) by (simp add: RA_Select_def Let_def table_wf_def table_sort_def element)
qed

text \<open>A constant of another sort than the column's is rejected.\<close>

lemma RA_Select_rejected:
  assumes wf: "table_wf slv T"
    and col: "column_at T name i s" "scalar_sort slv s" "s \<noteq> sel_sort slv v"
    and op: "op \<in> {''eq'', ''ne''}"
  shows "RA_Select slv T S name v op = Inl Api_exception"
proof -
  let ?ss = "map snd (columnNames T)"
  let ?x = "mkVar slv (mkTupleSort slv ?ss) ''row''"
  have i: "i < length ?ss" using column_at_less [OF col(1)] by simp
  from accessFieldByIndex_returns [OF variable i] obtain u where
    u: "accessFieldByIndex slv ?x i = Inr u" "getSort slv u = s"
    using col(1) i by (auto simp: column_at_def)
  obtain k where k: "select_kind op = Some k" "k \<in> {EQUAL, DISTINCT}"
    using op by (auto simp: select_kind_def)
  have "mkTerm slv k [u, sel_term slv v] = None"
    using comparison_defined [of u "sel_term slv v" k] u(2) col(2,3) k(2) by auto
  then have "selectPredicate slv T ?x name v op = Inl Api_exception"
    using u(1) k(1) col(1) by (simp add: selectPredicate_def getColumnIndexByName_def column_at_def)
  then show ?thesis
    using wf variable_list [of "mkTupleSort slv ?ss" "''row''"]
    by (auto simp: RA_Select_def Let_def table_wf_def table_sort_def element)
qed

section \<open>Projection\<close>

lemma fields_returns:
  assumes "getSort slv w = mkTupleSort slv (map snd (columnNames T))"
    and "set cols \<subseteq> fst ` set (columnNames T)"
  shows "\<exists>ts. emap (accessField slv T w) cols = Inr ts \<and>
    map (getSort slv) ts = map (\<lambda>i. snd (columnNames T ! i)) (positions T cols) \<and>
    (\<forall>e. map (cell_of e) ts = map (\<lambda>i. row_of e w ! i) (positions T cols))"
proof -
  let ?pos = "\<lambda>c. the (column_index c (columnNames T))"
  have "\<forall>c \<in> set cols. \<exists>t. accessField slv T w c = Inr t \<and>
      (getSort slv t = snd (columnNames T ! ?pos c) \<and> (\<forall>e. cell_of e t = row_of e w ! ?pos c))"
  proof
    fix c
    assume "c \<in> set cols"
    then have "column_index c (columnNames T) \<noteq> None"
      using assms(2) by (auto simp: column_index_None)
    then obtain i where i: "column_index c (columnNames T) = Some i" by blast
    then have "i < length (map snd (columnNames T))" using column_index_Some by fastforce
    from accessField_returns [OF assms(1) i this] i this
    show "\<exists>t. accessField slv T w c = Inr t \<and>
        (getSort slv t = snd (columnNames T ! ?pos c) \<and> (\<forall>e. cell_of e t = row_of e w ! ?pos c))"
      by auto
  qed
  from emap_returns [OF this] obtain ts where ts: "emap (accessField slv T w) cols = Inr ts"
    "list_all2 (\<lambda>c t. getSort slv t = snd (columnNames T ! ?pos c) \<and>
       (\<forall>e. cell_of e t = row_of e w ! ?pos c)) cols ts" by blast
  from ts(2) have "map (getSort slv) ts = map (\<lambda>c. snd (columnNames T ! ?pos c)) cols \<and>
      (\<forall>e. map (cell_of e) ts = map (\<lambda>c. row_of e w ! ?pos c) cols)"
    by (induction rule: list_all2_induct) auto
  with ts(1) show ?thesis by (simp add: positions_def comp_def)
qed

lemma RA_Project_returns:
  assumes wf: "table_wf slv T" and S: "getSort slv S = tableSort T"
    and cols: "set cols \<subseteq> fst ` set (columnNames T)"
    and same: "map (\<lambda>i. snd (columnNames T ! i)) (positions T cols)
      = map snd (columnNames (Table_projected slv T cols))"
  shows "\<exists>t. RA_Project slv T S cols = Inr (t, Table_projected slv T cols) \<and>
    getSort slv t = tableSort (Table_projected slv T cols) \<and>
    (\<forall>e. rows_of e t = (\<lambda>r. map (\<lambda>i. r ! i) (positions T cols)) ` rows_of e S)"
proof -
  let ?ss = "map snd (columnNames T)"
  let ?N = "Table_projected slv T cols"
  let ?ns = "map snd (columnNames ?N)"
  let ?x = "mkVar slv (mkTupleSort slv ?ss) ''row''"
  have x: "getSort slv ?x = mkTupleSort slv ?ss" by (rule variable)
  from fields_returns [OF x cols] obtain ts where
    ts: "emap (accessField slv T ?x) cols = Inr ts" "map (getSort slv) ts = ?ns"
    "\<And>e. map (cell_of e) ts = map (\<lambda>i. row_of e ?x ! i) (positions T cols)"
    unfolding same by blast
  obtain c sels where d: "getDatatype slv (mkTupleSort slv ?ns) = Some (c, sels)"
    using tuple_datatype by blast
  from constructor_total [OF d ts(2)] obtain b where
    b: "mkTerm slv APPLY_CONSTRUCTOR (c # ts) = Some b" "getSort slv b = mkTupleSort slv ?ns"
    "\<And>e. row_of e b = map (cell_of e) ts" by blast
  have S': "getSort slv S = table_sort slv ?ss" using wf S by (simp add: table_wf_def)
  have N: "tableSort ?N = table_sort slv ?ns" using table_wf_projected by (simp add: table_wf_def)
  have tr: "TransformRow slv ?x T ?N cols = Inr b"
    using N d ts(1) b(1) by (simp add: TransformRow_def table_sort_def element)
  from set_map [OF b(2) S', of "''row''"] obtain vl f t where
    t: "mkTerm slv VARIABLE_LIST [?x] = Some vl" "mkTerm slv LAMBDA [vl, b] = Some f"
    "mkTerm slv SET_MAP [f, S] = Some t" "getSort slv t = table_sort slv ?ns"
    "\<And>e. rows_of e t = (\<lambda>r. row_of (bound e ?x r) b) ` rows_of e S" by blast
  have "rows_of e t = (\<lambda>r. map (\<lambda>i. r ! i) (positions T cols)) ` rows_of e S" for e
    unfolding t(5) b(3) ts(3) using assigned_row [OF S'] by (intro image_cong) simp_all
  moreover have "RA_Project slv T S cols = Inr (t, ?N)"
    using S' tr t(1-3) by (simp add: RA_Project_def Let_def table_sort_def element)
  ultimately show ?thesis using t(4) N by auto
qed

text \<open>One column.\<close>

lemma RA_Project_column:
  assumes wf: "table_wf slv T" and S: "getSort slv S = tableSort T"
    and names: "distinct (map fst (columnNames T))" and col: "column_at T name i s"
  shows "\<exists>t. RA_Project slv T S [name] = Inr (t, Table_projected slv T [name]) \<and>
    getSort slv t = table_sort slv [s] \<and> (\<forall>e. rows_of e t = (\<lambda>r. [r ! i]) ` rows_of e S)"
proof -
  have i: "i < length (columnNames T)" "fst (columnNames T ! i) = name" "snd (columnNames T ! i) = s"
    using col column_index_Some by (auto simp: column_at_def)
  have "filter (\<lambda>c. fst c = name) (columnNames T) = [columnNames T ! i]"
    using names i by (intro filter_unique_key) auto
  then have N: "columnNames (Table_projected slv T [name]) = [columnNames T ! i]"
    by (simp add: Table_projected_def Let_def)
  have pos: "positions T [name] = [i]" using col by (simp add: positions_def column_at_def)
  have "set [name] \<subseteq> fst ` set (columnNames T)" using i by force
  from RA_Project_returns [OF wf S this] show ?thesis
    using N pos i(3) table_wf_projected [of slv T "[name]"] by (simp add: table_wf_def)
qed

section \<open>Join\<close>

lemma RA_Product_returns:
  assumes A: "table_wf slv A" "getSort slv setA = tableSort A"
    and B: "table_wf slv B" "getSort slv setB = tableSort B"
    and a: "column_at A nameA i s" and b: "column_at B nameB j s'"
    and sort: "map snd (columnNames A @ columnNames B) ! (i + j) = s" "scalar_sort slv s"
  shows "\<exists>t J. RA_Product slv A B setA setB nameA nameB = Inr (t, J) \<and> table_wf slv J \<and>
    getSort slv t = tableSort J \<and> columnNames J = columnNames A @ columnNames B \<and>
    (\<forall>e. rows_of e t = {x @ y | x y. x \<in> rows_of e setA \<and> y \<in> rows_of e setB \<and>
        (x @ y) ! i = (x @ y) ! (i + j)})"
proof -
  let ?sa = "map snd (columnNames A)" and ?sb = "map snd (columnNames B)"
  let ?ss = "?sa @ ?sb"
  let ?x = "mkVar slv (mkTupleSort slv ?ss) ''row''"
  let ?J = "Table_of (tableName A @ ''_join_'' @ tableName B) (table_sort slv ?ss)
      (columnNames A @ columnNames B)"
  have sorts: "constructor_sorts slv A = Inr ?sa" "constructor_sorts slv B = Inr ?sb"
    using A(1) B(1) tuple_datatype
    by (auto simp: constructor_sorts_def table_wf_def table_sort_def element)
      (metis (no_types, lifting) api_simps(2) case_prod_conv ebind_simps(2))+
  from product [of setA ?sa setB ?sb] A B obtain pr where
    pr: "mkTerm slv RELATION_PRODUCT [setA, setB] = Some pr" "getSort slv pr = table_sort slv ?ss"
    "\<And>e. rows_of e pr = {x @ y | x y. x \<in> rows_of e setA \<and> y \<in> rows_of e setB}"
    by (auto simp: table_wf_def)
  have il: "i < length ?ss" "i + j < length ?ss"
    using column_at_less [OF a] column_at_less [OF b] by auto
  from accessFieldByIndex_returns [OF variable il(1)] obtain u where
    u: "accessFieldByIndex slv ?x i = Inr u" "getSort slv u = s" "\<And>e. cell_of e u = row_of e ?x ! i"
    using a column_at_less [OF a] by (auto simp: column_at_def nth_append)
  from accessFieldByIndex_returns [OF variable il(2)] obtain w where
    w: "accessFieldByIndex slv ?x (i + j) = Inr w" "getSort slv w = s"
    "\<And>e. cell_of e w = row_of e ?x ! (i + j)"
    using sort(1) by auto
  have "mkTerm slv EQUAL [u, w] \<noteq> None"
    using comparison_defined [of u w EQUAL] u(2) w(2) sort(2) by simp
  then obtain p where p: "mkTerm slv EQUAL [u, w] = Some p" by blast
  have hp: "holds e p \<longleftrightarrow> row_of e ?x ! i = row_of e ?x ! (i + j)" for e
    using comparison [OF _ _ _ p, of e] u(2,3) w(2,3) sort(2) by simp
  from set_filter [OF p _ pr(2), of "''row''"] obtain vl f t where
    t: "mkTerm slv VARIABLE_LIST [?x] = Some vl" "mkTerm slv LAMBDA [vl, p] = Some f"
    "mkTerm slv SET_FILTER [f, pr] = Some t" "getSort slv t = table_sort slv ?ss"
    "\<And>e. rows_of e t = {r \<in> rows_of e pr. holds (bound e ?x r) p}" by auto
  have "RA_Product slv A B setA setB nameA nameB = Inr (t, ?J)"
    using sorts pr(1,2) t(1-3) u(1) w(1) p a b
    by (simp add: RA_Product_def Let_def getColumnIndexByName_def column_at_def table_sort_def element)
  moreover have "rows_of e t = {r \<in> rows_of e pr. r ! i = r ! (i + j)}" for e
    unfolding t(5) hp using assigned_row [OF pr(2)] by (intro Collect_cong conj_cong) simp_all
  then have "rows_of e t = {x @ y | x y. x \<in> rows_of e setA \<and> y \<in> rows_of e setB \<and>
        (x @ y) ! i = (x @ y) ! (i + j)}" for e
    unfolding pr(3) by (simp only: filtered_pairs)
  ultimately show ?thesis
    using t(4) by (intro exI [of _ t] exI [of _ ?J]) (simp add: Table_of_def table_wf_def)
qed

section \<open>Update\<close>

lemma update_args:
  assumes w: "getSort slv w = mkTupleSort slv (map snd (columnNames T))"
    and names: "distinct (map fst (columnNames T))" and u: "column_at T name j (sel_sort slv v)"
  shows "\<exists>ts. emap (\<lambda>column. if fst column = name then Inr (sel_term slv v)
        else accessField slv T w (fst column)) (columnNames T) = Inr ts \<and>
      map (getSort slv) ts = map snd (columnNames T) \<and>
      (\<forall>e. length (row_of e w) = length (columnNames T) \<longrightarrow>
         map (cell_of e) ts = (row_of e w)[j := sel_cell v])"
proof -
  let ?cs = "columnNames T"
  let ?f = "\<lambda>column. if fst column = name then Inr (sel_term slv v) else accessField slv T w (fst column)"
  let ?P = "\<lambda>c t. getSort slv t = snd c \<and> (\<forall>e. cell_of e t =
      (if fst c = name then sel_cell v else row_of e w ! the (column_index (fst c) ?cs)))"
  have j: "j < length ?cs" "fst (?cs ! j) = name" "snd (?cs ! j) = sel_sort slv v"
    using u column_index_Some by (auto simp: column_at_def)
  have "\<forall>c \<in> set ?cs. \<exists>t. ?f c = Inr t \<and> ?P c t"
  proof
    fix c
    assume "c \<in> set ?cs"
    then obtain q where q: "q < length ?cs" "c = ?cs ! q" by (auto simp: in_set_conv_nth)
    then have idx: "column_index (fst c) ?cs = Some q" using column_index_nth [OF names] by simp
    show "\<exists>t. ?f c = Inr t \<and> ?P c t"
    proof (cases "fst c = name")
      case True
      then have "column_index name ?cs = Some q" using idx by simp
      then have "q = j" using u by (simp add: column_at_def)
      then show ?thesis using True q j by simp
    next
      case False
      from accessField_returns [OF w idx] q show ?thesis using False idx by auto
    qed
  qed
  from emap_returns [OF this] obtain ts where
    ts: "emap ?f ?cs = Inr ts" "list_all2 ?P ?cs ts" by blast
  have len: "length ts = length ?cs" using ts(2) by (simp add: list_all2_lengthD)
  have at: "getSort slv (ts ! q) = snd (?cs ! q)"
    "cell_of e (ts ! q) = (if q = j then sel_cell v else row_of e w ! q)" if "q < length ?cs" for q e
  proof -
    have pos: "column_index (fst (?cs ! q)) ?cs = Some q" by (rule column_index_nth [OF names that])
    have eq: "fst (?cs ! q) = name \<longleftrightarrow> q = j"
    proof
      assume "fst (?cs ! q) = name"
      with pos u show "q = j" by (simp add: column_at_def)
    next
      assume "q = j"
      then show "fst (?cs ! q) = name" using j(2) by simp
    qed
    have "?P (?cs ! q) (ts ! q)" by (rule list_all2_nthD [OF ts(2) that])
    then show "getSort slv (ts ! q) = snd (?cs ! q)"
      "cell_of e (ts ! q) = (if q = j then sel_cell v else row_of e w ! q)"
      unfolding eq pos option.sel by blast+
  qed
  have "map (getSort slv) ts = map snd ?cs"
    using len at(1) by (intro nth_equalityI) simp_all
  moreover have "map (cell_of e) ts = (row_of e w)[j := sel_cell v]"
    if "length (row_of e w) = length ?cs" for e
    using len at(2) that by (intro nth_equalityI) (simp_all add: nth_list_update)
  ultimately show ?thesis using ts(1) by blast
qed

lemma RA_Update_returns:
  assumes wf: "table_wf slv T" and S: "getSort slv S = tableSort T"
    and names: "distinct (map fst (columnNames T))"
    and col: "column_at T name i (sel_sort slv v)" and k: "select_kind op = Some k" "comparable k v"
    and u: "column_at T target j (sel_sort slv new)"
  shows "\<exists>t. RA_Update slv T S name v op (target, new) = Inr t \<and> getSort slv t = tableSort T \<and>
    (\<forall>e. rows_of e t =
       (\<lambda>r. if compare_cells k (r ! i) (sel_cell v) then r[j := sel_cell new] else r) ` rows_of e S)"
proof -
  let ?ss = "map snd (columnNames T)"
  let ?x = "mkVar slv (mkTupleSort slv ?ss) ''row''"
  let ?hit = "\<lambda>r. compare_cells k (r ! i) (sel_cell v)"
  have sort: "tableSort T = table_sort slv ?ss" using wf by (simp add: table_wf_def)
  from RA_Select_returns [OF wf S col k] obtain sel where
    sel: "RA_Select slv T S name v op = Inr sel" "getSort slv sel = table_sort slv ?ss"
    "\<And>e. rows_of e sel = {r \<in> rows_of e S. ?hit r}" unfolding sort by blast
  from minus [of S ?ss sel] sel(2) S sort obtain rest where
    rest: "mkTerm slv SET_MINUS [S, sel] = Some rest" "getSort slv rest = table_sort slv ?ss"
    "\<And>e. rows_of e rest = rows_of e S - rows_of e sel" by auto
  have x: "getSort slv ?x = mkTupleSort slv ?ss" by (rule variable)
  from update_args [OF x names u] obtain ts where
    ts: "emap (\<lambda>column. if fst column = target then Inr (sel_term slv new)
        else accessField slv T ?x (fst column)) (columnNames T) = Inr ts"
    "map (getSort slv) ts = ?ss"
    "\<And>e. length (row_of e ?x) = length (columnNames T) \<Longrightarrow>
      map (cell_of e) ts = (row_of e ?x)[j := sel_cell new]" by blast
  have "getSort slv (mkTuple slv ts) = mkTupleSort slv ?ss" using ts(2) by (simp add: tuple(1))
  note mapped = set_map [OF this sel(2), of "''row''"]
  from mapped obtain vl f m where
    m: "mkTerm slv VARIABLE_LIST [?x] = Some vl" "mkTerm slv LAMBDA [vl, mkTuple slv ts] = Some f"
    "mkTerm slv SET_MAP [f, sel] = Some m" "getSort slv m = table_sort slv ?ss"
    "\<And>e. rows_of e m = (\<lambda>r. row_of (bound e ?x r) (mkTuple slv ts)) ` rows_of e sel" by blast
  from union [OF rest(2) m(4)] obtain t where
    t: "mkTerm slv SET_UNION [rest, m] = Some t" "getSort slv t = table_sort slv ?ss"
    "\<And>e. rows_of e t = rows_of e rest \<union> rows_of e m" by blast
  have run: "RA_Update slv T S name v op (target, new) = Inr t"
    using sel(1) rest(1) sort ts(1) m(1-3) t(1) element [of "mkTupleSort slv ?ss"]
    unfolding RA_Update_def Let_def fst_conv snd_conv table_sort_def by simp
  have "rows_of e t = (\<lambda>r. if ?hit r then r[j := sel_cell new] else r) ` rows_of e S" for e
  proof -
    have "length r = length (columnNames T)" if "r \<in> rows_of e S" for r
      using table_rows [of S ?ss r e] that S sort by simp
    then have "row_of (bound e ?x r) (mkTuple slv ts) = r[j := sel_cell new]" if "r \<in> rows_of e S" for r
      using ts(3) [of "bound e ?x r"] assigned_row [of S ?ss r e "''row''"] S sort tuple(2) that by simp
    then have "rows_of e m = (\<lambda>r. r[j := sel_cell new]) ` {r \<in> rows_of e S. ?hit r}"
      unfolding m(5) sel(3) by (intro image_cong) auto
    then show ?thesis unfolding t(3) rest(3) sel(3) by (simp only: conditional_image)
  qed
  with run t(2) sort show ?thesis by auto
qed

end

end
