(* ===== verification/Sql_Typing.thy ===== *)
theory Sql_Typing
  imports Sql_Queries Sql_Semantics
begin

text \<open>
  The typing invariant of the analysis: in every state a query tree leaves, the term of a table
  has the sort the table records, and the keys of the state are in order.
\<close>

section \<open>The order of the keys\<close>

definition keys_sorted :: "(string \<times> 'v) list \<Rightarrow> bool" where
  "keys_sorted m \<longleftrightarrow> sorted_wrt (<) (map fst m)"

lemma map_of_put: "map_of (map_put k v m) = (map_of m)(k \<mapsto> v)"
  by (induction m) (auto simp: fun_eq_iff)

lemma keys_put: "fst ` set (map_put k v m) = insert k (fst ` set m)"
  by (induction m) auto

lemma set_put: "e \<in> set (map_put k v m) \<Longrightarrow> e = (k, v) \<or> e \<in> set m"
  by (induction m) (auto split: if_splits)

lemma keys_sorted_put: "keys_sorted m \<Longrightarrow> keys_sorted (map_put k v m)"
proof (induction m)
  case Nil
  then show ?case by (simp add: keys_sorted_def)
next
  case (Cons e m)
  have e: "\<forall>x \<in> fst ` set m. fst e < x" and m: "keys_sorted m"
    using Cons.prems by (auto simp: keys_sorted_def)
  consider "k = fst e" | "k < fst e" | "fst e < k" by (rule linorder_cases)
  then show ?case
  proof cases
    case 1
    then show ?thesis using Cons.prems by (simp add: keys_sorted_def)
  next
    case 2
    have "\<forall>x \<in> fst ` set m. k < x" using e 2 less_trans by blast
    then show ?thesis using 2 Cons.prems by (auto simp: keys_sorted_def)
  next
    case 3
    then have less: "\<not> k < fst e" and neq: "k \<noteq> fst e" by auto
    have "\<forall>x \<in> fst ` set (map_put k v m). fst e < x"
      unfolding keys_put using e 3 by blast
    then show ?thesis using Cons.IH [OF m] less neq by (simp add: keys_sorted_def)
  qed
qed

section \<open>Well-typed results\<close>

definition entry_typed :: "('s, 't) solver \<Rightarrow> 's sql_table \<times> 't \<Rightarrow> bool" where
  "entry_typed slv A \<longleftrightarrow> table_wf slv (fst A) \<and> getSort slv (snd A) = tableSort (fst A)"

definition state_typed :: "('s, 't) solver \<Rightarrow> ('s, 't) sql_state \<Rightarrow> bool" where
  "state_typed slv st \<longleftrightarrow> (\<forall>e \<in> set st. entry_typed slv (snd e))"

definition context_typed :: "('s, 't) solver \<Rightarrow> ('s, 't) sql_context \<Rightarrow> bool" where
  "context_typed slv c \<longleftrightarrow> entry_typed slv (resultTable c, resultOperation c) \<and>
     state_typed slv (myState c) \<and> keys_sorted (myState c)"

text \<open>Trees over well-typed tables; aggregation leaves an integer where a table is expected.\<close>

fun node_typed :: "('s, 't) solver \<Rightarrow> ('s, 't) sql_node \<Rightarrow> bool" where
  "node_typed slv (TableNode T t name) = entry_typed slv (T, t)"
| "node_typed slv (DeleteNode child row name) = node_typed slv child"
| "node_typed slv (InsertNode child row name) = node_typed slv child"
| "node_typed slv (UpdateNode child col v oper name newValue) = node_typed slv child"
| "node_typed slv (SelectNode child col v oper name) = node_typed slv child"
| "node_typed slv (ProjectNode child columns name) = node_typed slv child"
| "node_typed slv (ProductNode (Some l) (Some r) nl nr jl jr) = (node_typed slv l \<and> node_typed slv r)"
| "node_typed slv (ProductNode _ _ nl nr jl jr) = False"
| "node_typed slv (AggregateNode child columnIndex) = False"

lemma setState_typed:
  assumes "state_typed slv (myState c)" and "keys_sorted (myState c)" and "entry_typed slv A"
  shows "state_typed slv (myState (setState name A c))" "keys_sorted (myState (setState name A c))"
  using assms by (auto simp: setState_def state_typed_def keys_sorted_put dest: set_put)

lemma setResult_typed:
  assumes "state_typed slv (myState c)" and "keys_sorted (myState c)" and "entry_typed slv (T, t)"
  shows "context_typed slv (setResult name T t c)"
  using assms setState_typed [of slv "c\<lparr>resultOperation := t, resultTable := T\<rparr>" "(T, t)" name]
  by (simp add: setResult_def context_typed_def) (simp add: setState_def)

lemma context_entry:
  "context_typed slv c \<Longrightarrow> entry_typed slv (resultTable c, resultOperation c)"
  by (simp add: context_typed_def)

lemma visit_typed:
  assumes "context_typed slv c" and "entry_typed slv (T, t)"
  shows "context_typed slv (setResult name T t c)"
  by (rule setResult_typed) (use assms in \<open>simp_all add: context_typed_def\<close>)

context cvc5
begin

lemma RA_Insert_typed:
  assumes "entry_typed slv (T, S)" and "RA_Insert slv T S vs = Inr t"
  shows "entry_typed slv (T, t)"
proof (cases "map (value_sort slv) vs = map snd (columnNames T)")
  case True
  then show ?thesis using RA_Insert_returns [of T S vs] assms by (auto simp: entry_typed_def)
next
  case False
  then show ?thesis using RA_row_rejected [of T vs S] assms by (simp add: entry_typed_def)
qed

lemma RA_Delete_typed:
  assumes "entry_typed slv (T, S)" and "RA_Delete slv T S vs = Inr t"
  shows "entry_typed slv (T, t)"
proof (cases "map (value_sort slv) vs = map snd (columnNames T)")
  case True
  then show ?thesis using RA_Delete_returns [of T S vs] assms by (auto simp: entry_typed_def)
next
  case False
  then show ?thesis using RA_row_rejected [of T vs S] assms by (simp add: entry_typed_def)
qed

lemma RA_Select_typed:
  assumes "entry_typed slv (T, S)" and "RA_Select slv T S name v oper = Inr t"
  shows "entry_typed slv (T, t)"
proof -
  let ?ss = "map snd (columnNames T)"
  let ?x = "mkVar slv (mkTupleSort slv ?ss) ''row''"
  have S: "getSort slv S = table_sort slv ?ss" and T: "tableSort T = table_sort slv ?ss"
    using assms(1) by (simp_all add: entry_typed_def table_wf_def)
  from assms(2) obtain vl p f where
    run: "mkTerm slv VARIABLE_LIST [?x] = Some vl" "selectPredicate slv T ?x name v oper = Inr p"
    "mkTerm slv LAMBDA [vl, p] = Some f" "mkTerm slv SET_FILTER [f, S] = Some t"
    unfolding RA_Select_def Let_def T table_sort_def element by (auto simp: ebind_Inr_iff)
  from run(2) obtain u k where "select_kind oper = Some k" "mkTerm slv k [u, sel_term slv v] = Some p"
    by (auto simp: selectPredicate_def ebind_Inr_iff split: option.splits)
  from filter_term [OF run(1) this(2) select_kind_range [OF this(1)] run(3) S] run(4) assms(1) T
  show ?thesis by (auto simp: entry_typed_def)
qed

lemma RA_Project_typed:
  assumes "entry_typed slv (T, S)" and "RA_Project slv T S cols = Inr (t, N)"
  shows "entry_typed slv (N, t)"
proof -
  let ?ss = "map snd (columnNames T)"
  let ?x = "mkVar slv (mkTupleSort slv ?ss) ''row''"
  let ?N = "Table_projected slv T cols"
  let ?ns = "map snd (columnNames ?N)"
  have S: "getSort slv S = table_sort slv ?ss"
    using assms(1) by (simp add: entry_typed_def table_wf_def)
  have sortN: "tableSort ?N = table_sort slv ?ns"
    using table_wf_projected [of slv T cols] by (simp add: table_wf_def)
  have el: "getSetElementSort slv (getSort slv S) = Some (mkTupleSort slv ?ss)"
    unfolding S table_sort_def by (rule element)
  from assms(2) obtain vl b f where
    run: "mkTerm slv VARIABLE_LIST [?x] = Some vl" "TransformRow slv ?x T ?N cols = Inr b"
    "mkTerm slv LAMBDA [vl, b] = Some f" "mkTerm slv SET_MAP [f, S] = Some t" "N = ?N"
    unfolding RA_Project_def Let_def el by (auto simp: ebind_Inr_iff)
  obtain c sels where d: "getDatatype slv (mkTupleSort slv ?ns) = Some (c, sels)"
    using tuple_datatype by blast
  obtain ts where "mkTerm slv APPLY_CONSTRUCTOR (c # ts) = Some b"
    using run(2) d unfolding TransformRow_def sortN table_sort_def element
    by (auto simp: ebind_Inr_iff)
  from constructed [OF d this] have "getSort slv b = mkTupleSort slv ?ns" by simp
  from map_term [OF run(1,3) this S] run(4,5) sortN show ?thesis
    by (auto simp: entry_typed_def)
qed

lemma constructor_sorts_wf:
  assumes "table_wf slv T"
  shows "constructor_sorts slv T = Inr (map snd (columnNames T))"
proof -
  let ?ss = "map snd (columnNames T)"
  from tuple_datatype [of ?ss] obtain c sels where
    "getDatatype slv (mkTupleSort slv ?ss) = Some (c, sels)" "map (fst \<circ> snd) sels = ?ss" by blast
  then show ?thesis using assms by (simp add: constructor_sorts_def table_wf_def table_sort_def element)
qed

lemma RA_Product_typed:
  assumes A: "entry_typed slv (A, a)" and B: "entry_typed slv (B, b)"
    and run: "RA_Product slv A B a b nameA nameB = Inr (t, J)"
  shows "entry_typed slv (J, t)"
proof -
  let ?sa = "map snd (columnNames A)" and ?sb = "map snd (columnNames B)"
  let ?x = "mkVar slv (mkTupleSort slv (?sa @ ?sb)) ''row''"
  let ?J = "Table_of (tableName A @ ''_join_'' @ tableName B) (mkSetSort slv (mkTupleSort slv (?sa @ ?sb)))
      (columnNames A @ columnNames B)"
  have sorts: "constructor_sorts slv A = Inr ?sa" "constructor_sorts slv B = Inr ?sb"
    using A B by (auto simp: entry_typed_def intro: constructor_sorts_wf)
  have "getSort slv a = table_sort slv ?sa" "getSort slv b = table_sort slv ?sb"
    using A B by (simp_all add: entry_typed_def table_wf_def)
  from product [OF this] obtain pr where
    pr: "mkTerm slv RELATION_PRODUCT [a, b] = Some pr" "getSort slv pr = table_sort slv (?sa @ ?sb)"
    by blast
  have el: "getSetElementSort slv (getSort slv pr) = Some (mkTupleSort slv (?sa @ ?sb))"
    unfolding pr(2) table_sort_def by (rule element)
  from run obtain vl u w p f where
    f: "mkTerm slv VARIABLE_LIST [?x] = Some vl" "mkTerm slv EQUAL [u, w] = Some p"
    "mkTerm slv LAMBDA [vl, p] = Some f" "mkTerm slv SET_FILTER [f, pr] = Some t" "J = ?J"
    unfolding RA_Product_def sorts Let_def
    by (clarsimp simp: ebind_Inr_iff pr(1) el)
  from filter_term [OF f(1,2) _ f(3) pr(2)] f(4,5) show ?thesis
    by (auto simp: entry_typed_def table_wf_def Table_of_def table_sort_def)
qed

lemma RA_Update_typed:
  assumes "entry_typed slv (T, S)" and "RA_Update slv T S name v oper u = Inr t"
  shows "entry_typed slv (T, t)"
proof -
  let ?ss = "map snd (columnNames T)"
  from assms(2) obtain sel rest m where
    run: "RA_Select slv T S name v oper = Inr sel" "mkTerm slv SET_MINUS [S, sel] = Some rest"
    "mkTerm slv SET_UNION [rest, m] = Some t"
    by (auto simp: RA_Update_def Let_def ebind_Inr_iff)
  have "getSort slv S = table_sort slv ?ss" "getSort slv sel = table_sort slv ?ss"
    using assms(1) RA_Select_typed [OF assms(1) run(1)] by (simp_all add: entry_typed_def table_wf_def)
  from minus [OF this] run(2) have "getSort slv rest = table_sort slv ?ss" by auto
  with union_sorts [OF run(3)] assms(1) show ?thesis by (simp add: entry_typed_def table_wf_def)
qed

text \<open>Evaluating a tree keeps the invariant.\<close>

lemma visit_Delete_typed:
  "context_typed slv c \<Longrightarrow> visit_Delete slv row name c = Inr c' \<Longrightarrow> context_typed slv c'"
  by (auto simp: visit_Delete_def ebind_Inr_iff intro!: visit_typed intro: RA_Delete_typed [OF context_entry])

lemma visit_Insert_typed:
  "context_typed slv c \<Longrightarrow> visit_Insert slv row name c = Inr c' \<Longrightarrow> context_typed slv c'"
  by (auto simp: visit_Insert_def ebind_Inr_iff intro!: visit_typed intro: RA_Insert_typed [OF context_entry])

lemma visit_Update_typed:
  "context_typed slv c \<Longrightarrow> visit_Update slv col v oper name newValue c = Inr c' \<Longrightarrow> context_typed slv c'"
  by (auto simp: visit_Update_def ebind_Inr_iff intro!: visit_typed intro: RA_Update_typed [OF context_entry])

lemma visit_Select_typed:
  "context_typed slv c \<Longrightarrow> visit_Select slv col v oper name c = Inr c' \<Longrightarrow> context_typed slv c'"
  by (auto simp: visit_Select_def ebind_Inr_iff intro!: visit_typed intro: RA_Select_typed [OF context_entry])

lemma visit_Project_typed:
  "context_typed slv c \<Longrightarrow> visit_Project slv columns name c = Inr c' \<Longrightarrow> context_typed slv c'"
  by (auto simp: visit_Project_def ebind_Inr_iff intro!: visit_typed intro: RA_Project_typed [OF context_entry])

lemma accept_typed:
  assumes "node_typed slv n" and "state_typed slv (myState c)" and "keys_sorted (myState c)"
    and "accept slv new n c = Inr c'"
  shows "context_typed slv c'"
  using assms
proof (induction n arbitrary: c c')
  case (TableNode T t name)
  then show ?case by (auto simp: visit_Table_def intro: setResult_typed)
next
  case (DeleteNode child row name)
  then obtain d where d: "accept slv new child c = Inr d" "visit_Delete slv row name d = Inr c'"
    by (auto simp: ebind_Inr_iff)
  with DeleteNode have "context_typed slv d" by simp
  from visit_Delete_typed [OF this d(2)] show ?case .
next
  case (InsertNode child row name)
  then obtain d where d: "accept slv new child c = Inr d" "visit_Insert slv row name d = Inr c'"
    by (auto simp: ebind_Inr_iff)
  with InsertNode have "context_typed slv d" by simp
  from visit_Insert_typed [OF this d(2)] show ?case .
next
  case (UpdateNode child col v oper name newValue)
  then obtain d where d: "accept slv new child c = Inr d" "visit_Update slv col v oper name newValue d = Inr c'"
    by (auto simp: ebind_Inr_iff)
  with UpdateNode have "context_typed slv d" by simp
  from visit_Update_typed [OF this d(2)] show ?case .
next
  case (SelectNode child col v oper name)
  then obtain d where d: "accept slv new child c = Inr d" "visit_Select slv col v oper name d = Inr c'"
    by (auto simp: ebind_Inr_iff)
  with SelectNode have "context_typed slv d" by simp
  from visit_Select_typed [OF this d(2)] show ?case .
next
  case (ProjectNode child columns name)
  then obtain d where d: "accept slv new child c = Inr d" "visit_Project slv columns name d = Inr c'"
    by (auto simp: ebind_Inr_iff)
  with ProjectNode have "context_typed slv d" by simp
  from visit_Project_typed [OF this d(2)] show ?case .
next
  case (ProductNode l r nl nr jl jr)
  from ProductNode.prems(1) obtain l' r' where lr: "l = Some l'" "r = Some r'"
    "node_typed slv l'" "node_typed slv r'"
    by (cases l; cases r) auto
  let ?c0 = "Context_new slv (myState c)"
  from ProductNode.prems(4) lr obtain d1 d2 where
    d: "accept slv new l' ?c0 = Inr d1" "accept slv new r' ?c0 = Inr d2"
    "visit_Product slv nl nr jl jr d1 d2 c = Inr c'"
    by (auto simp: ebind_Inr_iff)
  have c0: "state_typed slv (myState ?c0)" "keys_sorted (myState ?c0)"
    using ProductNode.prems by (simp_all add: Context_new_def)
  have t1: "entry_typed slv (resultTable d1, resultOperation d1)"
    and t2: "entry_typed slv (resultTable d2, resultOperation d2)"
    using ProductNode.IH(1) [of l', OF _ lr(3) c0 d(1)] ProductNode.IH(2) [of r', OF _ lr(4) c0 d(2)] lr
    by (auto simp: context_typed_def)
  from d(3) obtain t J where
    J: "RA_Product slv (resultTable d1) (resultTable d2) (resultOperation d1) (resultOperation d2) jl jr
       = Inr (t, J)"
    and c': "c' = setState (nl @ ''_join_'' @ nr) (J, t) (setState nr (resultTable d2, resultOperation d2)
       (setState nl (resultTable d1, resultOperation d1) (c\<lparr>resultOperation := t, resultTable := J\<rparr>)))"
    by (auto simp: visit_Product_def Let_def ebind_Inr_iff)
  note Jt = RA_Product_typed [OF t1 t2 J]
  let ?c1 = "c\<lparr>resultOperation := t, resultTable := J\<rparr>"
  have c1: "state_typed slv (myState ?c1)" "keys_sorted (myState ?c1)" using ProductNode.prems by simp_all
  note c2 = setState_typed [OF c1 t1]
  note c3 = setState_typed [OF c2 t2]
  note c4 = setState_typed [OF c3 Jt]
  show ?case using c4 Jt unfolding c' context_typed_def by (simp add: setState_def)
next
  case (AggregateNode child columnIndex)
  then show ?case by simp
qed

end

end
