(* ===== verification/Sql_Prover.thy ===== *)
theory Sql_Prover
  imports Sql_Queries Sql_Semantics
begin

text \<open>
  \<^verbatim>\<open>src/RelationalProver.cpp\<close> of the SQL analysis: the formulas whose satisfiability decides
  whether two sequences of queries commute and whether a query keeps referential integrity.
\<close>

section \<open>The formulas\<close>

text \<open>
  One foreign key \<open>entry2\<close> of the table \<open>name\<close>: nothing when the foreign table or one of the two
  columns is missing.
\<close>

definition foreign_key ::
  "('s, 't) solver \<Rightarrow> ('s, 't) sql_state \<Rightarrow> 's sql_table \<times> 't \<Rightarrow> string list \<times> string list \<Rightarrow>
     sql_error + 't list" where
  "foreign_key slv st tableA entry2 =
     (case map_of st (fst entry2 ! 1) of
        None \<Rightarrow> Inr []
      | Some tableB \<Rightarrow>
          if snd entry2 ! 0 \<notin> set (getTableColumnNames (fst tableA)) then Inr []
          else if snd entry2 ! 1 \<notin> set (getTableColumnNames (fst tableB)) then Inr []
          else ebind (RA_Project slv (fst tableA) (snd tableA) [snd entry2 ! 0]) (\<lambda>(setA, _).
               ebind (RA_Project slv (fst tableB) (snd tableB) [snd entry2 ! 1]) (\<lambda>(setB, _).
               ebind (api (mkTerm slv SET_SUBSET [setA, setB])) (\<lambda>t. Inr [t]))))"

text \<open>The loop over the entries of the state, in the order of their keys.\<close>

definition refIntegrities :: "('s, 't) solver \<Rightarrow> ('s, 't) sql_state \<Rightarrow> sql_error + 't list" where
  "refIntegrities slv st =
     ebind (emap (\<lambda>(name, tableA).
       ebind (emap (foreign_key slv st tableA) (getReferentialIntegrityInfo name))
         (\<lambda>tss. Inr (concat tss))) st) (\<lambda>tss. Inr (concat tss))"

text \<open>\<open>combinedAssertion = ts[0]\<close>, then the conjunction with each of the others.\<close>

fun and_all :: "('s, 't) solver \<Rightarrow> 't \<Rightarrow> 't list \<Rightarrow> sql_error + 't" where
  "and_all slv t [] = Inr t"
| "and_all slv t (u # us) = ebind (api (mkTerm slv AND_kind [t, u])) (\<lambda>t'. and_all slv t' us)"

definition combined :: "('s, 't) solver \<Rightarrow> 't list \<Rightarrow> sql_error + 't" where
  "combined slv ts = ebind (at_index ts 0) (\<lambda>t. and_all slv t (tl ts))"

definition referentialIntegrity :: "('s, 't) solver \<Rightarrow> ('s, 't) sql_state \<Rightarrow> sql_error + 't" where
  "referentialIntegrity slv initialState = ebind (refIntegrities slv initialState) (combined slv)"

definition equalities ::
  "('s, 't) solver \<Rightarrow> ('s, 't) sql_state \<Rightarrow> ('s, 't) sql_state \<Rightarrow> sql_error + 't list" where
  "equalities slv state1 state2 =
     emap (\<lambda>(key, table1). api (mkTerm slv EQUAL [snd table1, snd (fst (state_at slv key state2))]))
       state1"

definition StateCommutativeCheck ::
  "('s, 't) solver \<Rightarrow> ('s, 't) sql_state \<Rightarrow> ('s, 't) sql_state \<Rightarrow> sql_error + 't" where
  "StateCommutativeCheck slv state1 state2 =
     ebind (equalities slv state1 state2) (\<lambda>ts.
     ebind (combined slv ts) (\<lambda>t. api (mkTerm slv NOT_kind [t])))"

definition PRCommutativeCheck ::
  "('s, 't) solver \<Rightarrow> ('s, 't) sql_state \<Rightarrow> ('s, 't) sql_state \<Rightarrow> sql_error + 't" where
  "PRCommutativeCheck slv state1 state2 =
     ebind (referentialIntegrity slv state1) (\<lambda>refIntegrity1.
     ebind (referentialIntegrity slv state2) (\<lambda>refIntegrity2.
     ebind (api (mkTerm slv IMPLIES [refIntegrity1, refIntegrity2])) (\<lambda>testPR.
     api (mkTerm slv NOT_kind [testPR]))))"

definition InvariantSufficientCheck ::
  "('s, 't) solver \<Rightarrow> ('s, 't) sql_state \<Rightarrow> ('s, 't) sql_state \<Rightarrow> sql_error + 't" where
  "InvariantSufficientCheck slv initialState state1 =
     ebind (referentialIntegrity slv initialState) (\<lambda>refIntegrity1.
     ebind (referentialIntegrity slv state1) (\<lambda>refIntegrity2.
     ebind (api (mkTerm slv IMPLIES [refIntegrity1, refIntegrity2])) (\<lambda>testPR.
     api (mkTerm slv NOT_kind [testPR]))))"

section \<open>Their meaning\<close>

text \<open>
  A state is well-formed when every term has the sort of its table; the columns of a foreign
  key that are present, found at positions \<open>i\<close> and \<open>j\<close>, must have one sort.
\<close>

definition entry_wf :: "('s, 't) solver \<Rightarrow> 's sql_table \<times> 't \<Rightarrow> bool" where
  "entry_wf slv A \<longleftrightarrow> table_wf slv (fst A) \<and> distinct (map fst (columnNames (fst A))) \<and>
     getSort slv (snd A) = tableSort (fst A)"

definition state_wf :: "('s, 't) solver \<Rightarrow> ('s, 't) sql_state \<Rightarrow> bool" where
  "state_wf slv st \<longleftrightarrow> (\<forall>e \<in> set st. entry_wf slv (snd e))"

fun active_key :: "('s, 't) sql_state \<Rightarrow> 's sql_table \<times> 't \<Rightarrow> string list \<times> string list \<Rightarrow>
    (('s sql_table \<times> 't) \<times> nat \<times> ('s sql_table \<times> 't) \<times> nat) option" where
  "active_key st A (tables, columns) =
     (case map_of st (tables ! 1) of
        None \<Rightarrow> None
      | Some B \<Rightarrow>
          (case (column_index (columns ! 0) (columnNames (fst A)),
                 column_index (columns ! 1) (columnNames (fst B))) of
             (Some i, Some j) \<Rightarrow> Some (A, i, B, j)
           | _ \<Rightarrow> None))"

definition active_keys :: "('s, 't) sql_state \<Rightarrow>
    (('s sql_table \<times> 't) \<times> nat \<times> ('s sql_table \<times> 't) \<times> nat) list" where
  "active_keys st = concat (map (\<lambda>(name, A).
     List.map_filter (active_key st A) (getReferentialIntegrityInfo name)) st)"

definition keys_typed :: "('s, 't) sql_state \<Rightarrow> bool" where
  "keys_typed st \<longleftrightarrow> (\<forall>(A, i, B, j) \<in> set (active_keys st).
     snd (columnNames (fst A) ! i) = snd (columnNames (fst B) ! j))"

text \<open>Every value of the referencing column occurs in the referenced one.\<close>

definition key_kept :: "('t \<Rightarrow> row set) \<Rightarrow> ('s sql_table \<times> 't) \<times> nat \<times> ('s sql_table \<times> 't) \<times> nat \<Rightarrow> bool" where
  "key_kept rows = (\<lambda>(A, i, B, j). (\<lambda>r. r ! i) ` rows (snd A) \<subseteq> (\<lambda>r. r ! j) ` rows (snd B))"

definition integrity :: "('t \<Rightarrow> row set) \<Rightarrow> ('s, 't) sql_state \<Rightarrow> bool" where
  "integrity rows st \<longleftrightarrow> (\<forall>key \<in> set (active_keys st). key_kept rows key)"

lemma emap_concat:
  assumes "\<forall>x \<in> set xs. \<exists>ys. f x = Inr ys \<and> list_all2 P ys (g x)"
  shows "\<exists>yss. emap f xs = Inr yss \<and> list_all2 P (concat yss) (concat (map g xs))"
  using assms by (induction xs) (auto intro: list_all2_appendI)

lemma map_filter_concat:
  "List.map_filter f xs = concat (map (\<lambda>x. case f x of None \<Rightarrow> [] | Some y \<Rightarrow> [y]) xs)"
  by (induction xs) (auto simp: List.map_filter_def split: option.splits)

lemma singleton_image_subset: "(\<lambda>r. [f r]) ` A \<subseteq> (\<lambda>r. [g r]) ` B \<longleftrightarrow> f ` A \<subseteq> g ` B"
proof
  assume *: "(\<lambda>r. [f r]) ` A \<subseteq> (\<lambda>r. [g r]) ` B"
  show "f ` A \<subseteq> g ` B"
  proof
    fix x
    assume "x \<in> f ` A"
    then have "[x] \<in> (\<lambda>r. [g r]) ` B" using * by auto
    then show "x \<in> g ` B" by auto
  qed
next
  assume "f ` A \<subseteq> g ` B"
  then show "(\<lambda>r. [f r]) ` A \<subseteq> (\<lambda>r. [g r]) ` B" by (auto dest: subsetD)
qed

lemma column_present: "c \<in> set (getTableColumnNames T) \<longleftrightarrow> column_index c (columnNames T) \<noteq> None"
  by (auto simp: column_index_None getTableColumnNames_def)

lemma active_key_Some:
  assumes "active_key st A (tables, columns) = Some (A', i, B, j)"
  shows "A' = A" and "map_of st (tables ! 1) = Some B"
    and "column_index (columns ! 0) (columnNames (fst A)) = Some i"
    and "column_index (columns ! 1) (columnNames (fst B)) = Some j"
  using assms by (auto split: option.splits)

context cvc5
begin

lemma foreign_key_returns:
  assumes st: "state_wf slv st" and A: "entry_wf slv A"
    and typed: "\<And>A' i B j. active_key st A fk = Some (A', i, B, j) \<Longrightarrow>
      snd (columnNames (fst A') ! i) = snd (columnNames (fst B) ! j)"
  shows "\<exists>ts. foreign_key slv st A fk = Inr ts \<and>
    list_all2 (\<lambda>t key. formula t \<and> (\<forall>e. holds e t \<longleftrightarrow> key_kept (rows_of e) key)) ts
      (case active_key st A fk of None \<Rightarrow> [] | Some key \<Rightarrow> [key])"
proof -
  obtain tables columns where fk: "fk = (tables, columns)" by (cases fk)
  show ?thesis
  proof (cases "active_key st A fk")
    case None
    then show ?thesis
      by (auto simp: fk foreign_key_def column_present split: option.splits)
  next
    case (Some key)
    then obtain A' i B j where key: "key = (A', i, B, j)" by (cases key)
    note k = active_key_Some [OF Some [unfolded fk key]]
    let ?s = "snd (columnNames (fst A) ! i)"
    have same: "snd (columnNames (fst B) ! j) = ?s" using typed Some key k(1) by metis
    have B: "entry_wf slv B" using st map_of_SomeD [OF k(2)] by (auto simp: state_wf_def)
    have cols: "columns ! 0 \<in> set (getTableColumnNames (fst A))"
      "columns ! 1 \<in> set (getTableColumnNames (fst B))"
      using k(3,4) by (simp_all add: column_present)
    have "column_at (fst A) (columns ! 0) i ?s" using k(3) by (simp add: column_at_def)
    from RA_Project_column [OF _ _ _ this] A obtain a where
      a: "RA_Project slv (fst A) (snd A) [columns ! 0] = Inr (a, Table_projected slv (fst A) [columns ! 0])"
      "getSort slv a = table_sort slv [?s]" "\<And>e. rows_of e a = (\<lambda>r. [r ! i]) ` rows_of e (snd A)"
      unfolding entry_wf_def by blast
    have "column_at (fst B) (columns ! 1) j ?s" using k(4) same by (simp add: column_at_def)
    from RA_Project_column [OF _ _ _ this] B obtain b where
      b: "RA_Project slv (fst B) (snd B) [columns ! 1] = Inr (b, Table_projected slv (fst B) [columns ! 1])"
      "getSort slv b = table_sort slv [?s]" "\<And>e. rows_of e b = (\<lambda>r. [r ! j]) ` rows_of e (snd B)"
      unfolding entry_wf_def by blast
    from subset_term [OF a(2) b(2)] obtain t where
      t: "mkTerm slv SET_SUBSET [a, b] = Some t" "formula t"
      "\<And>e. holds e t \<longleftrightarrow> rows_of e a \<subseteq> rows_of e b" by blast
    have "foreign_key slv st A fk = Inr [t]"
      using k(2) cols a(1) b(1) t(1) by (simp add: fk foreign_key_def)
    moreover have "holds e t \<longleftrightarrow> key_kept (rows_of e) key" for e
      unfolding t(3) a(3) b(3) key k(1) key_kept_def singleton_image_subset by simp
    ultimately show ?thesis using Some t(2) by simp
  qed
qed

lemma refIntegrities_returns:
  assumes st: "state_wf slv st" and typed: "keys_typed st"
  shows "\<exists>ts. refIntegrities slv st = Inr ts \<and>
    list_all2 (\<lambda>t key. formula t \<and> (\<forall>e. holds e t \<longleftrightarrow> key_kept (rows_of e) key)) ts (active_keys st)"
proof -
  let ?P = "\<lambda>t key. formula t \<and> (\<forall>e. holds e t \<longleftrightarrow> key_kept (rows_of e) key)"
  let ?f = "\<lambda>(name, A). ebind (emap (foreign_key slv st A) (getReferentialIntegrityInfo name))
         (\<lambda>tss. Inr (concat tss))"
  let ?g = "\<lambda>(name, A). List.map_filter (active_key st A) (getReferentialIntegrityInfo name)"
  have "\<forall>x \<in> set st. \<exists>ts. ?f x = Inr ts \<and> list_all2 ?P ts (?g x)"
  proof
    fix x
    assume x: "x \<in> set st"
    obtain name A where xA: "x = (name, A)" by (cases x)
    have A: "entry_wf slv A" using st x xA by (auto simp: state_wf_def)
    let ?fks = "getReferentialIntegrityInfo name"
    let ?k = "\<lambda>fk. case active_key st A fk of None \<Rightarrow> [] | Some key \<Rightarrow> [key]"
    have "\<forall>fk \<in> set ?fks. \<exists>ts. foreign_key slv st A fk = Inr ts \<and> list_all2 ?P ts (?k fk)"
    proof
      fix fk
      assume fk: "fk \<in> set ?fks"
      show "\<exists>ts. foreign_key slv st A fk = Inr ts \<and> list_all2 ?P ts (?k fk)"
      proof (rule foreign_key_returns [OF st A])
        fix A' i B j
        assume key: "active_key st A fk = Some (A', i, B, j)"
        have "(A', i, B, j) \<in> set (?g x)"
          using fk key by (force simp: xA List.map_filter_def)
        then have "(A', i, B, j) \<in> set (active_keys st)" using x by (auto simp: active_keys_def)
        then show "snd (columnNames (fst A') ! i) = snd (columnNames (fst B) ! j)"
          using typed by (auto simp: keys_typed_def)
      qed
    qed
    from emap_concat [OF this] show "\<exists>ts. ?f x = Inr ts \<and> list_all2 ?P ts (?g x)"
      by (auto simp: xA map_filter_concat)
  qed
  from emap_concat [OF this] show ?thesis by (auto simp: refIntegrities_def active_keys_def)
qed

lemma and_all_returns:
  assumes "formula t" and "\<forall>u \<in> set us. formula u"
  shows "\<exists>p. and_all slv t us = Inr p \<and> formula p \<and>
    (\<forall>e. holds e p \<longleftrightarrow> holds e t \<and> (\<forall>u \<in> set us. holds e u))"
  using assms
proof (induction us arbitrary: t)
  case Nil
  then show ?case by simp
next
  case (Cons u us)
  from conj [of t u] Cons.prems obtain p where
    p: "mkTerm slv AND_kind [t, u] = Some p" "formula p" "\<And>e. holds e p \<longleftrightarrow> holds e t \<and> holds e u"
    by auto
  from Cons.IH [OF p(2)] Cons.prems(2) show ?case using p(1,3) by auto
qed

lemma combined_returns:
  assumes "ts \<noteq> []" and "\<forall>t \<in> set ts. formula t"
  shows "\<exists>p. combined slv ts = Inr p \<and> formula p \<and> (\<forall>e. holds e p \<longleftrightarrow> (\<forall>t \<in> set ts. holds e t))"
proof -
  obtain t us where ts: "ts = t # us" using assms(1) by (cases ts) auto
  from and_all_returns [of t us] assms(2) show ?thesis by (simp add: ts combined_def at_index_def)
qed

lemma list_all2_holds:
  assumes "list_all2 (\<lambda>t key. formula t \<and> (\<forall>e. holds e t \<longleftrightarrow> P e key)) ts ks"
  shows "\<forall>t \<in> set ts. formula t" and "(\<forall>t \<in> set ts. holds e t) \<longleftrightarrow> (\<forall>key \<in> set ks. P e key)"
  using assms by (induction rule: list_all2_induct) auto

text \<open>The formula holds exactly in the interpretations with referential integrity.\<close>

lemma referentialIntegrity_returns:
  assumes "state_wf slv st" and "keys_typed st" and "active_keys st \<noteq> []"
  shows "\<exists>p. referentialIntegrity slv st = Inr p \<and> formula p \<and>
    (\<forall>e. holds e p \<longleftrightarrow> integrity (rows_of e) st)"
proof -
  from refIntegrities_returns [OF assms(1,2)] obtain ts where
    ts: "refIntegrities slv st = Inr ts"
    "list_all2 (\<lambda>t key. formula t \<and> (\<forall>e. holds e t \<longleftrightarrow> key_kept (rows_of e) key)) ts (active_keys st)"
    by blast
  have "ts \<noteq> []" using ts(2) assms(3) by auto
  from combined_returns [OF this list_all2_holds(1) [OF ts(2)]] ts(1) list_all2_holds(2) [OF ts(2)]
  show ?thesis by (auto simp: referentialIntegrity_def integrity_def)
qed

text \<open>Without any foreign key the first element of an empty vector is read.\<close>

lemma referentialIntegrity_undefined:
  assumes "state_wf slv st" and "active_keys st = []"
  shows "referentialIntegrity slv st = Inl Bad_access"
proof -
  have "keys_typed st" using assms(2) by (simp add: keys_typed_def)
  from refIntegrities_returns [OF assms(1) this] assms(2) show ?thesis
    by (auto simp: referentialIntegrity_def combined_def at_index_def)
qed

lemma not_implied_returns:
  assumes "formula p" and "formula q"
  shows "\<exists>i t. mkTerm slv IMPLIES [p, q] = Some i \<and> mkTerm slv NOT_kind [i] = Some t \<and> formula t \<and>
    (\<forall>e. holds e t \<longleftrightarrow> holds e p \<and> \<not> holds e q)"
proof -
  from imp [OF assms] obtain i where
    i: "mkTerm slv IMPLIES [p, q] = Some i" "formula i" "\<And>e. holds e i \<longleftrightarrow> (holds e p \<longrightarrow> holds e q)"
    by blast
  from neg [OF i(2)] i show ?thesis by auto
qed

lemma PRCommutativeCheck_returns:
  assumes "state_wf slv st1" and "keys_typed st1" and "active_keys st1 \<noteq> []"
    and "state_wf slv st2" and "keys_typed st2" and "active_keys st2 \<noteq> []"
  shows "\<exists>p. PRCommutativeCheck slv st1 st2 = Inr p \<and> formula p \<and>
    (\<forall>e. holds e p \<longleftrightarrow> integrity (rows_of e) st1 \<and> \<not> integrity (rows_of e) st2)"
proof -
  from referentialIntegrity_returns [OF assms(1-3)] obtain p where
    p: "referentialIntegrity slv st1 = Inr p" "formula p" "\<And>e. holds e p \<longleftrightarrow> integrity (rows_of e) st1"
    by blast
  from referentialIntegrity_returns [OF assms(4-6)] obtain q where
    q: "referentialIntegrity slv st2 = Inr q" "formula q" "\<And>e. holds e q \<longleftrightarrow> integrity (rows_of e) st2"
    by blast
  from not_implied_returns [OF p(2) q(2)] show ?thesis
    using p(1,3) q(1,3) by (auto simp: PRCommutativeCheck_def)
qed

lemma InvariantSufficientCheck_returns:
  assumes "state_wf slv st1" and "keys_typed st1" and "active_keys st1 \<noteq> []"
    and "state_wf slv st2" and "keys_typed st2" and "active_keys st2 \<noteq> []"
  shows "\<exists>p. InvariantSufficientCheck slv st1 st2 = Inr p \<and> formula p \<and>
    (\<forall>e. holds e p \<longleftrightarrow> integrity (rows_of e) st1 \<and> \<not> integrity (rows_of e) st2)"
  using PRCommutativeCheck_returns [OF assms]
  unfolding PRCommutativeCheck_def InvariantSufficientCheck_def .

text \<open>Two states compare table by table; a table the second lacks makes the solver reject.\<close>

lemma equalities_returns:
  assumes "state_wf slv st1"
    and "\<forall>(key, A) \<in> set st1. \<exists>B. map_of st2 key = Some B \<and> getSort slv (snd B) = getSort slv (snd A)"
  shows "\<exists>ts. equalities slv st1 st2 = Inr ts \<and>
    list_all2 (\<lambda>t en. formula t \<and>
      (\<forall>e. holds e t \<longleftrightarrow> rows_of e (snd (snd en)) = rows_of e (snd (the (map_of st2 (fst en)))))) ts st1"
proof -
  let ?P = "\<lambda>en t. formula t \<and>
      (\<forall>e. holds e t \<longleftrightarrow> rows_of e (snd (snd en)) = rows_of e (snd (the (map_of st2 (fst en)))))"
  have "\<forall>en \<in> set st1. \<exists>t. (\<lambda>(key, table1).
      api (mkTerm slv EQUAL [snd table1, snd (fst (state_at slv key st2))])) en = Inr t \<and> ?P en t"
  proof
    fix en
    assume en: "en \<in> set st1"
    obtain key A where x: "en = (key, A)" by (cases en)
    obtain B where B: "map_of st2 key = Some B" "getSort slv (snd B) = getSort slv (snd A)"
      using assms(2) en x by auto
    have "entry_wf slv A" using assms(1) en x by (auto simp: state_wf_def)
    then have "getSort slv (snd A) = table_sort slv (map snd (columnNames (fst A)))"
      by (simp add: entry_wf_def table_wf_def)
    from equal_tables [OF this] this B(2)
    obtain t where "mkTerm slv EQUAL [snd A, snd B] = Some t" "formula t"
      "\<And>e. holds e t \<longleftrightarrow> rows_of e (snd A) = rows_of e (snd B)" by metis
    then show "\<exists>t. (\<lambda>(key, table1).
      api (mkTerm slv EQUAL [snd table1, snd (fst (state_at slv key st2))])) en = Inr t \<and> ?P en t"
      using B(1) by (auto simp: x state_at_def)
  qed
  from emap_returns [OF this] show ?thesis
    unfolding equalities_def by (auto simp: list_all2_conv_all_nth)
qed

lemma StateCommutativeCheck_returns:
  assumes "state_wf slv st1" and "st1 \<noteq> []"
    and "\<forall>(key, A) \<in> set st1. \<exists>B. map_of st2 key = Some B \<and> getSort slv (snd B) = getSort slv (snd A)"
  shows "\<exists>p. StateCommutativeCheck slv st1 st2 = Inr p \<and> formula p \<and>
    (\<forall>e. holds e p \<longleftrightarrow> (\<exists>(key, A) \<in> set st1. rows_of e (snd A) \<noteq> rows_of e (snd (the (map_of st2 key)))))"
proof -
  from equalities_returns [OF assms(1,3)] obtain ts where
    ts: "equalities slv st1 st2 = Inr ts" "list_all2 (\<lambda>t en. formula t \<and>
      (\<forall>e. holds e t \<longleftrightarrow> rows_of e (snd (snd en)) = rows_of e (snd (the (map_of st2 (fst en)))))) ts st1"
    by blast
  have "ts \<noteq> []" using ts(2) assms(2) by auto
  from combined_returns [OF this list_all2_holds(1) [OF ts(2)]] obtain q where
    q: "combined slv ts = Inr q" "formula q" "\<And>e. holds e q \<longleftrightarrow> (\<forall>t \<in> set ts. holds e t)" by blast
  from neg [OF q(2)] obtain p where
    p: "mkTerm slv NOT_kind [q] = Some p" "formula p" "\<And>e. holds e p \<longleftrightarrow> \<not> holds e q" by blast
  have "holds e p \<longleftrightarrow> (\<exists>(key, A) \<in> set st1. rows_of e (snd A) \<noteq> rows_of e (snd (the (map_of st2 key))))" for e
    unfolding p(3) q(3) list_all2_holds(2) [OF ts(2), of e] by (simp add: case_prod_beta)
  then show ?thesis using ts(1) q(1) p(1,2) by (simp add: StateCommutativeCheck_def)
qed

lemma StateCommutativeCheck_missing:
  assumes "state_wf slv st1" and "st1 = (key, A) # rest" and "map_of st2 key = None"
  shows "StateCommutativeCheck slv st1 st2 = Inl Api_exception"
  using assms null_equal [of "snd A"]
  by (simp add: StateCommutativeCheck_def equalities_def state_at_def Let_def)

end

end
