(* ===== verification/Sql_Reference.thy ===== *)
theory Sql_Reference
  imports Sql_Typing Sql_Prover
begin

text \<open>
  A reference semantics of the solver's terms: a term carries its sort and the value it has in
  each interpretation of the constants and variables. It satisfies the contract
  \<open>cvc5\<close>, so that the theorems about the analysis speak of an existing structure.
\<close>

section \<open>Sorts and terms\<close>

datatype rsort =
    S_int | S_str | S_real | S_null
  | S_tuple "rsort list" | S_set rsort | S_bag rsort | S_function "rsort list" rsort

text \<open>An interpretation: the rows of the variables, and those of the table constants.\<close>

type_synonym renv = "(rsort list \<Rightarrow> string \<Rightarrow> row) \<times> (nat \<Rightarrow> string \<Rightarrow> row set)"

datatype rterm =
    T_cell rsort "renv \<Rightarrow> cell"
  | T_row "rsort list" "renv \<Rightarrow> row"
  | T_table "rsort list" "renv \<Rightarrow> row set"
  | T_formula "renv \<Rightarrow> bool"
  | T_var rsort string
  | T_vars rsort string
  | T_lambda rsort string rterm
  | T_constructor "rsort list"
  | T_selector nat
  | T_const rsort
  | T_null

fun sort_of :: "rterm \<Rightarrow> rsort" where
  "sort_of (T_cell s f) = s"
| "sort_of (T_row ss f) = S_tuple ss"
| "sort_of (T_table ss f) = S_set (S_tuple ss)"
| "sort_of (T_var s n) = s"
| "sort_of (T_const s) = s"
| "sort_of t = S_null"

definition fit :: "rsort list \<Rightarrow> row \<Rightarrow> row" where
  "fit ss r = (if length r = length ss then r else replicate (length ss) (Cell_int 0))"

lemma fit_length [simp]: "length (fit ss r) = length ss"
  by (simp add: fit_def)

lemma fit_same [simp]: "length r = length ss \<Longrightarrow> fit ss r = r"
  by (simp add: fit_def)

fun ref_cell :: "renv \<Rightarrow> rterm \<Rightarrow> cell" where
  "ref_cell e (T_cell s f) = f e"
| "ref_cell e t = Cell_int 0"

fun raw_row :: "renv \<Rightarrow> rterm \<Rightarrow> row" where
  "raw_row e (T_row ss f) = f e"
| "raw_row e (T_var (S_tuple ss) n) = fst e ss n"
| "raw_row e t = []"

definition ref_row :: "renv \<Rightarrow> rterm \<Rightarrow> row" where
  "ref_row e t = (case sort_of t of S_tuple ss \<Rightarrow> fit ss (raw_row e t) | _ \<Rightarrow> [])"

fun raw_rows :: "renv \<Rightarrow> rterm \<Rightarrow> row set" where
  "raw_rows e (T_table ss f) = f e"
| "raw_rows e t = {}"

definition ref_rows :: "renv \<Rightarrow> rterm \<Rightarrow> row set" where
  "ref_rows e t = (case sort_of t of
     S_set (S_tuple ss) \<Rightarrow> {r \<in> raw_rows e t. length r = length ss}
   | _ \<Rightarrow> {})"

fun ref_holds :: "renv \<Rightarrow> rterm \<Rightarrow> bool" where
  "ref_holds e (T_formula f) = f e"
| "ref_holds e t = False"

fun is_formula :: "rterm \<Rightarrow> bool" where
  "is_formula (T_formula f) = True"
| "is_formula t = False"

fun ref_bound :: "renv \<Rightarrow> rterm \<Rightarrow> row \<Rightarrow> renv" where
  "ref_bound e (T_var (S_tuple ss) n) r = ((fst e)(ss := (fst e ss)(n := r)), snd e)"
| "ref_bound e t r = e"

section \<open>The operations\<close>

definition tuple_of :: "rterm \<Rightarrow> rsort list option" where
  "tuple_of t = (case sort_of t of S_tuple ss \<Rightarrow> Some ss | _ \<Rightarrow> None)"

definition table_of :: "rterm \<Rightarrow> rsort list option" where
  "table_of t = (case sort_of t of S_set (S_tuple ss) \<Rightarrow> Some ss | _ \<Rightarrow> None)"

definition same_tables :: "rterm \<Rightarrow> rterm \<Rightarrow> (rsort list \<Rightarrow> rterm) \<Rightarrow> rterm option" where
  "same_tables a b f = (case table_of a of
     Some ss \<Rightarrow> if table_of b = Some ss then Some (f ss) else None
   | None \<Rightarrow> None)"

definition is_scalar :: "rsort \<Rightarrow> bool" where
  "is_scalar s \<longleftrightarrow> s \<in> {S_int, S_str, S_real}"

definition mk_comparison :: "kind \<Rightarrow> rterm \<Rightarrow> rterm \<Rightarrow> rterm option" where
  "mk_comparison k a b =
     (if is_scalar (sort_of a) \<and> sort_of b = sort_of a \<and>
         (k \<in> {EQUAL, DISTINCT} \<or> sort_of a \<noteq> S_str)
      then Some (T_formula (\<lambda>e. compare_cells k (ref_cell e a) (ref_cell e b)))
      else if k = EQUAL
      then same_tables a b (\<lambda>ss. T_formula (\<lambda>e. ref_rows e a = ref_rows e b))
      else None)"

definition mk_unary :: "kind \<Rightarrow> rterm \<Rightarrow> rterm option" where
  "mk_unary k a =
     (if k = SET_SINGLETON
      then map_option (\<lambda>ss. T_table ss (\<lambda>e. {ref_row e a})) (tuple_of a)
      else if k = VARIABLE_LIST
      then (case a of T_var s n \<Rightarrow> Some (T_vars s n) | _ \<Rightarrow> None)
      else if k = NOT_kind \<and> is_formula a then Some (T_formula (\<lambda>e. \<not> ref_holds e a))
      else None)"

definition mk_filter :: "rterm \<Rightarrow> rterm \<Rightarrow> rterm option" where
  "mk_filter f a = (case f of
     T_lambda (S_tuple ss) n p \<Rightarrow>
       if table_of a = Some ss
       then Some (T_table ss (\<lambda>e. {r \<in> ref_rows e a. ref_holds (ref_bound e (T_var (S_tuple ss) n) r) p}))
       else None
   | _ \<Rightarrow> None)"

definition mk_map :: "rterm \<Rightarrow> rterm \<Rightarrow> rterm option" where
  "mk_map f a = (case f of
     T_lambda (S_tuple ss) n b \<Rightarrow>
       (case tuple_of b of
          Some ss' \<Rightarrow>
            if table_of a = Some ss
            then Some (T_table ss'
              (\<lambda>e. (\<lambda>r. ref_row (ref_bound e (T_var (S_tuple ss) n) r) b) ` ref_rows e a))
            else None
        | None \<Rightarrow> None)
   | _ \<Rightarrow> None)"

definition mk_product :: "rterm \<Rightarrow> rterm \<Rightarrow> rterm option" where
  "mk_product a b = (case (table_of a, table_of b) of
     (Some ss, Some ss') \<Rightarrow>
       Some (T_table (ss @ ss') (\<lambda>e. {x @ y | x y. x \<in> ref_rows e a \<and> y \<in> ref_rows e b}))
   | _ \<Rightarrow> None)"

definition mk_select :: "rterm \<Rightarrow> rterm \<Rightarrow> rterm option" where
  "mk_select s w = (case (s, tuple_of w) of
     (T_selector j, Some ss) \<Rightarrow>
       if j < length ss then Some (T_cell (ss ! j) (\<lambda>e. ref_row e w ! j)) else None
   | _ \<Rightarrow> None)"

definition mk_connective :: "(bool \<Rightarrow> bool \<Rightarrow> bool) \<Rightarrow> rterm \<Rightarrow> rterm \<Rightarrow> rterm option" where
  "mk_connective f a b =
     (if is_formula a \<and> is_formula b then Some (T_formula (\<lambda>e. f (ref_holds e a) (ref_holds e b))) else None)"

definition mk_binary :: "kind \<Rightarrow> rterm \<Rightarrow> rterm \<Rightarrow> rterm option" where
  "mk_binary k a b =
     (if k \<in> {EQUAL, DISTINCT, LT, LEQ, GT, GEQ} then mk_comparison k a b
      else if k = SET_UNION
      then same_tables a b (\<lambda>ss. T_table ss (\<lambda>e. ref_rows e a \<union> ref_rows e b))
      else if k = SET_MINUS
      then same_tables a b (\<lambda>ss. T_table ss (\<lambda>e. ref_rows e a - ref_rows e b))
      else if k = SET_SUBSET
      then same_tables a b (\<lambda>ss. T_formula (\<lambda>e. ref_rows e a \<subseteq> ref_rows e b))
      else if k = RELATION_PRODUCT then mk_product a b
      else if k = SET_FILTER then mk_filter a b
      else if k = SET_MAP then mk_map a b
      else if k = APPLY_SELECTOR then mk_select a b
      else if k = AND_kind then mk_connective (\<and>) a b
      else if k = IMPLIES then mk_connective (\<longrightarrow>) a b
      else if k = LAMBDA then (case a of T_vars s n \<Rightarrow> Some (T_lambda s n b) | _ \<Rightarrow> None)
      else None)"

definition mk_constructor :: "rterm list \<Rightarrow> rterm option" where
  "mk_constructor ts = (case ts of
     T_constructor ss # us \<Rightarrow>
       if map sort_of us = ss then Some (T_row ss (\<lambda>e. map (ref_cell e) us)) else None
   | _ \<Rightarrow> None)"

definition ref_mkTerm :: "kind \<Rightarrow> rterm list \<Rightarrow> rterm option" where
  "ref_mkTerm k ts =
     (if k = APPLY_CONSTRUCTOR then mk_constructor ts
      else (case ts of [a] \<Rightarrow> mk_unary k a | [a, b] \<Rightarrow> mk_binary k a b | _ \<Rightarrow> None))"

definition ref_solver :: "(rsort, rterm) solver" where
  "ref_solver = \<lparr>
     getIntegerSort = S_int, getStringSort = S_str, getRealSort = S_real, nullSort = S_null,
     mkTupleSort = S_tuple, mkSetSort = S_set, mkBagSort = S_bag, mkFunctionSort = S_function,
     getSetElementSort = (\<lambda>s. case s of S_set t \<Rightarrow> Some t | _ \<Rightarrow> None),
     getBagElementSort = (\<lambda>s. case s of S_bag t \<Rightarrow> Some t | _ \<Rightarrow> None),
     getTupleSorts = (\<lambda>s. case s of S_tuple ss \<Rightarrow> Some ss | _ \<Rightarrow> None),
     getDatatype = (\<lambda>s. case s of
         S_tuple ss \<Rightarrow> Some (T_constructor ss,
           map (\<lambda>j. (''field'', ss ! j, T_selector j)) [0..<length ss])
       | _ \<Rightarrow> None),
     nullTerm = T_null, getSort = sort_of,
     mkInteger = (\<lambda>i. T_cell S_int (\<lambda>e. Cell_int i)),
     mkString = (\<lambda>s. T_cell S_str (\<lambda>e. Cell_str s)),
     mkReal = (\<lambda>i m. T_cell S_real (\<lambda>e. Cell_real (of_int i / of_int m))),
     mkVar = T_var,
     mkConst = (\<lambda>k s n. case s of
         S_set (S_tuple ss) \<Rightarrow> T_table ss (\<lambda>e. snd e k n)
       | _ \<Rightarrow> T_const s),
     mkEmptySet = (\<lambda>s. case s of S_set (S_tuple ss) \<Rightarrow> Some (T_table ss (\<lambda>e. {})) | _ \<Rightarrow> None),
     mkTuple = (\<lambda>ts. T_row (map sort_of ts) (\<lambda>e. map (ref_cell e) ts)),
     mkTerm = ref_mkTerm,
     mkAggregate = (\<lambda>is ts. None)\<rparr>"

section \<open>The contract\<close>

lemma ref_row_length: "sort_of w = S_tuple ss \<Longrightarrow> length (ref_row e w) = length ss"
  by (simp add: ref_row_def)

lemma ref_rows_length: "sort_of t = S_set (S_tuple ss) \<Longrightarrow> r \<in> ref_rows e t \<Longrightarrow> length r = length ss"
  by (simp add: ref_rows_def)

lemma ref_rows_mem: "r \<in> ref_rows e (T_table ss f) \<longleftrightarrow> r \<in> f e \<and> length r = length ss"
  by (simp add: ref_rows_def)

lemma tuple_of_Some: "tuple_of t = Some ss \<longleftrightarrow> sort_of t = S_tuple ss"
  by (auto simp: tuple_of_def split: rsort.splits)

lemma table_of_Some: "table_of t = Some ss \<longleftrightarrow> sort_of t = S_set (S_tuple ss)"
  by (auto simp: table_of_def split: rsort.splits)

lemma same_tables_sorted:
  "sort_of a = S_set (S_tuple ss) \<Longrightarrow> sort_of b = S_set (S_tuple ss) \<Longrightarrow> same_tables a b f = Some (f ss)"
  by (simp add: same_tables_def table_of_def)

lemma same_tables_Some:
  "same_tables a b f = Some t \<Longrightarrow>
   \<exists>ss. sort_of a = S_set (S_tuple ss) \<and> sort_of b = S_set (S_tuple ss) \<and> t = f ss"
  by (auto simp: same_tables_def table_of_Some split: option.splits if_splits)

lemma ref_mkTerm_binary:
  "k \<noteq> APPLY_CONSTRUCTOR \<Longrightarrow> ref_mkTerm k [a, b] = mk_binary k a b"
  "k \<noteq> APPLY_CONSTRUCTOR \<Longrightarrow> ref_mkTerm k [a] = mk_unary k a"
  by (simp_all add: ref_mkTerm_def)

lemmas ref_table_simps = table_sort_def scalar_sort_def ref_solver_def

interpretation reference: cvc5 ref_solver ref_cell ref_row ref_rows ref_holds is_formula ref_bound
proof
  show "getIntegerSort ref_solver \<noteq> getStringSort ref_solver" by (simp add: ref_solver_def)
  show "getSetElementSort ref_solver (mkSetSort ref_solver s) = Some s" for s
    by (simp add: ref_solver_def)
  show "getTupleSorts ref_solver (mkTupleSort ref_solver ss) = Some ss" for ss
    by (simp add: ref_solver_def)
  show "\<exists>c sels. getDatatype ref_solver (mkTupleSort ref_solver ss) = Some (c, sels) \<and>
      map (fst \<circ> snd) sels = ss" for ss
    by (simp add: ref_solver_def comp_def map_nth)
  show "getSort ref_solver (mkInteger ref_solver i) = getIntegerSort ref_solver" for i
    by (simp add: ref_solver_def)
  show "ref_cell e (mkInteger ref_solver i) = Cell_int i" for e i by (simp add: ref_solver_def)
  show "getSort ref_solver (mkString ref_solver str) = getStringSort ref_solver" for str
    by (simp add: ref_solver_def)
  show "ref_cell e (mkString ref_solver str) = Cell_str str" for e str by (simp add: ref_solver_def)
  show "getSort ref_solver (mkReal ref_solver i m) = getRealSort ref_solver" for i m
    by (simp add: ref_solver_def)
  show "ref_cell e (mkReal ref_solver i m) = Cell_real (of_int i / of_int m)" for e i m
    by (simp add: ref_solver_def)
  show "getSort ref_solver (mkVar ref_solver s n) = s" for s n by (simp add: ref_solver_def)
  show "ref_row (ref_bound e (mkVar ref_solver (mkTupleSort ref_solver ss) n) r)
      (mkVar ref_solver (mkTupleSort ref_solver ss) n) = r" if "length r = length ss" for r ss e n
    using that by (simp add: ref_solver_def ref_row_def)
  show "length r = length ss"
    if "getSort ref_solver t = table_sort ref_solver ss" "r \<in> ref_rows e t" for t ss r e
    using that by (auto simp: ref_table_simps intro: ref_rows_length)
  show "getSort ref_solver (mkTuple ref_solver ts) = mkTupleSort ref_solver (map (getSort ref_solver) ts)" for ts
    by (simp add: ref_solver_def)
  show "ref_row e (mkTuple ref_solver ts) = map (ref_cell e) ts" for e ts
    by (simp add: ref_solver_def ref_row_def)
  show "mkTerm ref_solver APPLY_CONSTRUCTOR (c # ts) \<noteq> None \<longleftrightarrow> map (getSort ref_solver) ts = ss"
    if "getDatatype ref_solver (mkTupleSort ref_solver ss) = Some (c, sels)" for ss c sels ts
    using that by (auto simp: ref_solver_def ref_mkTerm_def mk_constructor_def split: if_splits)
  show "getSort ref_solver t = mkTupleSort ref_solver ss \<and> ref_row e t = map (ref_cell e) ts"
    if "getDatatype ref_solver (mkTupleSort ref_solver ss) = Some (c, sels)"
      "mkTerm ref_solver APPLY_CONSTRUCTOR (c # ts) = Some t" for ss c sels ts t e
    using that
    by (auto simp: ref_solver_def ref_mkTerm_def mk_constructor_def ref_row_def split: if_splits)
  show "\<exists>t. mkTerm ref_solver APPLY_SELECTOR [snd (snd (sels ! j)), w] = Some t \<and>
        getSort ref_solver t = ss ! j \<and> (\<forall>e. ref_cell e t = ref_row e w ! j)"
    if "getDatatype ref_solver (mkTupleSort ref_solver ss) = Some (c, sels)"
      "getSort ref_solver w = mkTupleSort ref_solver ss" "j < length ss" for ss c sels w j
    using that by (auto simp: ref_solver_def ref_mkTerm_binary mk_binary_def mk_select_def tuple_of_def)
  show "\<exists>t. mkTerm ref_solver SET_SINGLETON [w] = Some t \<and>
        getSort ref_solver t = table_sort ref_solver ss \<and> (\<forall>e. ref_rows e t = {ref_row e w})"
    if "getSort ref_solver w = mkTupleSort ref_solver ss" for w ss
    using that by (auto simp: ref_table_simps ref_mkTerm_binary mk_unary_def tuple_of_def
        ref_rows_mem ref_row_length)
  show "\<exists>t. mkTerm ref_solver SET_UNION [a, b] = Some t \<and>
        getSort ref_solver t = table_sort ref_solver ss \<and>
        (\<forall>e. ref_rows e t = ref_rows e a \<union> ref_rows e b)"
    if "getSort ref_solver a = table_sort ref_solver ss" "getSort ref_solver b = table_sort ref_solver ss"
    for a b ss
    using that by (auto simp: ref_table_simps ref_mkTerm_binary mk_binary_def same_tables_sorted
        ref_rows_mem ref_rows_length)
  show "getSort ref_solver b = getSort ref_solver a \<and> getSort ref_solver t = getSort ref_solver a"
    if "mkTerm ref_solver SET_UNION [a, b] = Some t" for a b t
    using that by (auto simp: ref_solver_def ref_mkTerm_binary mk_binary_def dest: same_tables_Some)
  show "\<exists>t. mkTerm ref_solver SET_MINUS [a, b] = Some t \<and>
        getSort ref_solver t = table_sort ref_solver ss \<and>
        (\<forall>e. ref_rows e t = ref_rows e a - ref_rows e b)"
    if "getSort ref_solver a = table_sort ref_solver ss" "getSort ref_solver b = table_sort ref_solver ss"
    for a b ss
    using that by (auto simp: ref_table_simps ref_mkTerm_binary mk_binary_def same_tables_sorted
        ref_rows_mem ref_rows_length)
  show "\<exists>t. mkTerm ref_solver SET_SUBSET [a, b] = Some t \<and> is_formula t \<and>
        (\<forall>e. ref_holds e t \<longleftrightarrow> ref_rows e a \<subseteq> ref_rows e b)"
    if "getSort ref_solver a = table_sort ref_solver ss" "getSort ref_solver b = table_sort ref_solver ss"
    for a b ss
    using that by (simp add: ref_table_simps ref_mkTerm_binary mk_binary_def same_tables_sorted)
  show "\<exists>t. mkTerm ref_solver RELATION_PRODUCT [a, b] = Some t \<and>
        getSort ref_solver t = table_sort ref_solver (ss @ ss') \<and>
        (\<forall>e. ref_rows e t = {x @ y | x y. x \<in> ref_rows e a \<and> y \<in> ref_rows e b})"
    if "getSort ref_solver a = table_sort ref_solver ss" "getSort ref_solver b = table_sort ref_solver ss'"
    for a b ss ss'
    using that by (force simp: ref_table_simps ref_mkTerm_binary mk_binary_def mk_product_def table_of_def
        ref_rows_mem ref_rows_length)
  show "\<exists>vl. mkTerm ref_solver VARIABLE_LIST [mkVar ref_solver s n] = Some vl" for s n
    by (simp add: ref_solver_def ref_mkTerm_binary mk_unary_def)
  show "\<exists>f. mkTerm ref_solver LAMBDA [vl, b] = Some f"
    if "mkTerm ref_solver VARIABLE_LIST [mkVar ref_solver s n] = Some vl" for s n vl b
    using that by (auto simp: ref_solver_def ref_mkTerm_binary mk_unary_def mk_binary_def)
  show "\<exists>t. mkTerm ref_solver SET_FILTER [f, a] = Some t \<and>
        getSort ref_solver t = table_sort ref_solver ss \<and>
        (\<forall>e. ref_rows e t = {r \<in> ref_rows e a.
           ref_holds (ref_bound e (mkVar ref_solver (mkTupleSort ref_solver ss) n) r) p})"
    if "mkTerm ref_solver VARIABLE_LIST [mkVar ref_solver (mkTupleSort ref_solver ss) n] = Some vl"
      "mkTerm ref_solver LAMBDA [vl, p] = Some f" "getSort ref_solver a = table_sort ref_solver ss"
    for ss n vl p f a
    using that by (auto simp: ref_table_simps ref_mkTerm_binary mk_unary_def mk_binary_def mk_filter_def
        table_of_def ref_rows_mem ref_rows_length)
  show "\<exists>t. mkTerm ref_solver SET_MAP [f, a] = Some t \<and>
        getSort ref_solver t = table_sort ref_solver ss' \<and>
        (\<forall>e. ref_rows e t
           = (\<lambda>r. ref_row (ref_bound e (mkVar ref_solver (mkTupleSort ref_solver ss) n) r) b) ` ref_rows e a)"
    if "mkTerm ref_solver VARIABLE_LIST [mkVar ref_solver (mkTupleSort ref_solver ss) n] = Some vl"
      "mkTerm ref_solver LAMBDA [vl, b] = Some f" "getSort ref_solver b = mkTupleSort ref_solver ss'"
      "getSort ref_solver a = table_sort ref_solver ss" for ss n vl b f ss' a
    using that by (auto simp: ref_table_simps ref_mkTerm_binary mk_unary_def mk_binary_def mk_map_def
        table_of_def tuple_of_def ref_rows_mem ref_row_length)
  show "mkTerm ref_solver k [a, b] \<noteq> None \<longleftrightarrow> getSort ref_solver a = getSort ref_solver b"
    if "scalar_sort ref_solver (getSort ref_solver a)" "scalar_sort ref_solver (getSort ref_solver b)"
      "k \<in> {EQUAL, DISTINCT}" for a b k
    using that by (auto simp: ref_table_simps ref_mkTerm_binary mk_binary_def mk_comparison_def
        is_scalar_def same_tables_def table_of_def)
  show "mkTerm ref_solver k [a, b] \<noteq> None"
    if "getSort ref_solver a = getIntegerSort ref_solver" "getSort ref_solver b = getIntegerSort ref_solver"
      "k \<in> {LT, LEQ, GT, GEQ}" for a b k
    using that by (auto simp: ref_solver_def ref_mkTerm_binary mk_binary_def mk_comparison_def is_scalar_def)
  show "getSort ref_solver a = getSort ref_solver b \<and> is_formula p \<and>
      (ref_holds e p \<longleftrightarrow> compare_cells k (ref_cell e a) (ref_cell e b))"
    if "scalar_sort ref_solver (getSort ref_solver a)" "scalar_sort ref_solver (getSort ref_solver b)"
      "k \<in> {EQUAL, DISTINCT, LT, LEQ, GT, GEQ}" "mkTerm ref_solver k [a, b] = Some p" for a b k p e
    using that by (auto simp: ref_table_simps ref_mkTerm_binary mk_binary_def mk_comparison_def
        is_scalar_def same_tables_def table_of_def split: if_splits)
  show "\<exists>p. mkTerm ref_solver EQUAL [a, b] = Some p \<and> is_formula p \<and>
      (\<forall>e. ref_holds e p \<longleftrightarrow> ref_rows e a = ref_rows e b)"
    if "getSort ref_solver a = table_sort ref_solver ss" "getSort ref_solver b = table_sort ref_solver ss"
    for a b ss
    using that by (simp add: ref_table_simps ref_mkTerm_binary mk_binary_def mk_comparison_def
        is_scalar_def same_tables_sorted)
  show "mkTerm ref_solver EQUAL [t, nullTerm ref_solver] = None" for t
    by (auto simp: ref_solver_def ref_mkTerm_binary mk_binary_def mk_comparison_def
        is_scalar_def same_tables_def table_of_def split: option.splits)
  show "\<exists>p. mkTerm ref_solver AND_kind [a, b] = Some p \<and> is_formula p \<and>
      (\<forall>e. ref_holds e p \<longleftrightarrow> ref_holds e a \<and> ref_holds e b)" if "is_formula a" "is_formula b" for a b
    using that by (simp add: ref_solver_def ref_mkTerm_binary mk_binary_def mk_connective_def)
  show "\<exists>p. mkTerm ref_solver NOT_kind [a] = Some p \<and> is_formula p \<and>
      (\<forall>e. ref_holds e p \<longleftrightarrow> \<not> ref_holds e a)" if "is_formula a" for a
    using that by (simp add: ref_solver_def ref_mkTerm_binary mk_unary_def)
  show "\<exists>p. mkTerm ref_solver IMPLIES [a, b] = Some p \<and> is_formula p \<and>
      (\<forall>e. ref_holds e p \<longleftrightarrow> (ref_holds e a \<longrightarrow> ref_holds e b))" if "is_formula a" "is_formula b" for a b
    using that by (simp add: ref_solver_def ref_mkTerm_binary mk_binary_def mk_connective_def)
qed

end
