(* ===== verification/Sql_Results.thy ===== *)
theory Sql_Results
  imports Sql_Reference
begin

text \<open>
  The queries of the analysis end to end: the state and the rows each of them leaves, and how
  rows given as strings are read.
\<close>

section \<open>Starting a query\<close>

lemma map_put_put: "map_put k v (map_put k w m) = map_put k v m"
  by (induction m) auto

lemma state_at_present: "map_of st name = Some A \<Longrightarrow> state_at slv name st = (A, st)"
  by (simp add: state_at_def)

lemma kwarg_present: "map_of kwargs key = Some v \<Longrightarrow> kwarg key kwargs = Inr v"
  by (simp add: kwarg_def)

lemma kwarg_missing: "map_of kwargs key = None \<Longrightarrow> kwarg key kwargs = Inl (Runtime_error (key @ '' not found''))"
  by (simp add: kwarg_def)

lemma at_index_simps [simp]:
  "at_index (x # xs) 0 = Inr x" "at_index (x # xs) (Suc n) = at_index xs n" "at_index [] n = Inl Bad_access"
  "at_index (x # y # xs) 1 = Inr y"
  by (simp_all add: at_index_def)

lemma at_index_2 [simp]: "at_index (x # y # z # xs) 2 = Inr z"
  by (simp add: at_index_def)

lemma setResult_state:
  "map_of (myState (setResult name T t c)) = (map_of (myState c))(name \<mapsto> (T, t))"
  "resultOperation (setResult name T t c) = t" "resultTable (setResult name T t c) = T"
  by (simp_all add: setResult_def setState_def map_of_put)

lemma Context_new_simps [simp]: "myState (Context_new slv st) = st"
  by (simp add: Context_new_def)

text \<open>What a query over one table leaves: the new term in the state, the other tables as before.\<close>

definition leaves :: "('s, 't) sql_context \<Rightarrow> ('s, 't) sql_state \<Rightarrow> string \<Rightarrow> 's sql_table \<Rightarrow> 't \<Rightarrow> bool" where
  "leaves c st name T t \<longleftrightarrow> resultOperation c = t \<and> resultTable c = T \<and>
     map_of (myState c) = (map_of st)(name \<mapsto> (T, t))"

lemma leaves_setResult:
  "map_of (myState c) = (map_of st)(name \<mapsto> (T', t')) \<Longrightarrow> leaves (setResult name T t c) st name T t"
  by (simp add: leaves_def setResult_state)

section \<open>Projected tables\<close>

text \<open>Columns requested in the order of the table, as the projected table keeps them.\<close>

definition in_table_order :: "'s sql_table \<Rightarrow> string list \<Rightarrow> bool" where
  "in_table_order A cols \<longleftrightarrow> cols = map fst (filter (\<lambda>c. fst c \<in> set cols) (columnNames A))"

lemma column_unique:
  assumes "distinct (map fst (columnNames A))" and "c \<in> set (columnNames A)"
  shows "columnNames A ! the (column_index (fst c) (columnNames A)) = c"
  using assms by (auto simp: in_set_conv_nth column_index_nth)

lemma projected_columns:
  fixes slv :: "('s, 't) solver"
  assumes names: "distinct (map fst (columnNames A))" and order: "in_table_order A cols"
  shows "map fst (columnNames (Table_projected slv A cols)) = cols"
    and "distinct (map fst (columnNames (Table_projected slv A cols)))"
    and "map (\<lambda>i. snd (columnNames A ! i)) (positions A cols)
      = map snd (columnNames (Table_projected slv A cols))"
proof -
  define P where "P = columnNames (Table_projected slv A cols)"
  have P: "P = filter (\<lambda>c. fst c \<in> set cols) (columnNames A)"
    by (simp add: P_def Table_projected_def Let_def)
  have cols: "cols = map fst P" using order unfolding in_table_order_def P .
  have sub: "set P \<subseteq> set (columnNames A)" unfolding P by auto
  have "positions A cols = map (\<lambda>c. the (column_index (fst c) (columnNames A))) P"
    unfolding positions_def by (subst cols) simp
  then have "map (\<lambda>i. snd (columnNames A ! i)) (positions A cols) = map snd P"
    using column_unique [OF names] sub by auto
  moreover have "distinct (map fst P)" unfolding P using names by (rule distinct_map_filter)
  ultimately show "map fst (columnNames (Table_projected slv A cols)) = cols"
    "distinct (map fst (columnNames (Table_projected slv A cols)))"
    "map (\<lambda>i. snd (columnNames A ! i)) (positions A cols)
      = map snd (columnNames (Table_projected slv A cols))"
    using cols unfolding P_def by simp_all
qed

lemma ordered_columns_present: "in_table_order A cols \<Longrightarrow> set cols \<subseteq> fst ` set (columnNames A)"
  unfolding in_table_order_def by (metis filter_is_subset image_mono set_map)

lemma projected_column_at:
  assumes names: "distinct (map fst (columnNames A))" and order: "in_table_order A cols"
    and col: "column_at A name i s" and mem: "name \<in> set cols"
  shows "\<exists>q < length cols. column_at (Table_projected slv A cols) name q s \<and> positions A cols ! q = i"
proof -
  let ?P = "columnNames (Table_projected slv A cols)"
  note P = projected_columns [OF names order, of slv]
  obtain q where q: "q < length cols" "cols ! q = name" using mem by (auto simp: in_set_conv_nth)
  have qP: "q < length ?P" "fst (?P ! q) = name"
    using P(1) q by (metis length_map, metis length_map nth_map)
  have "column_index (fst (?P ! q)) ?P = Some q" by (rule column_index_nth [OF P(2) qP(1)])
  then have idx: "column_index name ?P = Some q" using qP(2) by simp
  have "?P ! q \<in> set (columnNames A)"
    using nth_mem [OF qP(1)] by (auto simp: Table_projected_def Let_def)
  from column_unique [OF names this] qP(2) col have "?P ! q = columnNames A ! i"
    by (simp add: column_at_def)
  then show ?thesis using idx q col by (auto simp: column_at_def positions_def)
qed

lemma select_projected:
  assumes "positions A cols ! q = i" and "q < length cols"
  shows "{r \<in> (\<lambda>r. map (\<lambda>i. r ! i) (positions A cols)) ` S. P (r ! q)}
    = (\<lambda>r. map (\<lambda>i. r ! i) (positions A cols)) ` {r \<in> S. P (r ! i)}"
  using assms by (force simp: positions_def)

context cvc5
begin

lemma Query_Insert_returns:
  assumes st: "map_of st name = Some (A, a)" and A: "entry_wf slv (A, a)"
    and row: "map_of kwargs ''insertRow'' = Some strs" "convertToRowData hundredths strs = Inr vs"
    and sorts: "map (value_sort slv) vs = map snd (columnNames A)"
  shows "\<exists>c t. Query_Insert slv hundredths st (name # names) kwargs = Inr c \<and> leaves c st name A t \<and>
    (\<forall>e. rows_of e t = insert (map value_cell vs) (rows_of e a))"
proof -
  from RA_Insert_returns [of A a vs] A sorts obtain t where
    t: "RA_Insert slv A a vs = Inr t" "\<And>e. rows_of e t = insert (map value_cell vs) (rows_of e a)"
    by (auto simp: entry_wf_def)
  let ?d = "setResult name A a (Context_new slv st)"
  have "Query_Insert slv hundredths st (name # names) kwargs = Inr (setResult name A t ?d)"
    using t(1) row by (simp add: Query_Insert_def state_at_present [OF st] kwarg_present
        visit_Table_def visit_Insert_def setResult_state)
  moreover have "leaves (setResult name A t ?d) st name A t"
    by (rule leaves_setResult) (simp add: setResult_state)
  ultimately show ?thesis using t(2) by blast
qed

lemma Query_Delete_returns:
  assumes st: "map_of st name = Some (A, a)" and A: "entry_wf slv (A, a)"
    and row: "map_of kwargs ''deleteRow'' = Some strs" "convertToRowData hundredths strs = Inr vs"
    and sorts: "map (value_sort slv) vs = map snd (columnNames A)"
  shows "\<exists>c t. Query_Delete slv hundredths st (name # names) kwargs = Inr c \<and> leaves c st name A t \<and>
    (\<forall>e. rows_of e t = rows_of e a - {map value_cell vs})"
proof -
  from RA_Delete_returns [of A a vs] A sorts obtain t where
    t: "RA_Delete slv A a vs = Inr t" "\<And>e. rows_of e t = rows_of e a - {map value_cell vs}"
    by (auto simp: entry_wf_def)
  let ?d = "setResult name A a (Context_new slv st)"
  have "Query_Delete slv hundredths st (name # names) kwargs = Inr (setResult name A t ?d)"
    using t(1) row by (simp add: Query_Delete_def state_at_present [OF st] kwarg_present
        visit_Table_def visit_Delete_def setResult_state)
  moreover have "leaves (setResult name A t ?d) st name A t"
    by (rule leaves_setResult) (simp add: setResult_state)
  ultimately show ?thesis using t(2) by blast
qed

lemma Query_Insert_rejected:
  assumes st: "map_of st name = Some (A, a)" and A: "entry_wf slv (A, a)"
    and row: "map_of kwargs ''insertRow'' = Some strs" "convertToRowData hundredths strs = Inr vs"
    and sorts: "map (value_sort slv) vs \<noteq> map snd (columnNames A)"
  shows "Query_Insert slv hundredths st (name # names) kwargs = Inl Api_exception"
proof -
  have "RA_Insert slv A a vs = Inl Api_exception"
    using RA_row_rejected(1) [of A vs a] A sorts by (simp add: entry_wf_def)
  then show ?thesis
    using row by (simp add: Query_Insert_def state_at_present [OF st] kwarg_present
        visit_Table_def visit_Insert_def setResult_state)
qed

lemma Query_Update_returns:
  assumes st: "map_of st name = Some (A, a)" and A: "entry_wf slv (A, a)"
    and sel: "map_of kwargs ''selectPredicate'' = Some [column, oper, constant]"
      "stoi_or_string constant = Inr v" "column_at A column i (sel_sort slv v)"
      "select_kind oper = Some k" "comparable k v"
    and upd: "map_of kwargs ''updateRow'' = Some [target, update]" "stoi_or_string update = Inr new"
      "column_at A target j (sel_sort slv new)"
  shows "\<exists>c t. Query_Update slv st (name # names) kwargs = Inr c \<and> leaves c st name A t \<and>
    (\<forall>e. rows_of e t =
       (\<lambda>r. if compare_cells k (r ! i) (sel_cell v) then r[j := sel_cell new] else r) ` rows_of e a)"
proof -
  from RA_Update_returns [of A a column i v oper k target j new] A sel(3-5) upd(3) obtain t where
    t: "RA_Update slv A a column v oper (target, new) = Inr t" "\<And>e. rows_of e t =
       (\<lambda>r. if compare_cells k (r ! i) (sel_cell v) then r[j := sel_cell new] else r) ` rows_of e a"
    unfolding entry_wf_def fst_conv snd_conv by blast
  let ?d = "setResult name A a (Context_new slv st)"
  have "Query_Update slv st (name # names) kwargs = Inr (setResult name A t ?d)"
    using t(1) sel(2) upd(2)
    by (simp add: Query_Update_def state_at_present [OF st] kwarg_present [OF sel(1)]
        kwarg_present [OF upd(1)] visit_Table_def visit_Update_def setResult_state)
  moreover have "leaves (setResult name A t ?d) st name A t"
    by (rule leaves_setResult) (simp add: setResult_state)
  ultimately show ?thesis using t(2) by blast
qed

lemma Query_Select_returns:
  assumes st: "map_of st name = Some (A, a)" and A: "entry_wf slv (A, a)"
    and sel: "map_of kwargs ''selectPredicate'' = Some [column, oper, constant]"
      "column_at A column i (getStringSort slv)" "select_kind oper = Some k" "k \<in> {EQUAL, DISTINCT}"
  shows "\<exists>c t. Query_Select slv st (name # names) kwargs = Inr c \<and> leaves c st name A t \<and>
    (\<forall>e. rows_of e t = {r \<in> rows_of e a. compare_cells k (r ! i) (Cell_str constant)})"
proof -
  have "comparable k (Sel_str constant)" using sel(4) by (auto simp: comparable_def)
  with RA_Select_returns [of A a column i "Sel_str constant" oper k] A sel(2-4) obtain t where
    t: "RA_Select slv A a column (Sel_str constant) oper = Inr t"
    "\<And>e. rows_of e t = {r \<in> rows_of e a. compare_cells k (r ! i) (Cell_str constant)}"
    by (auto simp: entry_wf_def)
  let ?d = "setResult name A a (Context_new slv st)"
  have "Query_Select slv st (name # names) kwargs = Inr (setResult name A t ?d)"
    using t(1) by (simp add: Query_Select_def state_at_present [OF st] kwarg_present [OF sel(1)]
        visit_Table_def visit_Select_def setResult_state)
  moreover have "leaves (setResult name A t ?d) st name A t"
    by (rule leaves_setResult) (simp add: setResult_state)
  ultimately show ?thesis using t(2) by blast
qed

text \<open>The constant of a selection is never converted: an integer column cannot be selected on.\<close>

lemma Query_Select_integer_column:
  assumes st: "map_of st name = Some (A, a)" and A: "entry_wf slv (A, a)"
    and sel: "map_of kwargs ''selectPredicate'' = Some [column, oper, constant]"
      "column_at A column i (getIntegerSort slv)" "oper \<in> {''eq'', ''ne''}"
  shows "Query_Select slv st (name # names) kwargs = Inl Api_exception"
proof -
  have "RA_Select slv A a column (Sel_str constant) oper = Inl Api_exception"
    using A sel(3) int_string
    by (intro RA_Select_rejected [OF _ sel(2)]) (auto simp: entry_wf_def scalar_sort_def)
  then show ?thesis
    by (simp add: Query_Select_def state_at_present [OF st] kwarg_present [OF sel(1)]
        visit_Table_def visit_Select_def setResult_state)
qed

lemma Query_Product_returns:
  assumes st: "map_of st nameA = Some (A, a)" "map_of st nameB = Some (B, b)"
    and wf: "entry_wf slv (A, a)" "entry_wf slv (B, b)"
    and join: "map_of kwargs ''joinColumns'' = Some [columnA, columnB]"
    and at: "column_at A columnA i s" "column_at B columnB j s'"
    and sort: "map snd (columnNames A @ columnNames B) ! (i + j) = s" "scalar_sort slv s"
  shows "\<exists>c. Query_Product slv st (nameA # nameB # names) kwargs = Inr c \<and>
    map_of (myState c) = (map_of st)(nameA \<mapsto> (A, a), nameB \<mapsto> (B, b),
       nameA @ ''_join_'' @ nameB \<mapsto> (resultTable c, resultOperation c)) \<and>
    columnNames (resultTable c) = columnNames A @ columnNames B \<and>
    (\<forall>e. rows_of e (resultOperation c) = {x @ y | x y. x \<in> rows_of e a \<and> y \<in> rows_of e b \<and>
        (x @ y) ! i = (x @ y) ! (i + j)})"
proof -
  from RA_Product_returns [OF _ _ _ _ at sort, of a b] wf obtain t J where
    t: "RA_Product slv A B a b columnA columnB = Inr (t, J)"
    "columnNames J = columnNames A @ columnNames B"
    "\<And>e. rows_of e t = {x @ y | x y. x \<in> rows_of e a \<and> y \<in> rows_of e b \<and>
        (x @ y) ! i = (x @ y) ! (i + j)}"
    unfolding entry_wf_def fst_conv snd_conv by blast
  let ?c0 = "Context_new slv st"
  let ?c = "setState (nameA @ ''_join_'' @ nameB) (J, t) (setState nameB (B, b)
      (setState nameA (A, a) (?c0\<lparr>resultOperation := t, resultTable := J\<rparr>)))"
  have "Query_Product slv st (nameA # nameB # names) kwargs = Inr ?c"
    using t(1) by (simp add: Query_Product_def state_at_present [OF st(1)] state_at_present [OF st(2)]
        kwarg_present [OF join] visit_Table_def visit_Product_def setResult_state)
  moreover have "map_of (myState ?c) = (map_of st)(nameA \<mapsto> (A, a), nameB \<mapsto> (B, b),
      nameA @ ''_join_'' @ nameB \<mapsto> (J, t))"
    by (simp add: setState_def map_of_put)
  moreover have "resultTable ?c = J" "resultOperation ?c = t" by (simp_all add: setState_def)
  ultimately show ?thesis using t(2,3) by auto
qed

text \<open>Selecting on the projection and projecting the selection denote the same rows.\<close>

lemma Query12_agree:
  assumes st: "map_of st name = Some (A, a)" and A: "entry_wf slv (A, a)"
    and proj: "map_of kwargs ''projectColumns'' = Some cols" "in_table_order A cols"
    and sel: "map_of kwargs ''selectPredicate'' = Some [column, oper, constant]" "column \<in> set cols"
      "column_at A column i (getStringSort slv)" "select_kind oper = Some k" "k \<in> {EQUAL, DISTINCT}"
  shows "\<exists>c1 c2. Query1 slv st (name # names) kwargs = Inr c1 \<and>
    Query2 slv st (name # names) kwargs = Inr c2 \<and> resultTable c1 = resultTable c2 \<and>
    (\<forall>e. rows_of e (resultOperation c1) = rows_of e (resultOperation c2)) \<and>
    (\<forall>e. rows_of e (resultOperation c2) = (\<lambda>r. map (\<lambda>i. r ! i) (positions A cols)) `
       {r \<in> rows_of e a. compare_cells k (r ! i) (Cell_str constant)})"
proof -
  let ?P = "Table_projected slv A cols" and ?v = "Sel_str constant"
  let ?row = "\<lambda>r. map (\<lambda>i. r ! i) (positions A cols)"
  let ?hit = "\<lambda>x. compare_cells k x (Cell_str constant)"
  have wf: "table_wf slv A" "distinct (map fst (columnNames A))" "getSort slv a = tableSort A"
    using A by (simp_all add: entry_wf_def)
  have k: "comparable k ?v" using sel(5) by (auto simp: comparable_def)
  note P = projected_columns [OF wf(2) proj(2), of slv] ordered_columns_present [OF proj(2)]
  from projected_column_at [OF wf(2) proj(2) sel(3,2), of slv] obtain q where
    q: "q < length cols" "column_at ?P column q (getStringSort slv)" "positions A cols ! q = i" by blast
  from RA_Project_returns [OF wf(1,3) P(4,3)] obtain p where
    p: "RA_Project slv A a cols = Inr (p, ?P)" "getSort slv p = tableSort ?P"
    "\<And>e. rows_of e p = ?row ` rows_of e a" by blast
  from RA_Select_returns [OF table_wf_projected p(2), of column q ?v oper k] q(2) sel(4) k obtain t1 where
    t1: "RA_Select slv ?P p column ?v oper = Inr t1" "\<And>e. rows_of e t1 = {r \<in> rows_of e p. ?hit (r ! q)}"
    by auto
  from RA_Select_returns [OF wf(1,3), of column i ?v oper k] sel(3,4) k obtain s where
    s: "RA_Select slv A a column ?v oper = Inr s" "getSort slv s = tableSort A"
    "\<And>e. rows_of e s = {r \<in> rows_of e a. ?hit (r ! i)}"
    by auto
  from RA_Project_returns [OF wf(1) s(2) P(4,3)] obtain t2 where
    t2: "RA_Project slv A s cols = Inr (t2, ?P)" "\<And>e. rows_of e t2 = ?row ` rows_of e s" by blast
  let ?d = "setResult name A a (Context_new slv st)"
  let ?c1 = "setResult name ?P t1 (setResult name ?P p ?d)"
  let ?c2 = "setResult name ?P t2 (setResult name A s ?d)"
  note run = state_at_present [OF st] kwarg_present [OF sel(1)] kwarg_present [OF proj(1)]
    visit_Table_def visit_Select_def visit_Project_def setResult_state
  have "Query1 slv st (name # names) kwargs = Inr ?c1"
    using p(1) t1(1) by (simp add: Query1_def run)
  moreover have "Query2 slv st (name # names) kwargs = Inr ?c2"
    using s(1) t2(1) by (simp add: Query2_def run)
  moreover have "rows_of e t1 = ?row ` {r \<in> rows_of e a. ?hit (r ! i)}" for e
    unfolding t1(2) p(3) by (rule select_projected [OF q(3,1)])
  moreover have "rows_of e t2 = ?row ` {r \<in> rows_of e a. ?hit (r ! i)}" for e
    unfolding t2(2) s(3) ..
  ultimately show ?thesis by (auto simp: setResult_state)
qed

end

section \<open>Reading values\<close>

text \<open>A string that starts with a number is read as that number, whatever follows.\<close>

lemma convert_leading_number:
  assumes "- (2 ^ 63) \<le> i" and "i < 2 ^ 63" and "ends_number s"
  shows "convert_value hundredths (to_string i @ s) = Inr (Row_int i)"
proof -
  have "fst (scan_int (to_string i @ s)) = Some i" by (simp add: scan_to_string [OF assms(3)])
  then show ?thesis
    using assms(1,2) by (simp add: convert_value_def stoll_def skip_to_string)
qed

end
