(* ===== verification/Sql_Commutation.thy ===== *)
theory Sql_Commutation
  imports Sql_Results
begin

text \<open>
  The tables the analysis knows by name, and what its checks say about them: the foreign key
  from addresses to zip codes and the queries that can break it. The last section holds the
  concrete tables of the examples.
\<close>

section \<open>Tables known by name\<close>

definition has_sort :: "('s, 't) solver \<Rightarrow> string \<Rightarrow> 't \<Rightarrow> bool" where
  "has_sort slv name t \<longleftrightarrow> getSort slv t = tableSort (Table_named slv name)"

lemma named_columns_distinct: "distinct (map fst (columnNames (Table_named slv name)))"
  by (simp add: Table_named_def getColumnInfo_def Let_def)

lemma named_entry_wf: "has_sort slv name t \<Longrightarrow> entry_wf slv (Table_named slv name, t)"
  using named_columns_distinct by (simp add: entry_wf_def has_sort_def)

text \<open>A state with the tables \<open>address\<close> and \<open>zip-code\<close>.\<close>

definition address_state :: "('s, 't) solver \<Rightarrow> 't \<Rightarrow> 't \<Rightarrow> ('s, 't) sql_state" where
  "address_state slv a z =
     [(''address'', Table_named slv ''address'', a), (''zip-code'', Table_named slv ''zip-code'', z)]"

lemma address_state_wf:
  "has_sort slv ''address'' a \<Longrightarrow> has_sort slv ''zip-code'' z \<Longrightarrow> state_wf slv (address_state slv a z)"
  by (auto simp: state_wf_def address_state_def named_entry_wf)

lemma address_keys:
  "active_keys (address_state slv a z) =
     [((Table_named slv ''address'', a), 3, (Table_named slv ''zip-code'', z), 0)]"
  by (simp add: active_keys_def address_state_def getReferentialIntegrityInfo_def
      List.map_filter_def Table_named_def getColumnInfo_def Let_def eval_nat_numeral)

lemma address_keys_typed: "keys_typed (address_state slv a z)"
  by (simp add: keys_typed_def address_keys Table_named_def getColumnInfo_def Let_def)

lemma address_integrity:
  "integrity rows (address_state slv a z) \<longleftrightarrow> (\<lambda>r. r ! 3) ` rows a \<subseteq> (\<lambda>r. r ! 0) ` rows z"
  by (simp add: integrity_def address_keys key_kept_def)

context cvc5
begin

text \<open>Inserting an address: the check is satisfied by the states the insertion breaks.\<close>

lemma insert_address:
  assumes sorts: "has_sort slv ''address'' a" "has_sort slv ''zip-code'' z"
    and row: "map_of kwargs ''insertRow'' = Some strs"
      "convertToRowData hundredths strs
         = Inr [Row_int k, Row_str line1, Row_str line2, Row_str zipcode, Row_str country]"
  shows "\<exists>c t. Query_Insert slv hundredths (address_state slv a z) [''address''] kwargs = Inr c \<and>
    myState c = address_state slv t z \<and> has_sort slv ''address'' t \<and>
    (\<forall>e. rows_of e t = insert [Cell_int k, Cell_str line1, Cell_str line2, Cell_str zipcode, Cell_str country]
       (rows_of e a))"
proof -
  let ?A = "Table_named slv ''address''"
  let ?vs = "[Row_int k, Row_str line1, Row_str line2, Row_str zipcode, Row_str country]"
  let ?st = "address_state slv a z"
  have A: "entry_wf slv (?A, a)" by (rule named_entry_wf [OF sorts(1)])
  have vs: "map (value_sort slv) ?vs = map snd (columnNames ?A)"
    by (simp add: Table_named_def getColumnInfo_def Let_def)
  from RA_Insert_returns [of ?A a ?vs] A vs obtain t where
    t: "RA_Insert slv ?A a ?vs = Inr t" "getSort slv t = tableSort ?A"
    "\<And>e. rows_of e t = insert (map value_cell ?vs) (rows_of e a)"
    by (auto simp: entry_wf_def)
  have st: "map_of ?st ''address'' = Some (?A, a)" by (simp add: address_state_def)
  let ?d = "setResult ''address'' ?A a (Context_new slv ?st)"
  let ?c = "setResult ''address'' ?A t ?d"
  have "Query_Insert slv hundredths ?st [''address''] kwargs = Inr ?c"
    using t(1) row by (simp add: Query_Insert_def state_at_present [OF st] kwarg_present
        visit_Table_def visit_Insert_def setResult_state)
  moreover have "myState ?c = address_state slv t z"
    by (simp add: setResult_def setState_def address_state_def)
  ultimately show ?thesis using t(2,3) by (auto simp: has_sort_def)
qed

lemma insert_address_check:
  assumes sorts: "has_sort slv ''address'' a" "has_sort slv ''zip-code'' z"
    and row: "map_of kwargs ''insertRow'' = Some strs"
      "convertToRowData hundredths strs
         = Inr [Row_int k, Row_str line1, Row_str line2, Row_str zipcode, Row_str country]"
  shows "\<exists>c p. Query_Insert slv hundredths (address_state slv a z) [''address''] kwargs = Inr c \<and>
    InvariantSufficientCheck slv (address_state slv a z) (myState c) = Inr p \<and>
    (\<forall>e. holds e p \<longleftrightarrow> (\<lambda>r. r ! 3) ` rows_of e a \<subseteq> (\<lambda>r. r ! 0) ` rows_of e z \<and>
       Cell_str zipcode \<notin> (\<lambda>r. r ! 0) ` rows_of e z)"
proof -
  from insert_address [OF assms] obtain c t where
    c: "Query_Insert slv hundredths (address_state slv a z) [''address''] kwargs = Inr c"
    "myState c = address_state slv t z" "has_sort slv ''address'' t"
    "\<And>e. rows_of e t = insert [Cell_int k, Cell_str line1, Cell_str line2, Cell_str zipcode, Cell_str country]
       (rows_of e a)" by blast
  from InvariantSufficientCheck_returns
    [OF address_state_wf [OF sorts] address_keys_typed _ address_state_wf [OF c(3) sorts(2)] address_keys_typed]
  obtain p where
    p: "InvariantSufficientCheck slv (address_state slv a z) (address_state slv t z) = Inr p"
    "\<And>e. holds e p \<longleftrightarrow> integrity (rows_of e) (address_state slv a z) \<and>
       \<not> integrity (rows_of e) (address_state slv t z)"
    by (auto simp: address_keys)
  have "holds e p \<longleftrightarrow> (\<lambda>r. r ! 3) ` rows_of e a \<subseteq> (\<lambda>r. r ! 0) ` rows_of e z \<and>
       Cell_str zipcode \<notin> (\<lambda>r. r ! 0) ` rows_of e z" for e
    unfolding p(2) address_integrity c(4) by auto
  then show ?thesis using c(1,2) p(1) by auto
qed

text \<open>
  The join of an address with its zip code compares the column \<open>ad_zc_code\<close> with the column at the
  sum of the two indices, which is the same column: every pair of rows joins.
\<close>

lemma address_join:
  assumes sorts: "has_sort slv ''address'' a" "has_sort slv ''zip-code'' z"
    and join: "map_of kwargs ''joinColumns'' = Some [''ad_zc_code'', ''zc_code'']"
  shows "\<exists>c. Query_Product slv (address_state slv a z) [''address'', ''zip-code''] kwargs = Inr c \<and>
    (\<forall>e. rows_of e (resultOperation c) = {x @ y | x y. x \<in> rows_of e a \<and> y \<in> rows_of e z})"
proof -
  let ?A = "Table_named slv ''address''" and ?Z = "Table_named slv ''zip-code''"
  have st: "map_of (address_state slv a z) ''address'' = Some (?A, a)"
    "map_of (address_state slv a z) ''zip-code'' = Some (?Z, z)" by (simp_all add: address_state_def)
  have at: "column_at ?A ''ad_zc_code'' 3 (getStringSort slv)" "column_at ?Z ''zc_code'' 0 (getStringSort slv)"
    by (simp_all add: column_at_def Table_named_def getColumnInfo_def Let_def eval_nat_numeral)
  have s: "map snd (columnNames ?A @ columnNames ?Z) ! (3 + 0) = getStringSort slv"
    "scalar_sort slv (getStringSort slv)"
    by (simp_all add: scalar_sort_def Table_named_def getColumnInfo_def Let_def eval_nat_numeral)
  from Query_Product_returns [OF st named_entry_wf [OF sorts(1)] named_entry_wf [OF sorts(2)] join at s]
  obtain c where c:
    "Query_Product slv (address_state slv a z) [''address'', ''zip-code''] kwargs = Inr c"
    "\<And>e. rows_of e (resultOperation c) = {x @ y | x y. x \<in> rows_of e a \<and> y \<in> rows_of e z \<and>
        (x @ y) ! 3 = (x @ y) ! (3 + 0)}" by blast
  from c(2) have "rows_of e (resultOperation c) = {x @ y | x y. x \<in> rows_of e a \<and> y \<in> rows_of e z}" for e
    by simp
  with c(1) show ?thesis by blast
qed

end

section \<open>Tables of the examples\<close>

definition demo_address :: rterm where
  "demo_address = mkConst ref_solver 0 (tableSort (Table_named ref_solver ''address'')) ''address''"

definition demo_zip :: rterm where
  "demo_zip = mkConst ref_solver 1 (tableSort (Table_named ref_solver ''zip-code'')) ''zip-code''"

lemma demo_sorts: "has_sort ref_solver ''address'' demo_address" "has_sort ref_solver ''zip-code'' demo_zip"
  by (simp_all add: has_sort_def demo_address_def demo_zip_def Table_named_def getColumnInfo_def
      ref_solver_def Let_def)

definition demo_state :: "(rsort, rterm) sql_state" where
  "demo_state = address_state ref_solver demo_address demo_zip"

lemma demo_entries:
  "map_of demo_state ''address'' = Some (Table_named ref_solver ''address'', demo_address)"
  "entry_wf ref_solver (Table_named ref_solver ''address'', demo_address)"
  by (simp_all add: demo_state_def address_state_def named_entry_wf demo_sorts)

end
