(* ===== verification/Tcp_Buffer.thy ===== *)
theory Tcp_Buffer
  imports Call_Codec
begin

text \<open>
  The class \<open>Buffer\<close> of \<^verbatim>\<open>tcp/Socket.cpp\<close>: a growing array of bytes with a cursor to write and one
  to read. A byte of \<open>content\<close> that was never written is \<open>None\<close>; to read it, or to index past
  \<open>size\<close>, is undefined behaviour and makes the whole operation \<open>None\<close>. Sizes and cursors are
  non-negative values of type \<open>int\<close>: the sum that computes the new size of a full array is
  undefined when it leaves the range of \<open>int\<close>.
\<close>

section \<open>The class\<close>

datatype socket_error = End_of_buffer | Socket_closed | Receive_failed

record buffer =
  content :: "8 word option list"
  bsize :: nat
  addCursor :: nat
  getCursor :: nat

definition fitSize :: "nat \<Rightarrow> buffer \<Rightarrow> buffer" where
  "fitSize n b =
     (if bsize b < n
      then b\<lparr>content := take (bsize b) (content b) @ replicate (n - bsize b) None, bsize := n\<rparr>
      else b)"

definition Buffer_new :: "nat \<Rightarrow> buffer" where
  "Buffer_new n = \<lparr>content = replicate n None, bsize = n, addCursor = 0, getCursor = 0\<rparr>"

definition DEFAULT_SIZE :: nat where
  "DEFAULT_SIZE = 15000"

definition resetCursor :: "buffer \<Rightarrow> buffer" where
  "resetCursor b = b\<lparr>getCursor := 0\<rparr>"

definition getSize :: "buffer \<Rightarrow> nat" where
  "getSize b = addCursor b"

text \<open>\<open>content[addCursor++] = x\<close>\<close>

definition put_byte :: "8 word \<Rightarrow> buffer \<Rightarrow> buffer option" where
  "put_byte x b =
     (if addCursor b < length (content b)
      then Some (b\<lparr>content := (content b)[addCursor b := Some x], addCursor := addCursor b + 1\<rparr>)
      else None)"

fun put_bytes :: "bytes \<Rightarrow> buffer \<Rightarrow> buffer option" where
  "put_bytes [] b = Some b"
| "put_bytes (x # xs) b = do { b' \<leftarrow> put_byte x b; put_bytes xs b' }"

text \<open>The first \<open>n\<close> of the bytes at \<open>newContent\<close>, which must have as many.\<close>

definition setContent :: "bytes \<Rightarrow> nat \<Rightarrow> buffer \<Rightarrow> buffer option" where
  "setContent newContent n b =
     (if length newContent < n then None
      else do {
        b' \<leftarrow> put_bytes (take n newContent) ((fitSize n b)\<lparr>addCursor := 0\<rparr>);
        Some (b'\<lparr>addCursor := n, getCursor := 0\<rparr>) })"

definition getContent :: "buffer \<Rightarrow> bytes option" where
  "getContent b =
     (if addCursor b \<le> length (content b) then those (take (addCursor b) (content b)) else None)"

text \<open>
  The \<open>add\<close> operations test the room with unsigned arithmetic, \<open>size - addCursor < k\<close>. Byte \<open>i\<close>
  of the value is \<open>((0x00FF << 8 * i) & val) >> 8 * i\<close>; the mask is an \<open>int\<close>, so that a \<open>long\<close>
  shifts it by 32 and more, which is undefined.
\<close>

text \<open>
  \<open>size + size / 2\<close> is a sum of type \<open>int\<close>; adding \<open>k\<close>, of type \<open>size_t\<close>, is unsigned, and the
  result is converted to the \<open>int\<close> parameter of \<open>fitSize\<close>, which does nothing for a negative
  value.
\<close>

definition INT_MAX :: nat where
  "INT_MAX = 2147483647"

definition make_room :: "nat \<Rightarrow> buffer \<Rightarrow> buffer option" where
  "make_room k b =
     (if addCursor b \<le> bsize b \<and> bsize b - addCursor b < k
      then (if INT_MAX < bsize b + bsize b div 2 then None
            else Some (fitSize (nat (signed32 (int (bsize b + bsize b div 2 + k) mod 2 ^ 32))) b))
      else Some b)"

definition add_char :: "char \<Rightarrow> buffer \<Rightarrow> buffer option" where
  "add_char val b = do { b1 \<leftarrow> make_room 1 b; put_byte (char_byte val) b1 }"

definition add_int :: "int \<Rightarrow> buffer \<Rightarrow> buffer option" where
  "add_int val b = do { b1 \<leftarrow> make_room 4 b; put_bytes (le_bytes 4 val) b1 }"

fun put_long :: "nat list \<Rightarrow> int \<Rightarrow> buffer \<Rightarrow> buffer option" where
  "put_long [] val b = Some b"
| "put_long (i # is) val b =
     (if 32 \<le> 8 * i then None
      else do { b' \<leftarrow> put_byte (word_of_int (val div 256 ^ i)) b; put_long is val b' })"

definition add_long :: "int \<Rightarrow> buffer \<Rightarrow> buffer option" where
  "add_long val b = do { b1 \<leftarrow> make_room 8 b; put_long [0..<8] val b1 }"

definition add_string :: "string \<Rightarrow> buffer \<Rightarrow> buffer option" where
  "add_string str b =
     (let s = takeWhile (\<lambda>c. of_char c \<noteq> (0::nat)) str
      in do { b1 \<leftarrow> make_room (length s + 1) b; put_bytes (map char_byte s @ [0]) b1 })"

text \<open>\<open>content[getCursor++]\<close>\<close>

definition get_byte :: "buffer \<Rightarrow> (8 word \<times> buffer) option" where
  "get_byte b =
     (if getCursor b < length (content b)
      then map_option (\<lambda>x. (x, b\<lparr>getCursor := getCursor b + 1\<rparr>)) (content b ! getCursor b)
      else None)"

fun get_bytes :: "nat \<Rightarrow> buffer \<Rightarrow> (bytes \<times> buffer) option" where
  "get_bytes 0 b = Some ([], b)"
| "get_bytes (Suc k) b = do {
     (x, b1) \<leftarrow> get_byte b;
     (xs, b2) \<leftarrow> get_bytes k b1;
     Some (x # xs, b2) }"

definition get_value :: "nat \<Rightarrow> (bytes \<Rightarrow> 'a) \<Rightarrow> buffer \<Rightarrow> (socket_error + 'a \<times> buffer) option" where
  "get_value k f b =
     (if getCursor b \<le> addCursor b \<and> addCursor b - getCursor b < k then Some (Inl End_of_buffer)
      else map_option (\<lambda>(xs, b'). Inr (f xs, b')) (get_bytes k b))"

definition buf_getChar :: "buffer \<Rightarrow> (socket_error + char \<times> buffer) option" where
  "buf_getChar b = get_value 1 (\<lambda>xs. byte_char (hd xs)) b"

definition buf_getInt :: "buffer \<Rightarrow> (socket_error + int \<times> buffer) option" where
  "buf_getInt b = get_value 4 (\<lambda>xs. signed32 (le_value xs)) b"

text \<open>\<open>getLong\<close> shifts an \<open>int\<close> by 32 once there are eight bytes to read.\<close>

definition buf_getLong :: "buffer \<Rightarrow> (socket_error + int \<times> buffer) option" where
  "buf_getLong b =
     (if getCursor b \<le> addCursor b \<and> addCursor b - getCursor b < 8 then Some (Inl End_of_buffer)
      else None)"

text \<open>The byte is looked at before the cursor is compared with the end.\<close>

function buf_getString :: "buffer \<Rightarrow> (socket_error + string \<times> buffer) option" where
  "buf_getString b =
     (if getCursor b < length (content b)
      then (case content b ! getCursor b of
              None \<Rightarrow> None
            | Some x \<Rightarrow>
                (if x = 0 then Some (Inr ([], b\<lparr>getCursor := getCursor b + 1\<rparr>))
                 else if addCursor b \<le> getCursor b then Some (Inl End_of_buffer)
                 else case buf_getString (b\<lparr>getCursor := getCursor b + 1\<rparr>) of
                     Some (Inr (s, b')) \<Rightarrow> Some (Inr (byte_char x # s, b'))
                   | r \<Rightarrow> r))
      else None)"
  by pat_completeness auto

termination
  by (relation "measure (\<lambda>b. length (content b) - getCursor b)") auto

declare buf_getString.simps [simp del]

section \<open>Well-formed buffers\<close>

definition buffer_ok :: "buffer \<Rightarrow> bool" where
  "buffer_ok b \<longleftrightarrow> length (content b) = bsize b \<and> bsize b \<le> INT_MAX \<and> addCursor b \<le> bsize b \<and>
     (\<forall>i < addCursor b. content b ! i \<noteq> None)"

text \<open>The bytes written so far.\<close>

definition written :: "buffer \<Rightarrow> bytes" where
  "written b = map the (take (addCursor b) (content b))"

lemma length_written: "buffer_ok b \<Longrightarrow> length (written b) = addCursor b"
  by (simp add: written_def buffer_ok_def)

lemma written_nth: "buffer_ok b \<Longrightarrow> i < addCursor b \<Longrightarrow> content b ! i = Some (written b ! i)"
  by (auto simp: written_def buffer_ok_def)

lemma buffer_ok_new [simp]: "buffer_ok (Buffer_new n) \<longleftrightarrow> n \<le> INT_MAX" "written (Buffer_new n) = []"
  "getCursor (Buffer_new n) = 0"
  by (simp_all add: buffer_ok_def Buffer_new_def written_def)

lemma buffer_ok_cursor [simp]:
  "buffer_ok (b\<lparr>getCursor := k\<rparr>) = buffer_ok b" "written (b\<lparr>getCursor := k\<rparr>) = written b"
  by (simp_all add: buffer_ok_def written_def)

lemma fitSize_ok:
  assumes "buffer_ok b" and "n \<le> INT_MAX"
  shows "buffer_ok (fitSize n b)" "written (fitSize n b) = written b" "getCursor (fitSize n b) = getCursor b"
    "addCursor (fitSize n b) = addCursor b" "bsize (fitSize n b) = max n (bsize b)"
  using assms by (auto simp: fitSize_def buffer_ok_def written_def nth_append)

text \<open>
  The bytes a buffer can hold for sure. A growth happens at \<open>size < addCursor + k\<close>, so that the
  new size \<open>size + size / 2 + k\<close> is at most five halves of the bytes held after it.
\<close>

definition SAFE_SIZE :: nat where
  "SAFE_SIZE = 858993459"

lemma make_room_ok:
  assumes b: "buffer_ok b" and safe: "addCursor b + k \<le> SAFE_SIZE"
  shows "\<exists>b1. make_room k b = Some b1 \<and> buffer_ok b1 \<and> written b1 = written b \<and>
    getCursor b1 = getCursor b \<and> addCursor b1 + k \<le> bsize b1 \<and> addCursor b1 = addCursor b"
proof (cases "bsize b - addCursor b < k")
  case False
  then show ?thesis using b by (auto simp: make_room_def buffer_ok_def)
next
  case True
  let ?g = "bsize b + bsize b div 2 + k"
  have le: "addCursor b \<le> bsize b" using b by (simp add: buffer_ok_def)
  have g: "?g \<le> INT_MAX" using True le safe by (simp add: SAFE_SIZE_def INT_MAX_def)
  then have "int ?g mod 2 ^ 32 = int ?g" by (intro mod_pos_pos_trivial) (auto simp: INT_MAX_def)
  moreover have "signed32 (int ?g) = int ?g" using g by (simp add: signed32_def INT_MAX_def)
  ultimately have "make_room k b = Some (fitSize ?g b)"
    using True le g by (simp only: make_room_def nat_int) simp
  then show ?thesis using fitSize_ok [OF b g] le by auto
qed

lemma put_byte_ok:
  assumes b: "buffer_ok b" and room: "addCursor b < bsize b"
  shows "\<exists>b'. put_byte x b = Some b' \<and> buffer_ok b' \<and> written b' = written b @ [x] \<and>
    getCursor b' = getCursor b \<and> bsize b' = bsize b \<and> addCursor b' = addCursor b + 1"
proof -
  let ?b = "b\<lparr>content := (content b)[addCursor b := Some x], addCursor := addCursor b + 1\<rparr>"
  have "buffer_ok ?b" using b room by (auto simp: buffer_ok_def nth_list_update less_Suc_eq)
  moreover have "written ?b = written b @ [x]"
    using b room by (simp add: written_def buffer_ok_def take_Suc_conv_app_nth take_update_swap list_update_append)
  ultimately show ?thesis using b room by (simp add: put_byte_def buffer_ok_def)
qed

lemma put_bytes_ok:
  "buffer_ok b \<Longrightarrow> addCursor b + length xs \<le> bsize b \<Longrightarrow>
   \<exists>b'. put_bytes xs b = Some b' \<and> buffer_ok b' \<and> written b' = written b @ xs \<and> getCursor b' = getCursor b"
proof (induction xs arbitrary: b)
  case Nil
  then show ?case by simp
next
  case (Cons x xs)
  from put_byte_ok [of b x] Cons.prems obtain b1 where
    b1: "put_byte x b = Some b1" "buffer_ok b1" "written b1 = written b @ [x]" "getCursor b1 = getCursor b"
    "bsize b1 = bsize b" "addCursor b1 = addCursor b + 1" by auto
  from Cons.IH [OF b1(2)] Cons.prems(2) b1 show ?case by auto
qed

text \<open>Writing after making room never leaves the array, and appends.\<close>

lemma put_made_room:
  assumes "buffer_ok b" and "length xs = k" and "addCursor b + k \<le> SAFE_SIZE"
  shows "\<exists>b'. do { b1 \<leftarrow> make_room k b; put_bytes xs b1 } = Some b' \<and> buffer_ok b' \<and>
    written b' = written b @ xs \<and> getCursor b' = getCursor b"
proof -
  from make_room_ok [OF assms(1,3)] obtain b1 where
    b1: "make_room k b = Some b1" "buffer_ok b1" "written b1 = written b" "getCursor b1 = getCursor b"
    "addCursor b1 + length xs \<le> bsize b1" using assms(2) by auto
  from put_bytes_ok [OF b1(2,5)] b1 show ?thesis by simp
qed

section \<open>Round trips\<close>

datatype item = Item_char char | Item_int int | Item_string string

fun add_item :: "item \<Rightarrow> buffer \<Rightarrow> buffer option" where
  "add_item (Item_char c) b = add_char c b"
| "add_item (Item_int i) b = add_int i b"
| "add_item (Item_string s) b = add_string s b"

fun add_items :: "item list \<Rightarrow> buffer \<Rightarrow> buffer option" where
  "add_items [] b = Some b"
| "add_items (x # xs) b = do { b' \<leftarrow> add_item x b; add_items xs b' }"

text \<open>Reading an item of the same kind.\<close>

fun get_item :: "item \<Rightarrow> buffer \<Rightarrow> (socket_error + item \<times> buffer) option" where
  "get_item (Item_char _) b = map_option (map_sum id (map_prod Item_char id)) (buf_getChar b)"
| "get_item (Item_int _) b = map_option (map_sum id (map_prod Item_int id)) (buf_getInt b)"
| "get_item (Item_string _) b = map_option (map_sum id (map_prod Item_string id)) (buf_getString b)"

fun get_items :: "item list \<Rightarrow> buffer \<Rightarrow> (socket_error + item list \<times> buffer) option" where
  "get_items [] b = Some (Inr ([], b))"
| "get_items (k # ks) b =
     (case get_item k b of
        Some (Inr (x, b')) \<Rightarrow> map_option (map_sum id (map_prod ((#) x) id)) (get_items ks b')
      | Some (Inl e) \<Rightarrow> Some (Inl e)
      | None \<Rightarrow> None)"

fun item_bytes :: "item \<Rightarrow> bytes" where
  "item_bytes (Item_char c) = [char_byte c]"
| "item_bytes (Item_int i) = le_bytes 4 i"
| "item_bytes (Item_string s) = map char_byte s @ [0]"

fun item_ok :: "item \<Rightarrow> bool" where
  "item_ok (Item_char c) = True"
| "item_ok (Item_int i) = int32 i"
| "item_ok (Item_string s) = list_all (\<lambda>c. of_char c \<noteq> (0::nat)) s"

lemma add_item_written:
  assumes "buffer_ok b" and "item_ok x" and "addCursor b + length (item_bytes x) \<le> SAFE_SIZE"
  shows "\<exists>b'. add_item x b = Some b' \<and> buffer_ok b' \<and> written b' = written b @ item_bytes x \<and>
    getCursor b' = getCursor b"
proof (cases x)
  case (Item_char c)
  have one: "put_bytes [y] = put_byte y" for y by (rule ext) (simp split: bind_split)
  show ?thesis using put_made_room [OF assms(1), of "[char_byte c]" 1] assms(3)
    by (simp add: Item_char add_char_def one del: put_bytes.simps)
next
  case (Item_int i)
  then show ?thesis using put_made_room [OF assms(1), of "le_bytes 4 i" 4] assms(3)
    by (simp add: add_int_def del: le_bytes.simps)
next
  case (Item_string s)
  then have all: "takeWhile (\<lambda>c. of_char c \<noteq> (0::nat)) s = s"
    using assms(2) by (simp add: takeWhile_eq_all_conv list_all_iff)
  have "add_item x b = do { b1 \<leftarrow> make_room (length s + 1) b; put_bytes (map char_byte s @ [0]) b1 }"
    unfolding Item_string add_item.simps add_string_def all Let_def ..
  then show ?thesis
    using put_made_room [OF assms(1), of "map char_byte s @ [0]" "length s + 1"] assms(3)
    by (simp add: Item_string)
qed

lemma add_items_written:
  assumes "buffer_ok b" and "\<forall>x \<in> set xs. item_ok x"
    and "addCursor b + length (concat (map item_bytes xs)) \<le> SAFE_SIZE"
  shows "\<exists>b'. add_items xs b = Some b' \<and> buffer_ok b' \<and>
    written b' = written b @ concat (map item_bytes xs) \<and> getCursor b' = getCursor b"
  using assms
proof (induction xs arbitrary: b)
  case Nil
  then show ?case by simp
next
  case (Cons x xs)
  from add_item_written [OF Cons.prems(1), of x] Cons.prems(2,3) obtain b1 where
    b1: "add_item x b = Some b1" "buffer_ok b1" "written b1 = written b @ item_bytes x"
    "getCursor b1 = getCursor b" by auto
  have "addCursor b1 = addCursor b + length (item_bytes x)"
    using length_written [OF Cons.prems(1)] length_written [OF b1(2)] b1(3) by simp
  with Cons.IH [OF b1(2)] Cons.prems(2,3) b1 show ?case by auto
qed

text \<open>What is still to be read.\<close>

definition unread :: "buffer \<Rightarrow> bytes" where
  "unread b = drop (getCursor b) (written b)"

lemma get_byte_unread:
  assumes b: "buffer_ok b" and r: "unread b = x # r"
  shows "get_byte b = Some (x, b\<lparr>getCursor := getCursor b + 1\<rparr>)"
    and "unread (b\<lparr>getCursor := getCursor b + 1\<rparr>) = r" and "getCursor b < addCursor b"
    and "content b ! getCursor b = Some x" and "getCursor b < length (content b)"
proof -
  have less: "getCursor b < length (written b)"
    using r by (metis drop_all leI list.distinct(1) unread_def)
  then show lt: "getCursor b < addCursor b" using length_written [OF b] by simp
  then show lc: "getCursor b < length (content b)" using b by (simp add: buffer_ok_def)
  have "written b ! getCursor b = x" using r less by (simp add: unread_def flip: Cons_nth_drop_Suc)
  with written_nth [OF b lt] show c: "content b ! getCursor b = Some x" by simp
  then show "get_byte b = Some (x, b\<lparr>getCursor := getCursor b + 1\<rparr>)" using lc by (simp add: get_byte_def)
  show "unread (b\<lparr>getCursor := getCursor b + 1\<rparr>) = r"
    using r less by (simp add: unread_def flip: Cons_nth_drop_Suc)
qed

lemma get_bytes_unread:
  "buffer_ok b \<Longrightarrow> unread b = xs @ r \<Longrightarrow>
   get_bytes (length xs) b = Some (xs, b\<lparr>getCursor := getCursor b + length xs\<rparr>) \<and>
   unread (b\<lparr>getCursor := getCursor b + length xs\<rparr>) = r"
proof (induction xs arbitrary: b)
  case Nil
  then show ?case by simp
next
  case (Cons x xs)
  from get_byte_unread [OF Cons.prems(1), of x "xs @ r"] Cons.prems
  have b1: "get_byte b = Some (x, b\<lparr>getCursor := getCursor b + 1\<rparr>)"
    "unread (b\<lparr>getCursor := getCursor b + 1\<rparr>) = xs @ r" by simp_all
  from Cons.IH [OF _ b1(2)] Cons.prems(1) b1(1) show ?case by simp
qed

lemma get_value_unread:
  assumes "buffer_ok b" and "unread b = xs @ r"
  shows "get_value (length xs) f b = Some (Inr (f xs, b\<lparr>getCursor := getCursor b + length xs\<rparr>))"
    and "unread (b\<lparr>getCursor := getCursor b + length xs\<rparr>) = r"
proof -
  have "length (unread b) = addCursor b - getCursor b"
    using length_written [OF assms(1)] by (simp add: unread_def)
  then have "\<not> addCursor b - getCursor b < length xs" using assms(2) by simp
  then show "get_value (length xs) f b = Some (Inr (f xs, b\<lparr>getCursor := getCursor b + length xs\<rparr>))"
    using get_bytes_unread [OF assms] by (simp add: get_value_def)
  show "unread (b\<lparr>getCursor := getCursor b + length xs\<rparr>) = r" using get_bytes_unread [OF assms] by simp
qed

lemma buf_getString_unread:
  "buffer_ok b \<Longrightarrow> item_ok (Item_string s) \<Longrightarrow> unread b = map char_byte s @ 0 # r \<Longrightarrow>
   buf_getString b = Some (Inr (s, b\<lparr>getCursor := getCursor b + length s + 1\<rparr>)) \<and>
   unread (b\<lparr>getCursor := getCursor b + length s + 1\<rparr>) = r"
proof (induction s arbitrary: b)
  case Nil
  from get_byte_unread [OF Nil.prems(1), of 0 r] Nil.prems(3) show ?case
    by (subst buf_getString.simps) simp
next
  case (Cons c s)
  let ?b1 = "b\<lparr>getCursor := getCursor b + 1\<rparr>"
  from get_byte_unread [OF Cons.prems(1), of "char_byte c" "map char_byte s @ 0 # r"] Cons.prems(3)
  have u: "unread ?b1 = map char_byte s @ 0 # r" "getCursor b < addCursor b"
    "content b ! getCursor b = Some (char_byte c)" "getCursor b < length (content b)" by simp_all
  have "char_byte c \<noteq> 0" using Cons.prems(2) char_byte_nonzero by simp
  moreover from Cons.IH [of ?b1] Cons.prems(1,2) u(1) have
    "buf_getString ?b1 = Some (Inr (s, ?b1\<lparr>getCursor := getCursor ?b1 + length s + 1\<rparr>))"
    "unread (?b1\<lparr>getCursor := getCursor ?b1 + length s + 1\<rparr>) = r" by simp_all
  ultimately show ?case using u(2-4) by (subst buf_getString.simps) (simp add: add.commute)
qed

lemma get_item_unread:
  assumes "buffer_ok b" and "item_ok x" and "unread b = item_bytes x @ r"
  shows "\<exists>k. get_item x b = Some (Inr (x, b\<lparr>getCursor := k\<rparr>)) \<and> unread (b\<lparr>getCursor := k\<rparr>) = r"
proof (cases x)
  case (Item_char c)
  with get_value_unread(1) [OF assms(1), of "[char_byte c]" r "\<lambda>xs. byte_char (hd xs)"]
    get_value_unread(2) [OF assms(1), of "[char_byte c]" r] assms(3) show ?thesis
    by (auto simp: buf_getChar_def)
next
  case (Item_int i)
  then have i: "int32 i" "unread b = le_bytes 4 i @ r" using assms by simp_all
  from get_value_unread(1) [OF assms(1) i(2), of "\<lambda>xs. signed32 (le_value xs)"]
    get_value_unread(2) [OF assms(1) i(2)] signed32_mod [OF i(1)]
  show ?thesis by (auto simp: Item_int buf_getInt_def le_value_bytes simp del: le_bytes.simps)
next
  case (Item_string s)
  with buf_getString_unread [OF assms(1), of s r] assms(2,3) show ?thesis by auto
qed

lemma get_items_unread:
  assumes "buffer_ok b" and "\<forall>x \<in> set xs. item_ok x" and "unread b = concat (map item_bytes xs) @ r"
  shows "\<exists>k. get_items xs b = Some (Inr (xs, b\<lparr>getCursor := k\<rparr>)) \<and> unread (b\<lparr>getCursor := k\<rparr>) = r"
  using assms
proof (induction xs arbitrary: b)
  case Nil
  then show ?case by (auto intro: exI [of _ "getCursor b"])
next
  case (Cons x xs)
  from get_item_unread [OF Cons.prems(1), of x "concat (map item_bytes xs) @ r"] Cons.prems(2,3) obtain k where
    k: "get_item x b = Some (Inr (x, b\<lparr>getCursor := k\<rparr>))"
    "unread (b\<lparr>getCursor := k\<rparr>) = concat (map item_bytes xs) @ r" by auto
  from Cons.IH [OF _ _ k(2)] Cons.prems(1,2) obtain j where
    "get_items xs (b\<lparr>getCursor := k\<rparr>) = Some (Inr (xs, b\<lparr>getCursor := j\<rparr>))"
    "unread (b\<lparr>getCursor := j\<rparr>) = r" by auto
  then show ?case using k(1) by auto
qed

text \<open>What is added is read back, in order, and nothing is left.\<close>

lemma items_round_trip:
  assumes "\<forall>x \<in> set xs. item_ok x" and "n \<le> INT_MAX"
    and "length (concat (map item_bytes xs)) \<le> SAFE_SIZE"
  shows "\<exists>b b'. add_items xs (Buffer_new n) = Some b \<and> get_items xs b = Some (Inr (xs, b')) \<and>
    unread b' = [] \<and> getContent b = Some (concat (map item_bytes xs))"
proof -
  have start: "buffer_ok (Buffer_new n)" "written (Buffer_new n) = []" "getCursor (Buffer_new n) = 0"
    "addCursor (Buffer_new n) = 0" using assms(2) by simp_all (simp add: Buffer_new_def)
  from add_items_written [OF start(1) assms(1)] assms(3) start(2-4) obtain b where
    b: "add_items xs (Buffer_new n) = Some b" "buffer_ok b" "written b = concat (map item_bytes xs)"
    "getCursor b = 0" by auto
  then have "unread b = concat (map item_bytes xs) @ []" by (simp add: unread_def)
  from get_items_unread [OF b(2) assms(1) this] obtain k where
    k: "get_items xs b = Some (Inr (xs, b\<lparr>getCursor := k\<rparr>))" "unread (b\<lparr>getCursor := k\<rparr>) = []" by blast
  have "those (take (addCursor b) (content b)) = Some (written b)"
  proof -
    have "take (addCursor b) (content b) = map Some (written b)"
      using b(2) length_written [OF b(2)] written_nth [OF b(2)]
      by (intro nth_equalityI) (auto simp: buffer_ok_def)
    moreover have "those (map Some ys) = Some ys" for ys :: bytes by (induction ys) simp_all
    ultimately show ?thesis by simp
  qed
  then have "getContent b = Some (concat (map item_bytes xs))"
    using b(2,3) by (simp add: getContent_def buffer_ok_def)
  with b(1) k show ?thesis by blast
qed

text \<open>A \<open>long\<close> is never added, and never read when there is one.\<close>

lemma add_long_undefined: "add_long val b = None"
proof -
  have "put_long is val b = None" if "4 \<in> set is" for "is" b
    using that by (induction "is" arbitrary: b) (auto simp: bind_eq_None_conv)
  then show ?thesis by (simp add: add_long_def bind_eq_None_conv)
qed

text \<open>Past two thirds of the range of \<open>int\<close>, a full buffer cannot grow.\<close>

lemma full_buffer_undefined:
  assumes "bsize b = addCursor b" and "1431655766 \<le> addCursor b"
  shows "add_char c b = None"
proof -
  have "INT_MAX < bsize b + bsize b div 2" using assms by (simp add: INT_MAX_def)
  then show ?thesis using assms(1) by (simp add: add_char_def make_room_def)
qed

end
