(* ===== verification/Tcp_Socket.thy ===== *)
theory Tcp_Socket
  imports Tcp_Buffer
begin

text \<open>
  The loops of \<^verbatim>\<open>TCPSocket\<close> around \<open>::send\<close> and \<open>recv\<close>. The system calls are parameters on a
  state \<open>'w\<close> of the connection; the locale states their documented behaviour on a stream socket:
  \<open>sent\<close> is what the peer will receive, \<open>pending\<close> what it has still to deliver until it closes.
\<close>

section \<open>System calls\<close>

text \<open>\<open>recv\<close>: bytes, or nothing when the peer has closed, or an error.\<close>

datatype recv_call = Received bytes | Peer_closed | Recv_error

record 'w socket_os =
  os_send :: "'w \<Rightarrow> bytes \<Rightarrow> int \<times> 'w"
  os_recv :: "'w \<Rightarrow> nat \<Rightarrow> recv_call \<times> 'w"
  os_readable :: "'w \<Rightarrow> bool \<times> 'w"

section \<open>TCPSocket\<close>

text \<open>
  \<open>send\<close> with \<open>MSG_DONTWAIT\<close>: as long as bytes are left and the call takes some. The result
  tells whether the loop ended or threw \<open>SocketClosedException\<close>.
\<close>

function tcp_send :: "'w socket_os \<Rightarrow> bytes \<Rightarrow> 'w \<Rightarrow> bool \<times> 'w" where
  "tcp_send os bs w =
     (if bs = [] then (True, w)
      else (case os_send os w bs of
              (val, w') \<Rightarrow>
                if 0 < val then tcp_send os (drop (nat val) bs) w' else (False, w')))"
  by pat_completeness auto

termination
  by (relation "measure (\<lambda>(os, bs, w). length bs)") auto

declare tcp_send.simps [simp del]

definition tcp_send_string :: "'w socket_os \<Rightarrow> string \<Rightarrow> 'w \<Rightarrow> bool \<times> 'w" where
  "tcp_send_string os message w = tcp_send os (map char_byte message @ [0]) w"

definition tcp_send_buffer :: "'w socket_os \<Rightarrow> buffer \<Rightarrow> 'w \<Rightarrow> (bool \<times> 'w) option" where
  "tcp_send_buffer os b w = map_option (\<lambda>bs. tcp_send os bs w) (getContent b)"

function tcp_receive :: "'w socket_os \<Rightarrow> nat \<Rightarrow> 'w \<Rightarrow> (socket_error + bytes) \<times> 'w" where
  "tcp_receive os n w =
     (if n = 0 then (Inr [], w)
      else (case os_recv os w n of
              (Received d, w') \<Rightarrow>
                (if d = [] then (Inl Socket_closed, w')
                 else (case tcp_receive os (n - length d) w' of
                         (Inr bs, w'') \<Rightarrow> (Inr (d @ bs), w'')
                       | (Inl e, w'') \<Rightarrow> (Inl e, w'')))
            | (Peer_closed, w') \<Rightarrow> (Inl Socket_closed, w')
            | (Recv_error, w') \<Rightarrow> (Inl Receive_failed, w')))"
  by pat_completeness auto

termination
  by (relation "measure (\<lambda>(os, n, w). n)") auto

declare tcp_receive.simps [simp del]

text \<open>Byte by byte up to the zero; a stream that never sends one keeps the loop going.\<close>

partial_function (option) tcp_getString ::
  "'w socket_os \<Rightarrow> 'w \<Rightarrow> ((socket_error + string) \<times> 'w) option" where
  "tcp_getString os w =
     (case os_recv os w 1 of
        (Received d, w') \<Rightarrow>
          (if d = [] then Some (Inl Socket_closed, w')
           else if hd d = 0 then Some (Inr [], w')
           else Option.bind (tcp_getString os w') (\<lambda>(r, w'').
                  Some (case r of Inr s \<Rightarrow> Inr (byte_char (hd d) # s) | Inl e \<Rightarrow> Inl e, w'')))
      | (Peer_closed, w') \<Rightarrow> Some (Inl Socket_closed, w')
      | (Recv_error, w') \<Rightarrow> Some (Inl Receive_failed, w'))"

section \<open>The contract of a stream socket\<close>

locale stream_socket =
  fixes os :: "'w socket_os"
    and sent :: "'w \<Rightarrow> bytes"
    and pending :: "'w \<Rightarrow> bytes"
  assumes send_some: "bs \<noteq> [] \<Longrightarrow> os_send os w bs = (val, w') \<Longrightarrow>
      nat val \<le> length bs \<and> sent w' = sent w @ take (nat val) bs \<and> pending w' = pending w"
    and recv_some: "0 < n \<Longrightarrow> pending w \<noteq> [] \<Longrightarrow>
      \<exists>d w'. os_recv os w n = (Received d, w') \<and> d \<noteq> [] \<and> length d \<le> n \<and>
        pending w = d @ pending w' \<and> sent w' = sent w"
    and recv_end: "0 < n \<Longrightarrow> pending w = [] \<Longrightarrow>
      \<exists>w'. os_recv os w n = (Peer_closed, w') \<and> pending w' = [] \<and> sent w' = sent w"
    and readable: "os_readable os w = (r, w') \<Longrightarrow> pending w' = pending w \<and> sent w' = sent w"
begin

text \<open>The loop sends everything, or throws after a strict prefix.\<close>

lemma tcp_send_result:
  "tcp_send os bs w = (ok, w') \<Longrightarrow>
   \<exists>k \<le> length bs. sent w' = sent w @ take k bs \<and> pending w' = pending w \<and> (ok \<longleftrightarrow> k = length bs)"
proof (induction bs arbitrary: w rule: length_induct)
  case (1 bs)
  show ?case
  proof (cases "bs = []")
    case True
    then show ?thesis using 1(2) by (simp add: tcp_send.simps)
  next
    case False
    obtain val w1 where call: "os_send os w bs = (val, w1)" by (cases "os_send os w bs")
    from send_some [OF False call] have
      s1: "nat val \<le> length bs" "sent w1 = sent w @ take (nat val) bs" "pending w1 = pending w" by auto
    show ?thesis
    proof (cases "0 < val")
      case True
      then have rest: "tcp_send os (drop (nat val) bs) w1 = (ok, w')"
        using 1(2) False call by (subst (asm) tcp_send.simps) simp
      have "length (drop (nat val) bs) < length bs" using True False by simp
      with 1(1) rest obtain k where
        k: "k \<le> length (drop (nat val) bs)" "sent w' = sent w1 @ take k (drop (nat val) bs)"
        "pending w' = pending w1" "ok \<longleftrightarrow> k = length (drop (nat val) bs)" by blast
      then have "sent w' = sent w @ take (nat val + k) bs" using s1(2) by (simp add: take_add)
      then show ?thesis using k s1 by (intro exI [of _ "nat val + k"]) auto
    next
      case False
      then have "ok = False" "w' = w1"
        using 1(2) \<open>bs \<noteq> []\<close> call by (auto simp: tcp_send.simps [of os bs w])
      then show ?thesis using s1 False \<open>bs \<noteq> []\<close> by (intro exI [of _ 0]) simp
    qed
  qed
qed

text \<open>However the stream is cut into packets, exactly the next \<open>n\<close> bytes are received.\<close>

lemma tcp_receive_result:
  "n \<le> length (pending w) \<Longrightarrow>
   \<exists>w'. tcp_receive os n w = (Inr (take n (pending w)), w') \<and> pending w' = drop n (pending w) \<and>
     sent w' = sent w"
proof (induction n arbitrary: w rule: less_induct)
  case (less n)
  show ?case
  proof (cases "n = 0")
    case True
    then show ?thesis by (simp add: tcp_receive.simps)
  next
    case False
    then have "0 < n" "pending w \<noteq> []" using less.prems by auto
    from recv_some [OF this] obtain d w1 where
      d: "os_recv os w n = (Received d, w1)" "d \<noteq> []" "length d \<le> n" "pending w = d @ pending w1"
      "sent w1 = sent w" by blast
    have "n - length d < n" "n - length d \<le> length (pending w1)" using d False less.prems by auto
    from less.IH [OF this] obtain w' where
      w': "tcp_receive os (n - length d) w1 = (Inr (take (n - length d) (pending w1)), w')"
      "pending w' = drop (n - length d) (pending w1)" "sent w' = sent w1" by blast
    then show ?thesis
      using d False by (subst tcp_receive.simps) simp
  qed
qed

lemma tcp_receive_short:
  "length (pending w) < n \<Longrightarrow> \<exists>w'. tcp_receive os n w = (Inl Socket_closed, w')"
proof (induction n arbitrary: w rule: less_induct)
  case (less n)
  then have n: "0 < n" by simp
  show ?case
  proof (cases "pending w = []")
    case True
    from recv_end [OF n True] obtain w' where "os_recv os w n = (Peer_closed, w')" by blast
    with n show ?thesis by (simp add: tcp_receive.simps [of os n w])
  next
    case False
    from recv_some [OF n this] obtain d w1 where
      d: "os_recv os w n = (Received d, w1)" "d \<noteq> []" "length d \<le> n" "pending w = d @ pending w1" by blast
    have "n - length d < n" "length (pending w1) < n - length d" using d less.prems by auto
    from less.IH [OF this] d n show ?thesis by (auto simp: tcp_receive.simps [of os n w])
  qed
qed

text \<open>The string up to the first zero; without one the loop ends when the peer closes.\<close>

lemma tcp_getString_result:
  "(case getString (pending w) of
      Some (s, r) \<Rightarrow> \<exists>w'. tcp_getString os w = Some (Inr s, w') \<and> pending w' = r \<and> sent w' = sent w
    | None \<Rightarrow> \<exists>w'. tcp_getString os w = Some (Inl Socket_closed, w') \<and> sent w' = sent w)"
proof (induction "pending w" arbitrary: w)
  case Nil
  from recv_end [of 1 w] Nil obtain w' where "os_recv os w 1 = (Peer_closed, w')" "sent w' = sent w" by auto
  with Nil [symmetric] show ?case by (subst (1 2) tcp_getString.simps) (simp add: getString_def)
next
  case (Cons b bs)
  have pw: "pending w = b # bs" using Cons(2) by simp
  from recv_some [of 1 w] pw obtain d w1 where
    d: "os_recv os w 1 = (Received d, w1)" "d \<noteq> []" "length d \<le> 1" "pending w = d @ pending w1"
    "sent w1 = sent w" by auto
  then have one: "d = [b]" "pending w1 = bs" using pw by (cases d; simp)+
  show ?case
  proof (cases "b = 0")
    case True
    then show ?thesis using d one pw by (subst (1 2) tcp_getString.simps) (simp add: getString_def)
  next
    case False
    have step: "getString (b # bs) = map_option (\<lambda>(s, r). (byte_char b # s, r)) (getString bs)"
      using False by (cases "dropWhile (\<lambda>b. b \<noteq> 0) bs")
        (simp_all add: getString_def del: dropWhile_eq_Nil_conv)
    have run: "tcp_getString os w = Option.bind (tcp_getString os w1) (\<lambda>(r, w'').
        Some (case r of Inr s \<Rightarrow> Inr (byte_char b # s) | Inl e \<Rightarrow> Inl e, w''))"
      using d(1) one(1) False by (subst tcp_getString.simps) (simp cong: sum.case_cong)
    from Cons(1) [OF one(2) [symmetric]] one(2) pw step run d(5) show ?thesis
      by (cases "getString bs") auto
  qed
qed

end

section \<open>A system that satisfies it\<close>

text \<open>
  The packets that will arrive, cut as the network cut them, and for each coming \<open>::send\<close> how
  many bytes the kernel takes.
\<close>

record packet_world =
  outgoing :: bytes
  packets :: "bytes list"
  accepts :: "nat list"

definition packet_send :: "packet_world \<Rightarrow> bytes \<Rightarrow> int \<times> packet_world" where
  "packet_send w bs =
     (case accepts w of
        [] \<Rightarrow> (-1, w)
      | k # ks \<Rightarrow>
          (if k = 0 then (-1, w\<lparr>accepts := ks\<rparr>)
           else (int (min k (length bs)),
                 w\<lparr>outgoing := outgoing w @ take (min k (length bs)) bs, accepts := ks\<rparr>)))"

definition packet_recv :: "packet_world \<Rightarrow> nat \<Rightarrow> recv_call \<times> packet_world" where
  "packet_recv w n =
     (case dropWhile (\<lambda>p. p = []) (packets w) of
        [] \<Rightarrow> (Peer_closed, w)
      | p # ps \<Rightarrow> (Received (take n p), w\<lparr>packets := drop n p # ps\<rparr>))"

definition packet_os :: "packet_world socket_os" where
  "packet_os = \<lparr>os_send = packet_send, os_recv = packet_recv,
     os_readable = (\<lambda>w. (concat (packets w) \<noteq> [], w))\<rparr>"

lemma concat_dropWhile: "concat (dropWhile (\<lambda>p. p = []) ps) = concat ps"
  by (induction ps) auto

interpretation packet: stream_socket packet_os outgoing "\<lambda>w. concat (packets w)"
proof
  fix bs :: bytes and w w' val
  assume "bs \<noteq> []" and "os_send packet_os w bs = (val, w')"
  then show "nat val \<le> length bs \<and> outgoing w' = outgoing w @ take (nat val) bs \<and>
      concat (packets w') = concat (packets w)"
    by (auto simp: packet_os_def packet_send_def split: list.splits if_splits)
next
  fix n :: nat and w :: packet_world
  assume n: "0 < n" and w: "concat (packets w) \<noteq> []"
  let ?ps = "dropWhile (\<lambda>p. p = []) (packets w)"
  have c: "concat ?ps = concat (packets w)" by (rule concat_dropWhile)
  then obtain p ps where ps: "?ps = p # ps" using w by (cases ?ps) auto
  then have "p \<noteq> []" using hd_dropWhile [of "\<lambda>p. p = []" "packets w"] by auto
  then show "\<exists>d w'. os_recv packet_os w n = (Received d, w') \<and> d \<noteq> [] \<and> length d \<le> n \<and>
      concat (packets w) = d @ concat (packets w') \<and> outgoing w' = outgoing w"
    using n ps c by (auto simp: packet_os_def packet_recv_def simp flip: append_assoc)
next
  fix n :: nat and w :: packet_world
  assume "0 < n" and w: "concat (packets w) = []"
  then have none: "dropWhile (\<lambda>p. p = []) (packets w) = []" by simp
  show "\<exists>w'. os_recv packet_os w n = (Peer_closed, w') \<and> concat (packets w') = [] \<and>
      outgoing w' = outgoing w"
    using w unfolding packet_os_def packet_recv_def socket_os.simps none by simp
next
  fix w r w'
  assume "os_readable packet_os w = (r, w')"
  then show "concat (packets w') = concat (packets w) \<and> outgoing w' = outgoing w"
    by (simp add: packet_os_def)
qed

end
