(* ===== verification/Tcp_Connection.thy ===== *)
theory Tcp_Connection
  imports Tcp_Socket Hamsou_Main
begin

text \<open>
  \<^verbatim>\<open>tcp/ServerConnection.cpp\<close> and \<^verbatim>\<open>tcp/ServersCommunicationLayer.cpp\<close>: one connection to each node
  of the group, the node itself included, over the sockets of \<open>Tcp_Socket\<close>. A null socket is
  \<open>None\<close>. An operation is \<open>None\<close> when it has no result in the source: a call through a null
  pointer, an exception nobody catches, or a loop that does not end.
\<close>

section \<open>A connection\<close>

record 'w connection =
  conn_id :: int
  remoteId :: int
  csocket :: "'w option"

definition isToConnect :: "'w connection \<Rightarrow> bool" where
  "isToConnect c \<longleftrightarrow> remoteId c < conn_id c"

definition isSocketNull :: "'w connection \<Rightarrow> bool" where
  "isSocketNull c \<longleftrightarrow> csocket c = None"

text \<open>
  \<open>connect_to\<close> opens a socket to the host and port of a node (the constructor of \<open>TCPSocket\<close>,
  which may throw); the own number is sent first, and a failure to send it throws, too.
\<close>

definition createConnection ::
  "'w socket_os \<Rightarrow> (int \<Rightarrow> 'w option) \<Rightarrow> 'w connection \<Rightarrow> 'w connection option" where
  "createConnection os connect_to c = do {
     w \<leftarrow> connect_to (remoteId c);
     (case tcp_send_string os (to_string (conn_id c)) w of
        (True, w') \<Rightarrow> Some (c\<lparr>csocket := Some w'\<rparr>)
      | (False, _) \<Rightarrow> None) }"

definition ServerConnection_new ::
  "'w socket_os \<Rightarrow> (int \<Rightarrow> 'w option) \<Rightarrow> int \<Rightarrow> int \<Rightarrow> 'w option \<Rightarrow> 'w connection option" where
  "ServerConnection_new os connect_to i remote socket =
     (let c = \<lparr>conn_id = i, remoteId = remote, csocket = socket\<rparr>
      in if isToConnect c then createConnection os connect_to c else Some c)"

definition reconnect ::
  "'w socket_os \<Rightarrow> (int \<Rightarrow> 'w option) \<Rightarrow> 'w \<Rightarrow> 'w connection \<Rightarrow> 'w connection option" where
  "reconnect os connect_to newSocket c =
     (if csocket c = None
      then (if isToConnect c then createConnection os connect_to c
            else Some (c\<lparr>csocket := Some newSocket\<rparr>))
      else Some c)"

text \<open>The size as a string, then the bytes; the flag is whether neither threw.\<close>

definition conn_send :: "'w socket_os \<Rightarrow> bytes \<Rightarrow> 'w connection \<Rightarrow> bool \<times> 'w connection" where
  "conn_send os msg c =
     (case csocket c of
        None \<Rightarrow> (True, c)
      | Some w \<Rightarrow>
          (case tcp_send_string os (to_string (int (length msg))) w of
             (False, w1) \<Rightarrow> (False, c\<lparr>csocket := Some w1\<rparr>)
           | (True, w1) \<Rightarrow>
               (case tcp_send os msg w1 of (ok, w2) \<Rightarrow> (ok, c\<lparr>csocket := Some w2\<rparr>))))"

definition conn_send_string ::
  "'w socket_os \<Rightarrow> string \<Rightarrow> 'w connection \<Rightarrow> (bool \<times> 'w connection) option" where
  "conn_send_string os message c =
     (case csocket c of
        None \<Rightarrow> None
      | Some w \<Rightarrow> (case tcp_send_string os message w of (ok, w') \<Rightarrow> Some (ok, c\<lparr>csocket := Some w'\<rparr>)))"

text \<open>A closed socket is kept, only its descriptor is invalid.\<close>

definition closeSocket :: "('w \<Rightarrow> 'w) \<Rightarrow> 'w connection \<Rightarrow> 'w connection option" where
  "closeSocket os_close c =
     (case csocket c of None \<Rightarrow> None | Some w \<Rightarrow> Some (c\<lparr>csocket := Some (os_close w)\<rparr>))"

text \<open>
  At most one message. \<open>handle\<close> is what is done with it (the dispatch compiled in). An exception
  of the socket is caught and the socket deleted; those of \<open>stoi\<close> and of a negative size are not.
\<close>

definition conn_receive ::
  "'w socket_os \<Rightarrow> (bytes \<Rightarrow> 'st \<Rightarrow> 'st option) \<Rightarrow> 'w connection \<times> 'st \<Rightarrow>
     ('w connection \<times> 'st) option" where
  "conn_receive os handle = (\<lambda>(c, st).
     (case csocket c of
        None \<Rightarrow> Some (c, st)
      | Some w \<Rightarrow>
          (case os_readable os w of
             (False, w1) \<Rightarrow> Some (c\<lparr>csocket := Some w1\<rparr>, st)
           | (True, w1) \<Rightarrow> do {
               (r, w2) \<leftarrow> tcp_getString os w1;
               (case r of
                  Inl _ \<Rightarrow> Some (c\<lparr>csocket := None\<rparr>, st)
                | Inr lengthStr \<Rightarrow>
                    (if lengthStr = [] then Some (c\<lparr>csocket := Some w2\<rparr>, st)
                     else case stoi lengthStr of
                         Inl _ \<Rightarrow> None
                       | Inr n \<Rightarrow>
                           (if n < 0 then None
                            else case tcp_receive os (nat n) w2 of
                                (Inl _, w3) \<Rightarrow> Some (c\<lparr>csocket := None\<rparr>, st)
                              | (Inr msg, w3) \<Rightarrow> do {
                                  st' \<leftarrow> handle msg st;
                                  Some (c\<lparr>csocket := Some w3\<rparr>, st') }))) })))"

section \<open>The communication layer\<close>

text \<open>\<open>connections\<close>, in the order in which the map is traversed.\<close>

type_synonym 'w layer = "(int \<times> 'w connection) list"

definition getConnection ::
  "'w socket_os \<Rightarrow> (int \<Rightarrow> 'w option) \<Rightarrow> int \<Rightarrow> int \<Rightarrow> 'w layer \<Rightarrow> ('w connection \<times> 'w layer) option" where
  "getConnection os connect_to i remote l =
     (case map_of l remote of
        Some c \<Rightarrow> Some (c, l)
      | None \<Rightarrow> do {
          c \<leftarrow> ServerConnection_new os connect_to i remote None;
          Some (c, (remote, c) # l) })"

fun connect_each ::
  "'w socket_os \<Rightarrow> (int \<Rightarrow> 'w option) \<Rightarrow> int \<Rightarrow> int list \<Rightarrow> 'w layer \<Rightarrow> 'w layer option" where
  "connect_each os connect_to i [] l = Some l"
| "connect_each os connect_to i (r # rs) l = do {
     (_, l') \<leftarrow> getConnection os connect_to i r l;
     connect_each os connect_to i rs l' }"

definition connectAll ::
  "'w socket_os \<Rightarrow> (int \<Rightarrow> 'w option) \<Rightarrow> int \<Rightarrow> nat \<Rightarrow> 'w layer \<Rightarrow> 'w layer option" where
  "connectAll os connect_to i hosts l = connect_each os connect_to i [1..int hosts] l"

definition establishConnection ::
  "'w socket_os \<Rightarrow> (int \<Rightarrow> 'w option) \<Rightarrow> 'w \<Rightarrow> int \<Rightarrow> 'w layer \<Rightarrow> 'w layer option" where
  "establishConnection os connect_to socket remote l = do {
     c \<leftarrow> map_of l remote;
     c' \<leftarrow> reconnect os connect_to socket c;
     Some (map (\<lambda>(r, d). (r, if r = remote then c' else d)) l) }"

text \<open>To every other node not marked as failed; an exception is reported and the loop goes on.\<close>

fun broadcast :: "'w socket_os \<Rightarrow> int \<Rightarrow> bool list \<Rightarrow> bytes \<Rightarrow> 'w layer \<Rightarrow> 'w layer option" where
  "broadcast os i dead msg [] = Some []"
| "broadcast os i dead msg ((r, c) # l) =
     (if r = i
      then do { l' \<leftarrow> broadcast os i dead msg l; Some ((r, c) # l') }
      else do {
        failed \<leftarrow> vget dead (r - 1);
        l' \<leftarrow> broadcast os i dead msg l;
        Some ((r, if failed then c else snd (conn_send os msg c)) # l') })"

fun broadcast_string :: "'w socket_os \<Rightarrow> int \<Rightarrow> string \<Rightarrow> 'w layer \<Rightarrow> 'w layer option" where
  "broadcast_string os i message [] = Some []"
| "broadcast_string os i message ((r, c) # l) =
     (if r = i
      then do { l' \<leftarrow> broadcast_string os i message l; Some ((r, c) # l') }
      else do {
        (_, c') \<leftarrow> conn_send_string os message c;
        l' \<leftarrow> broadcast_string os i message l;
        Some ((r, c') # l') })"

text \<open>
  One round of \<open>handleAllReceives\<close>. \<open>receive\<close> catches what its socket throws, so that the handler
  that would erase the connection is never reached.
\<close>

fun receive_round ::
  "'w socket_os \<Rightarrow> (int \<Rightarrow> bytes \<Rightarrow> 'st \<Rightarrow> 'st option) \<Rightarrow> 'w layer \<times> 'st \<Rightarrow> ('w layer \<times> 'st) option" where
  "receive_round os handle ([], st) = Some ([], st)"
| "receive_round os handle ((r, c) # l, st) = do {
     (c', st1) \<leftarrow> conn_receive os (handle (remoteId c)) (c, st);
     (l', st2) \<leftarrow> receive_round os handle (l, st1);
     Some ((r, c') # l', st2) }"

fun closeAllSockets :: "('w \<Rightarrow> 'w) \<Rightarrow> 'w layer \<Rightarrow> 'w layer option" where
  "closeAllSockets os_close [] = Some []"
| "closeAllSockets os_close ((r, c) # l) = do {
     c' \<leftarrow> closeSocket os_close c;
     l' \<leftarrow> closeAllSockets os_close l;
     Some ((r, c') # l') }"

definition isConnectionDead :: "int \<Rightarrow> 'w layer \<Rightarrow> bool" where
  "isConnectionDead remote l = (case map_of l remote of None \<Rightarrow> False | Some c \<Rightarrow> isSocketNull c)"

section \<open>Shutting down\<close>

text \<open>
  \<open>shutdownHandler\<close> of \<^verbatim>\<open>tcp/main-replication-protocols.cpp\<close> up to its final statistics: the text
  \<open>shutdown\<close> with its zero is broadcast, then all sockets are closed.
\<close>

definition shutdown_message :: bytes where
  "shutdown_message = map char_byte ''shutdown'' @ [0]"

definition shutdownHandler ::
  "'w socket_os \<Rightarrow> ('w \<Rightarrow> 'w) \<Rightarrow> int \<Rightarrow> bool list \<Rightarrow> 'w layer \<Rightarrow> 'w layer option" where
  "shutdownHandler os os_close i dead l = do {
     l' \<leftarrow> broadcast os i dead shutdown_message l;
     closeAllSockets os_close l' }"

section \<open>Correctness\<close>

context stream_socket
begin

text \<open>Sending through a connection: a frame, or a strict prefix of it and the exception.\<close>

lemma conn_send_result:
  assumes "csocket c = Some w" and "conn_send os msg c = (ok, c')"
  shows "\<exists>w' k. c' = c\<lparr>csocket := Some w'\<rparr> \<and> k \<le> length (send_frame msg) \<and>
    sent w' = sent w @ take k (send_frame msg) \<and> pending w' = pending w \<and>
    (ok \<longleftrightarrow> k = length (send_frame msg))"
proof -
  let ?head = "map char_byte (to_string (int (length msg))) @ [0]"
  have frame: "send_frame msg = ?head @ msg" by (simp add: send_frame_def)
  obtain ok1 w1 where s1: "tcp_send os ?head w = (ok1, w1)" by (cases "tcp_send os ?head w")
  from tcp_send_result [OF s1] obtain k1 where
    k1: "k1 \<le> length ?head" "sent w1 = sent w @ take k1 ?head" "pending w1 = pending w"
    "ok1 \<longleftrightarrow> k1 = length ?head" by blast
  show ?thesis
  proof (cases ok1)
    case False
    then have "ok = False" "c' = c\<lparr>csocket := Some w1\<rparr>"
      using assms s1 by (auto simp: conn_send_def tcp_send_string_def)
    moreover have "k1 < length ?head" using k1(1,4) False by simp
    then have "take k1 (send_frame msg) = take k1 ?head" "k1 < length (send_frame msg)"
      unfolding frame by simp_all
    ultimately show ?thesis using k1 by (intro exI [of _ w1] exI [of _ k1]) simp
  next
    case True
    obtain ok2 w2 where s2: "tcp_send os msg w1 = (ok2, w2)" by (cases "tcp_send os msg w1")
    from tcp_send_result [OF s2] obtain k2 where
      k2: "k2 \<le> length msg" "sent w2 = sent w1 @ take k2 msg" "pending w2 = pending w1"
      "ok2 \<longleftrightarrow> k2 = length msg" by blast
    have "ok = ok2" "c' = c\<lparr>csocket := Some w2\<rparr>"
      using assms s1 s2 True by (auto simp: conn_send_def tcp_send_string_def)
    moreover have "sent w2 = sent w @ take (length ?head + k2) (send_frame msg)"
      unfolding frame k2(2) k1(2) using k1(4) True by simp
    ultimately show ?thesis
      using k1 k2 unfolding frame
      by (intro exI [of _ w2] exI [of _ "length ?head + k2"]) simp
  qed
qed

text \<open>
  Receiving implements \<open>receive_frame\<close> on the bytes that are pending, however they are packed.
\<close>

lemma conn_receive_frame:
  assumes "csocket c = Some w" and "os_readable os w = (True, w1)"
    and "receive_frame (pending w) = Got msg rest"
  shows "\<exists>w'. conn_receive os handle (c, st)
      = map_option (\<lambda>st'. (c\<lparr>csocket := Some w'\<rparr>, st')) (handle msg st) \<and>
    pending w' = rest \<and> sent w' = sent w"
proof -
  have w1: "pending w1 = pending w" "sent w1 = sent w" using readable [OF assms(2)] by simp_all
  from assms(3) obtain s r n where
    r: "getString (pending w) = Some (s, r)" "s \<noteq> []" "stoi s = Inr n" "0 \<le> n"
    "read_bytes (nat n) r = Some (msg, rest)"
    by (auto simp: receive_frame_def split: if_splits option.splits sum.splits prod.splits)
  from tcp_getString_result [of w1] r(1) w1 obtain w2 where
    w2: "tcp_getString os w1 = Some (Inr s, w2)" "pending w2 = r" "sent w2 = sent w" by auto
  have n: "nat n \<le> length r" "msg = take (nat n) r" "rest = drop (nat n) r"
    using r(5) by (auto simp: read_bytes_def split: if_splits)
  from tcp_receive_result [of "nat n" w2] n w2 obtain w3 where
    w3: "tcp_receive os (nat n) w2 = (Inr msg, w3)" "pending w3 = rest" "sent w3 = sent w" by auto
  have "conn_receive os handle (c, st)
      = map_option (\<lambda>st'. (c\<lparr>csocket := Some w3\<rparr>, st')) (handle msg st)"
    using assms(1,2) w2(1) r(2-4) w3(1)
    by (cases "handle msg st") (simp_all add: conn_receive_def)
  then show ?thesis using w3(2,3) by blast
qed

text \<open>A stream that ends inside a frame loses the socket.\<close>

lemma conn_receive_closed:
  assumes "csocket c = Some w" and "os_readable os w = (True, w1)"
    and "receive_frame (pending w) = Closed"
  shows "conn_receive os handle (c, st) = Some (c\<lparr>csocket := None\<rparr>, st)"
proof -
  have w1: "pending w1 = pending w" using readable [OF assms(2)] by simp
  show ?thesis
  proof (cases "getString (pending w)")
    case None
    with tcp_getString_result [of w1] w1 obtain w2 where "tcp_getString os w1 = Some (Inl Socket_closed, w2)"
      by auto
    then show ?thesis using assms(1,2) by (simp add: conn_receive_def)
  next
    case (Some sr)
    then obtain s r where sr: "getString (pending w) = Some (s, r)" by (cases sr) auto
    with assms(3) obtain n where
      n: "s \<noteq> []" "stoi s = Inr n" "0 \<le> n" "read_bytes (nat n) r = None"
      by (auto simp: receive_frame_def split: if_splits option.splits sum.splits prod.splits)
    from tcp_getString_result [of w1] sr w1 obtain w2 where
      w2: "tcp_getString os w1 = Some (Inr s, w2)" "pending w2 = r" by auto
    have "length (pending w2) < nat n" using n(4) w2(2) by (simp add: read_bytes_def split: if_splits)
    from tcp_receive_short [OF this] obtain w3 where "tcp_receive os (nat n) w2 = (Inl Socket_closed, w3)" ..
    then show ?thesis using assms(1,2) w2(1) n(1-3) by (simp add: conn_receive_def)
  qed
qed

text \<open>
  A broadcast adds to the stream of every other live node a prefix of the frame, all of it
  unless the exception was swallowed, and leaves every other connection alone.
\<close>

lemma broadcast_result:
  assumes "\<forall>(r, c) \<in> set l. r \<noteq> i \<longrightarrow> 1 \<le> r \<and> r \<le> int (length dead)"
  shows "\<exists>l'. broadcast os i dead msg l = Some l' \<and>
    list_all2 (\<lambda>(r, c) (r', c'). r' = r \<and>
      (if r = i \<or> dead ! nat (r - 1) \<or> csocket c = None then c' = c
       else \<exists>w w' k. csocket c = Some w \<and> c' = c\<lparr>csocket := Some w'\<rparr> \<and>
         sent w' = sent w @ take k (send_frame msg) \<and> pending w' = pending w \<and>
         (fst (conn_send os msg c) \<longleftrightarrow> k \<ge> length (send_frame msg)))) l l'"
  using assms
proof (induction l)
  case Nil
  then show ?case by simp
next
  case (Cons rc l)
  obtain r c where rc: "rc = (r, c)" by (cases rc)
  from Cons obtain l' where l': "broadcast os i dead msg l = Some l'"
    "list_all2 (\<lambda>(r, c) (r', c'). r' = r \<and>
      (if r = i \<or> dead ! nat (r - 1) \<or> csocket c = None then c' = c
       else \<exists>w w' k. csocket c = Some w \<and> c' = c\<lparr>csocket := Some w'\<rparr> \<and>
         sent w' = sent w @ take k (send_frame msg) \<and> pending w' = pending w \<and>
         (fst (conn_send os msg c) \<longleftrightarrow> k \<ge> length (send_frame msg)))) l l'" by auto
  have in_range: "r = i \<or> vget dead (r - 1) = Some (dead ! nat (r - 1))"
    using Cons.prems by (auto simp: rc vget_def)
  consider "r = i" | "r \<noteq> i" "dead ! nat (r - 1)" | "r \<noteq> i" "\<not> dead ! nat (r - 1)" "csocket c = None"
    | w where "r \<noteq> i" "\<not> dead ! nat (r - 1)" "csocket c = Some w"
    by (cases "csocket c") auto
  then show ?case
  proof cases
    case (4 w)
    obtain ok c' where s: "conn_send os msg c = (ok, c')" by (cases "conn_send os msg c")
    from conn_send_result [OF 4(3) s] obtain w' k where
      k: "c' = c\<lparr>csocket := Some w'\<rparr>" "k \<le> length (send_frame msg)"
      "sent w' = sent w @ take k (send_frame msg)" "pending w' = pending w"
      "ok \<longleftrightarrow> k = length (send_frame msg)" by blast
    have "ok \<longleftrightarrow> length (send_frame msg) \<le> k" using k(2,5) by auto
    then show ?thesis using l' in_range 4 s k(1,3,4) by (auto simp: rc)
  qed (use l' in_range in \<open>auto simp: rc conn_send_def\<close>)
qed

end

text \<open>The layer holds a connection of the node to itself, whose socket is never opened.\<close>

lemma getConnection_own:
  assumes "map_of l i = Some c" and "csocket c = None" and "getConnection os connect_to i r l = Some (d, l')"
  shows "\<exists>c. map_of l' i = Some c \<and> csocket c = None"
  using assms by (auto simp: getConnection_def bind_eq_Some_conv split: option.splits)

lemma connect_each_own:
  assumes "connect_each os connect_to i rs l = Some l'"
    and "i \<in> set rs \<or> (\<exists>c. map_of l i = Some c \<and> csocket c = None)"
    and "\<forall>c. map_of l i = Some c \<longrightarrow> csocket c = None"
  shows "\<exists>c. map_of l' i = Some c \<and> csocket c = None"
  using assms
proof (induction rs arbitrary: l)
  case Nil
  then show ?case by auto
next
  case (Cons r rs)
  from Cons.prems(1) obtain d l1 where
    l1: "getConnection os connect_to i r l = Some (d, l1)" "connect_each os connect_to i rs l1 = Some l'"
    by (auto simp: bind_eq_Some_conv)
  have own: "r = i \<Longrightarrow> \<exists>c. map_of l1 i = Some c \<and> csocket c = None"
    using l1(1) Cons.prems(3)
    by (auto simp: getConnection_def ServerConnection_new_def isToConnect_def Let_def bind_eq_Some_conv
        split: option.splits)
  have keep: "\<forall>c. map_of l1 i = Some c \<longrightarrow> csocket c = None"
  proof (cases "r = i")
    case True
    then show ?thesis using own by auto
  next
    case False
    then show ?thesis using l1(1) Cons.prems(3)
      by (auto simp: getConnection_def bind_eq_Some_conv split: option.splits)
  qed
  have "i \<in> set rs \<or> (\<exists>c. map_of l1 i = Some c \<and> csocket c = None)"
    using Cons.prems(2) own getConnection_own [OF _ _ l1(1)] by auto
  from Cons.IH [OF l1(2) this keep] show ?case .
qed

lemma connectAll_own:
  assumes "connectAll os connect_to i hosts [] = Some l" and "1 \<le> i" and "i \<le> int hosts"
  shows "\<exists>c. map_of l i = Some c \<and> csocket c = None"
  using assms connect_each_own [of os connect_to i "[1..int hosts]" "[]" l]
  by (simp add: connectAll_def)

lemma closeAllSockets_null: "map_of l i = Some c \<Longrightarrow> csocket c = None \<Longrightarrow> closeAllSockets os_close l = None"
proof (induction l)
  case Nil
  then show ?case by simp
next
  case (Cons rc l)
  then show ?case
    by (cases rc) (auto simp: closeSocket_def bind_eq_None_conv split: option.splits if_splits)
qed

lemma broadcast_own:
  assumes "broadcast os i dead msg l = Some l'" and "map_of l i = Some c"
  shows "map_of l' i = Some c"
  using assms
  by (induction l arbitrary: l') (auto simp: bind_eq_Some_conv split: if_splits)

text \<open>So closing all sockets calls through a null pointer.\<close>

lemma shutdownHandler_undefined:
  assumes "connectAll os connect_to i hosts [] = Some l" and "1 \<le> i" and "i \<le> int hosts"
  shows "shutdownHandler os os_close i dead l = None"
proof -
  from connectAll_own [OF assms] obtain c where c: "map_of l i = Some c" "csocket c = None" by blast
  have "closeAllSockets os_close l' = None" if "broadcast os i dead shutdown_message l = Some l'" for l'
    using closeAllSockets_null [OF broadcast_own [OF that c(1)] c(2)] .
  then show ?thesis
    by (cases "broadcast os i dead shutdown_message l") (simp_all add: shutdownHandler_def)
qed

end
