(* ===== verification/Gbox_Graph.thy ===== *)
theory Gbox_Graph
  imports Prelude
begin

text \<open>
  \<^verbatim>\<open>gbox-creator.cpp\<close>: the graphs of conflicts and dependencies between operations, and the
  depth-first search that counts their cycles. Vertices are the numbers of the enumeration.
  An index outside an array is undefined behaviour, \<open>None\<close>; what the program prints is the
  list of the cycles it finds.
\<close>

section \<open>Graphs\<close>

datatype Vertex = V_AddProject | V_DeleteProject | V_WorksOn | V_AddEmployee

fun vertex_id :: "Vertex \<Rightarrow> nat" where
  "vertex_id V_AddProject = 0"
| "vertex_id V_DeleteProject = 1"
| "vertex_id V_WorksOn = 2"
| "vertex_id V_AddEmployee = 3"

record graph =
  numVertices :: nat
  adjLists :: "nat list list"
  edgeOrigins :: "nat \<times> nat \<Rightarrow> string option"

definition Graph_new :: "nat \<Rightarrow> graph" where
  "Graph_new vertices =
     \<lparr>numVertices = vertices, adjLists = replicate vertices [], edgeOrigins = (\<lambda>_. None)\<rparr>"

definition addEdge :: "nat \<Rightarrow> nat \<Rightarrow> string \<Rightarrow> graph \<Rightarrow> graph option" where
  "addEdge src dest origin g =
     (if src < length (adjLists g)
      then Some (g\<lparr>adjLists := (adjLists g)[src := adjLists g ! src @ [dest]],
                   edgeOrigins := (edgeOrigins g)((src, dest) := Some origin)\<rparr>)
      else None)"

text \<open>\<open>std::remove\<close> drops every occurrence.\<close>

definition removeEdge :: "nat \<Rightarrow> nat \<Rightarrow> graph \<Rightarrow> graph option" where
  "removeEdge u v g =
     (if u < length (adjLists g)
      then Some (g\<lparr>adjLists := (adjLists g)[u := filter (\<lambda>x. x \<noteq> v) (adjLists g ! u)]\<rparr>)
      else None)"

fun reverse_into :: "(nat \<times> nat) list \<Rightarrow> nat list list \<Rightarrow> nat list list option" where
  "reverse_into [] acc = Some acc"
| "reverse_into ((v, x) # es) acc =
     (if x < length acc then reverse_into es (acc[x := acc ! x @ [v]]) else None)"

definition edge_list :: "nat \<Rightarrow> nat list list \<Rightarrow> (nat \<times> nat) list" where
  "edge_list n adj = concat (map (\<lambda>v. map (\<lambda>x. (v, x)) (adj ! v)) [0..<n])"

definition reverseEdges :: "graph \<Rightarrow> graph option" where
  "reverseEdges g =
     (if numVertices g \<le> length (adjLists g)
      then map_option (\<lambda>adj. g\<lparr>adjLists := adj\<rparr>)
             (reverse_into (edge_list (numVertices g) (adjLists g)) (replicate (numVertices g) []))
      else None)"

fun add_all :: "nat \<Rightarrow> nat list \<Rightarrow> string \<Rightarrow> graph \<Rightarrow> graph option" where
  "add_all v [] origin g = Some g"
| "add_all v (x # xs) origin g = do { g' \<leftarrow> addEdge v x origin g; add_all v xs origin g' }"

text \<open>The edges of the graphs \<open>gs\<close> at each vertex of \<open>vs\<close>; none of them is the target itself.\<close>

fun merge_at :: "nat \<Rightarrow> (graph \<times> string) list \<Rightarrow> graph \<Rightarrow> graph option" where
  "merge_at v [] g = Some g"
| "merge_at v ((g1, origin) # gs) g =
     (if v < length (adjLists g1)
      then do { g' \<leftarrow> add_all v (adjLists g1 ! v) origin g; merge_at v gs g' }
      else None)"

fun merge_all :: "nat list \<Rightarrow> (graph \<times> string) list \<Rightarrow> graph \<Rightarrow> graph option" where
  "merge_all [] gs g = Some g"
| "merge_all (v # vs) gs g = do { g' \<leftarrow> merge_at v gs g; merge_all vs gs g' }"

definition merge2Graphs :: "graph \<Rightarrow> string \<Rightarrow> graph \<Rightarrow> string \<Rightarrow> graph \<Rightarrow> graph option" where
  "merge2Graphs g1 g1origin g2 g2origin g =
     merge_all [0..<numVertices g] [(g1, g1origin), (g2, g2origin)] g"

definition merge3Graphs ::
  "graph \<Rightarrow> string \<Rightarrow> graph \<Rightarrow> string \<Rightarrow> graph \<Rightarrow> string \<Rightarrow> graph \<Rightarrow> graph option" where
  "merge3Graphs g1 g1origin g2 g2origin g3 g3origin g =
     merge_all [0..<numVertices g] [(g1, g1origin), (g2, g2origin), (g3, g3origin)] g"

section \<open>Cycles\<close>

text \<open>
  \<open>color\<close> is 0 for a vertex not visited, 1 while its search runs, 2 afterwards; \<open>printed\<close> holds
  the cycles in the order they are found, each as the path \<open>cycle\<close> the code collects.
\<close>

record dfs =
  color :: "nat list"
  pred :: "int list"
  cycleNumber :: nat
  printed :: "nat list list"

text \<open>
  The walk back along \<open>pred\<close>; at most every vertex once, the fuel is for a walk that does not
  end. Following a missing predecessor reads \<open>pred[-1]\<close>.
\<close>

fun trace_back :: "nat \<Rightarrow> nat \<Rightarrow> nat \<Rightarrow> int list \<Rightarrow> nat list option" where
  "trace_back 0 cur v ps = None"
| "trace_back (Suc k) cur v ps =
     (if cur = v then Some []
      else if cur < length ps \<and> 0 \<le> ps ! cur
      then map_option ((#) cur) (trace_back k (nat (ps ! cur)) v ps)
      else None)"

text \<open>The recursion of \<open>findCyclesUtil\<close>; each call colours a vertex, so its depth is bounded.\<close>

fun findCyclesUtil :: "nat \<Rightarrow> nat list list \<Rightarrow> nat \<Rightarrow> dfs \<Rightarrow> dfs option"
  and scan_neighbours :: "nat \<Rightarrow> nat list list \<Rightarrow> nat \<Rightarrow> nat list \<Rightarrow> dfs \<Rightarrow> dfs option" where
  "findCyclesUtil 0 adj u s = None"
| "findCyclesUtil (Suc k) adj u s =
     (if u < length (color s) \<and> u < length adj
      then do {
        s' \<leftarrow> scan_neighbours k adj u (adj ! u) (s\<lparr>color := (color s)[u := 1]\<rparr>);
        Some (s'\<lparr>color := (color s')[u := 2]\<rparr>) }
      else None)"
| "scan_neighbours k adj u [] s = Some s"
| "scan_neighbours k adj u (v # vs) s =
     (if length (color s) \<le> v then None
      else if color s ! v = 0
      then do {
        s' \<leftarrow> findCyclesUtil k adj v (s\<lparr>pred := (pred s)[v := int u]\<rparr>);
        scan_neighbours k adj u vs s' }
      else if color s ! v = 1
      then do {
        path \<leftarrow> trace_back (Suc (length (pred s))) u v (pred s);
        scan_neighbours k adj u vs
          (s\<lparr>cycleNumber := cycleNumber s + 1, printed := printed s @ [path @ [v, u]]\<rparr>) }
      else scan_neighbours k adj u vs s)"

fun visit_all :: "nat list list \<Rightarrow> nat list \<Rightarrow> dfs \<Rightarrow> dfs option" where
  "visit_all adj [] s = Some s"
| "visit_all adj (i # is) s =
     (if color s ! i = 0
      then do { s' \<leftarrow> findCyclesUtil (length (color s)) adj i s; visit_all adj is s' }
      else visit_all adj is s)"

definition dfs_start :: "nat \<Rightarrow> dfs" where
  "dfs_start n = \<lparr>color = replicate n 0, pred = replicate n (-1), cycleNumber = 0, printed = []\<rparr>"

definition run_findCycles :: "nat \<Rightarrow> graph \<Rightarrow> dfs option" where
  "run_findCycles n g = visit_all (adjLists g) [0..<n] (dfs_start n)"

definition findCycles :: "nat \<Rightarrow> graph \<Rightarrow> nat option" where
  "findCycles n g = map_option cycleNumber (run_findCycles n g)"

section \<open>The gbox\<close>

text \<open>One state conflict: of its two edges the one whose removal leaves fewer cycles goes.\<close>

definition resolve_conflict :: "nat \<Rightarrow> nat \<Rightarrow> graph \<Rightarrow> graph option" where
  "resolve_conflict v x g = do {
     g1 \<leftarrow> removeEdge v x g;
     cycleNumber1 \<leftarrow> findCycles (numVertices g1) g1;
     g2 \<leftarrow> addEdge v x ''gbox'' g1;
     g3 \<leftarrow> removeEdge x v g2;
     cycleNumber2 \<leftarrow> findCycles (numVertices g3) g3;
     g4 \<leftarrow> addEdge x v ''gbox'' g3;
     if cycleNumber1 > cycleNumber2 then removeEdge x v g4 else removeEdge v x g4 }"

text \<open>
  \<open>creategbox\<close> resolves a conflict while it iterates over \<open>adjLists[v]\<close>, from which it erases:
  the iterators of the loop are invalid from there on, and the next step of the loop uses them.
  Only a graph without unresolved conflicts is traversed to the end, and left as it is.
\<close>

fun gbox_scan :: "graph \<Rightarrow> nat \<Rightarrow> nat list \<Rightarrow> graph option" where
  "gbox_scan g v [] = Some g"
| "gbox_scan g v (x # xs) =
     (if numVertices g \<le> v \<or> numVertices g \<le> x then None
      else if edgeOrigins g (v, x) = Some ''State Conflicts Graph''
      then Option.bind (resolve_conflict v x g) (\<lambda>_. None)
      else gbox_scan g v xs)"

fun gbox_loop :: "graph \<Rightarrow> nat list \<Rightarrow> graph option" where
  "gbox_loop g [] = Some g"
| "gbox_loop g (v # vs) =
     (if v < length (adjLists g)
      then do { g' \<leftarrow> gbox_scan g v (adjLists g ! v); gbox_loop g' vs }
      else None)"

definition creategbox :: "graph \<Rightarrow> graph option" where
  "creategbox g = gbox_loop g [0..<numVertices g]"

section \<open>The graphs of the example\<close>

fun add_edges :: "(Vertex \<times> Vertex) list \<Rightarrow> string \<Rightarrow> graph \<Rightarrow> graph option" where
  "add_edges [] origin g = Some g"
| "add_edges ((src, dest) # es) origin g = do {
     g' \<leftarrow> addEdge (vertex_id src) (vertex_id dest) origin g;
     add_edges es origin g' }"

definition gbox_main :: "(nat \<times> graph) option" where
  "gbox_main = do {
     dependency \<leftarrow> add_edges [(V_DeleteProject, V_AddProject)] ''Dependency Graph'' (Graph_new 4);
     conflicts \<leftarrow> add_edges [(V_DeleteProject, V_WorksOn), (V_WorksOn, V_DeleteProject)]
       ''Conflicts Graph'' (Graph_new 4);
     state_conflicts \<leftarrow> add_edges [(V_AddProject, V_WorksOn), (V_WorksOn, V_AddProject),
         (V_WorksOn, V_AddEmployee), (V_AddEmployee, V_WorksOn)]
       ''State Conflicts Graph'' (Graph_new 4);
     dependency \<leftarrow> reverseEdges dependency;
     cyclegraph \<leftarrow> merge3Graphs conflicts ''Conflicts Graph'' dependency ''Dependency Graph''
       state_conflicts ''State Conflicts Graph'' (Graph_new 4);
     n \<leftarrow> findCycles 4 cyclegraph;
     Some (n, cyclegraph) }"

end
