(* ===== verification/Gbox_Cycles.thy ===== *)
theory Gbox_Cycles
  imports Gbox_Graph
begin

text \<open>
  The cycle search: it always ends, every path it prints is a cycle of the graph, and it
  reports none exactly when the graph is acyclic.
\<close>

section \<open>Edges and closed walks\<close>

definition graph_ok :: "nat \<Rightarrow> nat list list \<Rightarrow> bool" where
  "graph_ok n adj \<longleftrightarrow> n \<le> length adj \<and> (\<forall>u < n. \<forall>v \<in> set (adj ! u). v < n)"

definition edges_of :: "nat \<Rightarrow> nat list list \<Rightarrow> (nat \<times> nat) set" where
  "edges_of n adj = {(u, v). u < n \<and> v \<in> set (adj ! u)}"

text \<open>A path as the code collects it, from the last vertex back to the first.\<close>

definition backwards :: "(nat \<times> nat) set \<Rightarrow> nat list \<Rightarrow> bool" where
  "backwards E p \<longleftrightarrow> successively (\<lambda>a b. (b, a) \<in> E) p"

definition is_cycle :: "(nat \<times> nat) set \<Rightarrow> nat list \<Rightarrow> bool" where
  "is_cycle E p \<longleftrightarrow> 2 \<le> length p \<and> hd p = last p \<and> backwards E p"

lemma backwards_trancl:
  "backwards E (a # p) \<Longrightarrow> p \<noteq> [] \<Longrightarrow> (last p, a) \<in> E\<^sup>+"
proof (induction p arbitrary: a)
  case Nil
  then show ?case by simp
next
  case (Cons b p)
  have ba: "(b, a) \<in> E" and rest: "backwards E (b # p)" using Cons.prems by (simp_all add: backwards_def)
  show ?case
  proof (cases "p = []")
    case True
    then show ?thesis using ba by auto
  next
    case False
    with Cons.IH [OF rest] have "(last p, b) \<in> E\<^sup>+" by simp
    with ba False show ?thesis by (simp add: trancl_into_trancl)
  qed
qed

lemma is_cycle_not_acyclic:
  assumes "is_cycle E p"
  shows "\<not> acyclic E"
proof -
  obtain a q where p: "p = a # q" "q \<noteq> []" using assms by (cases p) (auto simp: is_cycle_def Suc_le_eq)
  have "backwards E (a # q)" using assms p(1) by (simp add: is_cycle_def)
  then have "(last q, a) \<in> E\<^sup>+" using p(2) by (rule backwards_trancl)
  moreover have "last q = a" using assms p by (simp add: is_cycle_def)
  ultimately show ?thesis by (auto simp: acyclic_def)
qed

text \<open>Edges out of a vertex no edge enters close no cycle.\<close>

lemma acyclic_add_source:
  assumes R: "acyclic R" and source: "\<forall>(a, b) \<in> R \<union> S. b \<noteq> u" and S: "\<forall>(a, b) \<in> S. a = u"
  shows "acyclic (R \<union> S)"
proof -
  have step: "(a, b) \<in> R\<^sup>+" if "(a, b) \<in> (R \<union> S)\<^sup>+" "a \<noteq> u" for a b
    using that
  proof (induction rule: trancl_induct)
    case (base b)
    then show ?case using S by auto
  next
    case (step b c)
    have "(a, b) \<in> R\<^sup>+" using step by simp
    moreover from this have "b \<noteq> u" using source by (auto elim: tranclE)
    ultimately show ?case using step.hyps(2) S by (auto intro: trancl_into_trancl)
  qed
  show ?thesis
  proof (rule acyclicI, intro allI notI)
    fix x
    assume x: "(x, x) \<in> (R \<union> S)\<^sup>+"
    then have "x \<noteq> u" using source by (auto elim: tranclE)
    with step [OF x] R show False by (auto simp: acyclic_def)
  qed
qed

section \<open>The invariant of the search\<close>

fun linked :: "(nat \<times> nat) set \<Rightarrow> int list \<Rightarrow> nat list \<Rightarrow> bool" where
  "linked E ps (x # y # st) \<longleftrightarrow> ps ! x = int y \<and> (y, x) \<in> E \<and> linked E ps (y # st)"
| "linked E ps st \<longleftrightarrow> True"

definition black_edges :: "(nat \<times> nat) set \<Rightarrow> dfs \<Rightarrow> (nat \<times> nat) set" where
  "black_edges E s = {(u, v) \<in> E. color s ! u = 2}"

definition clean :: "(nat \<times> nat) set \<Rightarrow> dfs \<Rightarrow> bool" where
  "clean E s \<longleftrightarrow> (\<forall>(u, v) \<in> black_edges E s. color s ! v = 2) \<and> acyclic (black_edges E s)"

definition search_inv :: "nat \<Rightarrow> nat list list \<Rightarrow> nat list \<Rightarrow> dfs \<Rightarrow> bool" where
  "search_inv n adj st s \<longleftrightarrow>
     length (color s) = n \<and> length (pred s) = n \<and> (\<forall>u < n. color s ! u \<in> {0, 1, 2}) \<and>
     set st = {u. u < n \<and> color s ! u = 1} \<and> distinct st \<and> linked (edges_of n adj) (pred s) st \<and>
     cycleNumber s = length (printed s) \<and> (\<forall>p \<in> set (printed s). is_cycle (edges_of n adj) p) \<and>
     (printed s = [] \<longrightarrow> clean (edges_of n adj) s)"

lemma search_invD:
  assumes "search_inv n adj st s"
  shows "length (color s) = n" and "length (pred s) = n" and "\<forall>u < n. color s ! u \<in> {0, 1, 2}"
    and "set st = {u. u < n \<and> color s ! u = 1}" and "distinct st"
    and "linked (edges_of n adj) (pred s) st" and "cycleNumber s = length (printed s)"
    and "\<forall>p \<in> set (printed s). is_cycle (edges_of n adj) p"
    and "printed s = [] \<Longrightarrow> clean (edges_of n adj) s"
  using assms unfolding search_inv_def by blast+

lemma search_invI:
  assumes "length (color s) = n" and "length (pred s) = n" and "\<forall>u < n. color s ! u \<in> {0, 1, 2}"
    and "set st = {u. u < n \<and> color s ! u = 1}" and "distinct st"
    and "linked (edges_of n adj) (pred s) st" and "cycleNumber s = length (printed s)"
    and "\<forall>p \<in> set (printed s). is_cycle (edges_of n adj) p"
    and "printed s = [] \<Longrightarrow> clean (edges_of n adj) s"
  shows "search_inv n adj st s"
  using assms unfolding search_inv_def by blast

lemma updated_in:
  assumes "length xs = n" and "\<forall>w < n. xs ! w \<in> S" and "x \<in> S"
  shows "\<forall>w < n. xs[u := x] ! w \<in> S"
proof (intro allI impI)
  fix w
  assume "w < n"
  then show "xs[u := x] ! w \<in> S" using assms by (cases "u = w") simp_all
qed

definition white :: "dfs \<Rightarrow> nat set" where
  "white s = {u. u < length (color s) \<and> color s ! u = 0}"

text \<open>What a part of the search may change: white vertices become black, cycles are added.\<close>

definition vertex_grows :: "dfs \<Rightarrow> dfs \<Rightarrow> nat \<Rightarrow> bool" where
  "vertex_grows s s' u \<longleftrightarrow> (if color s ! u = 0 then color s' ! u \<in> {0, 2}
     else color s' ! u = color s ! u \<and> pred s' ! u = pred s ! u)"

definition grows :: "dfs \<Rightarrow> dfs \<Rightarrow> bool" where
  "grows s s' \<longleftrightarrow> length (color s') = length (color s) \<and> (\<exists>new. printed s' = printed s @ new) \<and>
     (\<forall>u < length (color s). vertex_grows s s' u)"

lemma grows_refl [simp]: "grows s s"
  by (simp add: grows_def vertex_grows_def)

lemma vertex_grows_trans: "vertex_grows s s' u \<Longrightarrow> vertex_grows s' s'' u \<Longrightarrow> vertex_grows s s'' u"
  by (auto simp: vertex_grows_def split: if_splits)

lemma grows_trans: "grows s s' \<Longrightarrow> grows s' s'' \<Longrightarrow> grows s s''"
  unfolding grows_def by (auto intro: vertex_grows_trans)

lemma vertex_grows_pred:
  "vertex_grows (s\<lparr>pred := (pred s)[v := x]\<rparr>) s' u \<Longrightarrow> color s ! v = 0 \<Longrightarrow> vertex_grows s s' u"
  by (cases "u = v") (auto simp: vertex_grows_def split: if_splits)

lemma grows_pred: "grows (s\<lparr>pred := (pred s)[v := x]\<rparr>) s' \<Longrightarrow> color s ! v = 0 \<Longrightarrow> grows s s'"
  unfolding grows_def by (auto intro: vertex_grows_pred)

lemma grows_white: "grows s s' \<Longrightarrow> white s' \<subseteq> white s"
  by (auto simp: grows_def vertex_grows_def white_def split: if_splits)

lemma finite_white [simp]: "finite (white s)"
  by (simp add: white_def)

lemma grows_card: "grows s s' \<Longrightarrow> card (white s') \<le> card (white s)"
  by (intro card_mono grows_white) simp_all

lemma linked_cong: "linked E ps st \<Longrightarrow> (\<And>x. x \<in> set st \<Longrightarrow> ps' ! x = ps ! x) \<Longrightarrow> linked E ps' st"
  by (induction E ps st rule: linked.induct) auto

lemma trace_back_returns:
  assumes "linked E ps st" and "set st \<subseteq> {..<length ps}" and "st = u # rest" and "v \<in> set st"
    and "length st < k"
  shows "\<exists>p. trace_back k u v ps = Some p \<and> backwards E (p @ [v]) \<and> hd (p @ [v]) = u"
  using assms
proof (induction st arbitrary: u rest k)
  case Nil
  then show ?case by simp
next
  case (Cons x st)
  obtain m where k: "k = Suc m" using Cons.prems(5) by (cases k) auto
  show ?case
  proof (cases "u = v")
    case True
    then show ?thesis by (simp add: k backwards_def)
  next
    case False
    then obtain y st' where st: "st = y # st'" using Cons.prems(3,4) by (cases st) auto
    have y: "ps ! u = int y" "(y, u) \<in> E" "u < length ps" using Cons.prems(1-3) st by auto
    have "linked E ps st" "set st \<subseteq> {..<length ps}" "v \<in> set st" "length st < m"
      using Cons.prems False st k by auto
    from Cons.IH [OF this(1,2) st this(3,4)] obtain p where
      p: "trace_back m y v ps = Some p" "backwards E (p @ [v])" "hd (p @ [v]) = y" by blast
    have "backwards E (u # p @ [v])"
      using p(2,3) y(2) by (cases p) (simp_all add: backwards_def)
    then show ?thesis using p(1) y False by (auto simp: k)
  qed
qed

lemma search_inv_pred:
  assumes inv: "search_inv n adj st s" and v: "v < n" "color s ! v = 0"
  shows "search_inv n adj st (s\<lparr>pred := (pred s)[v := x]\<rparr>)"
proof -
  note i = search_invD [OF inv]
  have "v \<notin> set st" unfolding i(4) using v by simp
  then have "linked (edges_of n adj) ((pred s)[v := x]) st"
    using i(6) by (elim linked_cong) (metis nth_list_update_neq)
  moreover have "clean (edges_of n adj) (s\<lparr>pred := (pred s)[v := x]\<rparr>)" if "printed s = []"
    using i(9) [OF that] by (simp add: clean_def black_edges_def)
  ultimately show ?thesis using i by (intro search_invI) simp_all
qed

lemma search_inv_enter:
  assumes inv: "search_inv n adj st s" and u: "u < n" "color s ! u = 0"
    and link: "st = [] \<or> (pred s ! u = int (hd st) \<and> (hd st, u) \<in> edges_of n adj)"
  shows "search_inv n adj (u # st) (s\<lparr>color := (color s)[u := 1]\<rparr>)"
proof (rule search_invI)
  let ?E = "edges_of n adj" and ?s = "s\<lparr>color := (color s)[u := 1]\<rparr>"
  note i = search_invD [OF inv]
  show "length (color ?s) = n" "length (pred ?s) = n" using i(1,2) by simp_all
  show "\<forall>w < n. color ?s ! w \<in> {0, 1, 2}" using updated_in [OF i(1,3)] by simp
  show "set (u # st) = {w. w < n \<and> color ?s ! w = 1}"
    using i(1,4) u by (auto simp: nth_list_update)
  show "distinct (u # st)" using i(4,5) u by auto
  show "linked ?E (pred ?s) (u # st)" using i(6) link by (cases st) auto
  show "cycleNumber ?s = length (printed ?s)" "\<forall>p \<in> set (printed ?s). is_cycle ?E p"
    using i(7,8) by simp_all
  show "clean ?E ?s" if "printed ?s = []"
  proof -
    have c: "clean ?E s" using i(9) that by simp
    have "black_edges ?E ?s = black_edges ?E s"
      using u i(1) by (auto simp: black_edges_def nth_list_update edges_of_def split: if_splits)
    moreover have "\<forall>(a, b) \<in> black_edges ?E s. (color s)[u := 1] ! b = 2"
      using c u i(1) by (auto simp: clean_def nth_list_update)
    ultimately show ?thesis using c by (simp add: clean_def)
  qed
qed

lemma search_inv_leave:
  assumes inv: "search_inv n adj (u # st) s" and u: "u < n"
    and neighbours: "printed s = [] \<longrightarrow> (\<forall>v \<in> set (adj ! u). color s ! v = 2)"
  shows "search_inv n adj st (s\<lparr>color := (color s)[u := 2]\<rparr>)"
proof (rule search_invI)
  let ?E = "edges_of n adj" and ?s = "s\<lparr>color := (color s)[u := 2]\<rparr>"
  note i = search_invD [OF inv]
  have gray: "color s ! u = 1" "u \<notin> set st" using i(4,5) by auto
  show "length (color ?s) = n" "length (pred ?s) = n" using i(1,2) by simp_all
  show "\<forall>w < n. color ?s ! w \<in> {0, 1, 2}" using updated_in [OF i(1,3)] by simp
  show "set st = {w. w < n \<and> color ?s ! w = 1}"
  proof -
    have "set st = {w. w < n \<and> color s ! w = 1} - {u}" using i(4) gray(2) by auto
    then show ?thesis using u i(1) by (auto simp: nth_list_update)
  qed
  show "distinct st" using i(5) by simp
  show "linked ?E (pred ?s) st" using i(6) by (cases st) auto
  show "cycleNumber ?s = length (printed ?s)" "\<forall>p \<in> set (printed ?s). is_cycle ?E p"
    using i(7,8) by simp_all
  show "clean ?E ?s" if "printed ?s = []"
  proof -
    let ?S = "{(a, b) \<in> ?E. a = u}"
    have no: "printed s = []" and c: "clean ?E s" using i(9) that by simp_all
    have black: "black_edges ?E ?s = black_edges ?E s \<union> ?S"
      using u i(1) gray by (auto simp: black_edges_def nth_list_update edges_of_def split: if_splits)
    have into: "\<forall>(a, b) \<in> black_edges ?E s \<union> ?S. color s ! b = 2"
      using c neighbours no by (auto simp: clean_def edges_of_def)
    have "\<forall>(a, b) \<in> black_edges ?E s \<union> ?S. b \<noteq> u"
    proof clarify
      fix a
      assume "(a, u) \<in> black_edges ?E s \<union> ?S"
      with into have "color s ! u = 2" by blast
      with gray(1) show False by simp
    qed
    then have "acyclic (black_edges ?E s \<union> ?S)"
      using c by (intro acyclic_add_source) (auto simp: clean_def)
    moreover have "\<forall>(a, b) \<in> black_edges ?E s \<union> ?S. (color s)[u := 2] ! b = 2"
      using into u i(1) by (auto simp: nth_list_update)
    ultimately show ?thesis unfolding clean_def black by simp
  qed
qed

lemma search_inv_cycle:
  assumes inv: "search_inv n adj st s" and p: "is_cycle (edges_of n adj) p"
  shows "search_inv n adj st (s\<lparr>cycleNumber := cycleNumber s + 1, printed := printed s @ [p]\<rparr>)"
  using assms by (simp add: search_inv_def)

lemma white_enter:
  assumes "u < length (color s)" and "color s ! u = 0"
  shows "card (white (s\<lparr>color := (color s)[u := 1]\<rparr>)) < card (white s)"
proof (rule psubset_card_mono)
  show "white (s\<lparr>color := (color s)[u := 1]\<rparr>) \<subset> white s"
    using assms by (auto simp: white_def nth_list_update split: if_splits)
qed simp

section \<open>The search\<close>

text \<open>A call on a white vertex, and the loop over the neighbours of the vertex on top.\<close>

lemma search_returns:
  shows "graph_ok n adj \<Longrightarrow> search_inv n adj st s \<Longrightarrow> u < n \<Longrightarrow> color s ! u = 0 \<Longrightarrow> card (white s) \<le> k \<Longrightarrow>
      st = [] \<or> (pred s ! u = int (hd st) \<and> (hd st, u) \<in> edges_of n adj) \<Longrightarrow>
      \<exists>s'. findCyclesUtil k adj u s = Some s' \<and> search_inv n adj st s' \<and> grows s s' \<and> color s' ! u = 2"
    and "graph_ok n adj \<Longrightarrow> search_inv n adj (u # st) s \<Longrightarrow> set vs \<subseteq> set (adj ! u) \<Longrightarrow> card (white s) \<le> k \<Longrightarrow>
      \<exists>s'. scan_neighbours k adj u vs s = Some s' \<and> search_inv n adj (u # st) s' \<and> grows s s' \<and>
        (printed s' = [] \<longrightarrow> (\<forall>v \<in> set vs. color s' ! v = 2))"
proof (induction k adj u s and k adj u vs s arbitrary: st and st
    rule: findCyclesUtil_scan_neighbours.induct)
  case (1 adj u s)
  then have "u \<in> white s" using search_invD(1) [OF 1(2)] by (simp add: white_def)
  then have "card (white s) \<noteq> 0" by auto
  then show ?case using 1 by simp
next
  case (2 k adj u s)
  note g = "2.prems"(1) and inv = "2.prems"(2)
  let ?s1 = "s\<lparr>color := (color s)[u := 1]\<rparr>"
  have len: "length (color s) = n" using inv by (simp add: search_inv_def)
  have "n \<le> length adj" using g by (simp add: graph_ok_def)
  then have ok: "u < length (color s) \<and> u < length adj" using "2.prems"(3) len by simp
  have inv1: "search_inv n adj (u # st) ?s1" using inv "2.prems"(3,4,6) by (rule search_inv_enter)
  have "card (white ?s1) < card (white s)" using ok "2.prems"(4) by (intro white_enter) simp_all
  then have "card (white ?s1) \<le> k" using "2.prems"(5) by simp
  from "2.IH" [OF ok g inv1 subset_refl this] obtain s' where
    s': "scan_neighbours k adj u (adj ! u) ?s1 = Some s'" "search_inv n adj (u # st) s'" "grows ?s1 s'"
    "printed s' = [] \<longrightarrow> (\<forall>v \<in> set (adj ! u). color s' ! v = 2)" by blast
  let ?s2 = "s'\<lparr>color := (color s')[u := 2]\<rparr>"
  have "length (color s') = n" using s'(2) by (simp add: search_inv_def)
  then have "grows s ?s2"
    using s'(3) "2.prems"(3,4) len
    by (auto simp: grows_def vertex_grows_def nth_list_update split: if_splits)
  moreover have "search_inv n adj st ?s2" using s'(2) "2.prems"(3) s'(4) by (rule search_inv_leave)
  ultimately show ?case using s'(1) ok \<open>length (color s') = n\<close> "2.prems"(3) by simp
next
  case (3 k adj u s)
  then show ?case by simp
next
  case (4 k adj u v vs s)
  note g = "4.prems"(1) and inv = "4.prems"(2)
  have len: "length (color s) = n" "length (pred s) = n" using inv by (simp_all add: search_inv_def)
  have u: "u < n" using search_invD(4) [OF inv] by auto
  have uv: "(u, v) \<in> edges_of n adj" using "4.prems"(3) u by (simp add: edges_of_def)
  have v: "v < n" using uv g by (auto simp: edges_of_def graph_ok_def)
  have vl: "\<not> length (color s) \<le> v" using v len by simp
  have vs: "set vs \<subseteq> set (adj ! u)" using "4.prems"(3) by simp
  consider "color s ! v = 0" | "color s ! v = 1" | "color s ! v = 2"
    using search_invD(3) [OF inv] v by auto
  then show ?case
  proof cases
    case 1
    let ?s0 = "s\<lparr>pred := (pred s)[v := int u]\<rparr>"
    have inv0: "search_inv n adj (u # st) ?s0" using inv v 1 by (rule search_inv_pred)
    have w0: "card (white ?s0) \<le> k" using "4.prems"(4) by (simp add: white_def)
    have link: "u # st = [] \<or> (pred ?s0 ! v = int (hd (u # st)) \<and> (hd (u # st), v) \<in> edges_of n adj)"
      using uv v len by simp
    have c0: "color ?s0 ! v = 0" using 1 by simp
    from "4.IH"(1) [OF vl 1 g inv0 v c0 w0 link] obtain s1 where
      s1: "findCyclesUtil k adj v ?s0 = Some s1" "search_inv n adj (u # st) s1" "grows ?s0 s1"
      "color s1 ! v = 2" by blast
    have "card (white s1) \<le> k" using grows_card [OF s1(3)] w0 by simp
    from "4.IH"(2) [OF vl 1 s1(1) g s1(2) vs this] obtain s' where
      s': "scan_neighbours k adj u vs s1 = Some s'" "search_inv n adj (u # st) s'" "grows s1 s'"
      "printed s' = [] \<longrightarrow> (\<forall>v \<in> set vs. color s' ! v = 2)" by blast
    have "grows s s1" using s1(3) 1 by (rule grows_pred)
    then have gr: "grows s s'" using s'(3) by (rule grows_trans)
    have "length (color s1) = n" using s1(2) by (simp add: search_inv_def)
    then have "color s' ! v = 2" using s'(3) s1(4) v by (auto simp: grows_def vertex_grows_def)
    then show ?thesis using s' gr s1(1) 1 vl by auto
  next
    case 2
    have mem: "v \<in> set (u # st)" unfolding search_invD(4) [OF inv] using v 2 by simp
    have sub: "set (u # st) \<subseteq> {..<length (pred s)}"
      unfolding search_invD(4) [OF inv] len by auto
    have "length (u # st) = card (set (u # st))"
      by (rule distinct_card [symmetric, OF search_invD(5) [OF inv]])
    also have "\<dots> \<le> length (pred s)" using card_mono [OF _ sub] by simp
    finally have "length (u # st) < Suc (length (pred s))" by simp
    from trace_back_returns [OF search_invD(6) [OF inv] sub refl mem this] obtain p where
      p: "trace_back (Suc (length (pred s))) u v (pred s) = Some p"
      "backwards (edges_of n adj) (p @ [v])" "hd (p @ [v]) = u" by blast
    let ?s1 = "s\<lparr>cycleNumber := cycleNumber s + 1, printed := printed s @ [p @ [v, u]]\<rparr>"
    have "backwards (edges_of n adj) (p @ [v, u])"
      using p(2) uv by (auto simp: backwards_def successively_append_iff)
    moreover have "hd (p @ [v, u]) = u" using p(3) by (cases p) simp_all
    ultimately have "is_cycle (edges_of n adj) (p @ [v, u])" by (simp add: is_cycle_def)
    with inv have inv1: "search_inv n adj (u # st) ?s1" by (rule search_inv_cycle)
    have w1: "card (white ?s1) \<le> k" using "4.prems"(4) by (simp add: white_def)
    have n0: "color s ! v \<noteq> 0" using 2 by simp
    from "4.IH"(3) [OF vl n0 2 p(1) g inv1 vs w1] obtain s' where
      s': "scan_neighbours k adj u vs ?s1 = Some s'" "search_inv n adj (u # st) s'" "grows ?s1 s'"
      by blast
    have "grows s ?s1" by (simp add: grows_def vertex_grows_def)
    then have gr: "grows s s'" using s'(3) by (rule grows_trans)
    have "printed s' \<noteq> []" using s'(3) by (auto simp: grows_def)
    then show ?thesis using s' gr p(1) 2 vl by auto
  next
    case 3
    have n: "color s ! v \<noteq> 0" "color s ! v \<noteq> 1" using 3 by simp_all
    from "4.IH"(4) [OF vl n g inv vs "4.prems"(4)] obtain s' where
      s': "scan_neighbours k adj u vs s = Some s'" "search_inv n adj (u # st) s'" "grows s s'"
      "printed s' = [] \<longrightarrow> (\<forall>v \<in> set vs. color s' ! v = 2)" by blast
    have "color s' ! v = 2" using s'(3) 3 v len by (auto simp: grows_def vertex_grows_def)
    then show ?thesis using s' 3 vl by auto
  qed
qed

lemma visit_all_returns:
  assumes g: "graph_ok n adj"
  shows "search_inv n adj [] s \<Longrightarrow> set is \<subseteq> {..<n} \<Longrightarrow>
    \<exists>s'. visit_all adj is s = Some s' \<and> search_inv n adj [] s' \<and> grows s s' \<and>
      (\<forall>i \<in> set is. color s' ! i = 2)"
proof (induction "is" arbitrary: s)
  case Nil
  then show ?case by simp
next
  case (Cons i "is")
  have len: "length (color s) = n" using Cons.prems(1) by (simp add: search_inv_def)
  have i: "i < n" using Cons.prems(2) by simp
  have "\<exists>s1. (if color s ! i = 0 then findCyclesUtil (length (color s)) adj i s else Some s) = Some s1 \<and>
      search_inv n adj [] s1 \<and> grows s s1 \<and> color s1 ! i = 2"
  proof (cases "color s ! i = 0")
    case True
    have "card (white s) \<le> card {..<n}" by (intro card_mono) (auto simp: white_def len)
    then have "card (white s) \<le> n" by simp
    with search_returns(1) [OF g Cons.prems(1) i True] len True show ?thesis by simp
  next
    case False
    have "color s ! i \<in> {0, 1, 2}" using search_invD(3) [OF Cons.prems(1)] i by blast
    moreover have "i \<notin> {u. u < n \<and> color s ! u = 1}"
      unfolding search_invD(4) [OF Cons.prems(1), symmetric] by simp
    ultimately have "color s ! i = 2" using False i by auto
    then show ?thesis using Cons.prems(1) by simp
  qed
  then obtain s1 where s1: "(if color s ! i = 0 then findCyclesUtil (length (color s)) adj i s else Some s)
      = Some s1" "search_inv n adj [] s1" "grows s s1" "color s1 ! i = 2" by blast
  from Cons.IH [OF s1(2)] Cons.prems(2) obtain s' where
    s': "visit_all adj is s1 = Some s'" "search_inv n adj [] s'" "grows s1 s'"
    "\<forall>i \<in> set is. color s' ! i = 2" by auto
  have "length (color s1) = n" using s1(2) by (simp add: search_inv_def)
  then have "color s' ! i = 2" using s'(3) s1(4) i by (auto simp: grows_def vertex_grows_def)
  moreover have "visit_all adj (i # is) s = Some s'" using s1(1) s'(1) by (simp split: if_splits)
  moreover have "grows s s'" using s1(3) s'(3) by (rule grows_trans)
  ultimately show ?case using s'(2,4) by auto
qed

lemma run_findCycles_returns:
  assumes g: "graph_ok n (adjLists gr)"
  shows "\<exists>s. run_findCycles n gr = Some s \<and> cycleNumber s = length (printed s) \<and>
    (\<forall>p \<in> set (printed s). is_cycle (edges_of n (adjLists gr)) p) \<and>
    (printed s = [] \<longrightarrow> acyclic (edges_of n (adjLists gr)))"
proof -
  let ?E = "edges_of n (adjLists gr)"
  have start: "search_inv n (adjLists gr) [] (dfs_start n)"
  proof -
    have "black_edges ?E (dfs_start n) = {}" by (auto simp: black_edges_def dfs_start_def edges_of_def)
    then have "clean ?E (dfs_start n)" by (simp add: clean_def acyclic_def)
    then show ?thesis by (intro search_invI) (auto simp: dfs_start_def)
  qed
  have sub: "set [0..<n] \<subseteq> {..<n}" by auto
  from visit_all_returns [OF g start sub] obtain s where
    s: "visit_all (adjLists gr) [0..<n] (dfs_start n) = Some s" "search_inv n (adjLists gr) [] s"
    "\<forall>i \<in> set [0..<n]. color s ! i = 2" by blast
  have "black_edges ?E s = ?E" using s(3) by (auto simp: black_edges_def edges_of_def)
  then have "printed s = [] \<longrightarrow> acyclic ?E" using search_invD(9) [OF s(2)] by (simp add: clean_def)
  then show ?thesis using s(1) search_invD(7,8) [OF s(2)] by (simp add: run_findCycles_def)
qed

text \<open>The count is zero exactly for acyclic graphs.\<close>

lemma findCycles_returns:
  assumes "graph_ok n (adjLists gr)"
  shows "\<exists>k. findCycles n gr = Some k \<and> (k = 0 \<longleftrightarrow> acyclic (edges_of n (adjLists gr)))"
proof -
  from run_findCycles_returns [OF assms] obtain s where
    s: "run_findCycles n gr = Some s" "cycleNumber s = length (printed s)"
    "\<forall>p \<in> set (printed s). is_cycle (edges_of n (adjLists gr)) p"
    "printed s = [] \<longrightarrow> acyclic (edges_of n (adjLists gr))" by blast
  have "printed s = []" if "acyclic (edges_of n (adjLists gr))"
    using s(3) is_cycle_not_acyclic that by (cases "printed s") auto
  with s(4) have "printed s = [] \<longleftrightarrow> acyclic (edges_of n (adjLists gr))" by blast
  then show ?thesis using s(1,2) by (simp add: findCycles_def)
qed

section \<open>Editing a graph\<close>

text \<open>The edges of a graph whose arrays have the size it was created with.\<close>

definition graph_wf :: "graph \<Rightarrow> bool" where
  "graph_wf g \<longleftrightarrow> length (adjLists g) = numVertices g \<and> graph_ok (numVertices g) (adjLists g)"

definition edges :: "graph \<Rightarrow> (nat \<times> nat) set" where
  "edges g = edges_of (numVertices g) (adjLists g)"

lemma wf_length: "graph_wf g \<Longrightarrow> length (adjLists g) = numVertices g"
  by (simp add: graph_wf_def)

lemma wf_target: "graph_wf g \<Longrightarrow> u < numVertices g \<Longrightarrow> x \<in> set (adjLists g ! u) \<Longrightarrow> x < numVertices g"
  by (simp add: graph_wf_def graph_ok_def)

lemma edges_member: "(u, x) \<in> edges g \<longleftrightarrow> u < numVertices g \<and> x \<in> set (adjLists g ! u)"
  by (simp add: edges_def edges_of_def)

lemma graph_wfI:
  assumes "length (adjLists g) = numVertices g"
    and "\<And>u x. u < numVertices g \<Longrightarrow> x \<in> set (adjLists g ! u) \<Longrightarrow> x < numVertices g"
  shows "graph_wf g"
proof -
  have "\<forall>u < numVertices g. \<forall>x \<in> set (adjLists g ! u). x < numVertices g" using assms(2) by blast
  then show ?thesis unfolding graph_wf_def graph_ok_def using assms(1) by simp
qed

lemma updated_list_wf:
  assumes g: "graph_wf g" and u: "u < numVertices g" and xs: "\<forall>x \<in> set xs. x < numVertices g"
  shows "graph_wf (g\<lparr>adjLists := (adjLists g)[u := xs]\<rparr>)"
proof (rule graph_wfI)
  show "length (adjLists (g\<lparr>adjLists := (adjLists g)[u := xs]\<rparr>))
      = numVertices (g\<lparr>adjLists := (adjLists g)[u := xs]\<rparr>)"
    using wf_length [OF g] by simp
  fix w x
  assume w: "w < numVertices (g\<lparr>adjLists := (adjLists g)[u := xs]\<rparr>)"
    and x: "x \<in> set (adjLists (g\<lparr>adjLists := (adjLists g)[u := xs]\<rparr>) ! w)"
  show "x < numVertices (g\<lparr>adjLists := (adjLists g)[u := xs]\<rparr>)"
  proof (cases "w = u")
    case True
    then show ?thesis using x xs u wf_length [OF g] by simp
  next
    case False
    then show ?thesis using x w wf_target [OF g, of w x] by simp
  qed
qed

lemma updated_list_edges:
  assumes g: "graph_wf g" and u: "u < numVertices g"
  shows "edges (g\<lparr>adjLists := (adjLists g)[u := xs]\<rparr>) = {e \<in> edges g. fst e \<noteq> u} \<union> {u} \<times> set xs"
proof (rule set_eqI)
  fix e :: "nat \<times> nat"
  obtain a b where e: "e = (a, b)" by (cases e)
  show "e \<in> edges (g\<lparr>adjLists := (adjLists g)[u := xs]\<rparr>) \<longleftrightarrow>
      e \<in> {e \<in> edges g. fst e \<noteq> u} \<union> {u} \<times> set xs"
    using u wf_length [OF g] by (cases "a = u") (simp_all add: e edges_member)
qed

lemma edges_origins: "edges (g\<lparr>adjLists := a, edgeOrigins := o'\<rparr>) = edges (g\<lparr>adjLists := a\<rparr>)"
  "graph_wf (g\<lparr>adjLists := a, edgeOrigins := o'\<rparr>) = graph_wf (g\<lparr>adjLists := a\<rparr>)"
  by (simp_all add: edges_def graph_wf_def)

lemma addEdge_returns:
  assumes g: "graph_wf g" and u: "u < numVertices g" and v: "v < numVertices g"
  shows "\<exists>g'. addEdge u v origin g = Some g' \<and> graph_wf g' \<and> numVertices g' = numVertices g \<and>
    edges g' = insert (u, v) (edges g)"
proof -
  let ?xs = "adjLists g ! u @ [v]"
  let ?g = "g\<lparr>adjLists := (adjLists g)[u := ?xs], edgeOrigins := (edgeOrigins g)((u, v) := Some origin)\<rparr>"
  have "addEdge u v origin g = Some ?g" using u wf_length [OF g] by (simp add: addEdge_def)
  moreover have "graph_wf ?g"
    unfolding edges_origins using wf_target [OF g u] v by (intro updated_list_wf [OF g u]) auto
  moreover have "{e \<in> edges g. fst e \<noteq> u} \<union> {u} \<times> set ?xs = insert (u, v) (edges g)"
    using u by (auto simp: edges_member)
  then have "edges ?g = insert (u, v) (edges g)"
    unfolding edges_origins updated_list_edges [OF g u] .
  ultimately show ?thesis by (intro exI [of _ ?g]) simp
qed

lemma removeEdge_returns:
  assumes g: "graph_wf g" and u: "u < numVertices g"
  shows "\<exists>g'. removeEdge u v g = Some g' \<and> graph_wf g' \<and> numVertices g' = numVertices g \<and>
    edges g' = edges g - {(u, v)}"
proof -
  let ?xs = "filter (\<lambda>x. x \<noteq> v) (adjLists g ! u)"
  let ?g = "g\<lparr>adjLists := (adjLists g)[u := ?xs]\<rparr>"
  have "removeEdge u v g = Some ?g" using u wf_length [OF g] by (simp add: removeEdge_def)
  moreover have "graph_wf ?g" using wf_target [OF g u] by (intro updated_list_wf [OF g u]) auto
  moreover have "{e \<in> edges g. fst e \<noteq> u} \<union> {u} \<times> set ?xs = edges g - {(u, v)}"
    using u by (auto simp: edges_member)
  then have "edges ?g = edges g - {(u, v)}" unfolding updated_list_edges [OF g u] .
  ultimately show ?thesis by (intro exI [of _ ?g]) simp
qed

lemma findCycles_wf:
  assumes "graph_wf g"
  shows "\<exists>k. findCycles (numVertices g) g = Some k \<and> (k = 0 \<longleftrightarrow> acyclic (edges g))"
  using assms findCycles_returns [of "numVertices g" g] by (simp add: graph_wf_def edges_def)

text \<open>
  One of the two edges of the conflict goes, the other stays; the result is acyclic exactly when
  one of the two choices is.
\<close>

lemma resolve_conflict_returns:
  assumes g: "graph_wf g" and vx: "(v, x) \<in> edges g" "(x, v) \<in> edges g" "v \<noteq> x"
  shows "\<exists>g'. resolve_conflict v x g = Some g' \<and> graph_wf g' \<and>
    edges g' \<in> {edges g - {(v, x)}, edges g - {(x, v)}} \<and>
    (acyclic (edges g') \<longleftrightarrow> acyclic (edges g - {(v, x)}) \<or> acyclic (edges g - {(x, v)}))"
proof -
  let ?n = "numVertices g"
  have n: "v < ?n" "x < ?n" using vx by (auto simp: edges_def edges_of_def)
  from removeEdge_returns [OF g n(1), of x] obtain g1 where
    g1: "removeEdge v x g = Some g1" "graph_wf g1" "numVertices g1 = ?n" "edges g1 = edges g - {(v, x)}"
    by blast
  from findCycles_wf [OF g1(2)] obtain c1 where
    c1: "findCycles (numVertices g1) g1 = Some c1" "c1 = 0 \<longleftrightarrow> acyclic (edges g1)" by blast
  from addEdge_returns [OF g1(2), of v x "''gbox''"] n g1(3) obtain g2 where
    g2: "addEdge v x ''gbox'' g1 = Some g2" "graph_wf g2" "numVertices g2 = ?n"
    "edges g2 = insert (v, x) (edges g1)" by auto
  from removeEdge_returns [OF g2(2), of x v] n g2(3) obtain g3 where
    g3: "removeEdge x v g2 = Some g3" "graph_wf g3" "numVertices g3 = ?n" "edges g3 = edges g2 - {(x, v)}"
    by auto
  from findCycles_wf [OF g3(2)] obtain c2 where
    c2: "findCycles (numVertices g3) g3 = Some c2" "c2 = 0 \<longleftrightarrow> acyclic (edges g3)" by blast
  from addEdge_returns [OF g3(2), of x v "''gbox''"] n g3(3) obtain g4 where
    g4: "addEdge x v ''gbox'' g3 = Some g4" "graph_wf g4" "numVertices g4 = ?n"
    "edges g4 = insert (x, v) (edges g3)" by auto
  have e: "edges g3 = edges g - {(x, v)}" "edges g4 = edges g"
    using g1(4) g2(4) g3(4) g4(4) vx by auto
  note run = g1(1) c1(1) g2(1) g3(1) c2(1) g4(1)
  show ?thesis
  proof (cases "c1 > c2")
    case True
    from removeEdge_returns [OF g4(2), of x v] n g4(3) obtain g' where
      g': "removeEdge x v g4 = Some g'" "graph_wf g'" "edges g' = edges g4 - {(x, v)}" by auto
    have "resolve_conflict v x g = Some g'" using run g'(1) True by (simp add: resolve_conflict_def)
    moreover have "\<not> acyclic (edges g - {(v, x)})" using True c1(2) g1(4) by auto
    ultimately show ?thesis using g'(2,3) e by auto
  next
    case False
    from removeEdge_returns [OF g4(2), of v x] n g4(3) obtain g' where
      g': "removeEdge v x g4 = Some g'" "graph_wf g'" "edges g' = edges g4 - {(v, x)}" by auto
    have "resolve_conflict v x g = Some g'" using run g'(1) False by (simp add: resolve_conflict_def)
    moreover have "acyclic (edges g - {(v, x)})" if "acyclic (edges g - {(x, v)})"
      using that False c1(2) c2(2) g1(4) e by auto
    ultimately show ?thesis using g'(2,3) e by auto
  qed
qed

text \<open>Reversing the edges.\<close>

lemma reverse_into_returns:
  assumes "\<forall>(v, x) \<in> set es. x < length acc"
  shows "\<exists>acc'. reverse_into es acc = Some acc' \<and> length acc' = length acc \<and>
    (\<forall>x < length acc. set (acc' ! x) = set (acc ! x) \<union> {v. (v, x) \<in> set es})"
  using assms
proof (induction es acc rule: reverse_into.induct)
  case (1 acc)
  then show ?case by simp
next
  case (2 v x es acc)
  let ?acc = "acc[x := acc ! x @ [v]]"
  have x: "x < length acc" using "2.prems" by simp
  from "2.IH" [OF x] "2.prems" obtain acc' where
    a: "reverse_into es ?acc = Some acc'" "length acc' = length acc"
    "\<forall>y < length acc. set (acc' ! y) = set (?acc ! y) \<union> {w. (w, y) \<in> set es}" by auto
  have "set (?acc ! y) = set (acc ! y) \<union> {w. y = x \<and> w = v}" if "y < length acc" for y
    using that x by (cases "y = x") auto
  then have "\<forall>y < length acc. set (acc' ! y) = set (acc ! y) \<union> {w. (w, y) \<in> set ((v, x) # es)}"
    using a(3) by auto
  then show ?case using a(1,2) x by simp
qed

lemma reverseEdges_returns:
  assumes "graph_wf g"
  shows "\<exists>g'. reverseEdges g = Some g' \<and> graph_wf g' \<and> edges g' = (edges g)\<inverse>"
proof -
  let ?n = "numVertices g" and ?es = "edge_list (numVertices g) (adjLists g)"
  have es: "set ?es = edges g" by (auto simp: edge_list_def edges_def edges_of_def)
  have "\<forall>(v, x) \<in> set ?es. x < ?n"
    unfolding es edges_def edges_of_def using wf_target [OF assms] by blast
  then have "\<forall>(v, x) \<in> set ?es. x < length (replicate ?n ([] :: nat list))" by simp
  from reverse_into_returns [OF this] obtain acc where
    acc: "reverse_into ?es (replicate ?n []) = Some acc" "length acc = length (replicate ?n ([] :: nat list))"
    "\<forall>x < length (replicate ?n ([] :: nat list)).
       set (acc ! x) = set (replicate ?n [] ! x) \<union> {v. (v, x) \<in> set ?es}"
    by blast
  then have a: "reverse_into ?es (replicate ?n []) = Some acc" "length acc = ?n"
    "\<forall>x < ?n. set (acc ! x) = {v. (v, x) \<in> edges g}"
    unfolding es by simp_all
  let ?g = "g\<lparr>adjLists := acc\<rparr>"
  have "reverseEdges g = Some ?g" using a(1) wf_length [OF assms] by (simp add: reverseEdges_def)
  moreover have "edges ?g = (edges g)\<inverse>"
  proof (rule set_eqI)
    fix e :: "nat \<times> nat"
    obtain x v where e: "e = (x, v)" by (cases e)
    have "e \<in> edges ?g \<longleftrightarrow> x < ?n \<and> v \<in> set (acc ! x)" by (simp add: e edges_member)
    also have "\<dots> \<longleftrightarrow> x < ?n \<and> (v, x) \<in> edges g" using a(3) by auto
    also have "\<dots> \<longleftrightarrow> (v, x) \<in> edges g"
    proof
      assume vx: "(v, x) \<in> edges g"
      then have "x < ?n" unfolding edges_member by (elim conjE wf_target [OF assms])
      with vx show "x < ?n \<and> (v, x) \<in> edges g" by simp
    qed simp
    finally show "e \<in> edges ?g \<longleftrightarrow> e \<in> (edges g)\<inverse>" by (simp add: e)
  qed
  moreover have "graph_wf ?g"
  proof (rule graph_wfI)
    show "length (adjLists ?g) = numVertices ?g" using a(2) by simp
    fix w x
    assume "w < numVertices ?g" and "x \<in> set (adjLists ?g ! w)"
    then have "(x, w) \<in> edges g" using a(3) by simp
    then show "x < numVertices ?g" by (simp add: edges_member)
  qed
  ultimately show ?thesis by blast
qed

end
