(* ===== verification/Network_Examples.thy ===== *)
theory Network_Examples
  imports Tcp_Connection Gbox_Cycles
begin

text \<open>
  Concrete graphs and connections: the graph of \<^verbatim>\<open>gbox-creator.cpp\<close>, and sockets whose packets and
  system calls are listed.
\<close>

section \<open>The graph of the example program\<close>

definition demo_graph :: graph where
  "demo_graph = snd (the gbox_main)"

lemma demo_graph_value:
  "map_option (\<lambda>(n, g). (n, numVertices g, adjLists g)) gbox_main = Some (3, 4, [[1, 2], [2], [1, 0, 3], [2]])"
  by code_simp

lemma demo_graph_simps:
  "numVertices demo_graph = 4" "adjLists demo_graph = [[1, 2], [2], [1, 0, 3], [2]]"
proof -
  obtain n g where g: "gbox_main = Some (n, g)" "numVertices g = 4" "adjLists g = [[1, 2], [2], [1, 0, 3], [2]]"
    using demo_graph_value by auto
  have "demo_graph = g" unfolding demo_graph_def g(1) by simp
  then show "numVertices demo_graph = 4" "adjLists demo_graph = [[1, 2], [2], [1, 0, 3], [2]]"
    using g by simp_all
qed

lemma demo_graph_wf: "graph_wf demo_graph"
  by (auto simp: graph_wf_def graph_ok_def demo_graph_simps less_Suc_eq eval_nat_numeral)

lemma demo_graph_edges:
  "edges demo_graph = {(0, 1), (0, 2), (1, 2), (2, 1), (2, 0), (2, 3), (3, 2)}"
proof -
  have "edges demo_graph = set (concat (map (\<lambda>u. map (Pair u) (adjLists demo_graph ! u)) [0..<4]))"
    by (auto simp: edges_member demo_graph_simps(1))
  also have "\<dots> = {(0, 1), (0, 2), (1, 2), (2, 1), (2, 0), (2, 3), (3, 2)}"
    unfolding demo_graph_simps by (simp add: upt_rec eval_nat_numeral)
  finally show ?thesis .
qed

text \<open>
  The count is not the number of cycles: it is 3, but projects can be added, deleted and worked on
  in four elementary cycles.
\<close>

lemma cycles_undercounted:
  "findCycles 4 demo_graph = Some 3 \<and>
   (\<forall>p \<in> {[0, 2, 0], [1, 2, 1], [2, 3, 2], [0, 2, 1, 0]}. is_cycle (edges demo_graph) p \<and> distinct (tl p))"
proof -
  have "findCycles 4 demo_graph = Some 3" by code_simp
  then show ?thesis by (simp add: demo_graph_edges is_cycle_def backwards_def)
qed

text \<open>
  With the conflicts of the example in it, the construction of the gbox erases from the list it is
  iterating over.
\<close>

lemma gbox_iterator_invalid: "creategbox demo_graph = None"
  by code_simp

section \<open>Sockets\<close>

definition demo_split :: packet_world where
  "demo_split = \<lparr>outgoing = [], packets = [[51], [0, 104], [], [105, 0, 52]], accepts = [10]\<rparr>"

definition demo_connection :: "packet_world option \<Rightarrow> packet_world connection" where
  "demo_connection s = \<lparr>conn_id = 2, remoteId = 1, csocket = s\<rparr>"

lemma demo_connects: "\<exists>l. connectAll packet_os (\<lambda>_. Some demo_split) 2 2 [] = Some l"
proof -
  have "connectAll packet_os (\<lambda>_. Some demo_split) 2 2 [] \<noteq> None" by code_simp
  then show ?thesis by auto
qed

text \<open>
  The kernel takes all of the length of a first message, two of its three bytes and then nothing for
  once; the exception is swallowed, and a second message goes out in full. The peer reads the
  two bytes and the first of the next length as the first message: every later frame is misread.
\<close>

definition demo_busy :: packet_world where
  "demo_busy = \<lparr>outgoing = [], packets = [], accepts = [2, 2, 0, 2, 3]\<rparr>"

lemma broadcast_desynchronises:
  "map_option (\<lambda>l. map (\<lambda>(r, c). map_option outgoing (csocket c)) l)
     (do { l \<leftarrow> broadcast packet_os 2 [False, False] [97, 98, 99] [(1, demo_connection (Some demo_busy))];
           broadcast packet_os 2 [False, False] [120, 121, 122] l })
     = Some [Some [51, 0, 97, 98, 51, 0, 120, 121, 122]]"
  "receive_frame [51, 0, 97, 98, 51, 0, 120, 121, 122] = Got [97, 98, 51] [0, 120, 121, 122]"
  by code_simp+

end
