(* ===== verification/Spec2Isabelle.thy ===== *)
theory Spec2Isabelle
  imports Byte_Examples Ecros_Examples Course_Returns Crdt_Examples Sql_Commutation Network_Examples
begin

text \<open>
  A model of Hamsou, an optimistic replication system in C++, of the ECRO baseline it is
  compared with, and of the two programs that analyse conflicts of operations. Every definition
  is translated from the file named with it; \<^verbatim>\<open>src/\<close> is left out of the paths.

  \<^bold>\<open>How the program is put together.\<close> Each node runs \<^verbatim>\<open>tcp/main-replication-protocols.cpp\<close>: it reads
  a workload file, hands its calls to the local handler and broadcasts what the handler executes.
  \<^verbatim>\<open>tcp/ServersCommunicationLayer.cpp\<close> keeps one \<^verbatim>\<open>tcp/ServerConnection.cpp\<close> to every node, over
  the sockets and buffers of \<^verbatim>\<open>tcp/Socket.cpp\<close>. A received message is deserialised and dispatched
  to the handler, \<^verbatim>\<open>protocol-hamsou.cpp\<close> or \<^verbatim>\<open>protocol-ecros.cpp\<close>, which orders the calls and
  executes them on a replicated object, \<^verbatim>\<open>wellcoordination/benchmark/*.hpp\<close>. Which pairs of
  operations conflict is found beforehand, by \<^verbatim>\<open>gbox-creator.cpp\<close> on graphs of operations and by
  \<^verbatim>\<open>HamsazinC/cvc5_SQLAnalysis-main\<close> on SQL queries with an SMT solver.

  \<^bold>\<open>Conventions.\<close> An operation that returns \<open>None\<close> has no defined result in C++: an index out of
  range, a null or freed pointer, an exception nobody catches, a loop that does not end, a
  signed overflow where it is modelled. So \<open>\<exists>x. f \<dots> = Some x\<close> is a theorem about memory safety and
  termination. Exceptions that are caught are values of a sum type. Bytes are \<open>8 word\<close>. A value
  of type \<open>int\<close> is an \<open>int\<close> or, where it is never negative, a \<open>nat\<close>: its range is written out on the wire
  and in the files (\<open>int32\<close>, \<open>signed32\<close>), in the sizes of the buffers (\<open>INT_MAX\<close>) and in the sums of the
  message-passing counter and register (\<open>int_add\<close>); the entries of vector clocks, the counters of calls,
  acknowledgements and stable calls, and the fields of the replicated objects are
  mathematical integers, which agree with the code as long as no count reaches \<open>2 ^ 31\<close>. A vector is a list,
  read and written with \<open>vget\<close> and \<open>vset\<close>.

  \<^bold>\<open>Prelude.\<close> \<open>Prelude\<close>: vectors, ranges, lists and multisets.

  \<^bold>\<open>The replicated objects.\<close> \<open>Replicated_Object\<close> (the class \<open>Call\<close>), \<open>Vector_Clock\<close>
  (\<open>compareVectorClocks\<close>, and \<open>happenedBefore\<close>, \<open>concurrent\<close> of ECRO), \<open>Use_Case\<close> (what a
  handler needs of an object, as a record of its methods, with the locales the theorems about
  order and convergence are proved in), one theory for each class: \<open>Set_Object\<close>, \<open>Ycsb_Object\<close>,
  \<open>Stack_Object\<close>, \<open>Movie_Object\<close>, \<open>Project_Object\<close>, \<open>Courseware_Object\<close> and
  \<open>Complex_Courseware\<close>. \<open>Bench_File\<close> has the reader and the writer of workload files. The lemmas
  interpret the locales for each class and show what its state is after any sequence of calls.

  \<^bold>\<open>The Hamsou handler.\<close> \<open>Heap_Queue\<close> (the \<open>std::priority_queue\<close> of waiting calls), \<open>Hamsou_Handler\<close>
  (the fields of \<open>Handler\<close> and all its operations, named as in the source), \<open>Hamsou_Invariant\<close> (the
  counters, lists and states of the handler agree), \<open>Hamsou_Operations\<close> (every operation returns
  and keeps the invariant), \<open>Hamsou_Stability\<close> (what the stabiliser takes, what a failed node
  leaves), \<open>Hamsou_Node\<close> (the events of a node as a step relation, its reachable states, order of
  the unstable calls, convergence). The table of acknowledgements has the 350000 columns of the
  source: an event is admitted only for call numbers below.

  \<^bold>\<open>Messages and the main loop.\<close> \<open>Call_Codec\<close> (the bytes of a call, frames on a stream),
  \<open>Hamsou_Main\<close> (what the receiver does with a message, with the class's validity check; one iteration
  of the main loop, with its payload buffer of 256 bytes), \<open>Main_Setup\<close> (arguments, workload file and
  handler of a process; a round of the monitor thread). \<open>Tcp_Buffer\<close> (the class \<open>Buffer\<close>; a growing
  array stays in the range of \<open>int\<close> up to 858993459 bytes), \<open>Tcp_Socket\<close> (the loops of \<open>TCPSocket\<close>;
  the system calls are a parameter, the locale \<open>stream_socket\<close> states what a stream socket promises
  and is interpreted by a socket whose packets are listed), \<open>Tcp_Connection\<close> (connections,
  broadcast, receiving, the shutdown hook). Receiving is shown to implement \<open>receive_frame\<close> of
  \<open>Call_Codec\<close>.

  \<^bold>\<open>Groups.\<close> \<open>Hamsou_System\<close>: \<open>n\<close> nodes without failures, first-in-first-out connections that carry
  calls; a step is an invocation, the sending of an acknowledgement or a receipt. The invariant says
  which calls and acknowledgements are where. \<open>Hamsou_Acks\<close> (bags of keys), \<open>Hamsou_Delivery\<close>
  (exactly-once delivery, bounds of the acknowledgement tables, stabilisation, agreement),
  \<open>Hamsou_Schedules\<close> (concrete runs). The nodes invoke calls the class declares valid. A receiver asks
  \<open>checkValidcall\<close>, which in every class but \<open>ComplexCourseWare\<close> has no \<open>return\<close>, so that a received
  call is undefined there; the group theorems hold for any check, and their examples are runs of
  that class. \<open>Hamsou_Wire\<close> and \<open>Hamsou_Bytes\<close>: the same group as processes, each a main loop with its
  handler, that exchange serialised bytes; every step of it is matched by steps of the group of
  handlers. \<open>Byte_Workloads\<close> and \<open>Byte_Examples\<close> start such a group from the text of workload files. It
  has at most 31 nodes, whose clocks fit the payload buffer.

  \<^bold>\<open>The generator of courseware workloads.\<close> \<open>Course_Generator\<close>
  (\<^verbatim>\<open>wellcoordination/benchmark/complex-courseware-benchmark.cpp\<close>), \<open>Course_Workload\<close> (the shape of
  every line it writes), \<open>Course_Files\<close> (the files are accepted and announce the number of updates
  they hold), \<open>Course_Returns\<close> (it ends). Draws, the order of unordered sets and the shuffles are
  parameters, as is the value read from a map element after its erasure; the two numbers that
  come out of floating-point arithmetic are arguments. An unbounded search for an unused identifier
  ends for fair draws exactly if one of the thousand identifiers of its range is left, so the
  theorem asks for fewer than a thousand calls per node.

  \<^bold>\<open>CRDT.\<close> \<open>Crdt_Objects\<close> and \<open>Crdt_Node\<close>: the classes, the handler and the loops of the
  message-passing baseline, \<^verbatim>\<open>protocol0-crdt-message-passing.cpp\<close>. \<open>Op_Crdt\<close>: the branches of the Hamsou
  handler compiled with \<open>CRDT\<close>, and the operation-based classes. \<open>Crdt_Examples\<close> has a workload.

  \<^bold>\<open>ECRO.\<close> \<open>Ecros_Handler\<close> (the graph of unstable calls, edges, cycle search, topological sort,
  acknowledgements), \<open>Ecros_Graph\<close> (the search finds a cycle exactly if there is one; the sort is
  leaves out exactly the calls on cycles and behind them), \<open>Ecros_Node\<close> (reachable states),
  \<open>Ecros_Main\<close> (an iteration of the main loop), \<open>Ecros_Objects\<close>, \<open>Ecros_Bench\<close>. The
  walk along \<open>parent\<close> has fuel \<open>length visited + 2\<close>, one more than the vertices it can meet.

  \<^bold>\<open>The analyses.\<close> \<open>Gbox_Graph\<close> and \<open>Gbox_Cycles\<close>: \<^verbatim>\<open>gbox-creator.cpp\<close> and the correctness of its
  depth-first search. A call of \<open>findCyclesUtil\<close> colours a white vertex, so that the number of
  vertices is fuel enough, and the walk along \<open>pred\<close> meets each vertex at most once; both are
  proved. \<open>Sql_Solver\<close> (the functions of the solver the analysis calls, as a record, and the locale
  \<open>cvc5\<close> with their documented sorts and meanings), \<open>Sql_Table\<close>, \<open>Sql_Algebra\<close>, \<open>Sql_Queries\<close>,
  \<open>Sql_Prover\<close> (\<^verbatim>\<open>src/Table.cpp\<close>, \<^verbatim>\<open>TableInfo.cpp\<close>, \<^verbatim>\<open>RelationalAlgebras.cpp\<close>, \<^verbatim>\<open>SqlQueries.cpp\<close>
  with \<^verbatim>\<open>header/VisitorNodes.h\<close>, \<^verbatim>\<open>RelationalProver.cpp\<close>), \<open>Sql_Semantics\<close> (the rows each operation
  denotes), \<open>Sql_Typing\<close> (sorts are kept), \<open>Sql_Reference\<close> (a solver that satisfies the contract,
  which interprets the locale), \<open>Sql_Results\<close> and \<open>Sql_Commutation\<close> (queries and checks end to end).

  \<^bold>\<open>Examples.\<close> \<open>Hamsou_Examples\<close>, \<open>Ecros_Examples\<close>, \<open>Network_Examples\<close> and the end of
  \<open>Sql_Commutation\<close> hold the states the witnesses below are about.

  \<^bold>\<open>What is not modelled.\<close> Threads and their interleaving inside a node (each handler operation is
  one step; in the source a mutex serialises them), time, statistics and output; the failure of a
  node inside a group (\<open>markNodeFailed\<close>, \<open>updateHeartbeat\<close> and the monitor are modelled for a single node)
  and the branches of FAILURE_MODE in the main loop; \<^verbatim>\<open>protocol2-partialsyn.cpp\<close> and
  \<^verbatim>\<open>protocol3-cyclepartialsyn.cpp\<close>, which nothing includes any more; the workload generators other than
  that of the courseware database, but for the text they print; the test drivers and the superseded
  versions of the SQL analysis; the system calls, the solver and the vendored libraries \<^verbatim>\<open>turf\<close> and
  \<^verbatim>\<open>junction\<close>, which are other people's code.
\<close>

section \<open>A Hamsou node\<close>

text \<open>
  C9. No event a node can see in a reachable state runs into undefined behaviour (an index out
  of range, an iterator past the end) or fails to terminate, and the invariant of the handler
  holds afterwards.
\<close>

theorem node_events_safe:
  assumes "node_reachable uc h" and "event_ok h e"
  shows "\<exists>h'. node_step uc e h = Some h' \<and> handler_inv uc h'"
  using node_step_progress [OF reachable_inv [OF assms(1)] assms(2)] progress_inv by blast

theorem node_events_safe_witness:
  "\<exists>h'. node_step Set_uc (Deliver (demo_add 7 2 [0, 1, 0])) demo1 = Some h' \<and> handler_inv Set_uc h'"
  by (rule node_events_safe [OF demo1_reachable demo1_event])

text \<open>
  C10. Whatever happens at a node, the sequence of its stable calls is only extended at the end,
  and its stable state is advanced by exactly the newly stable calls, in order: stable
  operations are never reordered or undone.
\<close>

theorem stable_prefix_extended:
  assumes "node_reachable uc h" and "event_ok h e" and "node_step uc e h = Some h'"
  shows "\<exists>cs. stable_calls h' = stable_calls h @ cs \<and>
     stable_state h' = fold (updateStableState uc) cs (stable_state h)"
proof -
  note inv = reachable_inv [OF assms(1)]
  have p: "progress uc h h'" using node_step_progress [OF inv assms(2)] assms(3) by auto
  then obtain cs where cs: "stable_calls h' = stable_calls h @ cs"
    by (auto simp: progress_def extends_def prefix_def)
  have "stable_state g = fold (updateStableState uc) (stable_calls g) (initial_state uc)"
    if "handler_inv uc g" for g
    using that by (simp add: inv_defs stable_calls_def)
  with inv progress_inv [OF p] cs show ?thesis by simp
qed

theorem stable_prefix_extended_witness:
  "\<exists>cs. stable_calls demo2 = stable_calls demo1 @ cs \<and>
     stable_state demo2 = fold (updateStableState Set_uc) cs (stable_state demo1)"
proof -
  have "node_step Set_uc (Deliver (demo_add 7 2 [0, 1, 0])) demo1 = Some demo2"
    using node_step_progress [OF reachable_inv [OF demo1_reachable] demo1_event]
    by (auto simp: demo2_def)
  then show ?thesis by (rule stable_prefix_extended [OF demo1_reachable demo1_event])
qed

text \<open>
  In every reachable state the stable state is what executing the stable prefix of the
  execution list from the initial state gives, and the counters of the handler agree with the
  lists they count.
\<close>

theorem stable_state_executes_prefix:
  assumes "node_reachable uc h"
  shows "stable_state h
       = fold (updateStableState uc) (take (stable_index h) (executionList h)) (initial_state uc)
     \<and> stable_index h \<le> length (executionList h)
     \<and> current_index h = length (executionList h)
     \<and> waittobestable h = int (stable_index h)
     \<and> ackindex h = int (length (send_ack_call_list h))"
  using reachable_inv [OF assms] by (simp add: inv_defs)

theorem stable_state_executes_prefix_witness:
  "stable_state demo2
       = fold (updateStableState Set_uc) (take (stable_index demo2) (executionList demo2))
           (initial_state Set_uc)
     \<and> stable_index demo2 \<le> length (executionList demo2)
     \<and> current_index demo2 = length (executionList demo2)
     \<and> waittobestable demo2 = int (stable_index demo2)
     \<and> ackindex demo2 = int (length (send_ack_call_list demo2))"
  by (rule stable_state_executes_prefix [OF demo2_reachable])

text \<open>
  C11. Delivering a call to a reachable node succeeds; afterwards the node holds, executed or
  queued, exactly the calls it held before and the new one, and the queue is empty or its top
  still has to wait: no call is lost or executed twice, and none is left that could run.
\<close>

theorem delivery_keeps_every_call:
  assumes "node_reachable uc h" and "call_ok (number_of_nodes h) c"
  shows "\<exists>h'. internalDownstreamExecute uc c h = Some h' \<and> held h' = add_mset c (held h) \<and>
     (priorityQueue h' = [] \<or> must_wait uc (hd (priorityQueue h')) h')"
  using internalDownstreamExecute_progress [OF reachable_inv [OF assms(1)] assms(2)] by blast

theorem delivery_keeps_every_call_witness:
  "\<exists>h'. internalDownstreamExecute Set_uc (demo_add 7 2 [0, 1, 0]) demo1 = Some h' \<and>
     held h' = add_mset (demo_add 7 2 [0, 1, 0]) (held demo1) \<and>
     (priorityQueue h' = [] \<or> must_wait Set_uc (hd (priorityQueue h')) h')"
  using demo1_event by (intro delivery_keeps_every_call [OF demo1_reachable]) simp

text \<open>
  C12. The stabiliser moves exactly the maximal run of sufficiently acknowledged calls at the
  head of the unstable suffix into the stable prefix: it never skips a call that lacks
  acknowledgements and never stops early.
\<close>

theorem stabiliser_takes_acknowledged_run:
  assumes "node_reachable uc h"
  shows "\<exists>h'. stabilizerWithAck uc h = Some h' \<and> held h' = held h \<and>
     stable_calls h' = stable_calls h
       @ takeWhile (\<lambda>c. enough_acks h (int (number_of_nodes h) - 1 - int (countFailed h)) c
                          (acks h (node_id c) (call_id c)))
           (drop (stable_index h) (executionList h))"
proof -
  note inv = reachable_inv [OF assms]
  obtain h' where "stabilizerWithAck uc h = Some h'" "held h' = held h"
    using stabilizerWithAck_progress [OF inv] by blast
  moreover have "acked h (quorum_of h)
      = (\<lambda>c. enough_acks h (int (number_of_nodes h) - 1 - int (countFailed h)) c
              (acks h (node_id c) (call_id c)))"
    by (simp add: fun_eq_iff acked_def quorum_of_def)
  ultimately show ?thesis using stabilizerWithAck_exact [OF inv] by auto
qed

theorem stabiliser_takes_acknowledged_run_witness:
  "\<exists>h'. stabilizerWithAck Set_uc demo2 = Some h' \<and> held h' = held demo2 \<and>
     stable_calls h' = stable_calls demo2
       @ takeWhile (\<lambda>c. enough_acks demo2
                          (int (number_of_nodes demo2) - 1 - int (countFailed demo2)) c
                          (acks demo2 (node_id c) (call_id c)))
           (drop (stable_index demo2) (executionList demo2))"
  by (rule stabiliser_takes_acknowledged_run [OF demo2_reachable])

text \<open>
  An acknowledgement is counted once for its call; the stable prefix grows only if this
  acknowledgement completes the quorum of its call, and then by the maximal run of calls
  that have theirs.
\<close>

theorem acknowledgement_counted:
  assumes "node_reachable uc h" and "ack_in_range (number_of_nodes h) c"
  shows "\<exists>h'. updateAcksTable uc c h = Some h' \<and> held h' = held h \<and>
     stable_calls h' = stable_calls h @
       (if acked (count_ack c h) (quorum_of h) c
        then takeWhile (acked (count_ack c h) (quorum_of h))
               (drop (stable_index h) (executionList h))
        else [])"
proof -
  note inv = reachable_inv [OF assms(1)]
  have inv': "handler_inv uc (count_ack c h)" using inv by (simp add: frame_simps)
  obtain h' where h': "updateAcksTable uc c h = Some h'" "held h' = held h"
    using updateAcksTable_progress [OF inv assms(2)] by blast
  have "quorum_of (count_ack c h) = quorum_of h" "executionList (count_ack c h) = executionList h"
    "stable_index (count_ack c h) = stable_index h" "stable_calls (count_ack c h) = stable_calls h"
    by (simp_all add: quorum_of_def countFailed_def count_ack_def stable_calls_def)
  with h' show ?thesis
    using stabilizerWithAck_exact [OF inv'] by (auto simp: updateAcksTable_eq [OF inv assms(2)])
qed

theorem acknowledgement_counted_witness:
  "\<exists>h'. updateAcksTable Set_uc (demo_add 7 2 []) demo2 = Some h' \<and> held h' = held demo2 \<and>
     stable_calls h' = stable_calls demo2 @
       (if acked (count_ack (demo_add 7 2 []) demo2) (quorum_of demo2) (demo_add 7 2 [])
        then takeWhile (acked (count_ack (demo_add 7 2 []) demo2) (quorum_of demo2))
               (drop (stable_index demo2) (executionList demo2))
        else [])"
proof -
  have "ack_in_range (number_of_nodes demo2) (demo_add 7 2 [])" by code_simp
  then show ?thesis by (rule acknowledgement_counted [OF demo2_reachable])
qed

text \<open>
  C13. A remote call that need not wait is inserted into the unstable suffix right before the
  first call it must precede; no call it is placed before is one it both conflicts with and
  causally follows, so the insertion respects causality between conflicting calls.
\<close>

theorem remote_call_placed_causally:
  assumes "node_reachable uc h" and "call_ok (number_of_nodes h) c"
    and "remoteHandler uc b c h = Some (h', True)"
  shows "\<exists>ps qs. drop (stable_index h) (executionList h) = ps @ qs \<and>
     executionList h' = take (stable_index h) (executionList h) @ ps @ c # qs \<and>
     (\<forall>x \<in> set ps. \<not> fastisreachableremote uc c x) \<and>
     (qs \<noteq> [] \<longrightarrow> fastisreachableremote uc c (hd qs)) \<and>
     (\<forall>q \<in> set qs. \<not> (fastisreachableremote uc c q \<and>
        compareVectorClocks (call_vector_clock c) (call_vector_clock q) = 2))"
proof -
  note inv = reachable_inv [OF assms(1)]
  let ?u = "drop (stable_index h) (executionList h)"
  have wait: "\<not> must_wait uc c h"
    and h': "h' = queue_ack c (log_remote uc c h)"
    using assms(3) by (simp_all add: remoteHandler_eq [OF inv assms(2)] split: if_splits)
  obtain ps qs where split: "?u = ps @ qs"
    "insert_scan (fastisreachableremote uc) c ?u = ps @ c # qs"
    "\<forall>x \<in> set ps. \<not> fastisreachableremote uc c x"
    "\<forall>q qs'. qs = q # qs' \<longrightarrow> fastisreachableremote uc c q"
    using insert_scan_split [of ?u "fastisreachableremote uc" c] by blast
  have "executionList h' = take (stable_index h) (executionList h) @ ps @ c # qs"
    using split(2) by (simp add: h' queue_ack_def Let_def log_remote_def log_insert_def)
  moreover have "\<forall>q \<in> set qs. \<not> (fastisreachableremote uc c q \<and>
      compareVectorClocks (call_vector_clock c) (call_vector_clock q) = 2)"
    using wait split(1) by (auto simp: must_wait_def)
  moreover have "qs \<noteq> [] \<longrightarrow> fastisreachableremote uc c (hd qs)"
    using split(4) by (cases qs) auto
  ultimately show ?thesis using split(1,3) by blast
qed

theorem remote_call_placed_causally_witness:
  "\<exists>ps qs h'. remoteHandler Set_uc True (demo_add 7 2 [0, 1, 0]) demo1 = Some (h', True) \<and>
     drop (stable_index demo1) (executionList demo1) = ps @ qs \<and>
     executionList h'
       = take (stable_index demo1) (executionList demo1) @ ps @ demo_add 7 2 [0, 1, 0] # qs"
proof -
  have ok: "call_ok (number_of_nodes demo1) (demo_add 7 2 [0, 1, 0])" using demo1_event by simp
  have "map_option snd (remoteHandler Set_uc True (demo_add 7 2 [0, 1, 0]) demo1) = Some True"
    by code_simp
  then obtain h' where "remoteHandler Set_uc True (demo_add 7 2 [0, 1, 0]) demo1 = Some (h', True)"
    by (cases "remoteHandler Set_uc True (demo_add 7 2 [0, 1, 0]) demo1") auto
  with remote_call_placed_causally [OF demo1_reachable ok this] show ?thesis by blast
qed

text \<open>
  C14. A local invocation at a reachable node either is refused by the use case, or is told to
  wait because an unstable call conflicts with it, or is executed at the end of the list with
  the node's clock, advanced by one at its own entry, as its stamp. In the first two
  cases the node is unchanged.
\<close>

theorem local_invocation_outcomes:
  assumes "node_reachable uc h" and "node_id c = hnode_id h"
  shows "\<exists>h' c' flag permiss.
     localHandler uc c h = Some (h', c', flag, permiss, stable_index h) \<and>
     permiss = locallyPermissibility uc (current_state h) (stable_state h) c \<and>
     flag = (permiss \<and> (\<forall>x \<in> set (drop (stable_index h) (executionList h)).
                            \<not> fastisreachablelocal uc c x)) \<and>
     (if flag
      then executionList h' = executionList h @ [c'] \<and>
           c' = c\<lparr>call_vector_clock := vector_clock h'\<rparr> \<and>
           vector_clock h' = (vector_clock h)[nat (hnode_id h - 1) :=
             vector_clock h ! nat (hnode_id h - 1) + 1] \<and>
           current_state h' = updateCurrentState uc c' (current_state h)
      else h' = h \<and> c' = c)"
  using localHandler_eq [OF reachable_inv [OF assms(1)] assms(2)] assms(2)
  by (simp add: locally_blocked_def log_append_def log_insert_def stamp_def)

theorem local_invocation_outcomes_witness:
  "\<exists>h' c' flag permiss.
     localHandler Set_uc (demo_add 9 1 []) demo1 = Some (h', c', flag, permiss, stable_index demo1)"
proof -
  have "node_id (demo_add 9 1 []) = hnode_id demo1" by code_simp
  from local_invocation_outcomes [OF demo1_reachable this] show ?thesis by blast
qed

text \<open>
  C15. Declaring a live node dead drops from the unstable suffix exactly the calls of that node
  nobody has acknowledged, executes everything still queued and leaves the queue empty; a
  second declaration changes nothing.
\<close>

theorem failed_node_forgotten:
  assumes "node_reachable uc h" and "1 \<le> dead" and "dead \<le> int (number_of_nodes h)"
  shows "\<exists>h'. markNodeFailed uc dead h = Some h' \<and> handler_inv uc h' \<and>
     prefix (stable_calls h) (stable_calls h') \<and>
     (if node_failed h ! nat (dead - 1) then h' = h
      else priorityQueue h' = [] \<and>
           mset (executionList h') = mset (stable_calls h) + mset (priorityQueue h)
             + mset (filter (\<lambda>c. \<not> (node_id c = dead \<and> acks h dead (call_id c) = 0))
                 (drop (stable_index h) (executionList h))))"
proof -
  note inv = reachable_inv [OF assms(1)]
  obtain h' where h': "markNodeFailed uc dead h = Some h'" "progress uc h h'"
    "if node_failed h ! nat (dead - 1) then h' = h
     else held h' = held (forget_orphans dead h) \<and> priorityQueue h' = []"
    using markNodeFailed_progress [OF inv assms(2,3)] by blast
  then show ?thesis
    by (auto simp: progress_def extends_def held_def forget_orphans_def Let_def orphan_def
        split: if_splits)
qed

theorem failed_node_forgotten_witness:
  "\<exists>h'. markNodeFailed Set_uc 2 demo2 = Some h' \<and> handler_inv Set_uc h' \<and>
     prefix (stable_calls demo2) (stable_calls h') \<and>
     (if node_failed demo2 ! nat (2 - 1) then h' = demo2
      else priorityQueue h' = [] \<and>
           mset (executionList h') = mset (stable_calls demo2) + mset (priorityQueue demo2)
             + mset (filter (\<lambda>c. \<not> (node_id c = 2 \<and> acks demo2 2 (call_id c) = 0))
                 (drop (stable_index demo2) (executionList demo2))))"
proof -
  have "(2::int) \<le> int (number_of_nodes demo2)" by code_simp
  then show ?thesis by (intro failed_node_forgotten [OF demo2_reachable]) simp_all
qed

section \<open>A group of nodes\<close>

text \<open>
  C1. Every step the workload and the connections allow is defined in every reachable group of
  nodes without failures, for calls the class declares valid: what the receiver does with a
  message, its validity check included, and what the main loop does return without an
  out-of-range access, all handlers keep their invariant, and no node rewrites its stable calls.
\<close>

theorem group_steps_safe:
  assumes "system_reachable uc valid n s" and "system_event_ok valid n s e"
  shows "\<exists>s'. system_step uc valid n e s = Some s' \<and> system_reachable uc valid n s' \<and>
    (\<forall>i. is_node n i \<longrightarrow> handler_inv uc (procs s' i) \<and>
       prefix (stable_calls (procs s i)) (stable_calls (procs s' i)))"
proof -
  note inv = system_reachable_inv [OF assms(1)]
  from system_step_inv [OF inv assms(2)] obtain s' where
    s': "system_step uc valid n e s = Some s'" "system_inv uc valid n s'" by blast
  have "prefix (stable_calls (procs s i)) (stable_calls (procs s' i))" if "is_node n i" for i
    using system_step_extends [OF inv assms(2) s'(1) that] .
  then show ?thesis
    using s' assms system_reachable.step system_inv_proc proc_handler_inv by blast
qed

theorem group_steps_safe_witness:
  "\<exists>s'. course_step 3 (Sys_receive 1 2)
     (the (course_run 3 [Sys_invoke 1 (group_call ''AddStudentForce'' 5 1 0)] (course_group 3))) = Some s'"
proof -
  have "course_reachable 3
      (the (course_run 3 [Sys_invoke 1 (group_call ''AddStudentForce'' 5 1 0)] (course_group 3)))"
    by (rule schedule_reachable) code_simp
  moreover have "system_event_ok Complex_checkValidcall 3 s (Sys_receive 1 2)"
    for s :: "ComplexState system"
    by (simp add: is_node_def)
  ultimately show ?thesis using group_steps_safe by blast
qed

text \<open>
  C2. Exactly-once delivery of the calls the class declares valid, the only ones the nodes of a
  reachable group invoke. A call is held once at the node that issued it, and at every other
  node it is either held (executed or queued) or still on the connection from its issuer,
  exactly once in all.
\<close>

theorem calls_reach_every_node_once:
  assumes "system_reachable uc valid n s" and "is_node n i" and "is_node n j" and "j \<noteq> i"
    and "c \<in># held (procs s j)" and "node_id c = j"
  shows "count (held (procs s j)) c = 1 \<and>
    count (held (procs s i)) c + count (calls_on s j i) c = 1"
proof -
  note inv = system_reachable_inv [OF assms(1)]
  have one: "count (held (procs s j)) c = 1"
    using delivered_once(2) [OF inv assms(3,2,4,6)] assms(5)
    by (metis count_greater_eq_one_iff le_antisym)
  show ?thesis using one delivered_once(1) [OF inv assms(3,2,4,6)] by simp
qed

theorem calls_reach_every_node_once_witness:
  "count (held (procs overtaken_group 3)) (hd (executionList (procs overtaken_group 1)))
     + count (calls_on overtaken_group 1 3) (hd (executionList (procs overtaken_group 1))) = 1"
proof -
  let ?c = "hd (executionList (procs overtaken_group 1))"
  have "?c \<in># held (procs overtaken_group 1) \<and> node_id ?c = 1"
    using overtaken_nodes(1) by (auto simp: map_eq_Cons_conv held_def call_key_def)
  then show ?thesis
    using calls_reach_every_node_once [OF overtaken_reachable, of 3 1 ?c] by (simp add: is_node_def)
qed

text \<open>
  When nothing is in flight, every node of a reachable group holds the same calls.
\<close>

theorem quiet_nodes_hold_same_calls:
  assumes "system_reachable uc valid n s" and "quiet n s" and "is_node n i" and "is_node n k"
  shows "held (procs s i) = held (procs s k)"
  using delivered_agree [OF system_reachable_inv [OF assms(1)] quiet_delivered [OF assms(2)]
      assms(3,4)] .

theorem quiet_nodes_hold_same_calls_witness:
  "held (procs diverged_group 1) = held (procs diverged_group 3)"
  by (rule quiet_nodes_hold_same_calls [OF diverged_reachable diverged_quiet])
    (simp_all add: is_node_def)

text \<open>
  C4. An entry of the acknowledgement table never exceeds what the quorum test asks for: the
  number of the other nodes for a node's own calls, one less for the calls of the others.
  So \<open>>=\<close> and \<open>==\<close> agree on the quorum of a group without failures.
\<close>

theorem acknowledgements_bounded:
  assumes "system_reachable uc valid n s" and "is_node n i" and "is_node n a"
  shows "0 \<le> acks (procs s i) a k \<and>
    acks (procs s i) a k \<le> int n - (if a = i then 1 else 2)"
  using acks_table_bound [OF system_reachable_inv [OF assms(1)] assms(2)] assms(3) by blast

theorem acknowledgements_bounded_witness:
  "acks (procs overtaken_group 1) 1 0 \<le> 2 \<and> acks (procs overtaken_group 3) 1 0 \<le> 1"
  using acknowledgements_bounded [OF overtaken_reachable, of 1 1 0]
    acknowledgements_bounded [OF overtaken_reachable, of 3 1 0] by (simp add: is_node_def)

text \<open>
  C3. Liveness of stabilisation. Once every call is executed everywhere and every
  acknowledgement is broadcast, the acknowledgements in flight can all be received; and
  whatever the order they are received in, when nothing is in flight every node that had one
  to receive has stabilised its whole list.
\<close>

theorem acknowledged_group_settles:
  assumes "system_reachable uc valid n s" and "all_executed n s"
    and "\<forall>i. is_node n i \<longrightarrow> \<not> inbox_empty n s i"
  shows "(\<exists>es s'. (\<forall>e \<in> set es. is_receive e) \<and> run_system uc valid n es s = Some s' \<and> quiet n s') \<and>
    (\<forall>es s'. (\<forall>e \<in> set es. is_receive e) \<longrightarrow> run_system uc valid n es s = Some s' \<longrightarrow> quiet n s' \<longrightarrow>
       (\<forall>i. is_node n i \<longrightarrow> fully_stable (procs s' i) \<and>
          executionList (procs s' i) = executionList (procs s i)))"
proof
  note inv = system_reachable_inv [OF assms(1)]
  from schedule_exists [OF inv assms(2)]
  show "\<exists>es s'. (\<forall>e \<in> set es. is_receive e) \<and> run_system uc valid n es s = Some s' \<and> quiet n s'"
    unfolding quiet_iff all_executed_def by blast
  show "\<forall>es s'. (\<forall>e \<in> set es. is_receive e) \<longrightarrow> run_system uc valid n es s = Some s' \<longrightarrow> quiet n s' \<longrightarrow>
       (\<forall>i. is_node n i \<longrightarrow> fully_stable (procs s' i) \<and>
          executionList (procs s' i) = executionList (procs s i))"
    using schedule_settles [OF inv assms(2)] assms(3) unfolding quiet_iff by blast
qed

theorem acknowledged_group_settles_witness:
  "\<exists>es s'. course_run 3 es settling_group = Some s' \<and> fully_stable (procs s' 3)"
proof -
  have n: "is_node 3 3" by (simp add: is_node_def)
  show ?thesis
    using acknowledged_group_settles [OF settling_reachable settling_executed] settling_inboxes n
    by meson
qed

text \<open>
  C5. Two nodes of a quiet group with empty queues settle in the same state when their whole
  execution lists are conflict ordered and those of their calls that no conflict orders
  commute on the stable state.
\<close>

theorem quiet_ordered_nodes_agree:
  assumes "system_reachable uc valid n s" and "quiet n s"
    and "\<forall>i. is_node n i \<longrightarrow> priorityQueue (procs s i) = []"
    and "commuting_calls uc (set (executionList (procs s i)))" and "is_node n i" and "is_node n k"
    and "conflict_ordered uc (executionList (procs s i))"
    and "conflict_ordered uc (executionList (procs s k))"
  shows "settled uc (procs s i) = settled uc (procs s k)"
proof -
  note inv = system_reachable_inv [OF assms(1)]
  have set: "settled uc (procs s j)
      = fold (updateStableState uc) (executionList (procs s j)) (initial_state uc)"
    if "is_node n j" for j
    using settled_whole_list [OF proc_handler_inv [OF system_inv_proc [OF inv that]]] .
  show ?thesis
    unfolding set [OF assms(5)] set [OF assms(6)]
    using assms by (intro quiet_ordered_agree [OF inv quiet_executed]) auto
qed

theorem quiet_ordered_nodes_agree_witness:
  "settled Complex_uc (procs crossed_group 1) = settled Complex_uc (procs crossed_group 2)"
proof (rule quiet_ordered_nodes_agree [OF crossed_reachable crossed_quiet])
  show "\<forall>i. is_node 3 i \<longrightarrow> priorityQueue (procs crossed_group i) = []"
    using crossed_queues by (simp add: three_nodes)
  have "\<forall>c \<in> set (executionList (procs crossed_group 1)). ctype c = ''AddDepartment''"
    "\<forall>c \<in> set (executionList (procs crossed_group 2)). ctype c = ''AddDepartment''"
    using crossed_lists by (auto simp: map_eq_Cons_conv)
  then show "commuting_calls Complex_uc (set (executionList (procs crossed_group 1)))"
    "conflict_ordered Complex_uc (executionList (procs crossed_group 1))"
    "conflict_ordered Complex_uc (executionList (procs crossed_group 2))"
    by (simp_all add: departments_commute departments_ordered)
qed (simp_all add: is_node_def)

text \<open>
  The side condition of the liveness property is needed. Node 3 of three receives the
  acknowledgement of a call before the call (they come on different connections): the call
  has all its acknowledgements when it is executed, but \<open>internalDownstreamExecute\<close> never
  runs the stabiliser. With nothing in flight the call is unstable at node 3, and stays so
  whatever the nodes do, until somebody invokes another call.
\<close>

theorem acknowledged_call_stays_unstable:
  assumes "course_run 3 es overtaken_group = Some s" and "\<forall>e \<in> set es. \<not> is_invoke e"
  shows "course_reachable 3 overtaken_group \<and> quiet 3 s \<and>
     map (\<lambda>i. map call_key (executionList (procs s i))) [1, 2, 3] = [[(1, 0)], [(1, 0)], [(1, 0)]] \<and>
     acks (procs s 3) 1 0 = 1 \<and> fully_stable (procs s 1) \<and> fully_stable (procs s 2) \<and>
     stable_calls (procs s 3) = []"
proof -
  have "s = overtaken_group" by (rule quiet_run [OF overtaken_quiet assms(2,1)])
  then show ?thesis using overtaken_reachable overtaken_quiet overtaken_acks overtaken_nodes by simp
qed

text \<open>
  The order condition of the agreement is needed. In a reachable quiet group of three nodes of
  the courseware database, where every call is stable everywhere, student 5 is in the stable
  state of node 3 and not in that of node 1, and this stays so until somebody invokes another
  call: node 1 adds the student after its own deletion has become stable there and places the
  concurrent deletion of node 2 after the addition, while node 3, where both deletions are
  stable, appends the addition.
\<close>

theorem quiet_stable_states_differ:
  assumes "course_run 3 es diverged_group = Some s" and "\<forall>e \<in> set es. \<not> is_invoke e"
  shows "course_reachable 3 diverged_group \<and> quiet 3 s \<and>
     map (\<lambda>i. priorityQueue (procs s i)) [1, 2, 3] = [[], [], []] \<and>
     fully_stable (procs s 1) \<and> fully_stable (procs s 2) \<and> fully_stable (procs s 3) \<and>
     students (stable_state (procs s 1)) 5 = None \<and>
     students (stable_state (procs s 3)) 5 \<noteq> None"
proof -
  have "s = diverged_group" by (rule quiet_run [OF diverged_quiet assms(2,1)])
  then show ?thesis using diverged_reachable diverged_quiet diverged_nodes by simp
qed

section \<open>A group of processes\<close>

text \<open>
  C6. The processes implement the handlers. In every reachable group of processes, whose
  connections carry the serialised bytes, every round of a main loop and every received message
  is defined, and is matched by a schedule of steps of a reachable group of handlers that
  exchange calls: handlers, acknowledgements sent and connections correspond before and after.
\<close>

theorem byte_steps_refine:
  assumes "byte_reachable uc valid n b" and "byte_event_ok n e"
  shows "\<exists>s es b' s'. system_reachable uc valid n s \<and> same_view valid n b s \<and>
    byte_step uc valid n e b = Some b' \<and> run_system uc valid n es s = Some s' \<and> same_view valid n b' s'"
proof -
  obtain s where s: "group_rel uc valid n b s" using byte_reachable_rel [OF assms(1)] by blast
  from byte_step_sim [OF s assms(2)] obtain b' es s' where
    "byte_step uc valid n e b = Some b'" "run_system uc valid n es s = Some s'"
    "group_rel uc valid n b' s'" by blast
  moreover from this s have "same_view valid n b s" "same_view valid n b' s'"
    by (simp_all add: group_rel_view)
  moreover have "system_reachable uc valid n s" using s by (simp add: group_rel_def)
  ultimately show ?thesis by blast
qed

theorem byte_steps_refine_witness:
  "\<exists>s es b' s'. course_reachable 3 s \<and> same_view Complex_checkValidcall 3 course_processes s \<and>
    byte_step Complex_uc Complex_checkValidcall 3 (Byte_main 1 True) course_processes = Some b' \<and>
    course_run 3 es s = Some s' \<and> same_view Complex_checkValidcall 3 b' s'"
  by (rule byte_steps_refine [OF course_processes_reachable]) (simp add: is_node_def)





text \<open>
  A process leaves its main loop as soon as the calls its own file announced are stable
  for it, with acknowledgements still to send. In this reachable group of three, nothing is
  in flight, process 3 has left, and in every continuation processes 1 and 2 stay in their
  loops with a call that never becomes stable.
\<close>

theorem finished_process_starves_others:
  assumes "run_bytes Complex_uc Complex_checkValidcall 3 es early_end = Some b"
  shows "byte_reachable Complex_uc Complex_checkValidcall 3 early_end \<and>
    map (process_view b) [1, 2, 3] = [([(1, 1)], 0), ([(1, 1)], 0), ([(1, 1)], 1)] \<and>
    map (\<lambda>i. main_running (machines b i)) [1, 2, 3] = [True, True, False]"
proof -
  have "process_view b i = process_view early_end i \<and>
      main_running (machines b i) = main_running (machines early_end i)" if "is_node 3 i" for i
    using halted_run [OF assms early_end_halted that] process_view_unflagged by blast
  from this [of 1] this [of 2] this [of 3] show ?thesis
    using early_end_reachable early_end_views by (simp add: is_node_def)
qed

theorem finished_process_starves_others_witness:
  "\<exists>b. run_bytes Complex_uc Complex_checkValidcall 3 [Byte_main 3 True, Byte_main 1 True] early_end = Some b \<and>
    process_view b 1 = ([(1, 1)], 0) \<and> main_running (machines b 1)"
proof -
  have "list_all (byte_event_ok 3) [Byte_main 3 True, Byte_main 1 True]" by (simp add: is_node_def)
  from run_bytes_defined [OF early_end_reachable this] obtain b where
    b: "run_bytes Complex_uc Complex_checkValidcall 3 [Byte_main 3 True, Byte_main 1 True] early_end = Some b"
    by blast
  from finished_process_starves_others [OF b] b show ?thesis by simp
qed

text \<open>
  Processes with nothing in flight hold the same calls.
\<close>

theorem drained_processes_hold_same_calls:
  assumes "byte_reachable uc valid n b" and "drained n b" and "is_node n i" and "is_node n k"
  shows "held (hdl (machines b i)) = held (hdl (machines b k))"
  by (rule drained_held [OF assms])

theorem drained_processes_hold_same_calls_witness:
  "held (hdl (machines course_end 1)) = held (hdl (machines course_end 3))"
  by (rule drained_processes_hold_same_calls [OF course_end_reachable course_end_drained])
    (simp_all add: is_node_def)

text \<open>
  What the launch script passes to a process is what \<open>main\<close> reads back: numbers in decimal, the
  hosts in order, the ports and the directory computed from them.
\<close>

theorem launch_arguments_read_back:
  assumes "int32 me" "int32 n" "int32 ops" "int32 wp" "int32 rate" "int32 dead"
    and "0 \<le> n" "int32 (baseport n + n)" "length hosts = nat n"
  shows "main_arguments (launch_line prog me n ops wp name rate dead hosts) =
    Some (Inr \<lparr>arg_id = me, numnodes = n, numop = ops, writep = wp, arg_usecase = name,
      oppersecond = rate, failed_arg = dead, arg_ports = main_ports n, arg_hosts = hosts,
      arg_loc = workload_dir n ops wp name\<rparr>) \<and> distinct (main_ports n)"
  using main_arguments_launch [OF assms] main_ports_distinct by blast

theorem launch_arguments_read_back_witness:
  "main_arguments (launch_line ''main'' 1 2 40 100 ''set'' 1000 0 [''a'', ''b'']) =
    Some (Inr \<lparr>arg_id = 1, numnodes = 2, numop = 40, writep = 100, arg_usecase = ''set'',
      oppersecond = 1000, failed_arg = 0, arg_ports = main_ports 2, arg_hosts = [''a'', ''b''],
      arg_loc = workload_dir 2 40 100 ''set''\<rparr>)"
  by (rule conjunct1 [OF launch_arguments_read_back]) (simp_all add: int32_def baseport_def)

section \<open>Ordering and convergence of the use cases\<close>

text \<open>
  C16. In every reachable node of the set, YCSB, movie, project, courseware and stack objects, no
  unstable call stands after one it must precede.
\<close>

theorem unstable_calls_ordered:
  "(node_reachable Set_uc hs \<longrightarrow> conflict_ordered Set_uc (unstable_calls hs)) \<and>
   (node_reachable Ycsb_uc hy \<longrightarrow> conflict_ordered Ycsb_uc (unstable_calls hy)) \<and>
   (node_reachable Movie_uc hm \<longrightarrow> conflict_ordered Movie_uc (unstable_calls hm)) \<and>
   (node_reachable Project_uc hp \<longrightarrow> conflict_ordered Project_uc (unstable_calls hp)) \<and>
   (node_reachable Courseware_uc hc \<longrightarrow> conflict_ordered Courseware_uc (unstable_calls hc)) \<and>
   (node_reachable Stack_uc hk \<longrightarrow> conflict_ordered Stack_uc (unstable_calls hk))"
  by (intro conjI impI)
    (blast intro: reachable_unstable_ordered set_uc.conflict_resolution_axioms
      ycsb_uc.conflict_resolution_axioms movie_uc.conflict_resolution_axioms
      project_uc.conflict_resolution_axioms courseware_uc.conflict_resolution_axioms
      stack_uc.conflict_resolution_axioms)+

theorem unstable_calls_ordered_witness:
  "conflict_ordered Set_uc (unstable_calls demo2)"
  using demo2_reachable by (rule unstable_calls_ordered [THEN conjunct1, rule_format])

text \<open>
  C17. Two replicas of a set, YCSB, movie, project or courseware object that agree on the stable
  state and hold the same unstable calls, whatever the order they were delivered in,
  settle in the same state.
\<close>

theorem replicas_converge:
  "(node_reachable Set_uc s1 \<longrightarrow> node_reachable Set_uc s2 \<longrightarrow> stable_state s1 = stable_state s2 \<longrightarrow>
      mset (unstable_calls s1) = mset (unstable_calls s2) \<longrightarrow> settled Set_uc s1 = settled Set_uc s2) \<and>
   (node_reachable Ycsb_uc y1 \<longrightarrow> node_reachable Ycsb_uc y2 \<longrightarrow> stable_state y1 = stable_state y2 \<longrightarrow>
      mset (unstable_calls y1) = mset (unstable_calls y2) \<longrightarrow> settled Ycsb_uc y1 = settled Ycsb_uc y2) \<and>
   (node_reachable Movie_uc m1 \<longrightarrow> node_reachable Movie_uc m2 \<longrightarrow> stable_state m1 = stable_state m2 \<longrightarrow>
      mset (unstable_calls m1) = mset (unstable_calls m2) \<longrightarrow>
      settled Movie_uc m1 = settled Movie_uc m2) \<and>
   (node_reachable Project_uc p1 \<longrightarrow> node_reachable Project_uc p2 \<longrightarrow>
      stable_state p1 = stable_state p2 \<longrightarrow> mset (unstable_calls p1) = mset (unstable_calls p2) \<longrightarrow>
      settled Project_uc p1 = settled Project_uc p2) \<and>
   (node_reachable Courseware_uc c1 \<longrightarrow> node_reachable Courseware_uc c2 \<longrightarrow>
      stable_state c1 = stable_state c2 \<longrightarrow> mset (unstable_calls c1) = mset (unstable_calls c2) \<longrightarrow>
      settled Courseware_uc c1 = settled Courseware_uc c2)"
  by (intro conjI impI)
    (blast intro: settled_agree set_uc.commuting_updates_axioms ycsb_uc.commuting_updates_axioms
      movie_uc.commuting_updates_axioms project_uc.commuting_updates_axioms
      courseware_uc.commuting_updates_axioms)+

theorem replicas_converge_witness:
  "settled Set_uc demo2 = settled Set_uc demo2b"
proof -
  have "stable_state demo2 = stable_state demo2b" by code_simp
  moreover have "mset (unstable_calls demo2) = mset (unstable_calls demo2b)"
  proof -
    have "unstable_calls demo2 = [demo_add 7 2 [0, 1, 0], demo_remove 7 1 [1, 0, 0]]"
      "unstable_calls demo2b = [demo_add 7 2 [0, 1, 0], demo_remove 7 1 [1, 0, 0]]"
      by code_simp+
    then show ?thesis by simp
  qed
  ultimately show ?thesis
    using replicas_converge [THEN conjunct1, rule_format, OF demo2_reachable demo2b_reachable] by blast
qed

text \<open>
  The settled state of a reachable project node: a project (an employee) is present exactly
  if it was present or is added by an unstable call and no unstable call deletes it, and the
  assignments are the stable ones and those of unstable calls. Deletions win.
\<close>

theorem project_settles:
  assumes "node_reachable Project_uc h"
  shows "(p \<in> project_ids (settled Project_uc h) \<longleftrightarrow>
       (p \<in> project_ids (stable_state h) \<or>
        (\<exists>c \<in> set (unstable_calls h). ctype c = ''AddProject'' \<and> value1 c = p)) \<and>
       \<not> (\<exists>c \<in> set (unstable_calls h). ctype c = ''DeleteProject'' \<and> value1 c = p)) \<and>
     (e \<in> employee_ids (settled Project_uc h) \<longleftrightarrow>
       (e \<in> employee_ids (stable_state h) \<or>
        (\<exists>c \<in> set (unstable_calls h). ctype c = ''AddEmployee'' \<and> value1 c = e)) \<and>
       \<not> (\<exists>c \<in> set (unstable_calls h). ctype c = ''DeleteEmployee'' \<and> value1 c = e)) \<and>
     ((e, p) \<in> works (settled Project_uc h) \<longleftrightarrow>
       (e, p) \<in> works (stable_state h) \<or>
       (\<exists>c \<in> set (unstable_calls h). ctype c = ''WorksOn'' \<and> value1 c = e \<and> value2 c = p))"
proof -
  have "conflict_ordered Project_uc (unstable_calls h)"
    using assms project_uc.conflict_resolution_axioms by (rule reachable_unstable_ordered)
  moreover have "settled Project_uc h
      = fold Project_updateStableState (unstable_calls h) (stable_state h)"
    by (simp add: settled_def unstable_calls_def)
  ultimately show ?thesis
    by (simp add: Project_fold_projects Project_fold_employees Project_fold_works)
qed

theorem project_settles_witness:
  "(7 \<in> project_ids (settled Project_uc demop)) = False"
proof -
  have "\<exists>c \<in> set (unstable_calls demop). ctype c = ''DeleteProject'' \<and> value1 c = 7"
    by code_simp
  then show ?thesis using project_settles [OF demop_reachable, of 7 0] by blast
qed

text \<open>
  The settled state of a reachable set node: an element is present exactly if it was stable
  or is added by an unstable call and no unstable call removes it, wherever in the
  execution list the removal was inserted.
\<close>

theorem set_settles:
  assumes "node_reachable Set_uc h"
  shows "set_elements (settled Set_uc h) =
     (set_elements (stable_state h)
        \<union> {value1 c | c. c \<in> set (unstable_calls h) \<and> ctype c = ''Add''})
     - {value1 c | c. c \<in> set (unstable_calls h) \<and> ctype c = ''Remove''}"
proof -
  have "conflict_ordered Set_uc (unstable_calls h)"
    using assms set_uc.conflict_resolution_axioms by (rule reachable_unstable_ordered)
  moreover have "settled Set_uc h = fold Set_updateStableState (unstable_calls h) (stable_state h)"
    by (simp add: settled_def unstable_calls_def)
  ultimately show ?thesis
    by (intro set_eqI) (simp add: Set_fold_elements, blast)
qed

theorem set_settles_witness:
  "set_elements (settled Set_uc demo2) =
     (set_elements (stable_state demo2)
        \<union> {value1 c | c. c \<in> set (unstable_calls demo2) \<and> ctype c = ''Add''})
     - {value1 c | c. c \<in> set (unstable_calls demo2) \<and> ctype c = ''Remove''}"
  by (rule set_settles [OF demo2_reachable])

text \<open>
  The current state is not the state of the execution list: it takes calls in the order
  they arrive and is never rebuilt, so a reachable set node shows the element 7 although
  executing its (ordered) list removes it.
\<close>

theorem current_state_can_differ:
  "\<exists>h. node_reachable Set_uc h \<and> 7 \<in> set_elements (current_state h) \<and>
     7 \<notin> set_elements (fold Set_updateStableState (executionList h) SetState_init)"
proof -
  have "7 \<in> set_elements (current_state demo2) \<and>
      7 \<notin> set_elements (fold Set_updateStableState (executionList demo2) SetState_init)"
    by code_simp
  with demo2_reachable show ?thesis by blast
qed

text \<open>
  Stack replicas need not converge: concurrent pushes are not ordered remotely, so two
  reachable nodes that hold the same unstable calls settle in different stacks.
\<close>

theorem stack_replicas_diverge:
  "\<exists>h1 h2. node_reachable Stack_uc h1 \<and> node_reachable Stack_uc h2 \<and>
     stable_state h1 = stable_state h2 \<and>
     mset (unstable_calls h1) = mset (unstable_calls h2) \<and>
     settled Stack_uc h1 \<noteq> settled Stack_uc h2"
proof -
  have "stable_state demok1 = stable_state demok2" by code_simp
  moreover have "mset (unstable_calls demok1) = mset (unstable_calls demok2)"
  proof -
    have "unstable_calls demok1 = [demo_push 10 1 [1, 0], demo_push 20 2 [0, 1]]"
      "unstable_calls demok2 = [demo_push 20 2 [0, 1], demo_push 10 1 [1, 0]]"
      by code_simp+
    then show ?thesis by simp
  qed
  moreover have "stack_elements (settled Stack_uc demok1) = [10, 20]"
    "stack_elements (settled Stack_uc demok2) = [20, 10]"
    by code_simp+
  then have "settled Stack_uc demok1 \<noteq> settled Stack_uc demok2" by auto
  ultimately show ?thesis using demok1_reachable demok2_reachable by blast
qed

text \<open>
  C18. In every reachable node of the complex courseware object, both in the stable and in every
  state its updates can lead to, two courses never share a name: the name index finds each
  course under its name.
\<close>

theorem course_names_unique:
  assumes "node_reachable Complex_uc h"
    and "courses (stable_state h) i = Some r" and "courses (stable_state h) j = Some q"
    and "course_name r = course_name q"
  shows "i = j \<and> course_name_index (stable_state h) (course_name r) = Some i"
proof -
  have "names_indexed (stable_state h)"
    by (rule reachable_stable_state [OF assms(1)]) (simp_all add: names_indexed_stable)
  then show ?thesis
    using assms(2,3,4) names_indexed_unique unfolding names_indexed_def by blast
qed

theorem course_names_unique_witness:
  "courses (stable_state democ) 3 = Some \<lparr>course_name = 9, semester = 1, c_department = 1\<rparr> \<and>
   course_name_index (stable_state democ) 9 = Some 3"
proof -
  have "courses (stable_state democ) 3 = Some \<lparr>course_name = 9, semester = 1, c_department = 1\<rparr>"
    by code_simp
  with course_names_unique [OF democ_reachable this this] show ?thesis by simp
qed



text \<open>
  The two update methods of the complex courseware object agree on every table; they differ
  at most in the name index, and only for a renaming of a course that does not exist, where
  the stable state's assignment is commented out.
\<close>

theorem complex_updates_agree_on_tables:
  "(let cur = Complex_updateCurrentState c s; stab = Complex_updateStableState c s in
     students cur = students stab \<and> instructors cur = instructors stab \<and>
     courses cur = courses stab \<and> departments cur = departments stab \<and>
     cc_enroll cur = cc_enroll stab \<and> teach cur = teach stab \<and>
     (\<forall>n. course_name_index cur n = course_name_index stab n \<or>
        ctype c = ''UpdateCourseNameForce'' \<and> courses s (value1 c) = None \<and> n = value2 c \<and>
        course_name_index cur n = Some (value1 c)))"
proof (cases "ctype c = ''UpdateCourseNameForce'' \<and> courses s (value1 c) = None")
  case False
  then have "Complex_updateCurrentState c s = Complex_updateStableState c s"
    by (rule Complex_updates_agree)
  then show ?thesis by (simp add: Let_def)
next
  case True
  then show ?thesis
    by (simp add: Complex_updateCurrentState_def Complex_updateStableState_def
        cc_rename_course_def cc_evict_name_self Let_def)
qed

theorem complex_updates_agree_on_tables_witness:
  "course_name_index (Complex_updateCurrentState
      (Call_new ''UpdateCourseNameForce'' 3 9 0 0 1 1 False False) ComplexState_init) 8
   = course_name_index (Complex_updateStableState
      (Call_new ''UpdateCourseNameForce'' 3 9 0 0 1 1 False False) ComplexState_init) 8"
  using complex_updates_agree_on_tables
    [of "Call_new ''UpdateCourseNameForce'' 3 9 0 0 1 1 False False" ComplexState_init]
  unfolding Let_def by (elim conjE allE [of _ 8] disjE) (simp_all add: Call_new_def)

text \<open>
  Enrolments never reach the current state of the courseware object, whose update method
  tests for \<open>Endroll\<close>; the stable state records them.
\<close>

theorem courseware_enrolment_lost_in_current:
  assumes "ctype c = ''Enroll''"
  shows "Courseware_updateCurrentState c s = s \<and>
     (value1 c, value2 c) \<in> enroll (Courseware_updateStableState c s) \<and>
     ((value1 c, value2 c) \<in> enroll s \<or>
        Courseware_updateCurrentState c s \<noteq> Courseware_updateStableState c s)"
proof -
  have "Courseware_updateCurrentState c s = s"
    "Courseware_updateStableState c s = s\<lparr>enroll := insert (value1 c, value2 c) (enroll s)\<rparr>"
    using assms by (simp_all add: Courseware_defs)
  moreover have "enroll s = insert (value1 c, value2 c) (enroll s)"
    if "s = s\<lparr>enroll := insert (value1 c, value2 c) (enroll s)\<rparr>"
    using arg_cong [OF that, of enroll] by simp
  ultimately show ?thesis by auto
qed

theorem courseware_enrolment_lost_in_current_witness:
  "Courseware_updateCurrentState (Call_new ''Enroll'' 4 5 0 0 1 1 False False) CoursewareState_init
     = CoursewareState_init"
  using courseware_enrolment_lost_in_current
    [of "Call_new ''Enroll'' 4 5 0 0 1 1 False False" CoursewareState_init]
  by (simp add: Call_new_def)

section \<open>Clocks and the waiting queue\<close>

text \<open>
  C20. On clocks of the same length the comparison of the use cases and the tests of ECRO are the
  three cases of the pointwise order: 0 is before or equal, 2 is strictly after, 1 is
  concurrent, happened-before is a 0 between different clocks, concurrent is a 1.
\<close>

theorem clock_tests_agree:
  assumes "length (call_vector_clock a) = n" and "length (call_vector_clock b) = n"
  shows "(compareVectorClocks (call_vector_clock a) (call_vector_clock b) = 0 \<longleftrightarrow>
        list_all2 (\<le>) (call_vector_clock a) (call_vector_clock b)) \<and>
     (compareVectorClocks (call_vector_clock a) (call_vector_clock b) = 2 \<longleftrightarrow>
        list_all2 (\<le>) (call_vector_clock b) (call_vector_clock a) \<and>
        call_vector_clock a \<noteq> call_vector_clock b) \<and>
     happenedBefore n a b = Some
       (compareVectorClocks (call_vector_clock a) (call_vector_clock b) = 0 \<and>
        call_vector_clock a \<noteq> call_vector_clock b) \<and>
     concurrent n a b = Some
       (compareVectorClocks (call_vector_clock a) (call_vector_clock b) = 1)"
proof -
  let ?v = "call_vector_clock a" and ?w = "call_vector_clock b"
  have "compareVectorClocks ?v ?w = (if vc_le ?v ?w then 0 else if vc_le ?w ?v then 2 else 1)"
    using assms by (simp add: compareVectorClocks_eq)
  moreover have "happenedBefore n a b = Some (vc_le ?v ?w \<and> ?v \<noteq> ?w)"
    "concurrent n a b = Some (\<not> vc_le ?w ?v \<and> \<not> vc_le ?v ?w)"
    using assms by (simp_all add: happenedBefore_def concurrent_def hb_scan_eq concurrent_scan_eq)
  moreover have "?v = ?w" if "vc_le ?v ?w" "vc_le ?w ?v" using that by (rule vc_le_antisym)
  moreover have "?v \<noteq> ?w" if "\<not> vc_le ?v ?w" using that vc_le_refl by metis
  ultimately show ?thesis unfolding vc_le_def [symmetric]
    by (cases "vc_le ?v ?w"; cases "vc_le ?w ?v") simp_all
qed

theorem clock_tests_agree_witness:
  "happenedBefore 2 (demo_add 1 1 [1, 0]) (demo_add 2 2 [1, 1]) = Some
     (compareVectorClocks [1, 0] [1, 1] = 0 \<and> [1, 0] \<noteq> [1, 1 :: int])"
  using clock_tests_agree [of "demo_add 1 1 [1, 0]" 2 "demo_add 2 2 [1, 1]"]
  by (simp add: demo_add_def)

text \<open>
  The order the waiting queue is built with is not asymmetric: two concurrent calls each
  compare below the other, so it is no strict weak order, which \<open>std::priority_queue\<close>
  requires. The queue still loses and duplicates nothing.
\<close>

theorem queue_order_not_asymmetric:
  "(\<exists>a b. queue_less a b \<and> queue_less b a) \<and>
   mset (pq_push queue_less c q) = add_mset c (mset q) \<and>
   (q \<noteq> [] \<longrightarrow> add_mset (hd q) (mset (pq_pop queue_less q)) = mset q)"
proof -
  have "queue_less (demo_add 1 1 [1, 0]) (demo_add 2 2 [0, 1]) \<and>
      queue_less (demo_add 2 2 [0, 1]) (demo_add 1 1 [1, 0])"
    by code_simp
  then have "\<exists>a b. queue_less a b \<and> queue_less b a" by (intro exI)
  then show ?thesis by (intro conjI impI pq.mset_push pq.mset_pop)
qed

theorem queue_order_not_asymmetric_witness:
  "add_mset (demo_add 1 1 []) (mset (pq_pop queue_less [demo_add 1 1 [], demo_add 2 2 []]))
     = mset [demo_add 1 1 [], demo_add 2 2 []]"
  using queue_order_not_asymmetric [of undefined "[demo_add 1 1 [], demo_add 2 2 []]"] by simp

section \<open>Messages\<close>

text \<open>
  C21. A call whose fields fit 32 bits, written into a large enough buffer and read back with its
  own number of nodes, is the same call with a fresh \<open>applied\<close> flag and the clock entries of
  the group; in particular a call with a clock of the group's size comes back as it was.
\<close>

theorem call_round_trip:
  assumes "wire_ok c" and "n \<le> length (call_vector_clock c)"
    and "length (call_body c) + 8 \<le> length buffer"
  shows "\<exists>buffer'. serialize_call c buffer = Some (buffer', length (call_body c) + 24) \<and>
     length buffer' = length buffer \<and>
     deserialize_call n buffer'
       = Some (c\<lparr>call_vector_clock := take n (call_vector_clock c), applied := False\<rparr>)"
proof -
  let ?len = "length (call_body c)"
  have ser: "serialize_call c buffer = Some
      (le_bytes 8 (int ?len) @ call_body c @ drop (8 + ?len) buffer, ?len + 24)"
    using assms(3) by (intro serialize_call_eq) simp
  moreover have "deserialize_call n (le_bytes 8 (int ?len) @ call_body c @ drop (8 + ?len) buffer)
      = Some (c\<lparr>call_vector_clock := take n (call_vector_clock c), applied := False\<rparr>)"
    using assms(1,2) by (intro deserialize_body) simp_all
  ultimately show ?thesis using serialize_call_length [OF ser] by blast
qed

theorem call_round_trip_witness:
  "\<exists>buffer'. serialize_call (demo_add (-7) 2 [0, 1, 0]) (replicate 256 0)
       = Some (buffer', length (call_body (demo_add (-7) 2 [0, 1, 0])) + 24) \<and>
     length buffer' = length (replicate 256 (0 :: 8 word)) \<and>
     deserialize_call 3 buffer' = Some ((demo_add (-7) 2 [0, 1, 0])
       \<lparr>call_vector_clock := take 3 (call_vector_clock (demo_add (-7) 2 [0, 1, 0])),
        applied := False\<rparr>)"
  by (rule call_round_trip)
    (simp_all add: wire_ok_def int32_def length_call_body demo_add_def Call_new_def)

text \<open>
  C22. A stream on which any number of messages has been sent splits back into exactly these
  messages, in order.
\<close>

theorem frames_round_trip:
  assumes "\<forall>m \<in> set ms. length m < 2 ^ 31"
  shows "receive_all (length ms) (concat (map send_frame ms)) = Some ms"
  using receive_all_frames [OF assms] by simp

theorem frames_round_trip_witness:
  "receive_all (length [[1, 0, 2], [], [0 :: 8 word]])
     (concat (map send_frame [[1, 0, 2], [], [0]])) = Some [[1, 0, 2], [], [0]]"
  by (rule frames_round_trip) simp

text \<open>
  C23. A serialised call, with whatever trails it in the message, is dispatched by the receiver as
  the event it stands for, a heartbeat, an acknowledgement or a delivery, and never as a
  control message, provided the class says that the call is valid. Only for a group of no
  nodes, where the thread divides by zero, it is undefined.
\<close>

theorem message_dispatched:
  assumes "serialize_call c buffer = Some (buffer', k)" and "k \<le> length buffer'"
    and "wire_ok c" and "length (call_vector_clock c) = number_of_nodes h" and "\<not> applied c"
    and "length (ctype c) + 4 * number_of_nodes h < 60000"
    and "ctype c = ''Heartbeat'' \<or> ctype c = ''Ack'' \<or> valid c = Some True"
  shows "receive_message uc valid remote now (take k buffer') (initcounter, h)
     = (if number_of_nodes h = 0 then None
        else map_option (\<lambda>h'. (initcounter, h'))
         (node_step uc (if ctype c = ''Heartbeat'' then Heartbeat (node_id c) now
                        else if ctype c = ''Ack'' then AckMsg c else Deliver c) h))"
proof -
  have "c\<lparr>call_vector_clock := take (number_of_nodes h) (call_vector_clock c),
      applied := False\<rparr> = c"
    using assms(4,5) by simp
  then show ?thesis
    using receive_serialized [OF assms(1-3), where valid = valid and h = h] assms(4,6,7)
    by (simp add: message_event_def length_call_body)
qed

theorem message_dispatched_witness:
  "\<exists>b k. serialize_call (demo_call ''AddStudentForce'' 5 1 2 0 2 1 [0, 1, 0]) (replicate 100 0) = Some (b, k) \<and>
     receive_message Complex_uc Complex_checkValidcall 2 0 (take k b)
         (2, setVars 1 3 1 100 0 (Handler_new Complex_uc))
       = map_option (\<lambda>h'. (2, h')) (node_step Complex_uc
           (Deliver (demo_call ''AddStudentForce'' 5 1 2 0 2 1 [0, 1, 0]))
           (setVars 1 3 1 100 0 (Handler_new Complex_uc)))"
proof -
  let ?c = "demo_call ''AddStudentForce'' 5 1 2 0 2 1 [0, 1, 0]"
  let ?h = "setVars 1 3 1 100 0 (Handler_new Complex_uc)"
  have len: "length (call_body ?c) = 60"
    by (simp add: length_call_body demo_call_def Call_new_def)
  then obtain b where b: "serialize_call ?c (replicate 100 0) = Some (b, 84)" "length b = 100"
    using serialize_call_eq [of ?c "replicate 100 0"] by simp
  have "number_of_nodes ?h = 3" by (simp add: setVars_def)
  then have "receive_message Complex_uc Complex_checkValidcall 2 0 (take 84 b) (2, ?h)
      = (if number_of_nodes ?h = 0 then None else map_option (\<lambda>h'. (2, h'))
          (node_step Complex_uc (if ctype ?c = ''Heartbeat''
          then Heartbeat (node_id ?c) 0 else if ctype ?c = ''Ack'' then AckMsg ?c
          else Deliver ?c) ?h))"
    using b by (intro message_dispatched [OF b(1)])
      (simp_all add: wire_ok_def int32_def demo_call_def Call_new_def Complex_checkValidcall_def)
  then show ?thesis using b(1) \<open>number_of_nodes ?h = 3\<close> by (auto simp: demo_call_def Call_new_def)
qed

text \<open>
  C24. An iteration of the main loop on a sound node neither overruns the 256-byte payload buffer
  nor leaves the node unsound, and when it executes a call of the workload the last message
  it broadcasts is that very call, stamped, in the wire format.
\<close>

theorem main_iteration_sound:
  assumes "main_inv uc m"
  shows "\<exists>m'. main_iteration uc due m = Some m' \<and> main_inv uc m' \<and>
     (executionList (hdl m') = executionList (hdl m) \<or>
      (\<exists>c ms r. executionList (hdl m') = executionList (hdl m) @ [c] \<and>
         outbox m' = outbox m @ ms
           @ [le_bytes 8 (int (length (call_body c))) @ call_body c @ r]))"
  by (rule main_iteration_inv [OF assms])

theorem main_iteration_sound_witness:
  "\<exists>m'. main_iteration Set_uc True (main_start demo0 [demo_remove 7 1 []]) = Some m' \<and>
     main_inv Set_uc m' \<and>
     (executionList (hdl m') = executionList demo0 \<or>
      (\<exists>c ms r. executionList (hdl m') = executionList demo0 @ [c] \<and>
         outbox m' = ms @ [le_bytes 8 (int (length (call_body c))) @ call_body c @ r]))"
proof -
  have "handler_inv Set_uc demo0" by (rule reachable_inv [OF demo0_reachable])
  then have "main_inv Set_uc (main_start demo0 [demo_remove 7 1 []])"
    by (simp add: main_inv_def main_start_def demo0_def setVars_def Handler_new_def demo_remove_def
        Call_new_def acks_columns_def)
  from main_iteration_sound [OF this, of True] show ?thesis by (simp add: main_start_def)
qed

section \<open>Workloads\<close>

text \<open>
  C25. The text a workload generator writes for a project node is read back by \<open>readBenchFile\<close>
  as exactly the calls it stands for, numbered in order, with the announced number of calls.
\<close>

theorem project_workload_round_trip:
  assumes "int32 n"
    and "\<forall>b \<in> set bs. op_in_range b \<and>
       (case b of Op_single k v \<Rightarrow> k \<in> {0, 1, 3, 4} | Op_pair k e p \<Rightarrow> k = 2 | Op_plain k \<Rightarrow> k = 5)"
  shows "Project_readBenchFile (Some (bench_text n bs)) expected node c cs
     = Inr (n, cs @ bench_calls projectToString node bs 0 c)"
proof -
  have "operands_agree projectToString Project_operands b" if "b \<in> set bs" for b
  proof (cases b)
    case (Op_single k v)
    then have "op_in_range b" "k \<in> {0, 1, 3, 4}" using assms(2) that by fastforce+
    then show ?thesis unfolding Op_single
      by (intro agree_single)
        (auto simp: Op_single Project_operands_def projectToString_def ProjectEnum_cast_def)
  next
    case (Op_pair k e p)
    then have "op_in_range b" "k = 2" using assms(2) that by fastforce+
    then show ?thesis unfolding Op_pair
      by (intro agree_pair)
        (auto simp: Op_pair Project_operands_def projectToString_def ProjectEnum_cast_def)
  next
    case (Op_plain k)
    then have "k = 5" using assms(2) that by fastforce
    then show ?thesis unfolding Op_plain
      by (intro agree_read) (simp add: projectToString_def ProjectEnum_cast_def)
  qed
  then show ?thesis
    unfolding Project_readBenchFile_def using assms by (intro read_bench_text) auto
qed

theorem project_workload_round_trip_witness:
  "Project_readBenchFile (Some (bench_text 6 [Op_single 0 1000, Op_pair 2 17 1000, Op_plain 5]))
     0 1 Call_default []
   = Inr (6, [] @ bench_calls projectToString 1
       [Op_single 0 1000, Op_pair 2 17 1000, Op_plain 5] 0 Call_default)"
  by (rule project_workload_round_trip) (simp_all add: int32_def)

text \<open>
  Whatever a workload file contains, if the project reader accepts it then it appends one
  call per line, every call carries the node's number, and the updates among them are
  numbered 1, 2, 3, ... in file order.
\<close>

theorem workload_calls_numbered:
  assumes "Project_readBenchFile (Some text_read) expected node c [] = Inr (n, cs)"
    and "file_lines text_read = header # lines"
  shows "length cs = length lines \<and> (\<forall>d \<in> set cs. node_id d = node \<and> \<not> stable d) \<and>
     map call_id (updates cs) = map int [1..<Suc (length (updates cs))]"
proof -
  have "bench_loop projectToString Project_operands node lines 0 c [] = Inr cs"
    using assms
    by (auto simp: Project_readBenchFile_def read_bench_def split: if_splits sum.splits)
  from bench_loop_numbers [OF keeps_header_Project this] show ?thesis
    by (auto simp del: upt_Suc)
qed

theorem workload_calls_numbered_witness:
  "\<exists>n cs. Project_readBenchFile (Some (bench_text 6 [Op_single 0 1000, Op_single 3 1])) 0 1
       Call_default [] = Inr (n, cs) \<and>
     length cs = 2 \<and> map call_id (updates cs) = map int [1..<Suc (length (updates cs))]"
proof -
  let ?bs = "[Op_single 0 1000, Op_single 3 1]"
  have read: "Project_readBenchFile (Some (bench_text 6 ?bs)) 0 1 Call_default []
      = Inr (6, bench_calls projectToString 1 ?bs 0 Call_default)"
    by code_simp
  have "file_lines (bench_text 6 ?bs) = ''#6'' # [''0 1000'', ''3 1'']" by code_simp
  from workload_calls_numbered [OF read this] read show ?thesis by (auto simp del: upt_Suc)
qed

text \<open>
  \<open>checkValidcall\<close> of the set, YCSB, movie, project, courseware and stack classes has no
  defined result on any call, because it never returns; the complex courseware class
  accepts exactly the names its enumeration prints.
\<close>

theorem validity_check_results:
  "Set_checkValidcall c = None \<and> Ycsb_checkValidcall c = None \<and> Movie_checkValidcall c = None \<and>
   Project_checkValidcall c = None \<and> Courseware_checkValidcall c = None \<and>
   Stack_checkValidcall c = None \<and>
   (Complex_checkValidcall c = Some True \<longleftrightarrow>
      (\<exists>n \<in> {0..19}. cc_coursewareToString n = ctype c))"
proof -
  let ?ns = "[0, 1, 2, 3, 4, 5, 6, 7, 8, 9, 10, 11, 12, 13, 14, 15, 16, 17, 18, 19 :: int]"
  have "{0..19} = set ?ns"
    by (rule set_eqI, simp only: atLeastAtMost_iff insert_iff empty_iff set_simps, presburger)
  then have "(\<exists>n \<in> {0..19}. cc_coursewareToString n = ctype c)
      \<longleftrightarrow> ctype c \<in> set (map cc_coursewareToString ?ns)"
    by (simp only: set_map image_iff) (simp only: eq_commute)
  also have "map cc_coursewareToString ?ns =
    [''AddStudentForce'', ''DeleteStudentCascade'', ''UpdateStudentIDCascade'',
     ''UpdateStudentOther'', ''AddInstructorForce'', ''DeleteInstructorCascade'',
     ''UpdateInstructorIDCascade'', ''UpdateInstructorOther'', ''AddCourseForce'',
     ''DeleteCourseCascade'', ''UpdateCourseIDCascade'', ''UpdateCourseNameForce'',
     ''UpdateCourseOther'', ''AddDepartment'', ''DeleteDepartmentNoAction'', ''Enroll'',
     ''WithdrawEnrollment'', ''Teach'', ''WithdrawTeaching'', ''Read'']"
    by code_simp
  finally show ?thesis
    unfolding Complex_checkValidcall_def option.inject eq_True set_simps
    by (simp only: Set_checkValidcall_def Ycsb_checkValidcall_def Movie_checkValidcall_def
        Project_checkValidcall_def Courseware_checkValidcall_def Stack_checkValidcall_def
        if_cancel simp_thms)
qed

section \<open>The ECRO baseline\<close>

text \<open>
  C28. On a reachable ECRO node a remote call is executed without reading a freed call or an
  index out of range, and the search for a cycle ends. The node then replays an order without
  repetition in which every call stands after all calls with an edge to it, and which misses
  no in-flight call when the graph has no cycle.
\<close>

theorem ecros_remote_step:
  assumes "ecros_reachable uc iter h" and "traversal iter" and "fresh p h"
    and "length (call_vector_clock c) = e_number_of_nodes h" and "\<not> stable c"
    and "ctype c \<noteq> ''Ack''"
  shows "\<exists>h' cs. exeRemote uc iter p c h = Some h' \<and> ecros_inv h' \<and>
     e_calls h' = p # e_calls h \<and> e_heap h' p = Some c \<and>
     distinct (e_topoOrder h') \<and> set (e_topoOrder h') \<subseteq> set (e_calls h') \<and>
     edges_respected (e_edges h') (e_topoOrder h') \<and>
     (acyclic (edge_rel (e_edges h')) \<longrightarrow> set (e_topoOrder h') = set (e_calls h')) \<and>
     deref (e_heap h') (e_topoOrder h') = Some cs \<and>
     e_obj h' = recomputeObj uc cs (e_obj h)"
proof -
  from exeRemote_returns [OF ecros_reachable_inv [OF assms(1,2)] assms(3,2,4-6), of uc]
  obtain h' cs where h': "exeRemote uc iter p c h = Some h'" "ecros_inv h'"
    "e_calls h' = p # e_calls h" "e_heap h' = (e_heap h)(p \<mapsto> c)"
    "e_topoOrder h' = topo_sort (e_calls h') (e_edges h')"
    "deref (e_heap h') (e_topoOrder h') = Some cs" "e_obj h' = recomputeObj uc cs (e_obj h)"
    by blast
  have ends: "efrom ` set (e_edges h') \<subseteq> set (e_calls h')" "eto ` set (e_edges h') \<subseteq> set (e_calls h')"
    using h'(2) by (auto simp: ecros_inv_def)
  have "set (e_topoOrder h') \<subseteq> set (e_calls h')"
    using topo_sort_spec(3) [of "e_calls h'" "e_edges h'"] ends(2) h'(5) by auto
  moreover have "set (e_topoOrder h') = set (e_calls h')" if "acyclic (edge_rel (e_edges h'))"
    using topo_sort_complete [OF that ends(1)] ends(2) h'(5) by auto
  ultimately show ?thesis
    using h' topo_sort_spec(1,2) by (intro exI [of _ h'] exI [of _ cs]) simp
qed

theorem ecros_remote_step_witness:
  "\<exists>h' cs. exeRemote eproject_uc (\<lambda>xs. xs) 5 del7 replica_a = Some h' \<and> ecros_inv h' \<and>
     e_calls h' = 5 # e_calls replica_a \<and> e_heap h' 5 = Some del7 \<and>
     distinct (e_topoOrder h') \<and> set (e_topoOrder h') \<subseteq> set (e_calls h') \<and>
     edges_respected (e_edges h') (e_topoOrder h') \<and>
     (acyclic (edge_rel (e_edges h')) \<longrightarrow> set (e_topoOrder h') = set (e_calls h')) \<and>
     deref (e_heap h') (e_topoOrder h') = Some cs \<and>
     e_obj h' = recomputeObj eproject_uc cs (e_obj replica_a)"
  by (rule ecros_remote_step [OF replica_a_reachable traversal_id]) code_simp+

text \<open>
  C29. After a remote call at a project node whose graph has no cycle, exactly the calls
  applied before and the in-flight ones are recorded as applied.
\<close>

theorem ecros_project_applies_calls:
  assumes "ecros_reachable eproject_uc iter h" and "traversal iter" and "fresh p h"
    and "length (call_vector_clock c) = e_number_of_nodes h" and "\<not> stable c"
    and "ctype c \<noteq> ''Ack''"
    and "exeRemote eproject_uc iter p c h = Some h'" and "acyclic (edge_rel (e_edges h'))"
  shows "eproject_applied (e_obj h') = eproject_applied (e_obj h) \<union>
     {(call_id d, node_id d) | d q. q \<in> set (e_calls h') \<and> e_heap h' q = Some d}"
proof -
  note inv = ecros_reachable_inv [OF assms(1,2)]
  from exeRemote_returns [OF inv assms(3,2,4-6), of eproject_uc] assms(7)
  obtain cs where h': "ecros_inv h'" "e_topoOrder h' = topo_sort (e_calls h') (e_edges h')"
    "deref (e_heap h') (e_topoOrder h') = Some cs"
    "e_obj h' = eproject_recomputeState cs (e_obj h)" by (auto simp: eproject_uc_def)
  have ends: "efrom ` set (e_edges h') \<subseteq> set (e_calls h')" "eto ` set (e_edges h') \<subseteq> set (e_calls h')"
    using h'(1) by (auto simp: ecros_inv_def)
  have order: "set (e_topoOrder h') = set (e_calls h')"
    using topo_sort_complete [OF assms(8) ends(1)] ends(2) h'(2) by auto
  have "set cs = {d. \<exists>q \<in> set (e_calls h'). e_heap h' q = Some d}"
    using deref_set [OF h'(3)] order by auto
  then show ?thesis
    unfolding h'(4) eproject_recomputeState_def eproject.replay_applied by auto
qed

theorem ecros_project_applies_calls_witness:
  "eproject_applied (e_obj replica_a) =
     eproject_applied (e_obj (run_local eproject_uc 1 (del7\<lparr>call_vector_clock := []\<rparr>)
       (ecros_start_node eproject_uc 1))) \<union>
     {(call_id d, node_id d) | d q. q \<in> set (e_calls replica_a) \<and> e_heap replica_a q = Some d}"
proof -
  let ?h = "run_local eproject_uc 1 (del7\<lparr>call_vector_clock := []\<rparr>) (ecros_start_node eproject_uc 1)"
  have reach: "ecros_reachable eproject_uc (\<lambda>xs. xs) ?h"
    by (intro run_local_reachable ecros_start_reachable) code_simp+
  have run: "exeRemote eproject_uc (\<lambda>xs. xs) 2 add7 ?h = Some replica_a"
    unfolding replica_a_def by (rule run_remote_reachable(2) [OF reach]) code_simp+
  have "e_edges replica_a = []" by code_simp
  then have ac: "acyclic (edge_rel (e_edges replica_a))" by (simp add: edge_rel_def acyclic_def)
  show ?thesis
    by (rule ecros_project_applies_calls [OF reach traversal_id _ _ _ _ run ac]) code_simp+
qed

text \<open>
  C30. The order the nodes replay in does not matter as far as the commutation tables allow:
  for each of the five objects, two orders of the same calls that respect the same
  precedences lead to the same state, when the calls without a precedence are declared
  sequentially commutative.
\<close>

theorem ecros_orders_agree:
  assumes "distinct (map (\<lambda>c. (call_id c, node_id c)) cs)" and "mset cs = mset ds"
    and "sorted_wrt (\<lambda>x y. \<not> before y x) cs" and "sorted_wrt (\<lambda>x y. \<not> before y x) ds"
  shows "(seq_or_before (seqCommutative estack_uc) before cs \<longrightarrow>
      recomputeObj estack_uc cs s1 = recomputeObj estack_uc ds s1) \<and>
    (seq_or_before (seqCommutative eset_uc) before cs \<longrightarrow>
      recomputeObj eset_uc cs s2 = recomputeObj eset_uc ds s2) \<and>
    (seq_or_before (seqCommutative eproject_uc) before cs \<longrightarrow>
      recomputeObj eproject_uc cs s3 = recomputeObj eproject_uc ds s3) \<and>
    (seq_or_before (seqCommutative emovie_uc) before cs \<longrightarrow>
      recomputeObj emovie_uc cs s4 = recomputeObj emovie_uc ds s4) \<and>
    (seq_or_before (seqCommutative ecourse_uc) before cs \<longrightarrow>
      recomputeObj ecourse_uc cs s5 = recomputeObj ecourse_uc ds s5)"
proof (intro conjI impI)
  show "recomputeObj estack_uc cs s1 = recomputeObj estack_uc ds s1"
    if "seq_or_before (seqCommutative estack_uc) before cs"
    using estack.replay_orders_agree [OF assms] that
    by (simp add: estack_uc_def estack_recomputeState_def)
  show "recomputeObj eset_uc cs s2 = recomputeObj eset_uc ds s2"
    if "seq_or_before (seqCommutative eset_uc) before cs"
    using eset.replay_orders_agree [OF assms] that
    by (simp add: eset_uc_def eset_recomputeState_def)
  show "recomputeObj eproject_uc cs s3 = recomputeObj eproject_uc ds s3"
    if "seq_or_before (seqCommutative eproject_uc) before cs"
    using eproject.replay_orders_agree [OF assms] that
    by (simp add: eproject_uc_def eproject_recomputeState_def)
  show "recomputeObj emovie_uc cs s4 = recomputeObj emovie_uc ds s4"
    if "seq_or_before (seqCommutative emovie_uc) before cs"
    using emovie.replay_orders_agree [OF assms] that
    by (simp add: emovie_uc_def emovie_recomputeState_def)
  show "recomputeObj ecourse_uc cs s5 = recomputeObj ecourse_uc ds s5"
    if "seq_or_before (seqCommutative ecourse_uc) before cs"
    using ecourse.replay_orders_agree [OF assms] that
    by (simp add: ecourse_uc_def ecourse_recomputeState_def)
qed

theorem ecros_orders_agree_witness:
  "recomputeObj eproject_uc
       [ecros_call ''AddEmployee'' 70 0 1 1 [], ecros_call ''AddProject'' 80 0 2 1 []] EProjectState_init
     = recomputeObj eproject_uc
       [ecros_call ''AddProject'' 80 0 2 1 [], ecros_call ''AddEmployee'' 70 0 1 1 []] EProjectState_init"
proof -
  let ?a = "ecros_call ''AddEmployee'' 70 0 1 1 []" and ?b = "ecros_call ''AddProject'' 80 0 2 1 []"
  have "distinct (map (\<lambda>c. (call_id c, node_id c)) [?a, ?b])"
    and "mset [?a, ?b] = mset [?b, ?a]"
    by (simp_all add: ecros_call_def Call_new_def add_mset_commute)
  moreover have "seq_or_before (seqCommutative eproject_uc) (\<lambda>c d. False) [?a, ?b]"
    by code_simp
  ultimately show ?thesis
    using ecros_orders_agree [of "[?a, ?b]" "[?b, ?a]" "\<lambda>c d. False"] by simp
qed

text \<open>
  An acknowledgement is counted, and when it is the last one required and the call is in
  flight, exactly that call is released: it leaves the graph with its edges and its memory is
  freed. In every other case the graph stays as it is.
\<close>

theorem ecros_ack_releases_call:
  assumes "ecros_reachable uc iter h" and "traversal iter" and "ctype ack = ''Ack''"
  shows "\<exists>h'. exeRemote uc iter q ack h = Some h' \<and> ecros_inv h' \<and>
     e_ackCounts h' = (e_ackCounts h)((node_id ack, call_id ack) :=
       e_ackCounts h (node_id ack, call_id ack) + 1) \<and>
     e_obj h' = e_obj h \<and> set (e_edges h') \<subseteq> set (e_edges h) \<and>
     (if ecros_required h ack \<le> e_ackCounts h (node_id ack, call_id ack) + 1 \<and>
         (\<exists>p \<in> set (e_calls h). \<exists>c. e_heap h p = Some c \<and> node_id c = node_id ack \<and>
            call_id c = call_id ack)
      then \<exists>p c. p \<in> set (e_calls h) \<and> e_heap h p = Some c \<and> node_id c = node_id ack \<and>
              call_id c = call_id ack \<and> e_calls h' = remove1 p (e_calls h) \<and>
              e_heap h' = (e_heap h)(p := None) \<and>
              e_waittobestable h' = e_waittobestable h + 1
      else e_calls h' = e_calls h \<and> e_waittobestable h' = e_waittobestable h)"
proof -
  have "exeRemote uc iter q ack h = handleAckAndMaybeStabilize iter ack h"
    using assms(3) by (simp add: exeRemote_def)
  then show ?thesis
    using handleAck_returns [OF ecros_reachable_inv [OF assms(1,2)] assms(2), of ack]
    by (elim exE conjE) (intro exI conjI, simp_all)
qed

theorem ecros_ack_releases_call_witness:
  "\<exists>h'. exeRemote eproject_uc (\<lambda>xs. xs) 0 (ecros_call ''Ack'' 7 0 2 1 []) replica_a = Some h' \<and>
     e_calls h' = [1]"
proof -
  let ?ack = "ecros_call ''Ack'' 7 0 2 1 []"
  from ecros_ack_releases_call [OF replica_a_reachable traversal_id, of ?ack 0]
  obtain h' where h': "exeRemote eproject_uc (\<lambda>xs. xs) 0 ?ack replica_a = Some h'"
    by (auto simp: ecros_call_def Call_new_def)
  moreover have "map_option e_calls (exeRemote eproject_uc (\<lambda>xs. xs) 0 ?ack replica_a) = Some [1]"
    by code_simp
  ultimately show ?thesis by simp
qed

text \<open>
  \<open>exeLocal\<close> indexes the clock with the 1-based node number: a reachable node executes a
  local call it does not skip exactly when its number is not that of the last node, where the
  increment is out of range.
\<close>

theorem ecros_local_defined:
  assumes "ecros_reachable uc iter h" and "traversal iter" and "fresh p h" and "\<not> stable c"
    and "\<not> shouldSkip uc c (e_obj h)"
    and "1 \<le> e_node_id h" and "e_node_id h \<le> int (e_number_of_nodes h)"
  shows "exeLocal uc iter p c h \<noteq> None \<longleftrightarrow> e_node_id h \<noteq> int (e_number_of_nodes h)"
proof
  note inv = ecros_reachable_inv [OF assms(1,2)]
  show "e_node_id h \<noteq> int (e_number_of_nodes h)" if "exeLocal uc iter p c h \<noteq> None"
    using exeLocal_last_node [OF inv _ assms(5)] that by metis
  show "exeLocal uc iter p c h \<noteq> None" if "e_node_id h \<noteq> int (e_number_of_nodes h)"
    using exeLocal_returns [OF inv assms(3,2) _ _ assms(4), of uc] assms(6,7) that by force
qed

theorem ecros_local_defined_witness:
  "exeLocal eproject_uc (\<lambda>xs. xs) 1 del7 (ecros_start_node eproject_uc 3) = None \<and>
   exeLocal eproject_uc (\<lambda>xs. xs) 1 del7 (ecros_start_node eproject_uc 2) \<noteq> None"
proof -
  have ok: "fresh 1 (ecros_start_node eproject_uc k)" "\<not> stable del7"
    "\<not> shouldSkip eproject_uc del7 (e_obj (ecros_start_node eproject_uc k))"
    "e_node_id (ecros_start_node eproject_uc k) = k"
    "e_number_of_nodes (ecros_start_node eproject_uc k) = 3" for k
    by (simp_all add: fresh_def ecros_start_node_def ecros_setVars_def Ecros_new_def del7_def
        ecros_call_def Call_new_def eproject_uc_def eproject_shouldSkip_def EProjectState_init_def)
  show ?thesis
    using ecros_local_defined [OF ecros_start_reachable traversal_id ok(1,2,3), of 3]
      ecros_local_defined [OF ecros_start_reachable traversal_id ok(1,2,3), of 2]
    by (simp add: ok(4,5) del: not_None_eq)
qed

text \<open>
  With an object whose conflict resolution never answers \<open>'T'\<close>, no arbitration edge is
  ever made and the search for cycles removes no precedence: every cycle the new edges close
  stays in the graph. None of the five objects can answer \<open>'T'\<close>.
\<close>

theorem ecros_cycles_never_broken:
  assumes "ecros_reachable uc iter h" and "traversal iter" and "\<forall>a b. resolution uc a b \<noteq> res_T"
    and "detectAndResolveCycles p h = Some h'"
  shows "edge_rel (e_edges h') = edge_rel (e_edges h) \<and> (\<forall>e \<in> set (e_edges h). etype e \<noteq> ''ao'')"
  using detectAndResolveCycles_keeps [OF assms(4)] ecros_no_arbitration [OF assms(1,2)] assms(3)
  by blast

theorem ecros_cycles_never_broken_witness:
  "\<exists>h'. detectAndResolveCycles 4 cyc_node = Some h' \<and> edge_rel (e_edges h') = edge_rel (e_edges cyc_node) \<and>
     (4, 1) \<in> edge_rel (e_edges cyc_node) \<and> (\<forall>a b. resolution estack_uc a b \<noteq> res_T)"
proof -
  have "map_option (\<lambda>h. True) (detectAndResolveCycles 4 cyc_node) = Some True" by code_simp
  then obtain h' where h': "detectAndResolveCycles 4 cyc_node = Some h'" by auto
  have "(4, 1) \<in> edge_rel (e_edges cyc_node)" unfolding edge_rel_def by code_simp
  with ecros_cycles_never_broken [OF cyc_node_reachable traversal_id _ h'] no_resolution_T h'
  show ?thesis by blast
qed

text \<open>
  C31. Cycles cost calls. After a remote call the node replays exactly the in-flight calls that are
  neither on a cycle of the graph nor behind one. So at a project node a call of which no path
  leads back to a cycle is recorded as applied, and one on or behind a cycle is not, unless it
  was before: as long as the cycle is there, which no search removes, no remote call changes
  that.
\<close>

theorem ecros_cycle_loses_call:
  assumes "ecros_reachable eproject_uc iter h" and "traversal iter" and "fresh p h"
    and "length (call_vector_clock c) = e_number_of_nodes h" and "\<not> stable c"
    and "ctype c \<noteq> ''Ack''" and "exeRemote eproject_uc iter p c h = Some h'"
  shows "set (e_topoOrder h') = {q \<in> set (e_calls h'). \<not> behind_cycle (e_edges h') q} \<and>
     eproject_applied (e_obj h') = eproject_applied (e_obj h) \<union>
       {(call_id d, node_id d) | d q. q \<in> set (e_calls h') \<and> \<not> behind_cycle (e_edges h') q \<and>
          e_heap h' q = Some d}"
proof -
  note inv = ecros_reachable_inv [OF assms(1,2)]
  from exeRemote_returns [OF inv assms(3,2,4-6), of eproject_uc] assms(7)
  obtain cs where h': "ecros_inv h'" "e_topoOrder h' = topo_sort (e_calls h') (e_edges h')"
    "deref (e_heap h') (e_topoOrder h') = Some cs"
    "e_obj h' = eproject_recomputeState cs (e_obj h)" by (auto simp: eproject_uc_def)
  have ends: "efrom ` set (e_edges h') \<subseteq> set (e_calls h')" "eto ` set (e_edges h') \<subseteq> set (e_calls h')"
    using h'(1) by (auto simp: ecros_inv_def)
  have order: "set (e_topoOrder h') = {q \<in> set (e_calls h'). \<not> behind_cycle (e_edges h') q}"
    unfolding h'(2) topo_sort_set [OF ends(1)] using ends(2) by blast
  have "set cs = {d. \<exists>q \<in> set (e_topoOrder h'). e_heap h' q = Some d}"
    using deref_set [OF h'(3)] by auto
  then have "eproject_applied (e_obj h') = eproject_applied (e_obj h) \<union>
       {(call_id d, node_id d) | d q. q \<in> set (e_calls h') \<and> \<not> behind_cycle (e_edges h') q \<and>
          e_heap h' q = Some d}"
    unfolding h'(4) eproject_recomputeState_def eproject.replay_applied order by auto
  with order show ?thesis by blast
qed

theorem ecros_cycle_loses_call_witness:
  "4 \<in> set (e_calls cyc_node) \<and> e_heap cyc_node 4 = Some cyc_d2 \<and> 4 \<notin> set (e_topoOrder cyc_node) \<and>
   9 \<in> eemployee_ids (e_obj cyc_node)"
proof -
  have "set (e_topoOrder cyc_node) = {q \<in> set (e_calls cyc_node). \<not> behind_cycle (e_edges cyc_node) q}"
    by (rule conjunct1 [OF ecros_cycle_loses_call [OF cyc_before_reachable traversal_id _ _ _ _ cyc_before_step]])
      code_simp+
  then show ?thesis using cyc_behind cyc_node_state by simp
qed

text \<open>
  Two reachable project nodes with the same two calls in flight, nothing else executed,
  end in different states: concurrent calls that do not commute get no edge, and each node
  keeps the effect of its own call, applied first.
\<close>

theorem ecros_replicas_diverge:
  "\<exists>h1 h2 cs. ecros_reachable eproject_uc (\<lambda>xs. xs) h1 \<and>
     ecros_reachable eproject_uc (\<lambda>xs. xs) h2 \<and>
     set (e_calls h1) = {1, 2} \<and> set (e_calls h2) = {1, 2} \<and>
     deref (e_heap h1) [1, 2] = Some cs \<and> deref (e_heap h2) [1, 2] = Some cs \<and>
     eemployee_ids (e_obj h1) \<noteq> eemployee_ids (e_obj h2)"
proof -
  have "eemployee_ids (e_obj replica_a) \<noteq> eemployee_ids (e_obj replica_b)"
    using replicas_disagree by blast
  then show ?thesis
    using replica_a_reachable replica_b_reachable replicas_same_calls
    by (intro exI [of _ replica_a] exI [of _ replica_b] exI [of _ "[del7, add7]"]) auto
qed

text \<open>
  What the replay after the next remote call does to a call applied at its invocation:
  the project, movie and courseware objects skip it, the stack pushes its value again.
\<close>

theorem ecros_local_call_replayed:
  "recomputeObj eproject_uc [c] (applyCall eproject_uc c s) = applyCall eproject_uc c s \<and>
   recomputeObj emovie_uc [c] (applyCall emovie_uc c t) = applyCall emovie_uc c t \<and>
   recomputeObj ecourse_uc [c] (applyCall ecourse_uc c u) = applyCall ecourse_uc c u \<and>
   estack_elements (recomputeObj estack_uc [ecros_call ''Push'' v 0 node k clock]
       (applyCall estack_uc (ecros_call ''Push'' v 0 node k clock) EStackState_init))
     = map int [0..<50] @ [v, v]"
  using eproject_local_once emovie_local_once ecourse_local_once
    estack_local_twice [of "ecros_call ''Push'' v 0 node k clock" EStackState_init]
  by (simp add: ecros_uc_defs EStackState_init_def ecros_call_def Call_new_def)

text \<open>
  The main loop of an ECRO node broadcasts every update of the workload, also one the handler
  skipped: such a call reaches the other nodes with the empty clock of its constructor, while
  its issuer does not keep it, so that the acknowledgements it causes release nothing.
\<close>

theorem ecros_skipped_call_broadcast:
  assumes "ecros_main_inv m" and "em_it m < length (em_calls m)"
    and "req = em_calls m ! em_it m" and "ctype req \<noteq> ''Read''"
    and "fresh p (em_hdl m)" and "traversal iter"
  shows "\<exists>m' c r ws. ecros_iteration uc iter p True m = Some m' \<and> ecros_main_inv m' \<and>
     em_it m' = em_it m + 1 \<and>
     em_outbox m' = em_outbox m @ ws @
       [le_bytes 8 (int (length (call_body c))) @ call_body c @ r] \<and>
     (if shouldSkip uc req (e_obj (em_hdl m))
      then c = req \<and> e_calls (em_hdl m') = e_calls (em_hdl m)
      else set (e_calls (em_hdl m')) = insert p (set (e_calls (em_hdl m))) \<and>
           e_heap (em_hdl m') p = Some c)"
  by (rule ecros_iteration_update [OF assms])

theorem ecros_skipped_call_broadcast_witness:
  "\<exists>m' r ws. ecros_iteration estack_uc (\<lambda>xs. xs) 1 True empty_stack_main = Some m' \<and>
     em_outbox m' = ws @ [le_bytes 8 (int (length (call_body (ecros_call ''Pop'' 0 0 1 1 (replicate 31 0)))))
       @ call_body (ecros_call ''Pop'' 0 0 1 1 (replicate 31 0)) @ r] \<and> e_calls (em_hdl m') = []"
proof -
  let ?m = empty_stack_main and ?req = "ecros_call ''Pop'' 0 0 1 1 (replicate 31 0)"
  have req: "?req = em_calls ?m ! em_it ?m" "em_it ?m < length (em_calls ?m)" "ctype ?req \<noteq> ''Read''"
    by (simp_all add: empty_stack_main_def ecros_main_start_def ecros_call_def Call_new_def)
  have "shouldSkip estack_uc ?req (e_obj (em_hdl ?m))" "e_calls (em_hdl ?m) = []" "em_outbox ?m = []"
    by (simp_all add: empty_stack_main_def ecros_main_start_def ecros_start_node_def
        ecros_setVars_def Ecros_new_def estack_uc_def estack_shouldSkip_def ecros_call_def Call_new_def)
  with ecros_skipped_call_broadcast [OF empty_stack_main_inv req(2,1,3) empty_stack_main_fresh
      traversal_id, of estack_uc]
  show ?thesis by (simp only: if_True append_Nil) blast
qed

section \<open>The CRDT baselines\<close>



text \<open>
  What arrives of a call the classes of the message-passing baseline send: the method and the
  two operands survive, but the node number becomes the third operand, the call number the
  fourth, and the stable flag the node number.
\<close>

theorem crdt_message_scrambled:
  assumes "wire_ok c" and "8 \<le> length (call_vector_clock c)" and "length hd8 = 8"
  shows "\<exists>c'. crdt_deserialize (hd8 @ crdt_body c @ r) = Some c' \<and> ctype c' = ctype c \<and>
    value1 c' = value1 c \<and> value2 c' = value2 c \<and> value3 c' = node_id c \<and>
    value4 c' = call_id c \<and> node_id c' = (if stable c then 1 else 0) \<and> call_id c' = 0"
  using crdt_deserialize_body [OF assms, of r] by (simp add: crdt_received_def)

theorem crdt_message_scrambled_witness:
  "crdt_deserialize (replicate 8 0 @ crdt_body (crdt_demo_call ''Update'' 5 2) @ [])
     \<noteq> Some (crdt_demo_call ''Update'' 5 2)"
proof -
  have "wire_ok (crdt_demo_call ''Update'' 5 2)"
    "8 \<le> length (call_vector_clock (crdt_demo_call ''Update'' 5 2))"
    "node_id (crdt_demo_call ''Update'' 5 2) = 2" "stable (crdt_demo_call ''Update'' 5 2) = False"
    by (simp_all add: crdt_demo_call_def Call_new_def wire_ok_def int32_def)
  with crdt_message_scrambled [OF this(1,2), of "replicate 8 0" "[]"] show ?thesis by auto
qed

text \<open>
  Nodes of the \<open>CRDT\<close> mode of the Hamsou handler that execute the same calls, in whatever order
  and whoever invokes them, have the same grow-only set; all their calls count as stable,
  and the stable state is still the initial one.
\<close>

theorem op_crdt_nodes_agree:
  assumes "1 \<le> i" "i \<le> int n" and "1 \<le> k" "k \<le> int n"
    and "\<forall>e \<in> set es. 1 \<le> node_id (event_call e) \<and> node_id (event_call e) \<le> int n"
    and "\<forall>e \<in> set es'. 1 \<le> node_id (event_call e) \<and> node_id (event_call e) \<le> int n"
    and "mset (map (call_vector_clock_update (\<lambda>_. [])) (map event_call es))
       = mset (map (call_vector_clock_update (\<lambda>_. [])) (map event_call es'))"
  shows "\<exists>h h'. crdt_mode_run Opgset es (crdt_mode_start Opgset s0 i n) = Some h \<and>
    crdt_mode_run Opgset es' (crdt_mode_start Opgset s0 k n) = Some h' \<and>
    current_state h = current_state h' \<and>
    waittobestable h = int (length es) \<and> stable_state h = op_initial Opgset"
proof -
  have num: "number_of_nodes (crdt_mode_start Opgset s0 a n) = n"
    "current_state (crdt_mode_start Opgset s0 a n) = s0"
    "executionList (crdt_mode_start Opgset s0 a n) = []" for a
    by (simp_all add: crdt_mode_start_def setVars_def Handler_new_def)
  from opgset.run_state [OF crdt_mode_start_inv [OF assms(1,2), of Opgset s0], of es] assms(5)
  obtain h where h: "crdt_mode_run Opgset es (crdt_mode_start Opgset s0 i n) = Some h"
    "crdt_mode_inv Opgset s0 h" "length (executionList h) = length es"
    "current_state h = fold (op_updateCurrentState Opgset) (map event_call es) s0"
    by (auto simp: num)
  from opgset.run_state [OF crdt_mode_start_inv [OF assms(3,4), of Opgset s0], of es'] assms(6)
  obtain h' where h': "crdt_mode_run Opgset es' (crdt_mode_start Opgset s0 k n) = Some h'"
    "current_state h' = fold (op_updateCurrentState Opgset) (map event_call es') s0"
    by (auto simp: num)
  show ?thesis
    using h h' opgset.fold_any_order [OF assms(7), of s0] by (simp add: crdt_mode_inv_def)
qed

theorem op_crdt_nodes_agree_witness:
  "\<exists>h h'. crdt_mode_run Opgset [Crdt_invoke (crdt_demo_call ''Update'' 5 1),
       Crdt_deliver (crdt_demo_call ''Update'' 3 2)] (crdt_mode_start Opgset (op_initial Opgset) 1 2)
       = Some h \<and>
     crdt_mode_run Opgset [Crdt_invoke (crdt_demo_call ''Update'' 3 2),
       Crdt_deliver (crdt_demo_call ''Update'' 5 1)] (crdt_mode_start Opgset (op_initial Opgset) 2 2)
       = Some h' \<and> current_state h = current_state h'"
  using op_crdt_nodes_agree [of 1 2 2 "[Crdt_invoke (crdt_demo_call ''Update'' 5 1),
       Crdt_deliver (crdt_demo_call ''Update'' 3 2)]" "[Crdt_invoke (crdt_demo_call ''Update'' 3 2),
       Crdt_deliver (crdt_demo_call ''Update'' 5 1)]" "op_initial Opgset"]
  by (simp add: crdt_demo_call_def Call_new_def add_mset_commute) blast

text \<open>
  C27. Reading the workload already advances the register's timestamp to the number of its updates,
  so no call of the node's own workload, and no remote one with a timestamp up to that
  number, ever writes the register.
\<close>

theorem op_register_never_written:
  assumes "Opreg_readBenchFile infile expected i c0 [] (op_initial Opreg) = Inr (k, s0, cs)"
    and "1 \<le> i" "i \<le> int n"
    and "\<forall>e \<in> set es. 1 \<le> node_id (event_call e) \<and> node_id (event_call e) \<le> int n \<and>
      (event_call e \<in> set cs \<or> value2 (event_call e) \<le> op_timestamp s0)"
  shows "\<exists>h. crdt_mode_run Opreg es (crdt_mode_start Opreg s0 i n) = Some h \<and>
    op_value (current_state h) = 0"
proof -
  have num: "number_of_nodes (crdt_mode_start Opreg s0 a n) = n"
    "current_state (crdt_mode_start Opreg s0 a n) = s0" for a
    by (simp_all add: crdt_mode_start_def setVars_def Handler_new_def)
  note t = Opreg_readBenchFile_times [OF assms(1)]
  have "\<forall>c \<in> set (map event_call es). ctype c \<noteq> ''Update'' \<or> value2 c \<le> op_timestamp s0"
    using assms(4) t by auto
  from opreg_fold_ignored [OF this]
    opreg.run_state [OF crdt_mode_start_inv [OF assms(2,3), of Opreg s0], of es] assms(4)
  obtain h where "crdt_mode_run Opreg es (crdt_mode_start Opreg s0 i n) = Some h"
    "current_state h = s0" by (auto simp: num)
  then show ?thesis using t by (simp add: Opreg_def)
qed

theorem op_register_never_written_witness:
  "\<exists>h s0 c. Opreg_readBenchFile (Some op_reg_file) 0 1 Call_default [] (op_initial Opreg)
       = Inr (2, s0, [c]) \<and> value1 c = 5 \<and>
     crdt_mode_run Opreg [Crdt_invoke c] (crdt_mode_start Opreg s0 1 2) = Some h \<and>
     op_value (current_state h) = 0"
proof -
  define c where "c = Call_default\<lparr>ctype := ''Update'', value1 := 5, value2 := 1, node_id := 1,
    call_id := 1\<rparr>"
  define s0 where "s0 = \<lparr>op_value = 0, op_timestamp = (1 :: int)\<rparr>"
  have r: "Opreg_readBenchFile (Some op_reg_file) 0 1 Call_default [] (op_initial Opreg)
      = Inr (2, s0, [c])"
    unfolding c_def s0_def by code_simp
  have "node_id c = 1" "value1 c = 5" by (simp_all add: c_def)
  then show ?thesis
    using op_register_never_written [OF r, of 2 "[Crdt_invoke c]"] r by auto
qed

section \<open>The SQL analysis\<close>

text \<open>
  C32. The update query: for every solver that meets its contract, the query returns, enters
  its result for the table in the state and leaves the other tables alone, and the result denotes
  the rows of the table with the target column replaced in exactly the rows that satisfy the
  condition.
\<close>

theorem sql_update_rows:
  assumes "cvc5 slv cell_of row_of rows_of holds formula bound"
    and "map_of st name = Some (A, a)" and "entry_wf slv (A, a)"
    and "map_of kwargs ''selectPredicate'' = Some [column, oper, constant]"
    and "stoi_or_string constant = Inr v" and "column_at A column i (sel_sort slv v)"
    and "select_kind oper = Some k" and "comparable k v"
    and "map_of kwargs ''updateRow'' = Some [target, update]"
    and "stoi_or_string update = Inr new" and "column_at A target j (sel_sort slv new)"
  shows "\<exists>c t. Query_Update slv st (name # names) kwargs = Inr c \<and> leaves c st name A t \<and>
    (\<forall>e. rows_of e t =
       (\<lambda>r. if compare_cells k (r ! i) (sel_cell v) then r[j := sel_cell new] else r) ` rows_of e a)"
  by (rule cvc5.Query_Update_returns [OF assms])

theorem sql_update_rows_witness:
  "\<exists>c t. Query_Update ref_solver demo_state [''address'']
       [(''selectPredicate'', [''ad_id'', ''eq'', ''7'']), (''updateRow'', [''ad_ctry'', ''USA''])] = Inr c \<and>
     leaves c demo_state ''address'' (Table_named ref_solver ''address'') t \<and>
     (\<forall>e. ref_rows e t =
       (\<lambda>r. if compare_cells EQUAL (r ! 0) (Cell_int 7) then r[4 := Cell_str ''USA''] else r)
         ` ref_rows e demo_address)"
proof -
  have v: "stoi_or_string ''7'' = Inr (Sel_int 7)" "stoi_or_string ''USA'' = Inr (Sel_str ''USA'')"
    by code_simp+
  have c: "column_at (Table_named ref_solver ''address'') ''ad_id'' 0 (sel_sort ref_solver (Sel_int 7))"
    "column_at (Table_named ref_solver ''address'') ''ad_ctry'' 4 (sel_sort ref_solver (Sel_str ''USA''))"
    by (simp_all add: column_at_def Table_named_def getColumnInfo_def Let_def eval_nat_numeral)
  have k: "select_kind ''eq'' = Some EQUAL" "comparable EQUAL (Sel_int 7)"
    by (simp_all add: select_kind_def comparable_def)
  show ?thesis
    using sql_update_rows [OF reference.cvc5_axioms demo_entries _ v(1) c(1) k _ v(2) c(2), of _ "[]"]
    by simp
qed

text \<open>
  C33. Inserting an address end to end: the query returns a state, and the formula the prover
  builds from the states before and after holds exactly in the interpretations in which every
  address has its zip code before and the new address has none. So the analysis reports the
  insertion as unsafe exactly because of missing zip codes.
\<close>

theorem address_insert_checked:
  assumes "cvc5 slv cell_of row_of rows_of holds formula bound"
    and "has_sort slv ''address'' a" and "has_sort slv ''zip-code'' z"
    and "map_of kwargs ''insertRow'' = Some strs"
    and "convertToRowData hundredths strs
      = Inr [Row_int k, Row_str line1, Row_str line2, Row_str zipcode, Row_str country]"
  shows "\<exists>c p. Query_Insert slv hundredths (address_state slv a z) [''address''] kwargs = Inr c \<and>
    InvariantSufficientCheck slv (address_state slv a z) (myState c) = Inr p \<and>
    (\<forall>e. holds e p \<longleftrightarrow> (\<lambda>r. r ! 3) ` rows_of e a \<subseteq> (\<lambda>r. r ! 0) ` rows_of e z \<and>
       Cell_str zipcode \<notin> (\<lambda>r. r ! 0) ` rows_of e z)"
  by (rule cvc5.insert_address_check [OF assms])

theorem address_insert_checked_witness:
  "\<exists>c p. Query_Insert ref_solver (\<lambda>_. None) demo_state [''address'']
       [(''insertRow'', [''7'', ''Main St'', [], ''Z1'', ''USA''])] = Inr c \<and>
     InvariantSufficientCheck ref_solver demo_state (myState c) = Inr p \<and>
     (\<forall>e. ref_holds e p \<longleftrightarrow> (\<lambda>r. r ! 3) ` ref_rows e demo_address \<subseteq> (\<lambda>r. r ! 0) ` ref_rows e demo_zip \<and>
       Cell_str ''Z1'' \<notin> (\<lambda>r. r ! 0) ` ref_rows e demo_zip)"
proof -
  have "convertToRowData (\<lambda>_. None) [''7'', ''Main St'', [], ''Z1'', ''USA'']
      = Inr [Row_int 7, Row_str ''Main St'', Row_str [], Row_str ''Z1'', Row_str ''USA'']"
    by code_simp
  from address_insert_checked [OF reference.cvc5_axioms demo_sorts _ this] show ?thesis
    by (simp add: demo_state_def)
qed

text \<open>
  The join of the addresses with their zip codes is not a join: the query succeeds and its
  result denotes every pair of an address and a zip code, related or not, because the second
  column is looked up at the sum of the two column indices.
\<close>

theorem address_join_unconditional:
  assumes "cvc5 slv cell_of row_of rows_of holds formula bound"
    and "has_sort slv ''address'' a" and "has_sort slv ''zip-code'' z"
    and "map_of kwargs ''joinColumns'' = Some [''ad_zc_code'', ''zc_code'']"
  shows "\<exists>c. Query_Product slv (address_state slv a z) [''address'', ''zip-code''] kwargs = Inr c \<and>
    (\<forall>e. rows_of e (resultOperation c) = {x @ y | x y. x \<in> rows_of e a \<and> y \<in> rows_of e z})"
  by (rule cvc5.address_join [OF assms])

theorem address_join_unconditional_witness:
  "\<exists>c. Query_Product ref_solver demo_state [''address'', ''zip-code'']
       [(''joinColumns'', [''ad_zc_code'', ''zc_code''])] = Inr c \<and>
     (\<forall>e. ref_rows e (resultOperation c)
       = {x @ y | x y. x \<in> ref_rows e demo_address \<and> y \<in> ref_rows e demo_zip})"
  using address_join_unconditional [OF reference.cvc5_axioms demo_sorts,
      of "[(''joinColumns'', [''ad_zc_code'', ''zc_code''])]"]
  by (simp add: demo_state_def)

text \<open>
  C34. The check that two sequences of queries end in the same state: when the second state has
  every table of the first, the formula is satisfied exactly by the interpretations in which some
  table differs.
\<close>

theorem state_check_exact:
  assumes "cvc5 slv cell_of row_of rows_of holds formula bound"
    and "state_wf slv st1" and "st1 \<noteq> []"
    and "\<forall>(key, A) \<in> set st1. \<exists>B. map_of st2 key = Some B \<and> getSort slv (snd B) = getSort slv (snd A)"
  shows "\<exists>p. StateCommutativeCheck slv st1 st2 = Inr p \<and> formula p \<and>
    (\<forall>e. holds e p \<longleftrightarrow>
       (\<exists>(key, A) \<in> set st1. rows_of e (snd A) \<noteq> rows_of e (snd (the (map_of st2 key)))))"
  by (rule cvc5.StateCommutativeCheck_returns [OF assms])

theorem state_check_exact_witness:
  "\<exists>p. StateCommutativeCheck ref_solver demo_state demo_state = Inr p \<and> is_formula p \<and>
    (\<forall>e. ref_holds e p \<longleftrightarrow>
       (\<exists>(key, A) \<in> set demo_state. ref_rows e (snd A) \<noteq> ref_rows e (snd (the (map_of demo_state key)))))"
proof (rule state_check_exact [OF reference.cvc5_axioms])
  show "state_wf ref_solver demo_state"
    unfolding demo_state_def by (rule address_state_wf [OF demo_sorts])
qed (simp_all add: demo_state_def address_state_def)

text \<open>
  The check of referential integrity between two states whose foreign keys relate columns of
  one sort: the formula is satisfied exactly by the interpretations with integrity in the first and
  without in the second state; when no foreign key of the first state has both of its columns,
  there is no formula, an element of an empty vector is read.
\<close>

theorem integrity_check_exact:
  assumes "cvc5 slv cell_of row_of rows_of holds formula bound"
    and "state_wf slv st1" and "keys_typed st1" and "state_wf slv st2" and "keys_typed st2"
  shows "(active_keys st1 \<noteq> [] \<and> active_keys st2 \<noteq> [] \<longrightarrow>
      (\<exists>p. PRCommutativeCheck slv st1 st2 = Inr p \<and> formula p \<and>
        (\<forall>e. holds e p \<longleftrightarrow> integrity (rows_of e) st1 \<and> \<not> integrity (rows_of e) st2))) \<and>
    (active_keys st1 = [] \<longrightarrow> PRCommutativeCheck slv st1 st2 = Inl Bad_access)"
  using cvc5.PRCommutativeCheck_returns [OF assms(1-3) _ assms(4,5)]
    cvc5.referentialIntegrity_undefined [OF assms(1,2)]
  by (simp add: PRCommutativeCheck_def)

theorem integrity_check_exact_witness:
  "(\<exists>p. PRCommutativeCheck ref_solver demo_state demo_state = Inr p \<and> is_formula p \<and>
      (\<forall>e. ref_holds e p \<longleftrightarrow>
        integrity (ref_rows e) demo_state \<and> \<not> integrity (ref_rows e) demo_state)) \<and>
   PRCommutativeCheck ref_solver [] demo_state = Inl Bad_access"
proof -
  have wf: "state_wf ref_solver demo_state" "keys_typed demo_state" "active_keys demo_state \<noteq> []"
    unfolding demo_state_def using address_state_wf [OF demo_sorts] address_keys_typed
    by (simp_all add: address_keys)
  have empty: "state_wf ref_solver []" "keys_typed []" "active_keys [] = []"
    by (simp_all add: state_wf_def keys_typed_def active_keys_def)
  from integrity_check_exact [OF reference.cvc5_axioms wf(1,2) wf(1,2)] wf(3)
    integrity_check_exact [OF reference.cvc5_axioms empty(1,2) wf(1,2)] empty(3)
  show ?thesis by blast
qed

text \<open>
  C35. Evaluating a query tree over well-typed tables in a state whose terms have the sorts of
  their tables, with the keys in order: whatever the visitor leaves, its result has the sort of its
  table, and the state is again well-typed and in order.
\<close>

theorem query_trees_typed:
  assumes "cvc5 slv cell_of row_of rows_of holds formula bound"
    and "node_typed slv n" and "state_typed slv (myState c)" and "keys_sorted (myState c)"
    and "accept slv new n c = Inr c'"
  shows "context_typed slv c'"
  by (rule cvc5.accept_typed [OF assms])

theorem query_trees_typed_witness:
  "\<exists>c'. accept ref_solver 0
      (DeleteNode (TableNode (Table_named ref_solver ''zip-code'') demo_zip ''zip-code'')
        [Row_str ''Z1'', Row_str ''Town'', Row_str []] ''zip-code'')
      (Context_new ref_solver demo_state) = Inr c' \<and> context_typed ref_solver c'"
proof -
  let ?Z = "Table_named ref_solver ''zip-code''" and ?row = "[Row_str ''Z1'', Row_str ''Town'', Row_str []]"
  let ?n = "DeleteNode (TableNode ?Z demo_zip ''zip-code'') ?row ''zip-code''"
  have z: "getSort ref_solver demo_zip = tableSort ?Z" using demo_sorts(2) by (simp add: has_sort_def)
  from reference.RA_Delete_returns [OF table_wf_named z, of ?row] obtain t where
    "RA_Delete ref_solver ?Z demo_zip ?row = Inr t"
    by (auto simp: Table_named_def getColumnInfo_def Let_def)
  then obtain c' where c': "accept ref_solver 0 ?n (Context_new ref_solver demo_state) = Inr c'"
    by (simp add: visit_Table_def visit_Delete_def setResult_state)
  have "state_typed ref_solver demo_state" "keys_sorted demo_state"
    using demo_sorts
    by (simp_all add: state_typed_def entry_typed_def demo_state_def address_state_def has_sort_def
        keys_sorted_def)
  then have "context_typed ref_solver c'"
    using query_trees_typed [OF reference.cvc5_axioms _ _ _ c'] z by (simp add: entry_typed_def)
  with c' show ?thesis by blast
qed

text \<open>
  Selecting on the projection and projecting the selection (\<open>Query1\<close> and \<open>Query2\<close>) give the
  same table and denote the same rows, namely the projections of the rows that satisfy the
  condition, when the condition is on a projected string column and the columns are listed in the
  order of the table.
\<close>

theorem project_select_agree:
  assumes "cvc5 slv cell_of row_of rows_of holds formula bound"
    and "map_of st name = Some (A, a)" and "entry_wf slv (A, a)"
    and "map_of kwargs ''projectColumns'' = Some cols" and "in_table_order A cols"
    and "map_of kwargs ''selectPredicate'' = Some [column, oper, constant]" and "column \<in> set cols"
    and "column_at A column i (getStringSort slv)"
    and "select_kind oper = Some k" and "k \<in> {EQUAL, DISTINCT}"
  shows "\<exists>c1 c2. Query1 slv st (name # names) kwargs = Inr c1 \<and>
    Query2 slv st (name # names) kwargs = Inr c2 \<and> resultTable c1 = resultTable c2 \<and>
    (\<forall>e. rows_of e (resultOperation c1) = rows_of e (resultOperation c2)) \<and>
    (\<forall>e. rows_of e (resultOperation c2) = (\<lambda>r. map (\<lambda>i. r ! i) (positions A cols)) `
       {r \<in> rows_of e a. compare_cells k (r ! i) (Cell_str constant)})"
  by (rule cvc5.Query12_agree [OF assms])

theorem project_select_agree_witness:
  "\<exists>c1 c2. Query1 ref_solver demo_state [''address'']
       [(''projectColumns'', [''ad_id'', ''ad_ctry'']), (''selectPredicate'', [''ad_ctry'', ''eq'', ''USA''])] = Inr c1 \<and>
     Query2 ref_solver demo_state [''address'']
       [(''projectColumns'', [''ad_id'', ''ad_ctry'']), (''selectPredicate'', [''ad_ctry'', ''eq'', ''USA''])] = Inr c2 \<and>
     (\<forall>e. ref_rows e (resultOperation c1) = ref_rows e (resultOperation c2)) \<and>
     (\<forall>e. ref_rows e (resultOperation c2)
       = (\<lambda>r. [r ! 0, r ! 4]) ` {r \<in> ref_rows e demo_address. r ! 4 = Cell_str ''USA''})"
proof -
  let ?A = "Table_named ref_solver ''address''" and ?cols = "[''ad_id'', ''ad_ctry'']"
  have o: "in_table_order ?A ?cols" and p: "positions ?A ?cols = [0, 4]"
    and c: "column_at ?A ''ad_ctry'' 4 (getStringSort ref_solver)"
    by (simp_all add: in_table_order_def positions_def column_at_def Table_named_def getColumnInfo_def
        Let_def eval_nat_numeral)
  have k: "select_kind ''eq'' = Some EQUAL" by (simp add: select_kind_def)
  from project_select_agree [OF reference.cvc5_axioms demo_entries _ o _ _ c k, of
      "[(''projectColumns'', ?cols), (''selectPredicate'', [''ad_ctry'', ''eq'', ''USA''])]" "''USA''" "[]"]
  show ?thesis by (auto simp: p)
qed

section \<open>The conflict graphs\<close>

text \<open>
  C36. The cycle search ends on every graph whose edges stay within its vertices, the number it
  returns is that of the cycles it prints, each of them is a closed walk of the graph, and it
  returns zero exactly for the graphs without a cycle.
\<close>

theorem cycle_search_exact:
  assumes "graph_wf g"
  shows "\<exists>s. run_findCycles (numVertices g) g = Some s \<and>
    findCycles (numVertices g) g = Some (length (printed s)) \<and>
    (\<forall>p \<in> set (printed s). is_cycle (edges g) p) \<and>
    (findCycles (numVertices g) g = Some 0 \<longleftrightarrow> acyclic (edges g))"
proof -
  from run_findCycles_returns [of "numVertices g" g] assms obtain s where
    s: "run_findCycles (numVertices g) g = Some s" "cycleNumber s = length (printed s)"
    "\<forall>p \<in> set (printed s). is_cycle (edges g) p"
    by (auto simp: graph_wf_def edges_def)
  from findCycles_wf [OF assms] show ?thesis using s by (auto simp: findCycles_def)
qed

theorem cycle_search_exact_witness:
  "\<exists>s. run_findCycles 4 demo_graph = Some s \<and> findCycles 4 demo_graph = Some (length (printed s)) \<and>
     (\<forall>p \<in> set (printed s). is_cycle (edges demo_graph) p) \<and>
     (findCycles 4 demo_graph = Some 0 \<longleftrightarrow> acyclic (edges demo_graph))"
  using cycle_search_exact [OF demo_graph_wf] by (simp add: demo_graph_simps)

text \<open>
  C37. Resolving a conflict between two different operations: one of its two edges is removed and
  the other kept, every other edge stays, and the result has no cycle exactly when one of the two
  choices has none.
\<close>

theorem conflict_resolved:
  assumes "graph_wf g" and "(v, x) \<in> edges g" and "(x, v) \<in> edges g" and "v \<noteq> x"
  shows "\<exists>g'. resolve_conflict v x g = Some g' \<and> graph_wf g' \<and>
    edges g' \<in> {edges g - {(v, x)}, edges g - {(x, v)}} \<and>
    (acyclic (edges g') \<longleftrightarrow> acyclic (edges g - {(v, x)}) \<or> acyclic (edges g - {(x, v)}))"
  by (rule resolve_conflict_returns [OF assms])

theorem conflict_resolved_witness:
  "\<exists>g'. resolve_conflict 2 3 demo_graph = Some g' \<and> graph_wf g' \<and>
    edges g' \<in> {edges demo_graph - {(2, 3)}, edges demo_graph - {(3, 2)}}"
proof -
  have "(2, 3) \<in> edges demo_graph" "(3, 2) \<in> edges demo_graph" "(2 :: nat) \<noteq> 3"
    by (simp_all add: demo_graph_edges)
  from conflict_resolved [OF demo_graph_wf this] show ?thesis by blast
qed

section \<open>Buffers and sockets\<close>

text \<open>
  C38. Any sequence of characters, 32-bit integers and strings without a zero, of at most
  858993459 bytes, added to a new buffer of any size, is read back as it is, in order, with nothing left
  over, and the content is the concatenation of the encodings: the buffer grows in time, the
  new size stays in the range of \<open>int\<close>, and no access leaves the array.
\<close>

theorem buffer_round_trip:
  assumes "\<forall>x \<in> set xs. item_ok x" and "n \<le> 2147483647"
    and "length (concat (map item_bytes xs)) \<le> 858993459"
  shows "\<exists>b b'. add_items xs (Buffer_new n) = Some b \<and> get_items xs b = Some (Inr (xs, b')) \<and>
    unread b' = [] \<and> getContent b = Some (concat (map item_bytes xs))"
  using items_round_trip [of xs n] assms by (simp add: INT_MAX_def SAFE_SIZE_def)

theorem buffer_round_trip_witness:
  "\<exists>b b'. add_items [Item_int (-5), Item_string ''ack'', Item_char CHR ''x''] (Buffer_new 0) = Some b \<and>
    get_items [Item_int (-5), Item_string ''ack'', Item_char CHR ''x''] b
      = Some (Inr ([Item_int (-5), Item_string ''ack'', Item_char CHR ''x''], b')) \<and>
    unread b' = [] \<and> getContent b = Some [251, 255, 255, 255, 97, 99, 107, 0, 120]"
proof -
  let ?xs = "[Item_int (-5), Item_string ''ack'', Item_char CHR ''x'']"
  have "\<forall>x \<in> set ?xs. item_ok x" by (simp add: int32_def)
  moreover have "concat (map item_bytes ?xs) = [251, 255, 255, 255, 97, 99, 107, 0, 120]" by code_simp
  ultimately show ?thesis using buffer_round_trip [of ?xs 0] by simp
qed

text \<open>
  C39. Receiving refines the framing: however the network cuts the stream into packets, if a
  frame is pending then \<open>receive\<close> hands exactly its message to the handler and leaves exactly the
  rest of the stream; if the stream ends inside a frame, the connection loses its socket and the
  handler is not called.
\<close>

theorem connection_receives_frame:
  assumes "stream_socket os sent pending" and "csocket c = Some w" and "os_readable os w = (True, w1)"
  shows "(\<forall>msg rest. receive_frame (pending w) = Got msg rest \<longrightarrow>
      (\<exists>w'. conn_receive os handle (c, st)
          = map_option (\<lambda>st'. (c\<lparr>csocket := Some w'\<rparr>, st')) (handle msg st) \<and>
        pending w' = rest \<and> sent w' = sent w)) \<and>
    (receive_frame (pending w) = Closed \<longrightarrow>
      conn_receive os handle (c, st) = Some (c\<lparr>csocket := None\<rparr>, st))"
  using stream_socket.conn_receive_frame [OF assms, of _ _ handle st]
    stream_socket.conn_receive_closed [OF assms, of handle st] by simp

theorem connection_receives_frame_witness:
  "\<exists>w'. conn_receive packet_os (\<lambda>msg st. Some (msg # st)) (demo_connection (Some demo_split), [])
      = Some (demo_connection (Some w'), [[104, 105, 0]]) \<and> concat (packets w') = [52]"
proof -
  have f: "receive_frame (concat (packets demo_split)) = Got [104, 105, 0] [52]" by code_simp
  have "csocket (demo_connection (Some demo_split)) = Some demo_split"
    "os_readable packet_os demo_split = (True, demo_split)"
    by (simp_all add: demo_connection_def packet_os_def demo_split_def)
  from connection_receives_frame [OF packet.stream_socket_axioms this, of "\<lambda>msg st. Some (msg # st)" "[]"] f
  show ?thesis
    by (auto simp: demo_connection_def)
qed

text \<open>
  C40. A broadcast always returns. To the stream of every other node that is not marked as
  failed and has a socket it appends a prefix of the frame of the message, the whole frame unless
  an exception was swallowed on the way; all other connections are left alone.
\<close>

theorem broadcast_appends_prefixes:
  assumes "stream_socket os sent pending"
    and "\<forall>(r, c) \<in> set l. r \<noteq> i \<longrightarrow> 1 \<le> r \<and> r \<le> int (length dead)"
  shows "\<exists>l'. broadcast os i dead msg l = Some l' \<and>
    list_all2 (\<lambda>(r, c) (r', c'). r' = r \<and>
      (if r = i \<or> dead ! nat (r - 1) \<or> csocket c = None then c' = c
       else \<exists>w w' k. csocket c = Some w \<and> c' = c\<lparr>csocket := Some w'\<rparr> \<and>
         sent w' = sent w @ take k (send_frame msg) \<and> pending w' = pending w \<and>
         (fst (conn_send os msg c) \<longleftrightarrow> k \<ge> length (send_frame msg)))) l l'"
  by (rule stream_socket.broadcast_result [OF assms])

theorem broadcast_appends_prefixes_witness:
  "\<exists>c'. broadcast packet_os 2 [False, False] [97, 98] [(1, demo_connection (Some demo_split)), (2, demo_connection None)]
      = Some [(1, c'), (2, demo_connection None)] \<and>
    (\<exists>w'. csocket c' = Some w' \<and> prefix (outgoing w') (send_frame [97, 98]))"
proof -
  have "\<forall>(r, c) \<in> set [(1, demo_connection (Some demo_split)), (2, demo_connection None)].
      r \<noteq> 2 \<longrightarrow> 1 \<le> r \<and> r \<le> int (length [False, False])" by simp
  from broadcast_appends_prefixes [OF packet.stream_socket_axioms this, of "[97, 98]"] show ?thesis
    by (auto simp: list_all2_Cons1 demo_connection_def demo_split_def take_is_prefix simp del: broadcast.simps)
qed

text \<open>
  The shutdown hook has no defined behaviour: once the communication layer has opened its
  connections, whatever the sockets do, closing all of them calls a method of the connection to
  the node itself, whose socket is null.
\<close>

theorem shutdown_undefined:
  assumes "connectAll os connect_to i hosts [] = Some l" and "1 \<le> i" and "i \<le> int hosts"
  shows "shutdownHandler os os_close i dead l = None"
  by (rule shutdownHandler_undefined [OF assms])

theorem shutdown_undefined_witness:
  "\<exists>l. connectAll packet_os (\<lambda>_. Some demo_split) 2 2 [] = Some l \<and>
     shutdownHandler packet_os (\<lambda>w. w) 2 [False, False] l = None"
proof -
  obtain l where l: "connectAll packet_os (\<lambda>_. Some demo_split) 2 2 [] = Some l"
    using demo_connects by blast
  from shutdown_undefined [OF l] l show ?thesis by simp
qed

end
